(* ===== verification/Contracts.thy ===== *)
theory Contracts
  imports Ordin_Prelude
begin

text \<open>
  The interfaces several components share, each stated once as a locale and interpreted on
  the model's own definitions in the theory of the component that provides it:
  a choice of the dominant value under a rank (decisions, risks), an operation system whose
  single steps keep an invariant (journal, registry, budget ledger), a host clock
  that is fenced against going backwards (registry, budget ledger), and a transaction
  that commits or restores its store (budget stores).
\<close>

section \<open>Picking the dominant value\<close>

locale rank_choice =
  fixes rank :: "'d \<Rightarrow> nat"
    and pick :: "'d \<Rightarrow> 'd \<Rightarrow> 'd"
  assumes rank_inj: "rank x = rank y \<Longrightarrow> x = y"
    and pick_rank: "pick cur cand = (if rank cur < rank cand then cand else cur)"
begin

lemma rank_pick: "rank (pick x y) = max (rank x) (rank y)"
  by (simp add: pick_rank)

lemma pick_comm: "pick x y = pick y x"
  by (rule rank_inj) (simp add: rank_pick max.commute)

lemma pick_assoc: "pick (pick x y) z = pick x (pick y z)"
  by (rule rank_inj) (simp add: rank_pick max.assoc)

lemma pick_idem: "pick x x = x"
  by (simp add: pick_rank)

lemma rank_fold: "rank (foldl pick x ys) = Max (insert (rank x) (rank ` set ys))"
proof (induction ys arbitrary: x)
  case Nil
  then show ?case by simp
next
  case (Cons y ys)
  have "rank (foldl pick x (y # ys)) = Max (insert (max (rank x) (rank y)) (rank ` set ys))"
    using Cons.IH [of "pick x y"] by (simp add: rank_pick)
  also have "\<dots> = Max (insert (rank x) (rank ` set (y # ys)))"
    by (cases "set ys = {}") (simp_all add: max.assoc)
  finally show ?case .
qed

lemma fold_upper:
  assumes "y \<in> insert x (set ys)"
  shows "rank y \<le> rank (foldl pick x ys)"
  using assms by (auto simp: rank_fold intro!: Max_ge)

lemma fold_mem: "foldl pick x ys \<in> insert x (set ys)"
proof (induction ys arbitrary: x)
  case Nil
  then show ?case by simp
next
  case (Cons y ys)
  have "pick x y = x \<or> pick x y = y"
    by (simp add: pick_rank)
  with Cons.IH [of "pick x y"] show ?case by auto
qed

lemma fold_order_irrelevant:
  assumes "insert x (set xs) = insert y (set ys)"
  shows "foldl pick x xs = foldl pick y ys"
proof (rule rank_inj)
  have "insert (rank x) (rank ` set xs) = insert (rank y) (rank ` set ys)"
    using assms by (metis image_insert)
  then show "rank (foldl pick x xs) = rank (foldl pick y ys)"
    by (simp add: rank_fold)
qed

end

text \<open>So picking is an idempotent, commutative and associative operation.\<close>

sublocale rank_choice \<subseteq> dominance: semilattice pick
  by unfold_locales (rule pick_assoc pick_comm pick_idem)+

section \<open>Operation systems\<close>

text \<open>
  One operation is a total step on the state (a refused operation returns the state its
  refusal leaves behind), so a run is a fold, and an invariant of single steps is one of runs.
\<close>

locale op_system =
  fixes step :: "'s \<Rightarrow> 'op \<Rightarrow> 's"
    and inv :: "'s \<Rightarrow> bool"
  assumes step_inv: "inv s \<Longrightarrow> inv (step s a)"
begin

lemma run_inv: "inv s \<Longrightarrow> inv (foldl step s ops)"
  by (induction ops arbitrary: s) (auto intro: step_inv)

lemma run_prefix_inv:
  assumes "inv s"
  shows "inv (foldl step s (take n ops))"
  using assms by (rule run_inv)

end

text \<open>An operation system with a measure that no step decreases.\<close>

locale monotone_system = op_system step inv
  for step :: "'s \<Rightarrow> 'op \<Rightarrow> 's" and inv :: "'s \<Rightarrow> bool" +
  fixes level :: "'s \<Rightarrow> 'v::order"
  assumes step_level: "inv s \<Longrightarrow> level s \<le> level (step s a)"
begin

lemma run_level: "inv s \<Longrightarrow> level s \<le> level (foldl step s ops)"
proof (induction ops arbitrary: s)
  case Nil
  then show ?case by simp
next
  case (Cons a ops)
  have "level s \<le> level (step s a)"
    using Cons.prems by (rule step_level)
  also have "\<dots> \<le> level (foldl step (step s a) ops)"
    using Cons.prems by (intro Cons.IH step_inv)
  finally show ?case by simp
qed

end

section \<open>Host clocks\<close>

text \<open>
  \<open>tick s t\<close> is what a component does with the reading \<open>t\<close> of the host clock: it refuses a
  reading and keeps its state, or accepts it and remembers it.
\<close>

locale fenced_clock =
  fixes tick :: "'s \<Rightarrow> 't::linorder \<Rightarrow> 's \<times> 't res"
    and last_seen :: "'s \<Rightarrow> 't"
  assumes tick_ok: "tick s t = (s', Inr u) \<Longrightarrow> u = t \<and> last_seen s \<le> t \<and> last_seen s' = t"
    and tick_refused: "tick s t = (s', Inl e) \<Longrightarrow> s' = s"
begin

definition advance :: "'s \<Rightarrow> 't \<Rightarrow> 's" where
  "advance s t = fst (tick s t)"

lemma advance_mono: "last_seen s \<le> last_seen (advance s t)"
proof (cases "tick s t")
  case (Pair s' r)
  then show ?thesis
    by (cases r) (auto simp: advance_def dest: tick_ok tick_refused)
qed

lemma readings_mono: "last_seen s \<le> last_seen (foldl advance s ts)"
proof (induction ts arbitrary: s)
  case Nil
  then show ?case by simp
next
  case (Cons t ts)
  show ?case
    using advance_mono [of s t] Cons.IH [of "advance s t"] by simp
qed

text \<open>A reading accepted after others is at least every one of them that was accepted.\<close>

lemma no_backward_acceptance:
  assumes first: "tick s t = (s1, Inr u)"
    and later: "tick (foldl advance s1 ts) t' = (s2, Inr u')"
  shows "t \<le> t'"
proof -
  have "t = last_seen s1"
    using tick_ok [OF first] by simp
  also have "\<dots> \<le> last_seen (foldl advance s1 ts)"
    by (rule readings_mono)
  also have "\<dots> \<le> t'"
    using tick_ok [OF later] by simp
  finally show ?thesis .
qed

end

section \<open>Transactions\<close>

text \<open>
  \<open>trans body\<close> runs \<open>body\<close> on a state that contains a store. A result and a business rejection
  (\<^const>\<open>BudgetError\<close>) keep what the body did to the store (\<open>commit\<close>), any other exception
  puts the store back (\<open>roll\<close>) and may be reported as another one; a store whose history is not
  usable refuses to run the body at all.
\<close>

locale transactional =
  fixes trans :: "('s \<Rightarrow> 's \<times> 'a res) \<Rightarrow> 's \<Rightarrow> 's \<times> 'a res"
    and usable :: "'s \<Rightarrow> bool"
    and commit :: "'s \<Rightarrow> 's \<Rightarrow> 's"
    and roll :: "'s \<Rightarrow> 's \<Rightarrow> 's"
    and report :: "py_error \<Rightarrow> py_error"
  assumes commits: "usable s \<Longrightarrow> body s = (s', Inr x) \<Longrightarrow> trans body s = (commit s s', Inr x)"
    and commits_rejection:
      "usable s \<Longrightarrow> body s = (s', Inl (BudgetError c)) \<Longrightarrow>
         trans body s = (commit s s', Inl (BudgetError c))"
    and restores:
      "usable s \<Longrightarrow> body s = (s', Inl e) \<Longrightarrow> (\<And>c. e \<noteq> BudgetError c) \<Longrightarrow>
         trans body s = (roll s s', Inl (report e))"
    and refuses: "\<not> usable s \<Longrightarrow> \<exists>e. trans body s = (roll s s, Inl e)"
begin

text \<open>The state after a transaction is a commit or a rollback of a state the body leaves.\<close>

lemma trans_cases:
  obtains (committed) "usable s" "fst (trans body s) = commit s (fst (body s))"
      "snd (trans body s) = snd (body s)"
  | (rolled) "usable s" "fst (trans body s) = roll s (fst (body s))"
      "\<exists>e. snd (trans body s) = Inl e"
  | (refused) "\<not> usable s" "fst (trans body s) = roll s s" "\<exists>e. snd (trans body s) = Inl e"
proof (cases "usable s")
  case True
  obtain s' r where body: "body s = (s', r)" by (cases "body s")
  show ?thesis
  proof (cases r)
    case (Inr x)
    with commits [OF True] body committed [OF True] show ?thesis by simp
  next
    case (Inl e)
    show ?thesis
    proof (cases "\<exists>c. e = BudgetError c")
      case True
      with commits_rejection [OF \<open>usable s\<close>] body Inl committed [OF \<open>usable s\<close>] show ?thesis by auto
    next
      case False
      with restores [OF True] body Inl rolled [OF True] show ?thesis by auto
    qed
  qed
next
  case False
  obtain e where "trans body s = (roll s s, Inl e)"
    using refuses [OF False, of body] by blast
  with refused [OF False] show ?thesis by simp
qed

lemma trans_inv:
  assumes "P (fst (body s))" "P s"
    and "\<And>s'. P s' \<Longrightarrow> P (commit s s')" "\<And>s'. P s' \<Longrightarrow> P (roll s s')"
  shows "P (fst (trans body s))"
  using assms by (cases rule: trans_cases [of s body]) simp_all

lemma trans_Inr:
  assumes "trans body s = (s', Inr x)"
  shows "usable s \<and> (\<exists>s1. body s = (s1, Inr x) \<and> s' = commit s s1)"
  using assms by (cases rule: trans_cases [of s body]) (cases "body s"; auto)+

end

end
