(* ===== verification/Policy.thy ===== *)
theory Policy
  imports Contracts
begin

text \<open>
  \<^verbatim>\<open>ordin/policy.py\<close> and \<^verbatim>\<open>ordin/enforcement.py\<close>: review decisions, the two orders on them
  (dominance of review labels, strictness of enforcement), thresholds and exit codes.
\<close>

section \<open>Decisions\<close>

datatype decision = Allow | Warn | Ask | Block

text \<open>The keys of the code's tables, in their order there.\<close>

fun decision_text :: "decision \<Rightarrow> string" where
  "decision_text Allow = ''allow''"
| "decision_text Warn = ''warn''"
| "decision_text Ask = ''ask''"
| "decision_text Block = ''block''"

fun review_precedence :: "decision \<Rightarrow> nat" where
  "review_precedence Allow = 0"
| "review_precedence Ask = 1"
| "review_precedence Warn = 2"
| "review_precedence Block = 3"

fun enforcement_order :: "decision \<Rightarrow> nat" where
  "enforcement_order Allow = 0"
| "enforcement_order Warn = 1"
| "enforcement_order Ask = 2"
| "enforcement_order Block = 3"

fun decision_exit_codes :: "decision \<Rightarrow> int" where
  "decision_exit_codes Allow = 0"
| "decision_exit_codes Warn = 10"
| "decision_exit_codes Ask = 20"
| "decision_exit_codes Block = 30"

definition fail_thresholds :: "decision list" where
  "fail_thresholds = [Warn, Ask, Block]"

definition decision_of_text :: "string \<Rightarrow> decision option" where
  "decision_of_text s =
     (if s = ''allow'' then Some Allow
      else if s = ''warn'' then Some Warn
      else if s = ''ask'' then Some Ask
      else if s = ''block'' then Some Block
      else None)"

definition validate_decision :: "string \<Rightarrow> decision res" where
  "validate_decision s =
     (case decision_of_text s of
        None \<Rightarrow> Inl (ValueError ''unsupported review decision'')
      | Some d \<Rightarrow> Inr d)"

definition validate_fail_threshold :: "string \<Rightarrow> decision res" where
  "validate_fail_threshold s =
     (case decision_of_text s of
        None \<Rightarrow> Inl (ValueError ''unsupported enforcement threshold'')
      | Some d \<Rightarrow>
          if d \<in> set fail_thresholds then Inr d
          else Inl (ValueError ''unsupported enforcement threshold''))"

text \<open>A value with a decision is its text or a review object that carries one.\<close>

datatype decision_source = DecisionText string | DecisionObject string

fun decision_value :: "decision_source \<Rightarrow> decision res" where
  "decision_value (DecisionText s) = validate_decision s"
| "decision_value (DecisionObject s) = validate_decision s"

definition stronger_decision :: "decision \<Rightarrow> decision \<Rightarrow> decision" where
  "stronger_decision current candidate =
     (if review_precedence candidate > review_precedence current then candidate else current)"

text \<open>The dominant decision by strictness of enforcement, as \<^verbatim>\<open>action_policy.py\<close> merges with it.\<close>

definition stricter_decision :: "decision \<Rightarrow> decision \<Rightarrow> decision" where
  "stricter_decision current candidate =
     (if enforcement_order candidate > enforcement_order current then candidate else current)"

definition allowed :: "decision \<Rightarrow> bool" where
  "allowed d = (d = Allow)"

definition warned :: "decision \<Rightarrow> bool" where
  "warned d = (d = Warn)"

definition uncertain :: "decision \<Rightarrow> bool" where
  "uncertain d = (d = Ask)"

definition blocked :: "decision \<Rightarrow> bool" where
  "blocked d = (d = Block)"

definition requires_attention :: "decision \<Rightarrow> bool" where
  "requires_attention d = (d \<noteq> Allow)"

section \<open>Caller-controlled execution policy\<close>

record review_policy =
  fail_on :: decision

definition review_policy_init :: "string \<Rightarrow> review_policy res" where
  "review_policy_init s =
     res_bind (validate_fail_threshold s) (\<lambda>d. Inr \<lparr>fail_on = d\<rparr>)"

definition policy_allows :: "review_policy \<Rightarrow> decision_source \<Rightarrow> bool res" where
  "policy_allows p v =
     res_bind (decision_value v)
       (\<lambda>d. Inr (enforcement_order d < enforcement_order (fail_on p)))"

definition requires_escalation :: "review_policy \<Rightarrow> decision_source \<Rightarrow> bool res" where
  "requires_escalation p v =
     res_bind (decision_value v) (\<lambda>d.
       if d \<noteq> Block
       then res_bind (policy_allows p (DecisionText (decision_text d))) (\<lambda>b. Inr (\<not> b))
       else Inr False)"

definition exit_code :: "review_policy \<Rightarrow> decision_source \<Rightarrow> int res" where
  "exit_code p v =
     res_bind (decision_value v) (\<lambda>d.
       res_bind (policy_allows p (DecisionText (decision_text d))) (\<lambda>b.
         Inr (if b then 0 else decision_exit_codes d)))"

definition enforcement_exit_code :: "string \<Rightarrow> bool \<Rightarrow> string option \<Rightarrow> int res" where
  "enforcement_exit_code d enforce fail =
     res_bind (validate_decision d) (\<lambda>validated.
       if \<not> enforce \<and> fail = None then Inr 0
       else
         res_bind
           (validate_fail_threshold
              (case fail of None \<Rightarrow> ''warn'' | Some f \<Rightarrow> if f = [] then ''warn'' else f))
           (\<lambda>threshold. res_bind (review_policy_init (decision_text threshold))
              (\<lambda>p. exit_code p (DecisionText (decision_text validated)))))"

section \<open>Lemmas\<close>

interpretation review_choice: rank_choice review_precedence stronger_decision
proof
  show "review_precedence x = review_precedence y \<Longrightarrow> x = y" for x y
    by (cases x; cases y) auto
  show "stronger_decision cur cand =
      (if review_precedence cur < review_precedence cand then cand else cur)" for cur cand
    by (simp add: stronger_decision_def)
qed

interpretation enforcement_choice: rank_choice enforcement_order stricter_decision
proof
  show "enforcement_order x = enforcement_order y \<Longrightarrow> x = y" for x y
    by (cases x; cases y) auto
  show "stricter_decision cur cand =
      (if enforcement_order cur < enforcement_order cand then cand else cur)" for cur cand
    by (simp add: stricter_decision_def)
qed

text \<open>Decisions ordered by strictness of enforcement, so that merging is a maximum.\<close>

instantiation decision :: linorder
begin

definition less_eq_decision :: "decision \<Rightarrow> decision \<Rightarrow> bool" where
  "less_eq_decision x y = (enforcement_order x \<le> enforcement_order y)"

definition less_decision :: "decision \<Rightarrow> decision \<Rightarrow> bool" where
  "less_decision x y = (enforcement_order x < enforcement_order y)"

instance
  by standard (auto simp: less_eq_decision_def less_decision_def intro: enforcement_choice.rank_inj)

end

lemma stricter_decision_max: "stricter_decision x y = max x y"
  by (auto simp: stricter_decision_def max_def less_eq_decision_def intro: enforcement_choice.rank_inj)

lemma merge_is_Max: "foldl stricter_decision d ds = Max (insert d (set ds))"
proof -
  have "foldl max d ds = Max (insert d (set ds))" for d :: decision and ds
  proof (induction ds arbitrary: d)
    case (Cons x ds)
    then show ?case
      by (cases "ds = []") (simp_all add: max.assoc max.left_commute max.commute)
  qed simp
  moreover have "stricter_decision = max"
    by (intro ext) (rule stricter_decision_max)
  ultimately show ?thesis by simp
qed

lemma decision_of_text_text [simp]: "decision_of_text (decision_text d) = Some d"
  by (cases d) (simp_all add: decision_of_text_def)

lemma decision_of_text_Some: "decision_of_text s = Some d \<longleftrightarrow> s = decision_text d"
  by (cases d) (auto simp: decision_of_text_def split: if_splits)

lemma decision_text_inject [simp]: "decision_text x = decision_text y \<longleftrightarrow> x = y"
  by (cases x; cases y) simp_all

lemma validate_decision_text [simp]: "validate_decision (decision_text d) = Inr d"
  by (simp add: validate_decision_def)

lemma validate_decision_Inr: "validate_decision s = Inr d \<longleftrightarrow> s = decision_text d"
  by (auto simp: validate_decision_def decision_of_text_Some split: option.splits)

lemma validate_fail_threshold_text [simp]:
  "validate_fail_threshold (decision_text d) =
     (if d = Allow then Inl (ValueError ''unsupported enforcement threshold'') else Inr d)"
  by (cases d) (simp_all add: validate_fail_threshold_def fail_thresholds_def
      del: decision_text.simps)

lemma validate_fail_threshold_Inr:
  "validate_fail_threshold s = Inr d \<longleftrightarrow> d \<noteq> Allow \<and> s = decision_text d"
proof
  assume ok: "validate_fail_threshold s = Inr d"
  then obtain d' where "s = decision_text d'" "d' \<in> set fail_thresholds" "d' = d"
    by (auto simp: validate_fail_threshold_def decision_of_text_Some
        split: option.splits if_splits)
  then show "d \<noteq> Allow \<and> s = decision_text d"
    by (auto simp: fail_thresholds_def)
qed auto

lemma exit_code_text:
  "exit_code p (DecisionText (decision_text d)) =
     Inr (if enforcement_order d < enforcement_order (fail_on p) then 0 else decision_exit_codes d)"
  by (simp add: exit_code_def policy_allows_def)

section \<open>Properties\<close>

text \<open>The exit code of an enforced decision: for a decision the code knows and a threshold it
  knows (the default \<open>warn\<close> when none is given), the process exits with 0 exactly when the
  decision is strictly below the threshold in the enforcement order, and with the decision's own
  nonzero code otherwise; without enforcement and threshold it is always 0.
\<close>

theorem enforcement_exit_code_spec:
  assumes "threshold \<noteq> Allow"
  shows "enforcement_exit_code (decision_text d) False None = Inr 0 \<and>
    enforcement_exit_code (decision_text d) True None =
      Inr (if d = Allow then 0 else decision_exit_codes d) \<and>
    enforcement_exit_code (decision_text d) e (Some (decision_text threshold)) =
      Inr (if enforcement_order d < enforcement_order threshold
           then 0 else decision_exit_codes d)"
proof -
  have "decision_text x \<noteq> []" for x
    by (cases x) simp_all
  moreover have "''warn'' = decision_text Warn"
    by simp
  ultimately show ?thesis
    using assms unfolding enforcement_exit_code_def
    by (cases d; cases threshold) (simp_all add: review_policy_init_def exit_code_text
        del: decision_text.simps)
qed

theorem enforcement_exit_code_spec_witness:
  "enforcement_exit_code ''ask'' False (Some ''ask'') = Inr 20 \<and>
   enforcement_exit_code ''warn'' True (Some ''ask'') = Inr 0"
  using enforcement_exit_code_spec [of Ask Ask False]
    enforcement_exit_code_spec [of Ask Warn True] by simp

text \<open>Merging review labels one after the other yields the label of greatest precedence among
  them, whatever the order in which the findings arrive.
\<close>

theorem review_merge_dominant:
  "foldl stronger_decision d ds \<in> insert d (set ds) \<and>
   (\<forall>x \<in> insert d (set ds).
      review_precedence x \<le> review_precedence (foldl stronger_decision d ds)) \<and>
   foldl stronger_decision d (rev ds) = foldl stronger_decision d ds"
  by (metis review_choice.fold_mem review_choice.fold_upper review_choice.fold_order_irrelevant
      set_rev)

theorem review_merge_dominant_witness:
  "foldl stronger_decision Allow [Ask, Warn, Ask] = Warn"
  using review_merge_dominant [of Allow "[Ask, Warn, Ask]"]
  by (simp add: stronger_decision_def)

end
