(* ===== verification/Json_Value.thy ===== *)
theory Json_Value
  imports Ordin_Prelude
begin

text \<open>
  Parsed JSON as the loaders see it. An object is the list of its members in order (the keys
  of a Python dictionary are distinct, and the first entry is the one looked up); an integer
  and a float are different values, as \<^verbatim>\<open>isinstance\<close> distinguishes them. A finite float is its
  value, with \<^verbatim>\<open>-0.0\<close> apart from \<^verbatim>\<open>0.0\<close>: they compare equal and print differently.
\<close>

datatype py_float = Float rat | NegZero

primrec float_value :: "py_float \<Rightarrow> rat" where
  "float_value (Float x) = x"
| "float_value NegZero = 0"

datatype json =
    JNull
  | JBool bool
  | JInt int
  | JFloat py_float
  | JStr string
  | JArr "json list"
  | JObj "(string \<times> json) list"

type_synonym payload = "(string \<times> json) list"

text \<open>\<^verbatim>\<open>payload.get(key)\<close> (a missing key and \<^verbatim>\<open>null\<close> are both \<^verbatim>\<open>None\<close>) and \<^verbatim>\<open>payload.get(key, default)\<close>.\<close>

definition jget :: "payload \<Rightarrow> string \<Rightarrow> json" where
  "jget p k = (case map_of p k of None \<Rightarrow> JNull | Some v \<Rightarrow> v)"

definition jget_default :: "payload \<Rightarrow> string \<Rightarrow> json \<Rightarrow> json" where
  "jget_default p k d = (case map_of p k of None \<Rightarrow> d | Some v \<Rightarrow> v)"

definition unknown_keys :: "payload \<Rightarrow> string list \<Rightarrow> string list" where
  "unknown_keys p permitted = filter (\<lambda>k. k \<notin> set permitted) (map fst p)"

definition as_string :: "json \<Rightarrow> py_error \<Rightarrow> string res" where
  "as_string j e = (case j of JStr s \<Rightarrow> Inr s | _ \<Rightarrow> Inl e)"

definition as_string_option :: "json \<Rightarrow> py_error \<Rightarrow> string option res" where
  "as_string_option j e = (case j of JNull \<Rightarrow> Inr None | JStr s \<Rightarrow> Inr (Some s) | _ \<Rightarrow> Inl e)"

definition as_bool :: "json \<Rightarrow> py_error \<Rightarrow> bool res" where
  "as_bool j e = (case j of JBool b \<Rightarrow> Inr b | _ \<Rightarrow> Inl e)"

text \<open>\<^verbatim>\<open>isinstance(v, int) and not isinstance(v, bool)\<close>.\<close>

definition as_int :: "json \<Rightarrow> py_error \<Rightarrow> int res" where
  "as_int j e = (case j of JInt i \<Rightarrow> Inr i | _ \<Rightarrow> Inl e)"

definition as_list :: "json \<Rightarrow> py_error \<Rightarrow> json list res" where
  "as_list j e = (case j of JArr xs \<Rightarrow> Inr xs | _ \<Rightarrow> Inl e)"

definition as_object :: "json \<Rightarrow> py_error \<Rightarrow> payload res" where
  "as_object j e = (case j of JObj p \<Rightarrow> Inr p | _ \<Rightarrow> Inl e)"

lemmas json_readers = as_string_def as_string_option_def as_bool_def as_int_def as_list_def
  as_object_def

lemma as_Inr_iff [simp]:
  "as_string j e = Inr s \<longleftrightarrow> j = JStr s"
  "as_bool j e = Inr b \<longleftrightarrow> j = JBool b"
  "as_int j e = Inr i \<longleftrightarrow> j = JInt i"
  "as_list j e = Inr xs \<longleftrightarrow> j = JArr xs"
  "as_object j e = Inr p \<longleftrightarrow> j = JObj p"
  by (cases j; simp add: json_readers)+

lemma as_readers_apply [simp]:
  "as_string (JStr s) e = Inr s" "as_bool (JBool b) e = Inr b" "as_int (JInt i) e = Inr i"
  "as_list (JArr xs) e = Inr xs" "as_object (JObj p) e = Inr p"
  "as_string_option JNull e = Inr None" "as_string_option (JStr s) e = Inr (Some s)"
  by (simp_all add: json_readers)

definition option_json :: "string option \<Rightarrow> json" where
  "option_json v = (case v of None \<Rightarrow> JNull | Some s \<Rightarrow> JStr s)"

lemma as_string_option_json [simp]: "as_string_option (option_json v) e = Inr v"
  by (cases v) (simp_all add: option_json_def)

lemma jget_simps [simp]:
  "jget ((k, v) # p) k' = (if k' = k then v else jget p k')" "jget [] k' = JNull"
  by (simp_all add: jget_def)

lemma jget_default_simps [simp]:
  "jget_default ((k, v) # p) k' d = (if k' = k then v else jget_default p k' d)"
  "jget_default [] k' d = d"
  by (simp_all add: jget_default_def)

lemma jget_append [simp]:
  "jget (p @ q) k = (if k \<in> fst ` set p then jget p k else jget q k)"
  by (cases "map_of p k")
    (force simp: jget_def map_add_def map_of_eq_None_iff dest: map_of_SomeD split: option.splits)+

lemma jget_default_append [simp]:
  "jget_default (p @ q) k d = (if k \<in> fst ` set p then jget_default p k d else jget_default q k d)"
  by (cases "map_of p k")
    (force simp: jget_default_def map_add_def map_of_eq_None_iff dest: map_of_SomeD split: option.splits)+

lemma unknown_keys_Nil_iff: "unknown_keys p permitted = [] \<longleftrightarrow> fst ` set p \<subseteq> set permitted"
  by (auto simp: unknown_keys_def filter_empty_conv)

end
