(* ===== verification/Shell.thy ===== *)
theory Shell
  imports Ordin_Prelude
begin

text \<open>
  \<^verbatim>\<open>ordin/shell.py\<close>: newline normalisation, tokenisation, command segments, wrapper stripping,
  executable names and nested scripts. Tokenisation uses \<^verbatim>\<open>shlex.shlex\<close> of the Python standard
  library in POSIX mode with \<^verbatim>\<open>punctuation_chars=";&|<>()"\<close>, \<^verbatim>\<open>whitespace_split\<close> and no
  comment characters; its state machine is written out here character by character.
\<close>

section \<open>Characters and tables\<close>

abbreviation squote :: char where "squote \<equiv> CHR 0x27"
abbreviation dquote :: char where "dquote \<equiv> CHR 0x22"
abbreviation backslash :: char where "backslash \<equiv> CHR 0x5C"
abbreviation newline :: char where "newline \<equiv> CHR 0x0A"
abbreviation backtick :: char where "backtick \<equiv> CHR 0x60"
abbreviation space :: char where "space \<equiv> CHR 0x20"
abbreviation lparen :: char where "lparen \<equiv> CHR 0x28"
abbreviation rparen :: char where "rparen \<equiv> CHR 0x29"
abbreviation dollar :: char where "dollar \<equiv> CHR 0x24"
abbreviation slash :: char where "slash \<equiv> CHR 0x2F"
abbreviation dash :: char where "dash \<equiv> CHR 0x2D"
abbreviation equals :: char where "equals \<equiv> CHR 0x3D"

definition segment_operators :: "string list" where
  "segment_operators = [''&&'', ''||'', '';'', ''|'', ''|&'', ''&'']"

definition shell_executables :: "string list" where
  "shell_executables = [''bash'', ''dash'', ''ksh'', ''sh'', ''zsh'']"

definition sudo_options_with_value :: "string list" where
  "sudo_options_with_value =
     [''-C'', ''-D'', ''-g'', ''-h'', ''-p'', ''-R'', ''-T'', ''-u'']"

section \<open>Newline normalisation\<close>

text \<open>The loop's state is the open quote and whether the previous character escapes this one.\<close>

fun normalize_from :: "char option \<Rightarrow> bool \<Rightarrow> string \<Rightarrow> string" where
  "normalize_from quote escaped [] = []"
| "normalize_from quote escaped (c # cs) =
     (if escaped then c # normalize_from quote False cs
      else if c = backslash \<and> quote \<noteq> Some squote then c # normalize_from quote True cs
      else (case quote of
          Some q \<Rightarrow> c # normalize_from (if c = q then None else quote) False cs
        | None \<Rightarrow>
            if c = squote \<or> c = dquote then c # normalize_from (Some c) False cs
            else if c = newline then '' ; '' @ normalize_from None False cs
            else c # normalize_from None False cs))"

definition normalize_unquoted_newlines :: "string \<Rightarrow> string" where
  "normalize_unquoted_newlines command = normalize_from None False command"

section \<open>The lexer\<close>

text \<open>
  The states of \<^verbatim>\<open>shlex.read_token\<close>: \<^verbatim>\<open>' '\<close>, an open quote, the escape character, \<^verbatim>\<open>'a'\<close>
  (in a word), \<^verbatim>\<open>'c'\<close> (in a run of punctuation) and \<^verbatim>\<open>None\<close> (past the end of input). A
  character pushed back is the first character of the remaining input.
\<close>

datatype lex_state = LStart | LQuote char | LEscape | LWord | LPunct | LEnd

definition lex_whitespace :: "char list" where
  "lex_whitespace = [CHR 0x20, CHR 0x09, CHR 0x0D, CHR 0x0A]"

definition lex_punctuation :: "char list" where
  "lex_punctuation = '';&|<>()''"

definition lex_quotes :: "char list" where
  "lex_quotes = [squote, dquote]"

definition emit :: "string \<Rightarrow> bool \<Rightarrow> string option" where
  "emit tok quoted = (if \<not> quoted \<and> tok = [] then None else Some tok)"

definition keeps_escape :: "lex_state \<Rightarrow> char \<Rightarrow> bool" where
  "keeps_escape esc c = (case esc of LQuote q \<Rightarrow> c \<noteq> backslash \<and> c \<noteq> q | _ \<Rightarrow> False)"

function read_token ::
  "lex_state \<Rightarrow> string \<Rightarrow> bool \<Rightarrow> lex_state \<Rightarrow> string \<Rightarrow> (string option \<times> lex_state \<times> string) res"
where
  "read_token st tok quoted esc [] =
     (case st of
        LEnd \<Rightarrow> Inr (emit [] quoted, LEnd, [])
      | LQuote q \<Rightarrow> Inl (ValueError ''No closing quotation'')
      | LEscape \<Rightarrow> Inl (ValueError ''No escaped character'')
      | _ \<Rightarrow> Inr (emit tok quoted, LEnd, []))"
| "read_token LEnd tok quoted esc (c # cs) = Inr (emit [] quoted, LEnd, cs)"
| "read_token LStart tok quoted esc (c # cs) =
     (if c \<in> set lex_whitespace then
        (if tok \<noteq> [] \<or> quoted then Inr (emit tok quoted, LStart, cs)
         else read_token LStart tok quoted esc cs)
      else if c = backslash then read_token LEscape tok quoted LWord cs
      else if c \<in> set lex_punctuation then read_token LPunct [c] quoted esc cs
      else if c \<in> set lex_quotes then read_token (LQuote c) tok quoted esc cs
      else read_token LWord [c] quoted esc cs)"
| "read_token (LQuote q) tok quoted esc (c # cs) =
     (if c = q then read_token LWord tok True esc cs
      else if c = backslash \<and> q = dquote then read_token LEscape tok True (LQuote q) cs
      else read_token (LQuote q) (tok @ [c]) True esc cs)"
| "read_token LEscape tok quoted esc (c # cs) =
     read_token esc ((if keeps_escape esc c then tok @ [backslash] else tok) @ [c]) quoted esc cs"
| "read_token LWord tok quoted esc (c # cs) =
     (if c \<in> set lex_whitespace then
        (if tok \<noteq> [] \<or> quoted then Inr (emit tok quoted, LStart, cs)
         else read_token LStart tok quoted esc cs)
      else if c \<in> set lex_quotes then read_token (LQuote c) tok quoted esc cs
      else if c = backslash then read_token LEscape tok quoted LWord cs
      else if c \<notin> set lex_punctuation then read_token LWord (tok @ [c]) quoted esc cs
      else if tok \<noteq> [] \<or> quoted then Inr (emit tok quoted, LStart, c # cs)
      else read_token LStart tok quoted esc (c # cs))"
| "read_token LPunct tok quoted esc (c # cs) =
     (if c \<in> set lex_whitespace then
        (if tok \<noteq> [] \<or> quoted then Inr (emit tok quoted, LStart, cs)
         else read_token LStart tok quoted esc cs)
      else if c \<in> set lex_punctuation then read_token LPunct (tok @ [c]) quoted esc cs
      else Inr (emit tok quoted, LStart, c # cs))"
  by pat_completeness auto
termination
  by (relation "measures [\<lambda>(st, tok, quoted, esc, cs). length cs,
        \<lambda>(st, tok, quoted, esc, cs). if st = LWord then 1 else 0]") auto

lemma read_token_shrinks:
  "read_token st tok quoted esc cs = Inr (Some t, st', rest) \<Longrightarrow>
   length rest \<le> length cs \<and> (tok = [] \<and> \<not> quoted \<longrightarrow> length rest < length cs)"
  by (induction st tok quoted esc cs rule: read_token.induct)
    (auto simp: emit_def split: if_splits lex_state.splits)

text \<open>\<^verbatim>\<open>list(lexer)\<close>: tokens until \<^verbatim>\<open>read_token\<close> returns the end marker.\<close>

function lex_all :: "lex_state \<Rightarrow> string \<Rightarrow> string list res" where
  "lex_all st cs =
     (case read_token st [] False LStart cs of
        Inl e \<Rightarrow> Inl e
      | Inr (None, st', rest) \<Rightarrow> Inr []
      | Inr (Some t, st', rest) \<Rightarrow> res_bind (lex_all st' rest) (\<lambda>ts. Inr (t # ts)))"
  by pat_completeness auto
termination
  by (relation "measure (\<lambda>(st, cs). length cs)") (auto dest: read_token_shrinks)

declare lex_all.simps [simp del]

definition shell_tokens :: "string \<Rightarrow> string list res" where
  "shell_tokens command = lex_all LStart (normalize_unquoted_newlines command)"

section \<open>Command segments\<close>

fun segment_loop ::
  "string list list \<Rightarrow> string list \<Rightarrow> string list \<Rightarrow> nat \<Rightarrow> string list
     \<Rightarrow> string list list \<times> string list"
where
  "segment_loop segments operators current depth [] =
     ((if current \<noteq> [] then segments @ [current] else segments), operators)"
| "segment_loop segments operators current depth (t # ts) =
     (if t = ''('' then segment_loop segments operators (current @ [t]) (Suc depth) ts
      else if t = '')'' then segment_loop segments operators (current @ [t]) (depth - 1) ts
      else if t \<in> set segment_operators \<and> depth = 0 then
        (if current \<noteq> [] then segment_loop (segments @ [current]) (operators @ [t]) [] depth ts
         else segment_loop segments operators current depth ts)
      else segment_loop segments operators (current @ [t]) depth ts)"

definition split_tokens :: "string list \<Rightarrow> string list list \<times> string list" where
  "split_tokens tokens =
     (case segment_loop [] [] [] 0 tokens of
        (segments, operators) \<Rightarrow>
          (segments,
           if length operators \<ge> length segments
           then take (length segments - 1) operators else operators))"

definition split_shell_segments :: "string \<Rightarrow> (string list list \<times> string list) res" where
  "split_shell_segments command =
     res_bind (shell_tokens command) (\<lambda>tokens. Inr (split_tokens tokens))"

definition segment_text :: "string list \<Rightarrow> string" where
  "segment_text tokens = py_join space tokens"

section \<open>Wrappers and executable names\<close>

text \<open>\<^verbatim>\<open>PurePosixPath(token).name\<close>: empty components and \<^verbatim>\<open>.\<close> are dropped by the path parser.\<close>

definition posix_name :: "string \<Rightarrow> string" where
  "posix_name token =
     (let parts = filter (\<lambda>p. p \<noteq> [] \<and> p \<noteq> ''.'') (py_split slash token)
      in if parts = [] then [] else last parts)"

definition basename :: "string \<Rightarrow> string" where
  "basename token = (if slash \<in> set token then posix_name token else token)"

definition is_assignment :: "string \<Rightarrow> bool" where
  "is_assignment token =
     (if equals \<notin> set token \<or> startswith token [equals] then False
      else (let name = takeWhile (\<lambda>c. c \<noteq> equals) token
            in name \<noteq> [] \<and>
               list_all py_isalnum (map (\<lambda>c. if c = CHR ''_'' then CHR ''a'' else c) name) \<and>
               \<not> py_isdigit (hd name)))"

definition is_option :: "string \<Rightarrow> bool" where
  "is_option token = startswith token [dash]"

fun skip_sudo_options :: "string list \<Rightarrow> string list" where
  "skip_sudo_options [] = []"
| "skip_sudo_options [opt] = (if is_option opt then [] else [opt])"
| "skip_sudo_options (opt # v # rest) =
     (if is_option opt then
        (if opt \<in> set sudo_options_with_value then skip_sudo_options rest
         else skip_sudo_options (v # rest))
      else opt # v # rest)"

lemma skip_sudo_options_length: "length (skip_sudo_options xs) \<le> length xs"
  by (induction xs rule: skip_sudo_options.induct) auto

text \<open>
  The \<^verbatim>\<open>while remaining and changed\<close> loop: a recognised wrapper is removed with its options and
  the assignments after it and the loop goes on; any other word ends it.
\<close>

function strip_loop :: "string list \<Rightarrow> string list" where
  "strip_loop [] = []"
| "strip_loop (word # rest) =
     (if basename word = ''sudo'' then
        strip_loop (dropWhile is_assignment (skip_sudo_options rest))
      else if basename word = ''env'' then
        strip_loop (dropWhile is_assignment
          (dropWhile (\<lambda>t. is_option t \<or> is_assignment t) rest))
      else if basename word = ''command'' then
        strip_loop (dropWhile is_assignment (dropWhile is_option rest))
      else dropWhile is_assignment (word # rest))"
  by pat_completeness auto
termination
proof (relation "measure length")
  have *: "length (dropWhile P xs) \<le> length xs" for P and xs :: "string list"
    by (rule length_dropWhile_le)
  show "(dropWhile is_assignment (skip_sudo_options rest), word # rest) \<in> measure length"
    for word rest
    using * [of is_assignment "skip_sudo_options rest"] skip_sudo_options_length [of rest]
    by simp
  show "(dropWhile is_assignment (dropWhile (\<lambda>t. is_option t \<or> is_assignment t) rest), word # rest)
      \<in> measure length" for word rest
    using * [of is_assignment "dropWhile (\<lambda>t. is_option t \<or> is_assignment t) rest"]
      * [of "\<lambda>t. is_option t \<or> is_assignment t" rest] by simp
  show "(dropWhile is_assignment (dropWhile is_option rest), word # rest) \<in> measure length"
    for word rest
    using * [of is_assignment "dropWhile is_option rest"] * [of is_option rest] by simp
qed simp

definition strip_wrappers :: "string list \<Rightarrow> string list" where
  "strip_wrappers tokens = strip_loop (dropWhile is_assignment tokens)"

definition executable_name_from_tokens :: "string list \<Rightarrow> string option" where
  "executable_name_from_tokens tokens =
     (case strip_wrappers tokens of
        [] \<Rightarrow> None
      | word # rest \<Rightarrow>
          let executable = py_lower (basename word)
          in if executable \<in> {''python'', ''python3''}
             then (case rest of
                 m # modname # _ \<Rightarrow>
                   if m = ''-m'' then Some (py_lower (basename modname)) else Some executable
               | _ \<Rightarrow> Some executable)
             else Some executable)"

definition executable_name :: "string \<Rightarrow> string option" where
  "executable_name command =
     (case split_shell_segments command of
        Inl e \<Rightarrow> None
      | Inr (segments, operators) \<Rightarrow>
          (case segments of [] \<Rightarrow> None | seg # _ \<Rightarrow> executable_name_from_tokens seg))"

definition command_name_candidates :: "string list \<Rightarrow> string list" where
  "command_name_candidates tokens =
     uniq ((case tokens of [] \<Rightarrow> [] | word # _ \<Rightarrow> [py_lower (basename word)]) @
           (case executable_name_from_tokens tokens of
              None \<Rightarrow> [] | Some effective \<Rightarrow> if effective = [] then [] else [effective]))"

fun after_dash_c :: "string list \<Rightarrow> string option" where
  "after_dash_c [] = None"
| "after_dash_c [t] = None"
| "after_dash_c (t # u # rest) = (if t = ''-c'' then Some u else after_dash_c (u # rest))"

definition shell_script_from_tokens :: "string list \<Rightarrow> string option" where
  "shell_script_from_tokens tokens =
     (case strip_wrappers tokens of
        [] \<Rightarrow> None
      | word # rest \<Rightarrow>
          if py_lower (basename word) \<notin> set shell_executables then None
          else after_dash_c rest)"

section \<open>Nested scripts\<close>

text \<open>
  The loop over \<^verbatim>\<open>enumerate(tokens)\<close>: \<open>tokens\<close> is the whole sequence, \<open>previous\<close> the token before
  the current one (empty at index 0), \<open>start\<close> the index after the group's opening parenthesis.
\<close>

fun subshell_loop ::
  "string list \<Rightarrow> string list \<Rightarrow> nat \<Rightarrow> nat \<Rightarrow> nat \<Rightarrow> string \<Rightarrow> string list \<Rightarrow> string list"
where
  "subshell_loop tokens scripts depth start index previous [] = scripts"
| "subshell_loop tokens scripts depth start index previous (t # ts) =
     (if t = ''('' then
        (if depth = 0 \<and> (previous = [dollar] \<or> endswith previous [dollar])
         then subshell_loop tokens scripts depth start (Suc index) t ts
         else subshell_loop tokens scripts (Suc depth) (if depth = 0 then Suc index else start)
                (Suc index) t ts)
      else if t = '')'' \<and> depth \<noteq> 0 then
        (if depth = 1 then
           (let script = py_strip (segment_text (take (index - start) (drop start tokens)))
            in subshell_loop tokens (if script \<noteq> [] then scripts @ [script] else scripts)
                 0 start (Suc index) t ts)
         else subshell_loop tokens scripts (depth - 1) start (Suc index) t ts)
      else subshell_loop tokens scripts depth start (Suc index) t ts)"

definition grouped_subshells_from_tokens :: "string list \<Rightarrow> string list" where
  "grouped_subshells_from_tokens tokens = subshell_loop tokens [] 0 0 0 [] tokens"

definition push_char :: "char \<Rightarrow> (string \<times> string) option \<Rightarrow> (string \<times> string) option" where
  "push_char c found = map_option (\<lambda>(s, r). (c # s, r)) found"

lemma push_char_Some [simp]:
  "push_char c found = Some (s, r) \<longleftrightarrow> (\<exists>s'. s = c # s' \<and> found = Some (s', r))"
  by (auto simp: push_char_def)

text \<open>
  The scan for a closing backtick: the text before it and what follows it, or \<^const>\<open>None\<close> when
  the cursor reaches the end.
\<close>

fun scan_backtick :: "bool \<Rightarrow> string \<Rightarrow> (string \<times> string) option" where
  "scan_backtick escaped [] = None"
| "scan_backtick escaped (c # cs) =
     (if escaped then push_char c (scan_backtick False cs)
      else if c = backslash then push_char c (scan_backtick True cs)
      else if c = backtick then Some ([], cs)
      else push_char c (scan_backtick False cs))"

text \<open>The scan for the parenthesis that closes \<^verbatim>\<open>$(\<close>, at nesting \<open>depth\<close>.\<close>

fun scan_paren :: "nat \<Rightarrow> char option \<Rightarrow> bool \<Rightarrow> string \<Rightarrow> (string \<times> string) option" where
  "scan_paren depth quote escaped [] = None"
| "scan_paren depth quote escaped (c # cs) =
     (if escaped then push_char c (scan_paren depth quote False cs)
      else if c = backslash \<and> quote \<noteq> Some squote then
        push_char c (scan_paren depth quote True cs)
      else (case quote of
          Some q \<Rightarrow>
            push_char c (scan_paren depth (if c = q then None else quote) False cs)
        | None \<Rightarrow>
            if c = squote \<or> c = dquote then
              push_char c (scan_paren depth (Some c) False cs)
            else if c = lparen then
              push_char c (scan_paren (Suc depth) None False cs)
            else if c = rparen then
              (if depth \<le> 1 then Some ([], cs)
               else push_char c (scan_paren (depth - 1) None False cs))
            else push_char c (scan_paren depth None False cs)))"

lemma scan_backtick_split:
  "scan_backtick escaped cs = Some (s, r) \<Longrightarrow> cs = s @ backtick # r"
  by (induction escaped cs arbitrary: s rule: scan_backtick.induct) (auto split: if_splits)

lemma scan_paren_split:
  "scan_paren depth quote escaped cs = Some (s, r) \<Longrightarrow> cs = s @ rparen # r"
proof (induction cs arbitrary: depth quote escaped s)
  case (Cons c cs)
  from Cons.prems have "s = [] \<and> c = rparen \<and> cs = r \<or>
      (\<exists>s' d q e. s = c # s' \<and> scan_paren d q e cs = Some (s', r))"
    by (simp split: if_splits option.splits) blast+
  with Cons.IH show ?case by auto
qed simp

lemma scan_backtick_shorter: "scan_backtick escaped cs = Some (s, r) \<Longrightarrow> length r < length cs"
  by (auto dest: scan_backtick_split)

lemma scan_paren_shorter:
  assumes "scan_paren depth quote escaped (tl cs) = Some (s, r)"
  shows "length r < length cs"
  using scan_paren_split [OF assms] by (cases cs) auto

definition keep_script :: "string \<Rightarrow> string list" where
  "keep_script s = (let script = py_strip s in if script \<noteq> [] then [script] else [])"

text \<open>The main loop; an unclosed substitution is stepped over one character at a time.\<close>

function substitution_loop :: "char option \<Rightarrow> bool \<Rightarrow> string \<Rightarrow> string list" where
  "substitution_loop quote escaped [] = []"
| "substitution_loop quote escaped (c # cs) =
     (if escaped then substitution_loop quote False cs
      else if c = backslash \<and> quote \<noteq> Some squote then substitution_loop quote True cs
      else if quote = Some squote then
        substitution_loop (if c = squote then None else quote) False cs
      else if quote = Some dquote \<and> c = dquote then substitution_loop None False cs
      else if quote = None \<and> c = squote then substitution_loop (Some squote) False cs
      else if quote = None \<and> c = dquote then substitution_loop (Some dquote) False cs
      else if c = backtick then
        (case scan_backtick False cs of
           Some (s, r) \<Rightarrow> keep_script s @ substitution_loop quote False r
         | None \<Rightarrow> substitution_loop quote False cs)
      else if c = dollar \<and> cs \<noteq> [] \<and> hd cs = lparen then
        (case scan_paren 1 None False (tl cs) of
           Some (s, r) \<Rightarrow> keep_script s @ substitution_loop quote False r
         | None \<Rightarrow> substitution_loop quote False cs)
      else substitution_loop quote False cs)"
  by pat_completeness auto
termination
  by (relation "measure (\<lambda>(quote, escaped, cs). length cs)")
    (auto simp: less_Suc_eq dest: scan_backtick_shorter scan_paren_shorter)

definition command_substitutions :: "string \<Rightarrow> string list" where
  "command_substitutions command = substitution_loop None False command"

section \<open>Lemmas: segments\<close>

text \<open>What segmentation is to keep: every token but the operators outside parentheses, in order.\<close>

fun drop_separators :: "nat \<Rightarrow> string list \<Rightarrow> string list" where
  "drop_separators depth [] = []"
| "drop_separators depth (t # ts) =
     (if t = ''('' then t # drop_separators (Suc depth) ts
      else if t = '')'' then t # drop_separators (depth - 1) ts
      else if t \<in> set segment_operators \<and> depth = 0 then drop_separators depth ts
      else t # drop_separators depth ts)"

lemma segment_loop_spec:
  assumes "segment_loop segs ops cur d ts = (segs', ops')"
    and "length ops = length segs" and "[] \<notin> set segs" and "set ops \<subseteq> set segment_operators"
  shows "concat segs' = concat segs @ cur @ drop_separators d ts \<and> [] \<notin> set segs' \<and>
    set ops' \<subseteq> set segment_operators \<and>
    length ops' \<le> length segs' \<and> length segs' \<le> Suc (length ops')"
  using assms
proof (induction segs ops cur d ts rule: segment_loop.induct)
  case (1 segs ops cur d)
  then show ?case by (auto split: if_splits)
next
  case (2 segs ops cur d t ts)
  consider "t = ''(''" | "t = '')''"
    | "t \<noteq> ''(''" "t \<noteq> '')''" "t \<in> set segment_operators \<and> d = 0" "cur \<noteq> []"
    | "t \<noteq> ''(''" "t \<noteq> '')''" "t \<in> set segment_operators \<and> d = 0" "cur = []"
    | "t \<noteq> ''(''" "t \<noteq> '')''" "\<not> (t \<in> set segment_operators \<and> d = 0)"
    by blast
  then show ?case
  proof cases
    case 1
    with "2.IH"(1) "2.prems" show ?thesis by simp
  next
    case 2
    with "2.IH"(2) "2.prems" show ?thesis by simp
  next
    case 3
    with "2.IH"(3) "2.prems" show ?thesis by simp
  next
    case 4
    with "2.IH"(4) "2.prems" show ?thesis by simp
  next
    case 5
    with "2.IH"(5) "2.prems" show ?thesis by simp
  qed
qed

section \<open>Lemmas: wrappers\<close>

definition wrapper_free :: "string list \<Rightarrow> bool" where
  "wrapper_free ts = (case ts of [] \<Rightarrow> True | t # _ \<Rightarrow>
     \<not> is_assignment t \<and> basename t \<notin> {''sudo'', ''env'', ''command''})"

lemma dropWhile_suffix: "\<exists>pre. xs = pre @ dropWhile P xs"
  by (metis takeWhile_dropWhile_id)

definition free_head :: "string list \<Rightarrow> bool" where
  "free_head ts = (case ts of [] \<Rightarrow> True | t # _ \<Rightarrow> \<not> is_assignment t)"

lemma free_head_dropWhile [simp]: "free_head (dropWhile is_assignment xs)"
  by (induction xs) (auto simp: free_head_def)

lemma free_head_Cons [simp]: "free_head (t # ts) \<longleftrightarrow> \<not> is_assignment t"
  by (simp add: free_head_def)

lemma skip_sudo_options_suffix: "\<exists>pre. xs = pre @ skip_sudo_options xs"
proof (induction xs rule: skip_sudo_options.induct)
  case (3 opt v rest)
  then show ?case
    by (metis append_Cons append_Nil skip_sudo_options.simps(3))
qed auto

lemma suffix_trans_pre:
  assumes "\<exists>pre. xs = pre @ ys" and "\<exists>pre. ys = pre @ zs"
  shows "\<exists>pre. xs = pre @ (zs :: 'a list)"
  using assms by (metis append_assoc)

lemma strip_loop_suffix: "\<exists>pre. ts = pre @ strip_loop ts"
proof (induction ts rule: strip_loop.induct)
  case (2 word rest)
  have tail: "\<exists>pre. word # rest = pre @ strip_loop (dropWhile is_assignment ys)"
    if "\<exists>pre. rest = pre @ ys"
      and "\<exists>pre. dropWhile is_assignment ys = pre @ strip_loop (dropWhile is_assignment ys)" for ys
  proof -
    have "\<exists>pre. rest = pre @ strip_loop (dropWhile is_assignment ys)"
      using that dropWhile_suffix [of ys is_assignment] by (blast intro: suffix_trans_pre)
    then show ?thesis by (metis append_Cons)
  qed
  show ?case
    using 2 skip_sudo_options_suffix [of rest] dropWhile_suffix [of rest is_option]
      dropWhile_suffix [of rest "\<lambda>t. is_option t \<or> is_assignment t"]
      dropWhile_suffix [of "word # rest" is_assignment]
    by (auto intro: tail simp del: dropWhile.simps)
qed simp

lemma strip_loop_free: "free_head ts \<Longrightarrow> wrapper_free (strip_loop ts)"
proof (induction ts rule: strip_loop.induct)
  case (2 word rest)
  then show ?case
    by (cases "basename word \<in> {''sudo'', ''env'', ''command''}") (auto simp: wrapper_free_def)
qed (simp add: wrapper_free_def)

lemma strip_loop_id: "wrapper_free ts \<Longrightarrow> strip_loop ts = ts"
  by (cases ts) (auto simp: wrapper_free_def)

lemma strip_wrappers_free: "wrapper_free (strip_wrappers ts)"
  unfolding strip_wrappers_def by (rule strip_loop_free) simp

lemma strip_wrappers_id: "wrapper_free ts \<Longrightarrow> strip_wrappers ts = ts"
  by (cases ts) (auto simp: strip_wrappers_def strip_loop_id wrapper_free_def)

lemma strip_wrappers_suffix: "\<exists>pre. ts = pre @ strip_wrappers ts"
  unfolding strip_wrappers_def
  by (rule suffix_trans_pre [OF dropWhile_suffix strip_loop_suffix])

section \<open>Lemmas: lexing plain words\<close>

definition plain_char :: "char \<Rightarrow> bool" where
  "plain_char c = (c \<notin> set lex_whitespace \<and> c \<notin> set lex_punctuation \<and> c \<notin> set lex_quotes \<and>
     c \<noteq> backslash)"

definition plain_word :: "string \<Rightarrow> bool" where
  "plain_word w = (w \<noteq> [] \<and> list_all plain_char w)"

lemma plain_char_facts:
  assumes "plain_char c"
  shows "c \<notin> set lex_whitespace" "c \<notin> set lex_punctuation" "c \<notin> set lex_quotes"
    "c \<noteq> backslash" "c \<noteq> squote" "c \<noteq> dquote" "c \<noteq> newline" "c \<noteq> space"
    "c \<noteq> lparen" "c \<noteq> rparen" "c \<noteq> CHR '';''"
  using assms
  by (auto simp: plain_char_def lex_whitespace_def lex_punctuation_def lex_quotes_def)

lemma plain_char_special [simp]:
  "\<not> plain_char backslash" "\<not> plain_char squote" "\<not> plain_char dquote"
  "\<not> plain_char newline" "\<not> plain_char space" "\<not> plain_char lparen"
  "\<not> plain_char rparen" "\<not> plain_char CHR '';''"
  by (simp_all add: plain_char_def lex_whitespace_def lex_punctuation_def lex_quotes_def)

lemma read_plain:
  assumes "list_all plain_char w"
  shows "read_token LWord tok quoted esc (w @ rest) = read_token LWord (tok @ w) quoted esc rest"
  using assms by (induction w arbitrary: tok) (auto simp: plain_char_facts)

lemma read_plain_word:
  assumes "plain_word w"
  shows "read_token LStart [] False LStart (w @ rest) = read_token LWord w False LStart rest"
proof -
  obtain c cs where w: "w = c # cs" "plain_char c" "list_all plain_char cs"
    using assms by (cases w) (auto simp: plain_word_def)
  then show ?thesis
    by (simp add: plain_char_facts read_plain)
qed

lemma lex_end: "lex_all LEnd [] = Inr []"
  by (subst lex_all.simps) (simp add: emit_def)

lemma lex_word_end: "plain_word w \<Longrightarrow> lex_all LStart w = Inr [w]"
  using read_plain_word [of w "[]"]
  by (subst lex_all.simps) (simp add: emit_def lex_end plain_word_def)

lemma lex_word_space:
  assumes "plain_word w"
  shows "lex_all LStart (w @ space # rest) = res_bind (lex_all LStart rest) (\<lambda>ts. Inr (w # ts))"
  using read_plain_word [OF assms, of "space # rest"] assms
  by (subst lex_all.simps) (simp add: emit_def plain_word_def lex_whitespace_def)

lemma lex_semicolon:
  "lex_all LStart (CHR '';'' # space # rest) =
     res_bind (lex_all LStart rest) (\<lambda>ts. Inr ('';'' # ts))"
  by (subst lex_all.simps)
    (simp add: emit_def lex_whitespace_def lex_punctuation_def)

lemma lex_line:
  assumes "\<forall>w \<in> set ws. plain_word w" and "ws \<noteq> []"
  shows "lex_all LStart (py_join space ws) = Inr ws"
    and "lex_all LStart (py_join space ws @ '' ; '' @ rest) =
      res_bind (lex_all LStart rest) (\<lambda>ts. Inr (ws @ '';'' # ts))"
proof -
  show "lex_all LStart (py_join space ws) = Inr ws"
    using assms
    by (induction space ws rule: py_join.induct) (simp_all add: lex_word_end lex_word_space)
  show "lex_all LStart (py_join space ws @ '' ; '' @ rest) =
      res_bind (lex_all LStart rest) (\<lambda>ts. Inr (ws @ '';'' # ts))"
    using assms
  proof (induction space ws rule: py_join.induct)
    case (2 w)
    then show ?case
      by (cases "lex_all LStart rest") (simp_all add: lex_word_space lex_semicolon)
  next
    case (3 w v ws)
    then show ?case
      by (cases "lex_all LStart rest") (simp_all add: lex_word_space)
  qed simp
qed

lemma normalize_char:
  assumes "plain_char c \<or> c = space"
  shows "normalize_from None False (c # cs) = c # normalize_from None False cs"
proof -
  have "c \<noteq> backslash" "c \<noteq> squote" "c \<noteq> dquote" "c \<noteq> newline"
    using assms by auto
  then show ?thesis by simp
qed

lemma normalize_plain:
  assumes "\<forall>c \<in> set cs. plain_char c \<or> c = space"
  shows "normalize_from None False (cs @ rest) = cs @ normalize_from None False rest"
  using assms by (induction cs) (simp_all add: normalize_char del: normalize_from.simps(2))

lemma set_py_join: "set (py_join c ws) \<subseteq> insert c (\<Union> (set ` set ws))"
  by (induction c ws rule: py_join.induct) auto

lemma normalize_line:
  assumes "\<forall>w \<in> set ws. plain_word w"
  shows "normalize_from None False (py_join space ws @ rest) =
    py_join space ws @ normalize_from None False rest"
proof (rule normalize_plain)
  show "\<forall>c \<in> set (py_join space ws). plain_char c \<or> c = space"
    using set_py_join [of space ws] assms by (fastforce simp: plain_word_def list_all_iff)
qed

text \<open>The tokens of a script of several lines: the lines' words with a semicolon between lines.\<close>

fun line_tokens :: "string list list \<Rightarrow> string list" where
  "line_tokens [] = []"
| "line_tokens [l] = l"
| "line_tokens (l # m # ls) = l @ '';'' # line_tokens (m # ls)"

lemma shell_tokens_lines:
  assumes "ls \<noteq> []" and "\<forall>l \<in> set ls. l \<noteq> [] \<and> (\<forall>w \<in> set l. plain_word w)"
  shows "shell_tokens (py_join newline (map (py_join space) ls)) = Inr (line_tokens ls)"
  unfolding shell_tokens_def normalize_unquoted_newlines_def
  using assms
proof (induction ls rule: line_tokens.induct)
  case (2 l)
  then show ?case
    using normalize_line [of l "[]"] by (simp add: lex_line)
next
  case (3 l m ls)
  then show ?case
    by (simp add: normalize_line) (simp add: lex_line(2) [simplified])
qed simp

lemma segment_loop_words:
  assumes "\<forall>w \<in> set ws. plain_word w"
  shows "segment_loop segs ops cur 0 (ws @ ts) = segment_loop segs ops (cur @ ws) 0 ts"
  using assms
proof (induction ws arbitrary: cur)
  case (Cons w ws)
  have "w \<noteq> ''(''" "w \<noteq> '')''" "w \<notin> set segment_operators"
    using Cons.prems
    by (auto simp: plain_word_def plain_char_def lex_punctuation_def segment_operators_def)
  with Cons show ?case by simp
qed simp

lemma segment_loop_lines:
  assumes "ls \<noteq> []" and "\<forall>l \<in> set ls. l \<noteq> [] \<and> (\<forall>w \<in> set l. plain_word w)"
  shows "segment_loop segs ops [] 0 (line_tokens ls) =
    (segs @ ls, ops @ replicate (length ls - 1) '';'')"
  using assms
proof (induction ls arbitrary: segs ops rule: line_tokens.induct)
  case (2 l)
  then show ?case
    using segment_loop_words [of l segs ops "[]" "[]"] by simp
next
  case (3 l m ls)
  have "'';'' \<in> set segment_operators"
    by (simp add: segment_operators_def)
  with 3 show ?case
    by (simp add: segment_loop_words)
qed simp

section \<open>Lemmas: runs of punctuation\<close>

definition punctuation_run :: "string \<Rightarrow> bool" where
  "punctuation_run p = (p \<noteq> [] \<and> list_all (\<lambda>c. c \<in> set lex_punctuation) p)"

lemma punctuation_char:
  assumes "c \<in> set lex_punctuation"
  shows "c \<notin> set lex_whitespace" "c \<noteq> backslash" "c \<noteq> squote" "c \<noteq> dquote" "c \<noteq> newline" "c \<notin> set lex_quotes"
  using assms by (auto simp: lex_punctuation_def lex_whitespace_def lex_quotes_def)

lemma operator_run: "op \<in> set segment_operators \<Longrightarrow> punctuation_run op"
  by (auto simp: segment_operators_def punctuation_run_def lex_punctuation_def)

lemma read_punctuation:
  "list_all (\<lambda>c. c \<in> set lex_punctuation) p \<Longrightarrow>
     read_token LPunct tok quoted esc (p @ rest) = read_token LPunct (tok @ p) quoted esc rest"
  by (induction p arbitrary: tok) (auto simp: punctuation_char)

lemma read_punctuation_run:
  assumes "punctuation_run p"
  shows "read_token LStart [] False LStart (p @ rest) = read_token LPunct p False LStart rest"
proof -
  obtain c cs where p: "p = c # cs" "c \<in> set lex_punctuation" "list_all (\<lambda>c. c \<in> set lex_punctuation) cs"
    using assms by (cases p) (auto simp: punctuation_run_def)
  then show ?thesis by (simp add: punctuation_char read_punctuation)
qed

text \<open>A run is one token, whatever ends it.\<close>

lemma lex_run:
  assumes "punctuation_run p"
  shows "lex_all LStart p = Inr [p]"
    and "lex_all LStart (p @ space # rest) = res_bind (lex_all LStart rest) (\<lambda>ts. Inr (p # ts))"
    and "plain_char c \<Longrightarrow> lex_all LStart (p @ c # rest) = res_bind (lex_all LStart (c # rest)) (\<lambda>ts. Inr (p # ts))"
proof -
  have p: "p \<noteq> []" using assms by (simp add: punctuation_run_def)
  show "lex_all LStart p = Inr [p]"
    using read_punctuation_run [OF assms, of "[]"] p
    by (subst lex_all.simps) (simp add: emit_def lex_end)
  show "lex_all LStart (p @ space # rest) = res_bind (lex_all LStart rest) (\<lambda>ts. Inr (p # ts))"
    using read_punctuation_run [OF assms, of "space # rest"] p
    by (subst lex_all.simps) (simp add: emit_def lex_whitespace_def)
  show "lex_all LStart (p @ c # rest) = res_bind (lex_all LStart (c # rest)) (\<lambda>ts. Inr (p # ts))" if "plain_char c"
    using read_punctuation_run [OF assms, of "c # rest"] p plain_char_facts [OF that]
    by (subst lex_all.simps) (simp add: emit_def)
qed

lemma lex_word_run:
  assumes "plain_word w" "c \<in> set lex_punctuation"
  shows "lex_all LStart (w @ c # rest) = res_bind (lex_all LStart (c # rest)) (\<lambda>ts. Inr (w # ts))"
  using read_plain_word [OF assms(1), of "c # rest"] assms punctuation_char [OF assms(2)]
  by (subst lex_all.simps) (simp add: emit_def plain_word_def)

lemma lex_line_run:
  assumes "\<forall>w \<in> set ws. plain_word w" "ws \<noteq> []" "c \<in> set lex_punctuation"
  shows "lex_all LStart (py_join space ws @ c # rest) =
    res_bind (lex_all LStart (c # rest)) (\<lambda>ts. Inr (ws @ ts))"
  using assms(1,2)
proof (induction space ws rule: py_join.induct)
  case (2 w)
  then show ?case using assms(3) by (simp add: lex_word_run)
next
  case (3 w v ws)
  then show ?case
    by (cases "lex_all LStart (c # rest)") (simp_all add: lex_word_space)
qed simp

lemma lex_run_line:
  assumes "punctuation_run p" "\<forall>w \<in> set ws. plain_word w" "ws \<noteq> []"
  shows "lex_all LStart (p @ py_join space ws @ rest) =
    res_bind (lex_all LStart (py_join space ws @ rest)) (\<lambda>ts. Inr (p # ts))"
proof -
  obtain w vs where "ws = w # vs" "plain_word w" using assms(2,3) by (cases ws) auto
  then obtain c cs where "py_join space ws @ rest = c # cs" "plain_char c"
    by (cases vs; cases w) (auto simp: plain_word_def)
  then show ?thesis using lex_run(3) [OF assms(1)] by simp
qed

lemma normalize_id:
  "\<forall>c \<in> set cs. c \<notin> {backslash, squote, dquote, newline} \<Longrightarrow> normalize_from None False cs = cs"
  by (induction cs) auto

text \<open>A group after a line: with the operator glued to its parenthesis, and with a space between.\<close>

definition grouped_after :: "string list \<Rightarrow> string \<Rightarrow> string list \<Rightarrow> string" where
  "grouped_after ws glue vs = py_join space ws @ glue @ py_join space vs @ '')''"

lemma shell_tokens_grouped:
  assumes "\<forall>w \<in> set ws \<union> set vs. plain_word w" "ws \<noteq> []" "vs \<noteq> []" "op \<in> set segment_operators"
  shows "shell_tokens (grouped_after ws (op @ ''('') vs) = Inr (ws @ [op @ ''(''] @ vs @ ['')''])"
    and "shell_tokens (grouped_after ws (op @ '' ('') vs) = Inr (ws @ [op, ''(''] @ vs @ ['')''])"
proof -
  have op: "punctuation_run op" "punctuation_run (op @ ''('')" "punctuation_run ''(''" "punctuation_run '')''"
    using operator_run [OF assms(4)] by (simp_all add: punctuation_run_def lex_punctuation_def)
  then obtain c cs where c: "op = c # cs" "c \<in> set lex_punctuation"
    by (cases op) (auto simp: punctuation_run_def)
  have words: "\<forall>w \<in> set ws. plain_word w" "\<forall>w \<in> set vs. plain_word w" using assms(1) by auto
  have paren: "rparen \<in> set lex_punctuation" by (simp add: lex_punctuation_def)
  have close: "lex_all LStart (py_join space vs @ '')'') = Inr (vs @ ['')''])"
    using lex_line_run [OF words(2) assms(3) paren, of "[]"] lex_run(1) [OF op(4)] by simp
  have chars: "x \<notin> {backslash, squote, dquote, newline}"
    if "x \<in> set (py_join space us)" "\<forall>w \<in> set us. plain_word w" for x us
    using set_py_join [of space us] that by (fastforce simp: plain_word_def list_all_iff)
  have norm: "normalize_from None False (grouped_after ws glue vs) = grouped_after ws glue vs"
    if "\<forall>x \<in> set glue. x \<in> set lex_punctuation \<or> x = space" for glue
  proof (rule normalize_id)
    have "x \<notin> {backslash, squote, dquote, newline}" if "x \<in> set glue" for x
    proof -
      from that \<open>\<forall>x \<in> set glue. _ x\<close> have "x \<in> set lex_punctuation \<or> x = space" by blast
      then show ?thesis using punctuation_char [of x] by auto
    qed
    then show "\<forall>x \<in> set (grouped_after ws glue vs). x \<notin> {backslash, squote, dquote, newline}"
      using chars [OF _ words(1)] chars [OF _ words(2)] by (auto simp: grouped_after_def)
  qed
  have glue: "\<forall>x \<in> set (op @ ''(''). x \<in> set lex_punctuation \<or> x = space"
      "\<forall>x \<in> set (op @ '' (''). x \<in> set lex_punctuation \<or> x = space"
    using op(2) by (auto simp: punctuation_run_def list_all_iff)
  have start: "lex_all LStart (grouped_after ws (op @ rest) vs) =
      res_bind (lex_all LStart (op @ rest @ py_join space vs @ '')'')) (\<lambda>ts. Inr (ws @ ts))" for rest
    using lex_line_run [OF words(1) assms(2) c(2)] by (simp add: grouped_after_def c(1))
  show "shell_tokens (grouped_after ws (op @ ''('') vs) = Inr (ws @ [op @ ''(''] @ vs @ ['')''])"
    using start [of "''(''"] lex_run_line [OF op(2) words(2) assms(3), of "'')''"] close
    by (simp add: shell_tokens_def normalize_unquoted_newlines_def norm [OF glue(1)])
  show "shell_tokens (grouped_after ws (op @ '' ('') vs) = Inr (ws @ [op, ''(''] @ vs @ ['')''])"
    using start [of "'' (''"] lex_run(2) [OF op(1), of "lparen # py_join space vs @ '')''"]
      lex_run_line [OF op(3) words(2) assms(3), of "'')''"] close
    by (simp add: shell_tokens_def normalize_unquoted_newlines_def norm [OF glue(2)])
qed

lemma operator_not_paren: "op \<in> set segment_operators \<Longrightarrow> op \<noteq> ''('' \<and> op \<noteq> '')''"
  by (auto simp: segment_operators_def)

lemma glued_token:
  "op \<in> set segment_operators \<Longrightarrow>
     op @ ''('' \<notin> set segment_operators \<and> op @ ''('' \<noteq> ''('' \<and> op @ ''('' \<noteq> '')''"
  by (auto simp: segment_operators_def)

lemma plain_token:
  "plain_word w \<Longrightarrow> w \<noteq> ''('' \<and> w \<noteq> '')''"
  by (auto simp: plain_word_def)

lemma segment_loop_inside:
  assumes "\<forall>w \<in> set ws. plain_word w"
  shows "segment_loop segs ops cur (Suc d) (ws @ ts) = segment_loop segs ops (cur @ ws) (Suc d) ts"
  using assms by (induction ws arbitrary: cur) (auto dest: plain_token)

lemma segment_loop_group:
  assumes "\<forall>w \<in> set vs. plain_word w"
  shows "segment_loop segs ops [] 0 (''('' # vs @ ['')'']) = (segs @ [''('' # vs @ ['')'']], ops)"
  using segment_loop_inside [OF assms, of segs ops "[''('']" 0 "['')'']"] by simp

text \<open>Without an opening parenthesis there is no group; a group of plain words is its own script.\<close>

lemma subshell_loop_flat:
  "''('' \<notin> set ts \<Longrightarrow> subshell_loop tokens scripts 0 start index previous ts = scripts"
  by (induction ts arbitrary: index previous) auto

lemma subshell_loop_words:
  assumes "\<forall>w \<in> set ws. plain_word w"
  shows "subshell_loop tokens scripts (Suc d) start index previous (ws @ ['')'']) =
    subshell_loop tokens scripts (Suc d) start (index + length ws) (last (previous # ws)) ['')'']"
  using assms by (induction ws arbitrary: index previous) (auto dest: plain_token)

lemma subshell_loop_group:
  assumes "\<forall>w \<in> set vs. plain_word w"
  shows "subshell_loop (''('' # vs @ ['')'']) [] 0 0 0 [] (''('' # vs @ ['')'']) = keep_script (py_join space vs)"
  using subshell_loop_words [OF assms, of "''('' # vs @ ['')'']" "[]" 0 1 1 "''(''"]
  by (simp add: endswith_def keep_script_def segment_text_def Let_def)

section \<open>Properties\<close>

text \<open>Segmentation loses nothing: the segments, concatenated, are exactly the tokens without the
  operators that stand outside parentheses; no segment is empty; and there is exactly one
  operator between each two consecutive segments, each of them a known operator.
\<close>

theorem split_tokens_partition:
  "case split_tokens tokens of (segments, operators) \<Rightarrow>
     concat segments = drop_separators 0 tokens \<and> [] \<notin> set segments \<and>
     length operators = length segments - 1 \<and> set operators \<subseteq> set segment_operators"
proof -
  obtain segs ops where loop: "segment_loop [] [] [] 0 tokens = (segs, ops)"
    by fastforce
  then have "concat segs = drop_separators 0 tokens" "[] \<notin> set segs"
      "set ops \<subseteq> set segment_operators" "length ops \<le> length segs" "length segs \<le> Suc (length ops)"
    using segment_loop_spec [OF loop] by auto
  then show ?thesis
    using set_take_subset [of "length segs - 1" ops]
    by (auto simp: split_tokens_def loop)
qed

text \<open>Stripping wrappers ends at the wrapped command: the result is a suffix of the tokens whose
  first word is neither an assignment nor \<open>sudo\<close>, \<open>env\<close> or \<open>command\<close>, and stripping again
  changes nothing.
\<close>

theorem strip_wrappers_exposes_command:
  "(\<exists>pre. tokens = pre @ strip_wrappers tokens) \<and> wrapper_free (strip_wrappers tokens) \<and>
   strip_wrappers (strip_wrappers tokens) = strip_wrappers tokens"
  by (simp add: strip_wrappers_suffix strip_wrappers_free strip_wrappers_id)

text \<open>A script of several lines of plain words is one segment per line: an unquoted newline
  separates commands as a semicolon does, and tokenising the printed words gives the words back.
\<close>

theorem newline_separates_commands:
  assumes "ls \<noteq> []" and "\<forall>l \<in> set ls. l \<noteq> [] \<and> (\<forall>w \<in> set l. plain_word w)"
  shows "split_shell_segments (py_join newline (map (py_join space) ls)) =
    Inr (ls, replicate (length ls - 1) '';'')"
proof -
  have "split_tokens (line_tokens ls) = (ls, replicate (length ls - 1) '';'')"
    using segment_loop_lines [OF assms, of "[]" "[]"] assms(1)
    by (auto simp: split_tokens_def)
  then show ?thesis
    by (simp add: split_shell_segments_def shell_tokens_lines [OF assms])
qed

theorem newline_separates_commands_witness:
  "split_shell_segments (''git status'' @ newline # ''rm x'') =
     Inr ([[''git'', ''status''], [''rm'', ''x'']], ['';''])"
  using newline_separates_commands [of "[[''git'', ''status''], [''rm'', ''x'']]"]
  by (simp add: plain_word_def plain_char_def lex_whitespace_def lex_punctuation_def lex_quotes_def)

text \<open>C38: A parenthesis that touches an operator is not seen. For any operator and any plain words, when
  a group follows a line with the operator glued to the opening parenthesis, the lexer joins the two
  into one token: the whole text is one segment of the line's own command, no operator is
  reported and no grouped script is found. With a space between the two, the same text gives two
  segments with that operator between them, and the group is found as a script.
\<close>

theorem glued_operator_hides_group:
  assumes "\<forall>w \<in> set ws \<union> set vs. plain_word w" and "ws \<noteq> []" and "vs \<noteq> []" and "op \<in> set segment_operators"
  shows "split_shell_segments (grouped_after ws (op @ ''('') vs) = Inr ([ws @ [op @ ''(''] @ vs @ ['')'']], []) \<and>
    grouped_subshells_from_tokens (ws @ [op @ ''(''] @ vs @ ['')'']) = [] \<and>
    (wrapper_free ws \<and> py_lower (basename (hd ws)) \<notin> {''python'', ''python3''} \<longrightarrow>
       executable_name (grouped_after ws (op @ ''('') vs) = Some (py_lower (basename (hd ws)))) \<and>
    split_shell_segments (grouped_after ws (op @ '' ('') vs) =
      Inr ([ws, ''('' # vs @ ['')'']], [op]) \<and>
    grouped_subshells_from_tokens (''('' # vs @ ['')'']) = keep_script (py_join space vs)"
proof -
  note tokens = shell_tokens_grouped [OF assms]
  have words: "\<forall>w \<in> set ws. plain_word w" "\<forall>w \<in> set vs. plain_word w" using assms(1) by auto
  have glued: "split_shell_segments (grouped_after ws (op @ ''('') vs) = Inr ([ws @ [op @ ''(''] @ vs @ ['')'']], [])"
    using segment_loop_words [OF words(1)] segment_loop_words [OF words(2)] glued_token [OF assms(4)]
    by (simp add: split_shell_segments_def tokens split_tokens_def segment_operators_def)
  moreover have "split_shell_segments (grouped_after ws (op @ '' ('') vs) = Inr ([ws, ''('' # vs @ ['')'']], [op])"
    using segment_loop_words [OF words(1), of "[]" "[]" "[]"] segment_loop_group [OF words(2)] assms(2,4)
      operator_not_paren [OF assms(4)]
    by (simp add: split_shell_segments_def tokens split_tokens_def)
  moreover have "grouped_subshells_from_tokens (ws @ [op @ ''(''] @ vs @ ['')'']) = []"
  proof -
    have "''('' \<notin> set (ws @ [op @ ''(''] @ vs @ ['')''])"
      using words glued_token [OF assms(4)] plain_token by auto
    then show ?thesis
      unfolding grouped_subshells_from_tokens_def by (rule subshell_loop_flat)
  qed
  moreover have "grouped_subshells_from_tokens (''('' # vs @ ['')'']) = keep_script (py_join space vs)"
    using subshell_loop_group [OF words(2)] by (simp add: grouped_subshells_from_tokens_def)
  moreover have "executable_name (grouped_after ws (op @ ''('') vs) = Some (py_lower (basename (hd ws)))"
    if "wrapper_free ws" "py_lower (basename (hd ws)) \<notin> {''python'', ''python3''}"
  proof -
    obtain w rest where w: "ws = w # rest" using assms(2) by (cases ws) auto
    with that(1) have "wrapper_free (ws @ [op @ ''(''] @ vs @ ['')''])" by (simp add: wrapper_free_def)
    with that(2) show ?thesis
      unfolding executable_name_def glued
      by (simp add: executable_name_from_tokens_def strip_wrappers_id w Let_def)
  qed
  ultimately show ?thesis by blast
qed

lemma glued_operator_hides_group_witness:
  "split_shell_segments ''ls;(rm x)'' = Inr ([[''ls'', '';('', ''rm'', ''x'', '')'']], []) \<and>
   executable_name ''ls;(rm x)'' = Some ''ls'' \<and>
   split_shell_segments ''ls|| (rm x)'' = Inr ([[''ls''], [''('', ''rm'', ''x'', '')'']], [''||''])"
proof -
  have words: "\<forall>w \<in> set [''ls''] \<union> set [''rm'', ''x'']. plain_word w"
    by (simp add: plain_word_def plain_char_def lex_whitespace_def lex_punctuation_def lex_quotes_def)
  have "'';'' \<in> set segment_operators" "''||'' \<in> set segment_operators"
    by (simp_all add: segment_operators_def)
  moreover have "wrapper_free [''ls'']" "py_lower (basename ''ls'') = ''ls''" by code_simp+
  ultimately show ?thesis
    using glued_operator_hides_group [OF words, of "'';''"] glued_operator_hides_group [OF words, of "''||''"]
    by (simp add: grouped_after_def)
qed

end
