(* ===== verification/Temporal.thy ===== *)
theory Temporal
  imports Json_Value Shell
begin

text \<open>
  \<^verbatim>\<open>ordin/temporal.py\<close>: temporal policy data with its validation and JSON forms, the compiled
  rule machines, and the evaluation of a bounded history with a current action.
\<close>

section \<open>Bounds and tables\<close>

definition temporal_schema_version :: string where
  "temporal_schema_version = ''ordin.temporal_policy_set.v1''"

definition max_history_actions :: nat where "max_history_actions = 32"
definition max_temporal_text_length :: nat where "max_temporal_text_length = 32768"
definition max_temporal_signal_length :: nat where "max_temporal_signal_length = 256"
definition max_temporal_rules :: nat where "max_temporal_rules = 128"
definition max_temporal_steps :: nat where "max_temporal_steps = 8"
definition max_step_signals :: nat where "max_step_signals = 64"
definition max_step_values :: nat where "max_step_values = 32"

definition valid_temporal_risks :: "string list" where
  "valid_temporal_risks = [''medium'', ''high'', ''critical'']"

lemmas temporal_bounds = temporal_schema_version_def max_history_actions_def
  max_temporal_text_length_def max_temporal_signal_length_def max_temporal_rules_def
  max_temporal_steps_def max_step_signals_def max_step_values_def valid_temporal_risks_def

section \<open>Shared readers\<close>

definition reject_unknown :: "payload \<Rightarrow> string list \<Rightarrow> unit res" where
  "reject_unknown p permitted =
     ensure (unknown_keys p permitted = []) (ValueError ''contains unsupported fields'')"

fun string_items :: "string list \<Rightarrow> json list \<Rightarrow> string list res" where
  "string_items acc [] = Inr acc"
| "string_items acc (j # js) =
     (case j of
        JStr s \<Rightarrow>
          if s = [] then Inl (ValueError ''items must be non-empty strings'')
          else if length s > max_temporal_signal_length
          then Inl (ValueError ''items must be at most 256 characters'')
          else string_items (if s \<in> set acc then acc else acc @ [s]) js
      | _ \<Rightarrow> Inl (ValueError ''items must be non-empty strings''))"

definition string_tuple :: "payload \<Rightarrow> string \<Rightarrow> bool \<Rightarrow> nat \<Rightarrow> string list res" where
  "string_tuple p key required maximum =
     (case jget p key of
        JNull \<Rightarrow> if required then Inl (ValueError ''is required'') else Inr []
      | JArr js \<Rightarrow>
          if length js > maximum then Inl (ValueError ''must contain at most'')
          else res_bind (string_items [] js) (\<lambda>result.
            if required \<and> result = [] then Inl (ValueError ''must contain at least one value'')
            else Inr result)
      | _ \<Rightarrow> Inl (ValueError ''must be an array''))"

section \<open>Actions and predicates\<close>

record temporal_action_evidence =
  ev_kind :: string
  ev_operation :: string
  ev_signals :: "string set"

record temporal_predicate =
  signals_any :: "string list"
  step_kinds :: "string list"
  step_operations :: "string list"

fun check_signals :: "string list \<Rightarrow> unit res" where
  "check_signals [] = Inr ()"
| "check_signals (s # ss) =
     (if s = [] then Inl (ValueError ''temporal predicate signals must be non-empty strings'')
      else if length s > max_temporal_signal_length
      then Inl (ValueError ''temporal predicate signal must be at most 256 characters'')
      else if \<not> startswith_any s [''effect:'', ''category:'', ''signal:'']
      then Inl (ValueError ''unsupported temporal signal namespace'')
      else check_signals ss)"

definition predicate_post_init :: "temporal_predicate \<Rightarrow> unit res" where
  "predicate_post_init p =
     (if signals_any p = []
      then Inl (ValueError ''temporal predicate requires at least one signal'')
      else if length (signals_any p) > max_step_signals
      then Inl (ValueError ''temporal predicate supports at most 64 signals'')
      else if length (step_kinds p) > max_step_values \<or> length (step_operations p) > max_step_values
      then Inl (ValueError ''temporal predicate supports at most 32 kind/operation values'')
      else check_signals (signals_any p))"

definition make_predicate ::
  "string list \<Rightarrow> string list \<Rightarrow> string list \<Rightarrow> temporal_predicate res" where
  "make_predicate signals kinds operations =
     (let p = \<lparr>signals_any = signals, step_kinds = kinds, step_operations = operations\<rparr>
      in res_bind (predicate_post_init p) (\<lambda>_. Inr p))"

definition predicate_from_dict :: "payload \<Rightarrow> temporal_predicate res" where
  "predicate_from_dict p =
     res_bind (reject_unknown p [''signals_any'', ''kinds'', ''operations'']) (\<lambda>_.
     res_bind (string_tuple p ''signals_any'' True max_step_signals) (\<lambda>signals.
     res_bind (string_tuple p ''kinds'' False max_step_values) (\<lambda>kinds.
     res_bind (string_tuple p ''operations'' False max_step_values) (\<lambda>operations.
       make_predicate signals kinds operations))))"

definition predicate_as_dict :: "temporal_predicate \<Rightarrow> payload" where
  "predicate_as_dict p =
     [(''signals_any'', JArr (map JStr (signals_any p)))] @
     (if step_kinds p \<noteq> [] then [(''kinds'', JArr (map JStr (step_kinds p)))] else []) @
     (if step_operations p \<noteq> []
      then [(''operations'', JArr (map JStr (step_operations p)))] else [])"

definition predicate_matches :: "temporal_predicate \<Rightarrow> temporal_action_evidence \<Rightarrow> bool" where
  "predicate_matches p a =
     (if step_kinds p \<noteq> [] \<and> ev_kind a \<notin> set (step_kinds p) then False
      else if step_operations p \<noteq> [] \<and> ev_operation a \<notin> set (step_operations p) then False
      else list_ex (\<lambda>s. s \<in> ev_signals a) (signals_any p))"

section \<open>Rules and policy sets\<close>

record temporal_rule =
  tr_id :: string
  tr_risk :: string
  tr_category :: string
  tr_within :: int
  tr_pattern :: "temporal_predicate list"
  tr_reason :: string
  tr_safer :: "string option"
  tr_enabled :: bool

definition rule_post_init :: "temporal_rule \<Rightarrow> unit res" where
  "rule_post_init r =
     (if tr_id r = [] \<or> length (tr_id r) > 128
      then Inl (ValueError ''temporal rule id must contain 1 to 128 characters'')
      else if tr_risk r \<notin> set valid_temporal_risks
      then Inl (ValueError ''unsupported temporal risk'')
      else if tr_category r = [] \<or> length (tr_category r) > 128
      then Inl (ValueError ''temporal category must contain 1 to 128 characters'')
      else if \<not> (1 \<le> tr_within r \<and> tr_within r \<le> int max_history_actions)
      then Inl (ValueError ''within_actions must be between 1 and 32'')
      else if \<not> (1 \<le> length (tr_pattern r) \<and> length (tr_pattern r) \<le> max_temporal_steps)
      then Inl (ValueError ''temporal pattern must contain 1 to 8 steps'')
      else if tr_within r < int (length (tr_pattern r))
      then Inl (ValueError ''within_actions cannot be smaller than the number of pattern steps'')
      else if tr_reason r = [] then Inl (ValueError ''temporal rule reason must be non-empty'')
      else if length (tr_reason r) > max_temporal_text_length
      then Inl (ValueError ''temporal rule reason must be at most 32768 characters'')
      else if (case tr_safer r of None \<Rightarrow> False | Some s \<Rightarrow> length s > max_temporal_text_length)
      then Inl (ValueError ''temporal safer_next_step must be at most 32768 characters'')
      else Inr ())"

definition rule_from_dict :: "payload \<Rightarrow> temporal_rule res" where
  "rule_from_dict p =
     res_bind (reject_unknown p [''id'', ''risk'', ''category'', ''within_actions'', ''pattern'',
       ''reason'', ''safer_next_step'', ''enabled'']) (\<lambda>_.
     let strings = ValueError ''temporal rule requires string id, risk, and category'' in
     res_bind (as_string (jget p ''id'') strings) (\<lambda>rule_id.
     res_bind (as_string (jget p ''risk'') strings) (\<lambda>risk.
     res_bind (as_string (jget p ''category'') strings) (\<lambda>category.
     res_bind (as_int (jget p ''within_actions'')
       (ValueError ''temporal rule within_actions must be an integer'')) (\<lambda>window.
     res_bind (as_list (jget p ''pattern'')
       (ValueError ''temporal rule pattern must be an array'')) (\<lambda>pattern_raw.
     res_bind (as_string (jget p ''reason'')
       (ValueError ''temporal rule reason must be a string'')) (\<lambda>reason.
     res_bind (as_string_option (jget p ''safer_next_step'')
       (ValueError ''temporal safer_next_step must be a string or null'')) (\<lambda>safer.
     res_bind (as_bool (jget_default p ''enabled'' (JBool True))
       (ValueError ''temporal rule enabled must be a boolean'')) (\<lambda>enabled.
     res_bind (res_mapM (\<lambda>item. res_bind (as_object item
         (ValueError ''temporal pattern steps must be JSON objects'')) predicate_from_dict)
       pattern_raw) (\<lambda>predicates.
     let r = \<lparr>tr_id = rule_id, tr_risk = risk, tr_category = category, tr_within = window,
              tr_pattern = predicates, tr_reason = reason, tr_safer = safer,
              tr_enabled = enabled\<rparr>
     in res_bind (rule_post_init r) (\<lambda>_. Inr r)))))))))))"

definition rule_as_dict :: "temporal_rule \<Rightarrow> payload" where
  "rule_as_dict r =
     [(''id'', JStr (tr_id r)), (''risk'', JStr (tr_risk r)),
      (''category'', JStr (tr_category r)), (''within_actions'', JInt (tr_within r)),
      (''pattern'', JArr (map (\<lambda>q. JObj (predicate_as_dict q)) (tr_pattern r))),
      (''reason'', JStr (tr_reason r)), (''safer_next_step'', option_json (tr_safer r))] @
     (if \<not> tr_enabled r then [(''enabled'', JBool False)] else [])"

record temporal_policy_set =
  tp_id :: string
  tp_version :: string
  tp_rules :: "temporal_rule list"
  tp_schema :: string

text \<open>The \<^verbatim>\<open>seen\<close>/\<^verbatim>\<open>duplicates\<close> loop.\<close>

fun duplicate_ids :: "string list \<Rightarrow> string list \<Rightarrow> string list \<Rightarrow> string list" where
  "duplicate_ids seen duplicates [] = duplicates"
| "duplicate_ids seen duplicates (x # xs) =
     duplicate_ids (x # seen) (if x \<in> set seen then x # duplicates else duplicates) xs"

definition policy_post_init :: "temporal_policy_set \<Rightarrow> unit res" where
  "policy_post_init s =
     (if tp_schema s \<noteq> temporal_schema_version
      then Inl (ValueError ''unsupported temporal policy schema'')
      else if tp_id s = [] \<or> length (tp_id s) > 128
      then Inl (ValueError ''temporal policy_id must contain 1 to 128 characters'')
      else if tp_version s = [] \<or> length (tp_version s) > 64
      then Inl (ValueError ''temporal policy version must contain 1 to 64 characters'')
      else if length (tp_rules s) > max_temporal_rules
      then Inl (ValueError ''temporal policy supports at most 128 rules'')
      else if duplicate_ids [] [] (map tr_id (tp_rules s)) \<noteq> []
      then Inl (ValueError ''duplicate temporal rule ids'')
      else Inr ())"

definition policy_from_dict :: "payload \<Rightarrow> temporal_policy_set res" where
  "policy_from_dict p =
     res_bind (reject_unknown p [''schema_version'', ''policy_id'', ''version'', ''rules'']) (\<lambda>_.
     if jget p ''schema_version'' \<noteq> JStr temporal_schema_version
     then Inl (ValueError ''unsupported temporal policy schema'')
     else
     let strings = ValueError ''temporal policy set requires string policy_id and version'' in
     res_bind (as_string (jget p ''policy_id'') strings) (\<lambda>policy_id.
     res_bind (as_string (jget p ''version'') strings) (\<lambda>version.
     res_bind (as_list (jget p ''rules'')
       (ValueError ''temporal policy rules must be an array'')) (\<lambda>rules_raw.
     res_bind (res_mapM (\<lambda>item. res_bind (as_object item
         (ValueError ''temporal rules must be JSON objects'')) rule_from_dict) rules_raw) (\<lambda>rules.
     let s = \<lparr>tp_id = policy_id, tp_version = version, tp_rules = rules,
              tp_schema = temporal_schema_version\<rparr>
     in res_bind (policy_post_init s) (\<lambda>_. Inr s))))))"

definition policy_as_dict :: "temporal_policy_set \<Rightarrow> payload" where
  "policy_as_dict s =
     [(''schema_version'', JStr (tp_schema s)), (''policy_id'', JStr (tp_id s)),
      (''version'', JStr (tp_version s)),
      (''rules'', JArr (map (\<lambda>r. JObj (rule_as_dict r)) (tp_rules s)))]"

section \<open>Rule machines\<close>

record temporal_match =
  tm_rule_id :: string
  tm_risk :: string
  tm_category :: string
  tm_reason :: string
  tm_safer :: "string option"
  tm_indices :: "nat list"

record machine_state =
  next_step :: nat
  start_index :: nat
  matched_indices :: "nat list"

definition match_of_rule :: "temporal_rule \<Rightarrow> nat list \<Rightarrow> temporal_match" where
  "match_of_rule r indices =
     \<lparr>tm_rule_id = tr_id r, tm_risk = tr_risk r, tm_category = tr_category r,
      tm_reason = tr_reason r, tm_safer = tr_safer r, tm_indices = indices\<rparr>"

text \<open>
  The inner loop over the live states at one action: the left result is the \<^verbatim>\<open>return\<close> of a match
  out of the loop, the right one the next states; \<^verbatim>\<open>pattern[state.next_step]\<close> raises out of range.
\<close>

fun advance_states ::
  "temporal_rule \<Rightarrow> nat \<Rightarrow> nat \<Rightarrow> temporal_action_evidence \<Rightarrow> machine_state list
     \<Rightarrow> machine_state list \<Rightarrow> (temporal_match + machine_state list) res"
where
  "advance_states r final_index index a next_states [] = Inr (Inr next_states)"
| "advance_states r final_index index a next_states (st # states) =
     (if int index - int (start_index st) + 1 > tr_within r
      then advance_states r final_index index a next_states states
      else if next_step st \<ge> length (tr_pattern r) then Inl IndexError
      else if predicate_matches (tr_pattern r ! next_step st) a then
        (let matched = matched_indices st @ [index]; step = next_step st + 1
         in if step = length (tr_pattern r) then
              (if index = final_index then Inr (Inl (match_of_rule r matched))
               else advance_states r final_index index a next_states states)
            else advance_states r final_index index a
              (next_states @ [\<lparr>next_step = step, start_index = start_index st,
                              matched_indices = matched\<rparr>]) states)
      else advance_states r final_index index a (next_states @ [st]) states)"

text \<open>\<^verbatim>\<open>next_states[-within:]\<close> for any integer \<^verbatim>\<open>within\<close>.\<close>

definition slice_from_end :: "int \<Rightarrow> 'a list \<Rightarrow> 'a list" where
  "slice_from_end w xs = (if w \<le> 0 then drop (nat (- w)) xs else drop (length xs - nat w) xs)"

fun evaluate_from ::
  "temporal_rule \<Rightarrow> nat \<Rightarrow> nat \<Rightarrow> machine_state list \<Rightarrow> temporal_action_evidence list
     \<Rightarrow> temporal_match option res"
where
  "evaluate_from r final_index index states [] = Inr None"
| "evaluate_from r final_index index states (a # actions) =
     res_bind (advance_states r final_index index a [] states) (\<lambda>outcome.
       case outcome of
         Inl m \<Rightarrow> Inr (Some m)
       | Inr next_states \<Rightarrow>
           (case tr_pattern r of
              [] \<Rightarrow> Inl IndexError
            | first # _ \<Rightarrow>
                if predicate_matches first a then
                  (if length (tr_pattern r) = 1 then
                     (if index = final_index then Inr (Some (match_of_rule r [index]))
                      else evaluate_from r final_index (Suc index)
                        (slice_from_end (tr_within r) next_states) actions)
                   else evaluate_from r final_index (Suc index)
                     (slice_from_end (tr_within r)
                       (next_states @ [\<lparr>next_step = 1, start_index = index,
                                        matched_indices = [index]\<rparr>])) actions)
                else evaluate_from r final_index (Suc index)
                  (slice_from_end (tr_within r) next_states) actions))"

definition evaluate_rule ::
  "temporal_rule \<Rightarrow> temporal_action_evidence list \<Rightarrow> temporal_match option res" where
  "evaluate_rule r actions =
     (if actions = [] then Inr None
      else evaluate_from r (length actions - 1) 0 [] actions)"

definition compile_temporal_policy :: "temporal_policy_set \<Rightarrow> temporal_rule list" where
  "compile_temporal_policy s = filter tr_enabled (tp_rules s)"

record temporal_evaluation =
  te_history_length :: nat
  te_matches :: "temporal_match list"

definition evaluate_policy ::
  "temporal_rule list \<Rightarrow> temporal_action_evidence list \<Rightarrow> temporal_action_evidence
     \<Rightarrow> temporal_evaluation res" where
  "evaluate_policy rules prior current =
     (let bounded_prior = py_last max_history_actions prior;
          actions = bounded_prior @ [current]
      in res_bind (res_mapM (\<lambda>r. evaluate_rule r actions) rules) (\<lambda>results.
           Inr \<lparr>te_history_length = length bounded_prior,
                te_matches = List.map_filter id results\<rparr>))"

section \<open>Evaluation summaries\<close>

definition risk_order :: "string \<Rightarrow> nat option" where
  "risk_order r =
     (if r = ''unknown'' then Some 0 else if r = ''low'' then Some 1
      else if r = ''medium'' then Some 2 else if r = ''high'' then Some 3
      else if r = ''critical'' then Some 4 else None)"

text \<open>\<^verbatim>\<open>max(..., key=...)\<close> keeps the first of the greatest; an unknown risk is a \<^verbatim>\<open>KeyError\<close>.\<close>

fun max_risk_from :: "string \<Rightarrow> nat \<Rightarrow> string list \<Rightarrow> string res" where
  "max_risk_from best key [] = Inr best"
| "max_risk_from best key (r # rs) =
     (case risk_order r of
        None \<Rightarrow> Inl (KeyError r)
      | Some k \<Rightarrow> if k > key then max_risk_from r k rs else max_risk_from best key rs)"

definition evaluation_risk :: "temporal_evaluation \<Rightarrow> string option res" where
  "evaluation_risk e =
     (case map tm_risk (te_matches e) of
        [] \<Rightarrow> Inr None
      | r # rs \<Rightarrow>
          (case risk_order r of
             None \<Rightarrow> Inl (KeyError r)
           | Some k \<Rightarrow> res_bind (max_risk_from r k rs) (\<lambda>best. Inr (Some best))))"

definition evaluation_categories :: "temporal_evaluation \<Rightarrow> string list" where
  "evaluation_categories e = sort (remdups (map tm_category (te_matches e)))"

definition path_prefixes :: "string list" where
  "path_prefixes = [''./'', ''../'', ''/'', ''~/'']"

definition looks_like_path_execution :: "string \<Rightarrow> bool" where
  "looks_like_path_execution command =
     (case split_shell_segments command of
        Inl e \<Rightarrow> False
      | Inr (segments, operators) \<Rightarrow>
          (case segments of
             [] \<Rightarrow> False
           | tokens # _ \<Rightarrow>
               if (case executable_name_from_tokens tokens of
                     None \<Rightarrow> False | Some e \<Rightarrow> e \<in> set shell_executables) \<and> length tokens > 1
               then startswith_any (last tokens) path_prefixes
               else (case tokens of
                   [] \<Rightarrow> False | candidate # _ \<Rightarrow> startswith_any candidate path_prefixes)))"

section \<open>Reference semantics of a rule\<close>

text \<open>
  \<open>follow ps i m acts\<close> follows one start through the remaining actions, taking each step at the
  first action that matches it; it yields the matched indices exactly when the last step is taken
  by the last action. \<open>follow_from\<close> is that for the start at index \<open>i\<close>, inside the window.
\<close>

fun follow ::
  "temporal_predicate list \<Rightarrow> nat \<Rightarrow> nat list \<Rightarrow> temporal_action_evidence list \<Rightarrow> nat list option"
where
  "follow [] i m acts = None"
| "follow (p # ps) i m [] = None"
| "follow (p # ps) i m (a # acts) =
     (if predicate_matches p a then
        (if ps = [] then (if acts = [] then Some (m @ [i]) else None)
         else follow ps (Suc i) (m @ [i]) acts)
      else follow (p # ps) (Suc i) m acts)"

definition follow_from ::
  "temporal_rule \<Rightarrow> temporal_action_evidence list \<Rightarrow> nat \<Rightarrow> nat list option" where
  "follow_from r acts i =
     (if i < length acts \<and> int (length acts - i) \<le> tr_within r \<and> tr_pattern r \<noteq> [] \<and>
         predicate_matches (hd (tr_pattern r)) (acts ! i)
      then follow (tr_pattern r) i [] (drop i acts) else None)"

fun first_some :: "('a \<Rightarrow> 'b option) \<Rightarrow> 'a list \<Rightarrow> 'b option" where
  "first_some f [] = None"
| "first_some f (x # xs) = (case f x of None \<Rightarrow> first_some f xs | Some y \<Rightarrow> Some y)"

definition rule_spec ::
  "temporal_rule \<Rightarrow> temporal_action_evidence list \<Rightarrow> temporal_match option" where
  "rule_spec r acts =
     map_option (match_of_rule r) (first_some (follow_from r acts) [0..<length acts])"

lemma first_some_append:
  "first_some f (xs @ ys) =
     (case first_some f xs of None \<Rightarrow> first_some f ys | Some y \<Rightarrow> Some y)"
  by (induction xs) (auto split: option.splits)

lemma first_some_cong: "(\<And>x. x \<in> set xs \<Longrightarrow> f x = g x) \<Longrightarrow> first_some f xs = first_some g xs"
  by (induction xs) (auto split: option.splits)

lemma first_some_Some: "first_some f xs = Some y \<Longrightarrow> \<exists>x \<in> set xs. f x = Some y"
  by (induction xs) (auto split: option.splits)

lemma first_some_None_iff: "first_some f xs = None \<longleftrightarrow> (\<forall>x \<in> set xs. f x = None)"
  by (induction xs) (auto split: option.splits)

section \<open>Lemmas: the machine implements the reference semantics\<close>

definition state_ok :: "temporal_rule \<Rightarrow> nat \<Rightarrow> machine_state \<Rightarrow> bool" where
  "state_ok r index st = (0 < next_step st \<and> next_step st < length (tr_pattern r) \<and>
     start_index st < index \<and> int index - int (start_index st) \<le> tr_within r)"

definition states_ok :: "temporal_rule \<Rightarrow> nat \<Rightarrow> machine_state list \<Rightarrow> bool" where
  "states_ok r index states =
     ((\<forall>st \<in> set states. state_ok r index st) \<and> sorted_wrt (<) (map start_index states))"

text \<open>What a live state at \<open>index\<close> will yield on the remaining actions.\<close>

definition state_result ::
  "temporal_rule \<Rightarrow> nat \<Rightarrow> temporal_action_evidence list \<Rightarrow> machine_state \<Rightarrow> nat list option" where
  "state_result r index acts st =
     (if int (index + length acts) - int (start_index st) \<le> tr_within r
      then follow (drop (next_step st) (tr_pattern r)) index (matched_indices st) acts else None)"

lemma drop_pattern: "n < length ps \<Longrightarrow> drop n ps = ps ! n # drop (Suc n) ps"
  by (rule Cons_nth_drop_Suc [symmetric])

text \<open>At the last action the loop returns the first completed start.\<close>

lemma advance_states_last:
  assumes "\<forall>st \<in> set states. state_ok r index st" and "final_index = index"
  shows "(case first_some (state_result r index [a]) states of
      None \<Rightarrow> \<exists>next. advance_states r final_index index a acc states = Inr (Inr next)
    | Some m \<Rightarrow> advance_states r final_index index a acc states = Inr (Inl (match_of_rule r m)))"
  using assms
proof (induction states arbitrary: acc)
  case (Cons st states)
  have ok: "next_step st < length (tr_pattern r)" "start_index st < index"
    using Cons.prems by (auto simp: state_ok_def)
  show ?case
  proof (cases "int index - int (start_index st) + 1 > tr_within r")
    case True
    then have "state_result r index [a] st = None"
      by (simp add: state_result_def)
    with True Cons show ?thesis by (auto split: option.splits)
  next
    case False
    then have res: "state_result r index [a] st =
        follow (tr_pattern r ! next_step st # drop (Suc (next_step st)) (tr_pattern r))
          index (matched_indices st) [a]"
      using drop_pattern [OF ok(1)] by (simp add: state_result_def)
    show ?thesis
    proof (cases "predicate_matches (tr_pattern r ! next_step st) a \<and>
        Suc (next_step st) = length (tr_pattern r)")
      case True
      with False ok res Cons.prems show ?thesis by (auto simp: Let_def)
    next
      case nomatch: False
      have "follow ps i m [] = None" for ps i m
        by (cases ps) simp_all
      with nomatch ok res have "state_result r index [a] st = None"
        by (auto simp: not_less_eq)
      with nomatch False ok Cons show ?thesis
        by (auto simp: Let_def split: option.splits)
    qed
  qed
qed simp

text \<open>At any other action every live state goes on with the same result.\<close>

lemma advance_states_next:
  assumes "\<forall>st \<in> set states. state_ok r index st" and "sorted_wrt (<) (map start_index states)"
    and "index \<noteq> final_index" and "acts \<noteq> []"
  shows "\<exists>next. advance_states r final_index index a acc states = Inr (Inr (acc @ next)) \<and>
    (\<forall>st \<in> set next. state_ok r (Suc index) st) \<and> sorted_wrt (<) (map start_index next) \<and>
    set (map start_index next) \<subseteq> set (map start_index states) \<and>
    first_some (state_result r (Suc index) acts) next =
      first_some (state_result r index (a # acts)) states"
  using assms
proof (induction states arbitrary: acc)
  case Nil
  then show ?case by simp
next
  case (Cons st states)
  have ok: "0 < next_step st" "next_step st < length (tr_pattern r)" "start_index st < index"
    using Cons.prems by (auto simp: state_ok_def)
  have IH: "\<exists>next. advance_states r final_index index a acc' states = Inr (Inr (acc' @ next)) \<and>
    (\<forall>st \<in> set next. state_ok r (Suc index) st) \<and> sorted_wrt (<) (map start_index next) \<and>
    set (map start_index next) \<subseteq> set (map start_index states) \<and>
    first_some (state_result r (Suc index) acts) next =
      first_some (state_result r index (a # acts)) states" for acc'
    using Cons by simp
  show ?case
  proof (cases "int index - int (start_index st) + 1 > tr_within r")
    case True
    then have "state_result r index (a # acts) st = None"
      by (simp add: state_result_def)
    with True IH [of acc] show ?thesis by fastforce
  next
    case False
    let ?more = "drop (Suc (next_step st)) (tr_pattern r)"
    have res: "state_result r index (a # acts) st =
        (if int (index + length (a # acts)) - int (start_index st) \<le> tr_within r
         then follow (tr_pattern r ! next_step st # ?more) index (matched_indices st) (a # acts)
         else None)"
      using drop_pattern [OF ok(2)] by (simp add: state_result_def)
    consider
      (finish) "predicate_matches (tr_pattern r ! next_step st) a"
        "Suc (next_step st) = length (tr_pattern r)"
    | (move) "predicate_matches (tr_pattern r ! next_step st) a"
        "Suc (next_step st) < length (tr_pattern r)"
    | (stay) "\<not> predicate_matches (tr_pattern r ! next_step st) a"
      using ok(2) by linarith
    then show ?thesis
    proof cases
      case finish
      then have "state_result r index (a # acts) st = None"
        using res Cons.prems(4) by simp
      with finish False ok IH [of acc] Cons.prems(3) show ?thesis by fastforce
    next
      case move
      define st' where "st' = \<lparr>next_step = next_step st + 1, start_index = start_index st,
        matched_indices = matched_indices st @ [index]\<rparr>"
      have "state_result r index (a # acts) st = state_result r (Suc index) acts st'"
        using move res by (simp add: state_result_def st'_def)
      moreover have "state_ok r (Suc index) st'"
        using move False ok by (simp add: state_ok_def st'_def)
      moreover have "start_index st' = start_index st"
        by (simp add: st'_def)
      moreover obtain nxt where
        "advance_states r final_index index a (acc @ [st']) states = Inr (Inr ((acc @ [st']) @ nxt))"
        "\<forall>st \<in> set nxt. state_ok r (Suc index) st" "sorted_wrt (<) (map start_index nxt)"
        "set (map start_index nxt) \<subseteq> set (map start_index states)"
        "first_some (state_result r (Suc index) acts) nxt =
          first_some (state_result r index (a # acts)) states"
        using IH by blast
      moreover have "advance_states r final_index index a acc (st # states) =
          advance_states r final_index index a (acc @ [st']) states"
        using move False ok by (simp add: Let_def st'_def)
      ultimately show ?thesis
        using Cons.prems(2) by (intro exI [of _ "st' # nxt"]) (auto split: option.splits)
    next
      case stay
      have "state_result r index (a # acts) st = state_result r (Suc index) acts st"
        using stay res drop_pattern [OF ok(2)] by (simp add: state_result_def)
      moreover have "state_ok r (Suc index) st"
        using False ok by (simp add: state_ok_def)
      moreover obtain nxt where
        "advance_states r final_index index a (acc @ [st]) states = Inr (Inr ((acc @ [st]) @ nxt))"
        "\<forall>st \<in> set nxt. state_ok r (Suc index) st" "sorted_wrt (<) (map start_index nxt)"
        "set (map start_index nxt) \<subseteq> set (map start_index states)"
        "first_some (state_result r (Suc index) acts) nxt =
          first_some (state_result r index (a # acts)) states"
        using IH by blast
      moreover have "advance_states r final_index index a acc (st # states) =
          advance_states r final_index index a (acc @ [st]) states"
        using stay False ok by (simp add: Let_def)
      ultimately show ?thesis
        using Cons.prems(2) by (intro exI [of _ "st # nxt"]) (auto split: option.splits)
    qed
  qed
qed

text \<open>The window bounds the live states, so cutting the list to the window drops none.\<close>

lemma states_ok_length:
  assumes "states_ok r index states" and "1 \<le> tr_within r"
  shows "int (length states) \<le> tr_within r"
proof -
  let ?starts = "map (int \<circ> start_index) states"
  have "sorted_wrt (<) ?starts"
    using assms(1) by (simp add: states_ok_def sorted_wrt_map)
  then have "distinct ?starts"
    by (simp add: strict_sorted_iff)
  moreover have "set ?starts \<subseteq> {int index - tr_within r ..< int index}"
    using assms(1) by (auto simp: states_ok_def state_ok_def)
  ultimately have "length ?starts \<le> card {int index - tr_within r ..< int index}"
    by (metis card_mono distinct_card finite_atLeastLessThan_int)
  then show ?thesis
    using assms(2) by simp
qed

lemma slice_from_end_id:
  assumes "int (length xs) \<le> w" and "1 \<le> w"
  shows "slice_from_end w xs = xs"
  using assms by (simp add: slice_from_end_def)

text \<open>What the start at the \<open>k\<close>-th remaining action will yield.\<close>

definition start_result ::
  "temporal_rule \<Rightarrow> nat \<Rightarrow> temporal_action_evidence list \<Rightarrow> nat \<Rightarrow> nat list option" where
  "start_result r index acts k =
     (if int (length acts - k) \<le> tr_within r \<and> predicate_matches (hd (tr_pattern r)) (acts ! k)
      then follow (tr_pattern r) (index + k) [] (drop k acts) else None)"

lemma start_result_Suc: "start_result r index (a # acts) (Suc k) = start_result r (Suc index) acts k"
  by (simp add: start_result_def)

lemma first_some_map_Suc: "first_some f (map Suc xs) = first_some (f \<circ> Suc) xs"
  by (induction xs) (auto split: option.splits)

lemma first_some_starts:
  "first_some (start_result r index (a # acts)) [0..<Suc (length acts)] =
    (case start_result r index (a # acts) 0 of
       None \<Rightarrow> first_some (start_result r (Suc index) acts) [0..<length acts]
     | Some m \<Rightarrow> Some m)"
proof -
  have "[0..<Suc (length acts)] = 0 # map Suc [0..<length acts]"
    by (simp add: upt_conv_Cons map_Suc_upt del: upt_Suc)
  moreover have "start_result r index (a # acts) \<circ> Suc = start_result r (Suc index) acts"
    by (rule ext) (simp add: start_result_Suc)
  ultimately show ?thesis by (simp add: first_some_map_Suc del: upt_Suc split: option.splits)
qed

definition pending ::
  "temporal_rule \<Rightarrow> nat \<Rightarrow> machine_state list \<Rightarrow> temporal_action_evidence list \<Rightarrow> nat list option"
where
  "pending r index states acts =
     (case first_some (state_result r index acts) states of
        None \<Rightarrow> first_some (start_result r index acts) [0..<length acts]
      | Some m \<Rightarrow> Some m)"

lemma start_state_result:
  assumes "tr_pattern r = p # q # ps" and "predicate_matches p a"
  shows "state_result r (Suc index) acts
      \<lparr>next_step = 1, start_index = index, matched_indices = [index]\<rparr> =
    start_result r index (a # acts) 0"
  using assms by (simp add: state_result_def start_result_def)

lemma evaluate_from_pending:
  assumes "states_ok r index states" and "tr_pattern r \<noteq> []" and "1 \<le> tr_within r"
    and "acts \<noteq> []" and "final_index = index + length acts - 1"
  shows "evaluate_from r final_index index states acts =
    Inr (map_option (match_of_rule r) (pending r index states acts))"
  using assms
proof (induction acts arbitrary: index states)
  case (Cons a acts)
  obtain p ps where pat: "tr_pattern r = p # ps"
    using Cons.prems(2) by (cases "tr_pattern r") auto
  have states: "\<forall>st \<in> set states. state_ok r index st" "sorted_wrt (<) (map start_index states)"
    using Cons.prems(1) by (auto simp: states_ok_def)
  show ?case
  proof (cases "acts = []")
    case True
    then have final: "final_index = index"
      using Cons.prems(5) by simp
    have start0: "start_result r index [a] 0 =
        (if predicate_matches p a \<and> ps = [] then Some [index] else None)"
      using pat Cons.prems(3) by (cases ps) (auto simp: start_result_def)
    show ?thesis
      using advance_states_last [OF states(1) final, of a "[]"] start0 pat final True
      by (auto simp: pending_def split: option.splits)
  next
    case False
    then have "index \<noteq> final_index" "final_index = Suc index + length acts - 1"
      using Cons.prems(5) by (cases acts; simp)+
    then obtain nxt where nxt: "advance_states r final_index index a [] states = Inr (Inr nxt)"
        "\<forall>st \<in> set nxt. state_ok r (Suc index) st" "sorted_wrt (<) (map start_index nxt)"
        "set (map start_index nxt) \<subseteq> set (map start_index states)"
        "first_some (state_result r (Suc index) acts) nxt =
          first_some (state_result r index (a # acts)) states"
      using advance_states_next [OF states _ False, of final_index a "[]"] by auto
    have below: "start_index st < index" if "st \<in> set nxt" for st
      using nxt(4) states(1) that by (fastforce simp: state_ok_def)
    have IH: "evaluate_from r final_index (Suc index) sts acts =
        Inr (map_option (match_of_rule r) (pending r (Suc index) sts acts))"
      if "states_ok r (Suc index) sts" for sts
      using Cons.IH [OF that] Cons.prems(2,3) False \<open>final_index = Suc index + length acts - 1\<close>
      by simp
    have cut: "slice_from_end (tr_within r) sts = sts" if "states_ok r (Suc index) sts" for sts
      using states_ok_length [OF that] Cons.prems(3) by (simp add: slice_from_end_id)
    have ok_nxt: "states_ok r (Suc index) nxt"
      using nxt(2,3) by (simp add: states_ok_def)
    show ?thesis
    proof (cases "predicate_matches p a \<and> ps \<noteq> []")
      case True
      then obtain q qs where ps: "ps = q # qs" by (cases ps) auto
      let ?new = "\<lparr>next_step = 1, start_index = index, matched_indices = [index]\<rparr>"
      have ok: "states_ok r (Suc index) (nxt @ [?new])"
        using nxt(2,3) below True pat ps Cons.prems(3)
        by (auto simp: states_ok_def state_ok_def sorted_wrt_append)
      have "pending r (Suc index) (nxt @ [?new]) acts = pending r index states (a # acts)"
        using start_state_result [of r p q qs a index acts] True pat ps nxt(5)
        by (simp add: pending_def first_some_append first_some_starts del: upt_Suc
            split: option.splits)
      with IH [OF ok] cut [OF ok] True pat ps nxt(1) show ?thesis by simp
    next
      case other: False
      have "start_result r index (a # acts) 0 = None"
        using other pat False by (auto simp: start_result_def)
      then have "pending r (Suc index) nxt acts = pending r index states (a # acts)"
        using nxt(5) by (simp add: pending_def first_some_starts del: upt_Suc split: option.splits)
      with IH [OF ok_nxt] cut [OF ok_nxt] other pat nxt(1) \<open>index \<noteq> final_index\<close> show ?thesis
        by auto
    qed
  qed
qed simp

lemma evaluate_rule_spec:
  assumes "tr_pattern r \<noteq> []" and "1 \<le> tr_within r"
  shows "evaluate_rule r acts = Inr (rule_spec r acts)"
proof (cases "acts = []")
  case True
  then show ?thesis by (simp add: evaluate_rule_def rule_spec_def)
next
  case False
  have "evaluate_from r (length acts - 1) 0 [] acts =
      Inr (map_option (match_of_rule r) (pending r 0 [] acts))"
    by (rule evaluate_from_pending) (use assms False in \<open>simp_all add: states_ok_def\<close>)
  moreover have "pending r 0 [] acts = first_some (follow_from r acts) [0..<length acts]"
    unfolding pending_def
    by (simp, rule first_some_cong) (use assms in \<open>simp add: start_result_def follow_from_def\<close>)
  ultimately show ?thesis
    using False by (simp add: evaluate_rule_def rule_spec_def)
qed

section \<open>Lemmas: what a match is\<close>

text \<open>A followed start extends its indices by one strictly increasing index per step.\<close>

lemma follow_sound:
  assumes "follow ps i m acts = Some ks"
  shows "\<exists>js. ks = m @ js \<and> length js = length ps \<and> js \<noteq> [] \<and> sorted_wrt (<) js \<and>
    list_all2 (\<lambda>q k. i \<le> k \<and> k < i + length acts \<and> predicate_matches q (acts ! (k - i))) ps js \<and>
    last js = i + length acts - 1"
  using assms
proof (induction ps i m acts rule: follow.induct)
  case (3 p ps i m a acts)
  let ?P = "\<lambda>q k. Suc i \<le> k \<and> k < Suc i + length acts \<and> predicate_matches q (acts ! (k - Suc i))"
  let ?Q = "\<lambda>q k. i \<le> k \<and> k < i + length (a # acts) \<and> predicate_matches q ((a # acts) ! (k - i))"
  have lift: "list_all2 ?Q qs js" if "list_all2 ?P qs js" for qs js
    using that by (rule list_all2_mono) (auto simp: nth_Cons' dest!: Suc_le_lessD)
  have low: "list_all2 ?P qs js \<Longrightarrow> \<forall>k \<in> set js. i < k" for qs js
    by (induction qs js rule: list_all2_induct) auto
  consider (finish) "predicate_matches p a" "ps = []" "acts = []" "ks = m @ [i]"
    | (step) "predicate_matches p a" "ps \<noteq> []" "follow ps (Suc i) (m @ [i]) acts = Some ks"
    | (stay) "\<not> predicate_matches p a" "follow (p # ps) (Suc i) m acts = Some ks"
    using 3(3) by (auto split: if_splits)
  then show ?case
  proof cases
    case finish
    then show ?thesis by simp
  next
    case step
    then obtain js where js: "ks = (m @ [i]) @ js" "length js = length ps" "js \<noteq> []"
        "sorted_wrt (<) js" "list_all2 ?P ps js" "last js = Suc i + length acts - 1"
      using 3(1) by blast
    have "list_all2 ?Q (p # ps) (i # js)"
      using lift [OF js(5)] step(1) by simp
    then show ?thesis
      using js low [OF js(5)] by (intro exI [of _ "i # js"]) simp
  next
    case stay
    then obtain js where js: "ks = m @ js" "length js = length (p # ps)" "js \<noteq> []"
        "sorted_wrt (<) js" "list_all2 ?P (p # ps) js" "last js = Suc i + length acts - 1"
      using 3(2) by blast
    then show ?thesis
      using lift [OF js(5)] by (intro exI [of _ js]) simp
  qed
qed simp_all

lemma rule_post_init_bounds:
  assumes "rule_post_init r = Inr u"
  shows "1 \<le> tr_within r" "tr_within r \<le> 32" "tr_pattern r \<noteq> []"
    "int (length (tr_pattern r)) \<le> tr_within r" "length (tr_pattern r) \<le> 8"
  using assms by (auto simp: rule_post_init_def temporal_bounds split: if_splits)

lemma follow_head:
  assumes "follow (p # ps) i [] (a # acts) = Some ks" and "predicate_matches p a"
  shows "hd ks = i"
proof (cases "ps = []")
  case True
  with assms show ?thesis by (auto split: if_splits)
next
  case False
  with assms have "follow ps (Suc i) [i] acts = Some ks" by simp
  from follow_sound [OF this] show ?thesis by auto
qed

lemma follow_from_sound:
  assumes "follow_from r acts i = Some ks"
  shows "length ks = length (tr_pattern r)" "sorted_wrt (<) ks" "ks \<noteq> []"
    "last ks = length acts - 1" "int (length acts - hd ks) \<le> tr_within r"
    "list_all2 (\<lambda>q k. k < length acts \<and> predicate_matches q (acts ! k)) (tr_pattern r) ks"
proof -
  obtain p ps where pat: "tr_pattern r = p # ps"
    using assms by (cases "tr_pattern r") (auto simp: follow_from_def)
  have i: "i < length acts" "int (length acts - i) \<le> tr_within r" "predicate_matches p (acts ! i)"
    and run: "follow (p # ps) i [] (drop i acts) = Some ks"
    using assms pat by (auto simp: follow_from_def split: if_splits)
  from follow_sound [OF run]
  have js: "length ks = length (p # ps)" "ks \<noteq> []" "sorted_wrt (<) ks"
      "last ks = i + length (drop i acts) - 1"
      "list_all2 (\<lambda>q k. i \<le> k \<and> k < i + length (drop i acts) \<and>
         predicate_matches q (drop i acts ! (k - i))) (p # ps) ks"
    by auto
  have "drop i acts = acts ! i # drop (Suc i) acts"
    using i(1) by (simp add: Cons_nth_drop_Suc)
  then have "hd ks = i"
    using follow_head run i(3) by metis
  then show "int (length acts - hd ks) \<le> tr_within r"
    using i(2) by simp
  show "list_all2 (\<lambda>q k. k < length acts \<and> predicate_matches q (acts ! k)) (tr_pattern r) ks"
    unfolding pat using js(5) by (rule list_all2_mono) (use i(1) in auto)
  show "length ks = length (tr_pattern r)" "sorted_wrt (<) ks" "ks \<noteq> []"
      "last ks = length acts - 1"
    using js pat i(1) by simp_all
qed

lemma rule_spec_sound:
  assumes "rule_spec r acts = Some m"
  shows "\<exists>ks. m = match_of_rule r ks \<and> (\<exists>i < length acts. follow_from r acts i = Some ks)"
  using assms by (fastforce simp: rule_spec_def dest: first_some_Some)

section \<open>Occurrences of a rule\<close>

text \<open>
  An occurrence of a rule, without the machine: one action per step, in increasing order, each
  satisfying its step. A start is completed first by the last action when it has an occurrence
  that ends there, inside the window, and none that ends earlier.
\<close>

definition steps_at :: "temporal_predicate list \<Rightarrow> nat \<Rightarrow> temporal_action_evidence list \<Rightarrow> nat list \<Rightarrow> bool" where
  "steps_at ps i acts ks = (sorted_wrt (<) ks \<and>
     list_all2 (\<lambda>q k. i \<le> k \<and> k < i + length acts \<and> predicate_matches q (acts ! (k - i))) ps ks)"

definition occurrence :: "temporal_rule \<Rightarrow> temporal_action_evidence list \<Rightarrow> nat list \<Rightarrow> bool" where
  "occurrence r acts ks = (sorted_wrt (<) ks \<and>
     list_all2 (\<lambda>q k. k < length acts \<and> predicate_matches q (acts ! k)) (tr_pattern r) ks)"

definition first_completion :: "temporal_rule \<Rightarrow> temporal_action_evidence list \<Rightarrow> nat \<Rightarrow> bool" where
  "first_completion r acts i = (int (length acts - i) \<le> tr_within r \<and>
     (\<exists>ks. occurrence r acts ks \<and> hd ks = i \<and> last ks = length acts - 1) \<and>
     \<not> (\<exists>ks. occurrence r acts ks \<and> hd ks = i \<and> last ks < length acts - 1))"

lemma steps_at_Nil [simp]: "steps_at [] i acts ks \<longleftrightarrow> ks = []"
  by (auto simp: steps_at_def)

lemma steps_at_Cons:
  "steps_at (p # ps) i acts ks \<longleftrightarrow> (\<exists>k js. ks = k # js \<and> i \<le> k \<and> k < i + length acts \<and>
     predicate_matches p (acts ! (k - i)) \<and> (\<forall>j \<in> set js. k < j) \<and> steps_at ps i acts js)"
  by (auto simp: steps_at_def list_all2_Cons1)

lemma steps_at_bounds: "steps_at ps i acts ks \<Longrightarrow> k \<in> set ks \<Longrightarrow> i \<le> k \<and> k < i + length acts"
  by (induction ps arbitrary: ks) (auto simp: steps_at_Cons)

lemma steps_at_shift:
  assumes "\<forall>k \<in> set ks. i < k"
  shows "steps_at ps i (a # acts) ks \<longleftrightarrow> steps_at ps (Suc i) acts ks"
  using assms
proof (induction ps arbitrary: ks)
  case (Cons p ps)
  show ?case
  proof (cases ks)
    case ks: (Cons k js)
    with Cons.prems have "i < k" "k - i = Suc (k - Suc i)" by auto
    then show ?thesis
      using Cons.IH [of js] Cons.prems ks by (auto simp: steps_at_Cons)
  qed (simp add: steps_at_Cons)
qed simp

lemma steps_at_skip:
  assumes "\<not> predicate_matches p a"
  shows "steps_at (p # ps) i (a # acts) ks \<longleftrightarrow> steps_at (p # ps) (Suc i) acts ks"
proof -
  have "\<forall>k \<in> set ks. i < k" if "steps_at (p # ps) i (a # acts) ks"
  proof -
    from that obtain k js where k: "ks = k # js" "i \<le> k" "predicate_matches p ((a # acts) ! (k - i))" "\<forall>j \<in> set js. k < j"
      by (auto simp: steps_at_Cons)
    with assms have "k \<noteq> i" by auto
    with k show ?thesis by auto
  qed
  moreover have "\<forall>k \<in> set ks. i < k" if "steps_at (p # ps) (Suc i) acts ks"
    using steps_at_bounds [OF that] by (simp add: Suc_le_eq)
  ultimately show ?thesis using steps_at_shift by blast
qed

text \<open>Taking the first step at once loses no occurrence of the others.\<close>

lemma steps_at_tail:
  assumes "steps_at (p # ps) i (a # acts) ks" "ps \<noteq> []"
  shows "steps_at ps (Suc i) acts (tl ks) \<and> last (tl ks) = last ks"
proof -
  from assms(1) obtain k js where js: "ks = k # js" "i \<le> k" "\<forall>j \<in> set js. k < j" "steps_at ps i (a # acts) js"
    by (auto simp: steps_at_Cons)
  then have "steps_at ps (Suc i) acts js"
    using steps_at_shift [of js i ps a acts] by fastforce
  moreover from this assms(2) have "js \<noteq> []"
    by (auto simp: steps_at_def)
  ultimately show ?thesis by (simp add: js(1))
qed

lemma steps_at_head:
  assumes "predicate_matches p a" "ps \<noteq> []" "steps_at ps (Suc i) acts js"
  shows "steps_at (p # ps) i (a # acts) (i # js) \<and> last (i # js) = last js"
proof -
  have above: "\<forall>j \<in> set js. i < j" using steps_at_bounds [OF assms(3)] by fastforce
  have "js \<noteq> []" using assms(2,3) by (auto simp: steps_at_def)
  then show ?thesis
    using assms(1,3) above steps_at_shift [OF above] by (simp add: steps_at_Cons)
qed

lemma steps_at_take:
  assumes "predicate_matches p a" "ps \<noteq> []"
  shows "(\<exists>ks. steps_at (p # ps) i (a # acts) ks \<and> P (last ks)) \<longleftrightarrow> (\<exists>js. steps_at ps (Suc i) acts js \<and> P (last js))"
  using steps_at_tail [of p ps i a acts] steps_at_head [OF assms, of i acts] assms(2) by metis

text \<open>The same for the occurrences that start there.\<close>

lemma steps_at_start:
  assumes "predicate_matches p a" "ps \<noteq> []"
  shows "(\<exists>ks. steps_at (p # ps) i (a # acts) ks \<and> hd ks = i \<and> P (last ks)) \<longleftrightarrow>
    (\<exists>ks. steps_at (p # ps) i (a # acts) ks \<and> P (last ks))"
  using steps_at_tail [of p ps i a acts] steps_at_head [OF assms, of i acts] assms(2) by (metis list.sel(1))

lemma follow_first:
  "ps \<noteq> [] \<Longrightarrow> (\<exists>ks. follow ps i m acts = Some ks) \<longleftrightarrow>
     (\<exists>ks. steps_at ps i acts ks \<and> Suc (last ks) = i + length acts) \<and>
     \<not> (\<exists>ks. steps_at ps i acts ks \<and> Suc (last ks) < i + length acts)"
proof (induction ps i m acts rule: follow.induct)
  case (2 p ps i m)
  then show ?case by (simp add: steps_at_Cons)
next
  case (3 p ps i m a acts)
  show ?case
  proof (cases "predicate_matches p a")
    case False
    with 3 show ?thesis by (simp add: steps_at_skip)
  next
    case True
    show ?thesis
    proof (cases "ps = []")
      case True
      have here: "steps_at [p] i (a # acts) [i]"
        using \<open>predicate_matches p a\<close> by (simp add: steps_at_Cons)
      show ?thesis
      proof (cases "acts = []")
        case True
        have "Suc (last ks) = Suc i" if "steps_at [p] i [a] ks" for ks
          using that by (auto simp: steps_at_Cons)
        then show ?thesis
          using here True \<open>ps = []\<close> \<open>predicate_matches p a\<close> by fastforce
      next
        case False
        then have "\<exists>ks. steps_at [p] i (a # acts) ks \<and> Suc (last ks) < i + length (a # acts)"
          using here by (intro exI [of _ "[i]"]) simp
        then show ?thesis
          using False \<open>ps = []\<close> \<open>predicate_matches p a\<close> by simp
      qed
    next
      case False
      show ?thesis
        using 3(1) [OF True False False] True False
        using steps_at_take [OF True False, where P = "\<lambda>k. k = i + length acts" and i = i and acts = acts]
          steps_at_take [OF True False, where P = "\<lambda>k. k < i + length acts" and i = i and acts = acts]
        by simp
    qed
  qed
qed simp

lemma occurrence_steps: "occurrence r acts ks \<longleftrightarrow> steps_at (tr_pattern r) 0 acts ks"
  by (simp add: occurrence_def steps_at_def)

lemma steps_at_drop:
  assumes "\<forall>k \<in> set ks. i \<le> k" "i \<le> length acts"
  shows "steps_at ps 0 acts ks \<longleftrightarrow> steps_at ps i (drop i acts) ks"
  using assms by (induction ps arbitrary: ks) (auto simp: steps_at_Cons)

lemma occurrence_from:
  assumes "tr_pattern r = p # ps" "i < length acts"
  shows "occurrence r acts ks \<and> hd ks = i \<longleftrightarrow>
    steps_at (p # ps) i (drop i acts) ks \<and> hd ks = i"
proof -
  have "\<forall>k \<in> set ks. i \<le> k" if "steps_at (p # ps) j (drop j acts) ks" "hd ks = i" for j
    using that by (fastforce simp: steps_at_Cons)
  from this [of 0] this [of i] show ?thesis
    using steps_at_drop [of ks i acts "p # ps"] assms by (auto simp: occurrence_steps)
qed

lemma occurrence_nonempty: "tr_pattern r \<noteq> [] \<Longrightarrow> occurrence r acts ks \<Longrightarrow> ks \<noteq> []"
  by (auto simp: occurrence_def)

lemma occurrence_head:
  "tr_pattern r = p # ps \<Longrightarrow> occurrence r acts ks \<Longrightarrow> hd ks < length acts \<and> predicate_matches p (acts ! hd ks)"
  by (auto simp: occurrence_def list_all2_Cons1)

lemma follow_from_first:
  assumes "tr_pattern r \<noteq> []"
  shows "(\<exists>ks. follow_from r acts i = Some ks) \<longleftrightarrow> first_completion r acts i"
proof -
  obtain p ps where pat: "tr_pattern r = p # ps"
    using assms by (cases "tr_pattern r") auto
  show ?thesis
  proof (cases "i < length acts \<and> predicate_matches p (acts ! i)")
    case False
    then have "\<not> (occurrence r acts ks \<and> hd ks = i)" for ks
      using occurrence_head [OF pat] by blast
    with False show ?thesis by (auto simp: first_completion_def follow_from_def pat)
  next
    case True
    let ?rest = "drop (Suc i) acts"
    have acts: "drop i acts = acts ! i # ?rest"
      using True by (simp add: Cons_nth_drop_Suc)
    have occ: "occurrence r acts ks \<and> hd ks = i \<longleftrightarrow> steps_at (p # ps) i (acts ! i # ?rest) ks \<and> hd ks = i" for ks
      using occurrence_from [OF pat] True by (simp add: acts)
    have "(\<exists>ks. follow (p # ps) i [] (acts ! i # ?rest) = Some ks) \<longleftrightarrow>
      (\<exists>ks. steps_at (p # ps) i (acts ! i # ?rest) ks \<and> hd ks = i \<and> last ks = length acts - 1) \<and>
      \<not> (\<exists>ks. steps_at (p # ps) i (acts ! i # ?rest) ks \<and> hd ks = i \<and> last ks < length acts - 1)"
    proof (cases "ps = []")
      case True
      note here = \<open>i < length acts \<and> predicate_matches p (acts ! i)\<close>
      have "(\<exists>ks. steps_at (p # ps) i (acts ! i # ?rest) ks \<and> hd ks = i \<and> P (last ks)) \<longleftrightarrow> P i" for P
        using here by (auto simp: True steps_at_Cons intro!: exI [of _ "[i]"])
      note this [where P = "\<lambda>k. k = length acts - 1"] this [where P = "\<lambda>k. k < length acts - 1"]
      then show ?thesis using here True by (simp only:) auto
    next
      case False
      have last: "Suc k = i + length (acts ! i # ?rest) \<longleftrightarrow> k = length acts - 1"
          "Suc k < i + length (acts ! i # ?rest) \<longleftrightarrow> k < length acts - 1" for k
        using True by auto
      show ?thesis
        using follow_first [of "p # ps" i "[]" "acts ! i # ?rest"]
        unfolding last steps_at_start [OF conjunct2 [OF True] False, where P = "\<lambda>k. k = length acts - 1"]
          steps_at_start [OF conjunct2 [OF True] False, where P = "\<lambda>k. k < length acts - 1"]
        by (simp del: follow.simps)
    qed
    moreover have "first_completion r acts i \<longleftrightarrow> int (length acts - i) \<le> tr_within r \<and>
      (\<exists>ks. (occurrence r acts ks \<and> hd ks = i) \<and> last ks = length acts - 1) \<and>
      \<not> (\<exists>ks. (occurrence r acts ks \<and> hd ks = i) \<and> last ks < length acts - 1)"
      by (simp only: first_completion_def conj_assoc)
    moreover have "(\<exists>ks. follow_from r acts i = Some ks) \<longleftrightarrow> int (length acts - i) \<le> tr_within r \<and>
      (\<exists>ks. follow (p # ps) i [] (acts ! i # ?rest) = Some ks)"
      using True by (simp del: follow.simps add: follow_from_def pat acts)
    ultimately show ?thesis
      by (simp only: occ conj_assoc)
  qed
qed

lemma follow_from_hd:
  assumes "follow_from r acts i = Some ks"
  shows "hd ks = i"
proof -
  obtain p ps where pat: "tr_pattern r = p # ps"
    using assms by (cases "tr_pattern r") (auto simp: follow_from_def)
  then show ?thesis
    using assms follow_head [of p ps i "acts ! i" "drop (Suc i) acts" ks]
    by (simp del: follow.simps add: follow_from_def Cons_nth_drop_Suc split: if_splits)
qed

lemma first_completion_bound:
  "tr_pattern r \<noteq> [] \<Longrightarrow> first_completion r acts i \<Longrightarrow> i < length acts"
  using occurrence_head by (cases "tr_pattern r") (fastforce simp: first_completion_def)+

lemma first_some_upt:
  "first_some f [0..<n] = Some y \<Longrightarrow> \<exists>i. f i = Some y \<and> (\<forall>j < i. f j = None)"
proof (induction n)
  case (Suc n)
  then show ?case
    by (cases "first_some f [0..<n]")
      (auto simp: first_some_append first_some_None_iff atLeastLessThan_iff split: option.splits
        intro!: exI [of _ n])
qed simp

section \<open>Lemmas: JSON forms\<close>

definition good_items :: "nat \<Rightarrow> string list \<Rightarrow> bool" where
  "good_items n xs = (distinct xs \<and> length xs \<le> n \<and>
     (\<forall>x \<in> set xs. x \<noteq> [] \<and> length x \<le> max_temporal_signal_length))"

lemma string_items_ok:
  assumes "string_items acc js = Inr xs" and "good_items n acc"
  shows "good_items (n + length js) xs"
  using assms
proof (induction acc js arbitrary: n rule: string_items.induct)
  case (2 acc j js)
  obtain w where j: "j = JStr w" "w \<noteq> []" "length w \<le> max_temporal_signal_length"
    and rest: "string_items (if w \<in> set acc then acc else acc @ [w]) js = Inr xs"
    using 2(2) by (auto split: json.splits if_splits)
  have "good_items (Suc n) (if w \<in> set acc then acc else acc @ [w])"
    using 2(3) j by (auto simp: good_items_def)
  from 2(1) [OF j(1) _ _ rest this] j show ?case by simp
qed simp

lemma string_items_read:
  assumes "distinct (acc @ xs)" "\<forall>x \<in> set xs. x \<noteq> [] \<and> length x \<le> max_temporal_signal_length"
  shows "string_items acc (map JStr xs) = Inr (acc @ xs)"
  using assms by (induction xs arbitrary: acc) auto

lemma string_tuple_ok:
  assumes "string_tuple p key required n = Inr xs"
  shows "good_items n xs \<and> (required \<longrightarrow> xs \<noteq> [])"
  using assms string_items_ok [of "[]" _ xs 0]
  by (fastforce simp: string_tuple_def good_items_def split: json.splits if_splits)

lemma string_tuple_read:
  assumes "jget p key = JArr (map JStr xs)" "good_items n xs" "required \<longrightarrow> xs \<noteq> []"
  shows "string_tuple p key required n = Inr xs"
  using assms string_items_read [of "[]" xs]
  by (auto simp: string_tuple_def good_items_def)

lemma string_tuple_absent: "jget p key = JNull \<Longrightarrow> string_tuple p key False n = Inr []"
  by (simp add: string_tuple_def)

definition predicate_ok :: "temporal_predicate \<Rightarrow> bool" where
  "predicate_ok q = (predicate_post_init q = Inr () \<and> good_items max_step_signals (signals_any q) \<and>
     signals_any q \<noteq> [] \<and> good_items max_step_values (step_kinds q) \<and>
     good_items max_step_values (step_operations q))"

lemma predicate_from_dict_ok: "predicate_from_dict p = Inr q \<Longrightarrow> predicate_ok q"
  by (auto simp: predicate_from_dict_def make_predicate_def predicate_ok_def Let_def
      dest: string_tuple_ok)

lemma predicate_dict_roundtrip:
  assumes "predicate_ok q"
  shows "predicate_from_dict (predicate_as_dict q) = Inr q"
proof -
  have "reject_unknown (predicate_as_dict q) [''signals_any'', ''kinds'', ''operations''] = Inr ()"
    by (auto simp: reject_unknown_def unknown_keys_Nil_iff predicate_as_dict_def)
  moreover have "string_tuple (predicate_as_dict q) ''signals_any'' True max_step_signals =
      Inr (signals_any q)"
    using assms by (intro string_tuple_read) (auto simp: predicate_ok_def predicate_as_dict_def)
  moreover have "string_tuple (predicate_as_dict q) ''kinds'' False max_step_values =
      Inr (step_kinds q)"
    using assms
    by (cases "step_kinds q = []")
      (auto simp: predicate_ok_def predicate_as_dict_def string_tuple_absent
        intro!: string_tuple_read)
  moreover have "string_tuple (predicate_as_dict q) ''operations'' False max_step_values =
      Inr (step_operations q)"
    using assms
    by (cases "step_operations q = []")
      (auto simp: predicate_ok_def predicate_as_dict_def string_tuple_absent
        intro!: string_tuple_read)
  ultimately show ?thesis
    using assms
    by (cases q) (simp add: predicate_from_dict_def make_predicate_def predicate_ok_def Let_def)
qed

definition rule_ok :: "temporal_rule \<Rightarrow> bool" where
  "rule_ok r = (rule_post_init r = Inr () \<and> (\<forall>q \<in> set (tr_pattern r). predicate_ok q))"

lemma mapM_objects_ok:
  assumes "res_mapM (\<lambda>j. res_bind (as_object j e) f) js = Inr ys" "\<And>p y. f p = Inr y \<Longrightarrow> P y"
  shows "\<forall>y \<in> set ys. P y"
  using assms by (fastforce simp: res_mapM_Inr_iff list_all2_conv_all_nth in_set_conv_nth)

lemma mapM_objects_read:
  assumes "\<And>y. y \<in> set ys \<Longrightarrow> f (g y) = Inr y"
  shows "res_mapM (\<lambda>j. res_bind (as_object j e) f) (map (\<lambda>y. JObj (g y)) ys) = Inr ys"
  by (rule res_mapM_map_id) (simp add: assms)

lemma rule_from_dict_ok: "rule_from_dict p = Inr r \<Longrightarrow> rule_ok r"
  by (auto simp: rule_from_dict_def rule_ok_def Let_def
      dest!: mapM_objects_ok [where P = predicate_ok, OF _ predicate_from_dict_ok])

lemma rule_dict_roundtrip:
  assumes "rule_ok r"
  shows "rule_from_dict (rule_as_dict r) = Inr r"
proof -
  have "reject_unknown (rule_as_dict r) [''id'', ''risk'', ''category'', ''within_actions'',
      ''pattern'', ''reason'', ''safer_next_step'', ''enabled''] = Inr ()"
    by (auto simp: reject_unknown_def unknown_keys_Nil_iff rule_as_dict_def)
  moreover have "res_mapM (\<lambda>j. res_bind (as_object j e) predicate_from_dict)
      (map (\<lambda>q. JObj (predicate_as_dict q)) (tr_pattern r)) = Inr (tr_pattern r)" for e
    using assms by (intro mapM_objects_read) (simp add: rule_ok_def predicate_dict_roundtrip)
  ultimately show ?thesis
    using assms
    by (cases r) (auto simp: rule_from_dict_def rule_as_dict_def rule_ok_def Let_def)
qed

definition policy_ok :: "temporal_policy_set \<Rightarrow> bool" where
  "policy_ok s = (policy_post_init s = Inr () \<and> (\<forall>r \<in> set (tp_rules s). rule_ok r))"

lemma policy_from_dict_ok: "policy_from_dict p = Inr s \<Longrightarrow> policy_ok s"
  by (auto simp: policy_from_dict_def policy_ok_def Let_def split: if_splits
      dest!: mapM_objects_ok [where P = rule_ok, OF _ rule_from_dict_ok])

lemma policy_ok_dict:
  assumes "policy_ok s"
  shows "policy_from_dict (policy_as_dict s) = Inr s"
proof -
  have "tp_schema s = temporal_schema_version"
    using assms by (auto simp: policy_ok_def policy_post_init_def split: if_splits)
  moreover have "reject_unknown (policy_as_dict s)
      [''schema_version'', ''policy_id'', ''version'', ''rules''] = Inr ()"
    by (auto simp: reject_unknown_def unknown_keys_Nil_iff policy_as_dict_def)
  moreover have "res_mapM (\<lambda>j. res_bind (as_object j e) rule_from_dict)
      (map (\<lambda>q. JObj (rule_as_dict q)) (tp_rules s)) = Inr (tp_rules s)" for e
    using assms by (intro mapM_objects_read) (simp add: policy_ok_def rule_dict_roundtrip)
  ultimately show ?thesis
    using assms
    by (cases s) (auto simp: policy_from_dict_def policy_as_dict_def policy_ok_def Let_def)
qed

lemma duplicate_ids_Nil_iff:
  "duplicate_ids seen dup xs = [] \<longleftrightarrow> dup = [] \<and> distinct xs \<and> set xs \<inter> set seen = {}"
  by (induction seen dup xs rule: duplicate_ids.induct) auto

text \<open>Evaluation of a policy whose rules are validated.\<close>

lemma policy_evaluation_all:
  assumes "policy_ok s"
  shows "evaluate_policy (compile_temporal_policy s) prior current =
    Inr \<lparr>te_history_length = min 32 (length prior),
         te_matches = List.map_filter (\<lambda>r. rule_spec r (py_last 32 prior @ [current]))
           (filter tr_enabled (tp_rules s))\<rparr>"
proof -
  let ?acts = "py_last 32 prior @ [current]" and ?rules = "filter tr_enabled (tp_rules s)"
  have "\<forall>r \<in> set ?rules. evaluate_rule r ?acts = Inr (rule_spec r ?acts)"
    using assms
    by (auto simp: policy_ok_def rule_ok_def intro!: evaluate_rule_spec
        dest: bspec rule_post_init_bounds)
  then have "res_mapM (\<lambda>r. evaluate_rule r ?acts) ?rules = Inr (map (\<lambda>r. rule_spec r ?acts) ?rules)"
    by (intro res_mapM_all) simp
  then show ?thesis
    by (simp add: evaluate_policy_def compile_temporal_policy_def Let_def max_history_actions_def
        length_py_last map_filter_def comp_def filter_map)
qed

lemma in_set_map_filter: "y \<in> set (List.map_filter f xs) \<longleftrightarrow> (\<exists>x \<in> set xs. f x = Some y)"
  by (force simp: map_filter_def)

text \<open>The greatest risk of a list of known risks.\<close>

lemma max_risk_from_max:
  assumes "risk_order best = Some key" and "\<forall>r \<in> set rs. risk_order r \<noteq> None"
  shows "\<exists>m k. max_risk_from best key rs = Inr m \<and> m \<in> insert best (set rs) \<and>
    risk_order m = Some k \<and> (\<forall>r \<in> insert best (set rs). the (risk_order r) \<le> k)"
  using assms
proof (induction best key rs rule: max_risk_from.induct)
  case (2 best key r rs)
  then obtain k where k: "risk_order r = Some k" by auto
  show ?case
  proof (cases "k > key")
    case True
    with 2 k show ?thesis by (fastforce simp: k)
  next
    case False
    with 2 k show ?thesis by (fastforce simp: k)
  qed
qed simp

lemma rule_post_init_risk: "rule_post_init r = Inr u \<Longrightarrow> tr_risk r \<in> set valid_temporal_risks"
  by (simp add: rule_post_init_def split: if_splits)

lemma valid_risk_known: "risk \<in> set valid_temporal_risks \<Longrightarrow> risk_order risk \<noteq> None"
  by (auto simp: valid_temporal_risks_def risk_order_def)

section \<open>Properties\<close>

text \<open>C11: A validated temporal rule's machine computes exactly the reference semantics: the
  first start, in the order of the actions and inside the window, whose steps, each taken at the
  first action that satisfies it, are completed by the last action. It never raises, and cutting
  the live states to the window loses none.\<close>

theorem rule_machine_equivalence:
  assumes "rule_post_init r = Inr ()"
  shows "evaluate_rule r acts = Inr (rule_spec r acts)"
  using rule_post_init_bounds [OF assms] by (intro evaluate_rule_spec)

definition sample_step :: "string \<Rightarrow> temporal_predicate" where
  "sample_step s = \<lparr>signals_any = [s], step_kinds = [], step_operations = []\<rparr>"

definition sample_rule :: temporal_rule where
  "sample_rule = \<lparr>tr_id = ''fetch-then-run'', tr_risk = ''high'', tr_category = ''download'',
     tr_within = 3, tr_pattern = [sample_step ''effect:fetch'', sample_step ''effect:exec''],
     tr_reason = ''runs what was fetched'', tr_safer = None, tr_enabled = True\<rparr>"

definition sample_action :: "string \<Rightarrow> temporal_action_evidence" where
  "sample_action s = \<lparr>ev_kind = ''shell'', ev_operation = ''run'', ev_signals = {s}\<rparr>"

lemmas sample_defs = sample_step_def sample_rule_def sample_action_def

lemma sample_rule_valid: "rule_post_init sample_rule = Inr ()"
  by (simp add: sample_defs rule_post_init_def temporal_bounds)

lemma rule_machine_equivalence_witness:
  "evaluate_rule sample_rule [sample_action ''effect:fetch'', sample_action ''effect:exec''] =
     Inr (rule_spec sample_rule [sample_action ''effect:fetch'', sample_action ''effect:exec''])"
  by (rule rule_machine_equivalence [OF sample_rule_valid])

text \<open>A match a validated rule reports carries the rule's identity and one action index per
  step: the indices strictly increase, each indexed action satisfies its step, the last one is
  the current action and the whole sequence lies inside the window.\<close>

theorem rule_match_sound:
  assumes "rule_post_init r = Inr ()" and "evaluate_rule r acts = Inr (Some m)"
  shows "m = match_of_rule r (tm_indices m) \<and> length (tm_indices m) = length (tr_pattern r) \<and>
    sorted_wrt (<) (tm_indices m) \<and> last (tm_indices m) = length acts - 1 \<and>
    int (length acts - hd (tm_indices m)) \<le> tr_within r \<and>
    list_all2 (\<lambda>q k. k < length acts \<and> predicate_matches q (acts ! k))
      (tr_pattern r) (tm_indices m)"
proof -
  have "rule_spec r acts = Some m"
    using assms(2) evaluate_rule_spec rule_post_init_bounds [OF assms(1)] by simp
  from rule_spec_sound [OF this] obtain ks i where ks: "m = match_of_rule r ks"
      "follow_from r acts i = Some ks"
    by auto
  from ks(1) have "tm_indices m = ks" "m = match_of_rule r (tm_indices m)"
    by (simp_all add: match_of_rule_def)
  with follow_from_sound [OF ks(2)] show ?thesis by simp
qed

lemma rule_match_sound_witness:
  "last (tm_indices (match_of_rule sample_rule [0, 1])) = (1::nat)"
proof -
  have "evaluate_rule sample_rule [sample_action ''effect:fetch'', sample_action ''effect:exec''] =
      Inr (Some (match_of_rule sample_rule [0, 1]))"
    by (simp add: sample_defs evaluate_rule_def predicate_matches_def slice_from_end_def
        match_of_rule_def Let_def)
  from rule_match_sound [OF sample_rule_valid this] show ?thesis by simp
qed

text \<open>C39: A validated rule is decided by the first completion of each start. An occurrence of the rule
  takes its steps at increasing actions that satisfy them. The rule never raises; it reports a match exactly
  when some start inside the window has an occurrence that ends at the current action and none that
  ends before it, so steps whose last one was already satisfied by an earlier action are not
  reported for that start; what it reports is an occurrence of the earliest such start.\<close>

theorem match_iff_first_completion:
  assumes "rule_post_init r = Inr ()"
  shows "\<exists>m. evaluate_rule r acts = Inr m \<and>
    (m = None \<longleftrightarrow> \<not> (\<exists>i. first_completion r acts i)) \<and>
    (\<forall>x. m = Some x \<longrightarrow> occurrence r acts (tm_indices x) \<and> last (tm_indices x) = length acts - 1 \<and>
       first_completion r acts (hd (tm_indices x)) \<and>
       (\<forall>i < hd (tm_indices x). \<not> first_completion r acts i))"
proof -
  have run: "evaluate_rule r acts = Inr (rule_spec r acts)"
    using rule_post_init_bounds [OF assms] by (intro evaluate_rule_spec)
  have pattern: "tr_pattern r \<noteq> []" by (rule rule_post_init_bounds [OF assms])
  note fresh = follow_from_first [OF pattern, of acts]
  have none: "rule_spec r acts = None \<longleftrightarrow> \<not> (\<exists>i. first_completion r acts i)"
  proof -
    have "rule_spec r acts = None \<longleftrightarrow> (\<forall>i < length acts. \<not> (\<exists>ks. follow_from r acts i = Some ks))"
      by (simp add: rule_spec_def first_some_None_iff Ball_def)
    then show ?thesis
      unfolding fresh using first_completion_bound [OF pattern, of acts] by blast
  qed
  have some: "occurrence r acts (tm_indices x) \<and> last (tm_indices x) = length acts - 1 \<and>
       first_completion r acts (hd (tm_indices x)) \<and>
       (\<forall>i < hd (tm_indices x). \<not> first_completion r acts i)"
    if x: "rule_spec r acts = Some x" for x
  proof -
    from x obtain ks where ks: "first_some (follow_from r acts) [0..<length acts] = Some ks" "tm_indices x = ks"
      by (auto simp: rule_spec_def match_of_rule_def)
    from first_some_upt [OF ks(1)] obtain i where i: "follow_from r acts i = Some ks"
        "\<forall>j < i. follow_from r acts j = None"
      by blast
    have "hd ks = i" by (rule follow_from_hd [OF i(1)])
    moreover have "\<not> first_completion r acts j" if "j < i" for j
      using fresh [of j] i(2) that by simp
    ultimately show ?thesis
      using follow_from_sound [OF i(1)] i(1) fresh [of i]
      by (auto simp: ks(2) occurrence_def)
  qed
  show ?thesis
    by (rule exI [of _ "rule_spec r acts"]) (intro conjI allI impI run none; use some in blast)
qed

lemma match_iff_first_completion_witness:
  "evaluate_rule sample_rule [sample_action ''effect:fetch'', sample_action ''effect:exec'',
      sample_action ''effect:exec''] = Inr None \<and>
   occurrence sample_rule [sample_action ''effect:fetch'', sample_action ''effect:exec'',
      sample_action ''effect:exec''] [0, 2]"
proof -
  let ?acts = "[sample_action ''effect:fetch'', sample_action ''effect:exec'', sample_action ''effect:exec'']"
  have early: "occurrence sample_rule ?acts [0, 1]" and later: "occurrence sample_rule ?acts [0, 2]"
    by (simp_all add: occurrence_def sample_defs predicate_matches_def)
  from early have zero: "\<not> first_completion sample_rule ?acts 0"
    unfolding first_completion_def
    by (intro notI, elim conjE notE) (rule exI [of _ "[0, 1]"], simp)
  have head: "hd ks = 0" if "occurrence sample_rule ?acts ks" for ks
  proof -
    have "hd ks < 3" "predicate_matches (sample_step ''effect:fetch'') (?acts ! hd ks)"
      using occurrence_head [OF _ that] by (simp_all add: sample_rule_def)
    moreover have "\<not> predicate_matches (sample_step ''effect:fetch'') (sample_action ''effect:exec'')"
      by (simp add: sample_defs predicate_matches_def)
    ultimately show ?thesis
      by (cases "hd ks"; cases "hd ks - 1") (auto simp: nth_Cons' split: if_splits)
  qed
  have "i = 0" if "first_completion sample_rule ?acts i" for i
  proof -
    from that obtain ks where "occurrence sample_rule ?acts ks" "hd ks = i"
      unfolding first_completion_def by (elim conjE exE)
    then show ?thesis using head by (simp only:)
  qed
  with zero have "\<not> (\<exists>i. first_completion sample_rule ?acts i)" by blast
  moreover from match_iff_first_completion [OF sample_rule_valid, of ?acts]
  obtain m where m: "evaluate_rule sample_rule ?acts = Inr m"
      "m = None \<longleftrightarrow> \<not> (\<exists>i. first_completion sample_rule ?acts i)"
    by (elim exE conjE)
  ultimately have "m = None" by simp
  with m(1) later show ?thesis by (simp only:)
qed

definition sample_policy :: temporal_policy_set where
  "sample_policy = \<lparr>tp_id = ''sample'', tp_version = ''1'', tp_rules = [sample_rule],
     tp_schema = temporal_schema_version\<rparr>"

lemma sample_policy_loads: "policy_from_dict (policy_as_dict sample_policy) = Inr sample_policy"
  by (rule policy_ok_dict)
    (simp add: policy_ok_def rule_ok_def predicate_ok_def good_items_def sample_policy_def
      sample_rule_valid policy_post_init_def temporal_bounds,
     simp add: sample_defs predicate_post_init_def temporal_bounds startswith_any_def
      startswith_def)

text \<open>Whatever JSON object the temporal policy loader accepts, writing the loaded policy set
  out and loading it again yields the same policy set; its rules are all validated and their
  identifiers distinct.\<close>

theorem temporal_policy_roundtrip:
  assumes "policy_from_dict p = Inr s"
  shows "policy_from_dict (policy_as_dict s) = Inr s \<and> distinct (map tr_id (tp_rules s)) \<and>
    (\<forall>r \<in> set (tp_rules s). rule_post_init r = Inr ())"
  using policy_from_dict_ok [OF assms] policy_ok_dict [of s]
  by (auto simp: policy_ok_def rule_ok_def policy_post_init_def duplicate_ids_Nil_iff
      split: if_splits)

text \<open>C29: Evaluating a loaded policy never raises: it looks at no more than the last 32 prior
  actions followed by the current one, and reports, rule by rule in policy order and for the
  enabled rules only, what each rule's reference semantics yields there.\<close>

theorem policy_evaluation_spec:
  assumes "policy_from_dict p = Inr s"
  shows "evaluate_policy (compile_temporal_policy s) prior current =
    Inr \<lparr>te_history_length = min 32 (length prior),
         te_matches = List.map_filter (\<lambda>r. rule_spec r (py_last 32 prior @ [current]))
           (filter tr_enabled (tp_rules s))\<rparr>"
  by (rule policy_evaluation_all [OF policy_from_dict_ok [OF assms]])

lemma temporal_policy_roundtrip_witness: "distinct (map tr_id (tp_rules sample_policy))"
  using temporal_policy_roundtrip [OF sample_policy_loads] by simp

lemma policy_evaluation_spec_witness:
  "evaluate_policy (compile_temporal_policy sample_policy) [] (sample_action ''effect:exec'') =
     Inr \<lparr>te_history_length = 0, te_matches = []\<rparr>"
  unfolding policy_evaluation_spec [OF sample_policy_loads]
  by (simp add: sample_policy_def sample_defs rule_spec_def follow_from_def predicate_matches_def
      map_filter_def)

text \<open>The risk of an evaluation of a loaded policy never raises; it is absent exactly when no
  rule matched, and otherwise is the risk of some match that no other match exceeds in the
  order unknown, low, medium, high, critical.\<close>

theorem evaluation_risk_is_max:
  assumes "policy_from_dict p = Inr s"
    and "evaluate_policy (compile_temporal_policy s) prior current = Inr e"
  shows "(te_matches e = [] \<and> evaluation_risk e = Inr None) \<or>
    (\<exists>m k. m \<in> tm_risk ` set (te_matches e) \<and> evaluation_risk e = Inr (Some m) \<and>
       risk_order m = Some k \<and> (\<forall>x \<in> set (te_matches e). the (risk_order (tm_risk x)) \<le> k))"
proof -
  have known: "risk_order (tm_risk x) \<noteq> None" if "x \<in> set (te_matches e)" for x
  proof -
    let ?acts = "py_last 32 prior @ [current]"
    have "te_matches e = List.map_filter (\<lambda>r. rule_spec r ?acts) (filter tr_enabled (tp_rules s))"
      using assms(2) policy_evaluation_all [OF policy_from_dict_ok [OF assms(1)], of prior current]
      by auto
    then have "x \<in> set (List.map_filter (\<lambda>r. rule_spec r ?acts) (filter tr_enabled (tp_rules s)))"
      using that by simp
    then obtain r where r: "r \<in> set (tp_rules s)" "rule_spec r ?acts = Some x"
      by (auto simp: in_set_map_filter)
    then have "tr_risk r \<in> set valid_temporal_risks"
      using policy_from_dict_ok [OF assms(1)] rule_post_init_risk
      unfolding policy_ok_def rule_ok_def by blast
    with rule_spec_sound [OF r(2)] show ?thesis
      using valid_risk_known by (auto simp: match_of_rule_def)
  qed
  show ?thesis
  proof (cases "te_matches e")
    case Nil
    then show ?thesis by (simp add: evaluation_risk_def)
  next
    case (Cons x xs)
    then obtain k where "risk_order (tm_risk x) = Some k"
      using known by fastforce
    with max_risk_from_max [OF this, of "map tm_risk xs"] known Cons show ?thesis
      by (fastforce simp: evaluation_risk_def)
  qed
qed

lemma evaluation_risk_is_max_witness:
  "evaluation_risk \<lparr>te_history_length = 1, te_matches = [match_of_rule sample_rule [0, 1]]\<rparr> =
     Inr (Some ''high'')"
proof -
  have "evaluate_policy (compile_temporal_policy sample_policy) [sample_action ''effect:fetch'']
      (sample_action ''effect:exec'') =
    Inr \<lparr>te_history_length = 1, te_matches = [match_of_rule sample_rule [0, 1]]\<rparr>"
    unfolding policy_evaluation_all [OF policy_from_dict_ok [OF sample_policy_loads]]
    by (simp add: sample_policy_def sample_defs rule_spec_def follow_from_def
        predicate_matches_def upt_conv_Cons)
  from evaluation_risk_is_max [OF sample_policy_loads this]
  show ?thesis by (simp add: match_of_rule_def sample_rule_def)
qed

end
