(* ===== verification/State_Result.thy ===== *)
theory State_Result
  imports Ordin_Prelude
begin

text \<open>
  Operations on a mutable component: a step from a state to the state it leaves behind and a
  result, so that what an operation changed before it raised stays changed. The rules for
  \<open>keeps\<close> and \<open>moves\<close> carry the invariant proofs of the registry and of the budget ledger.
\<close>

type_synonym ('s, 'a) op = "'s \<Rightarrow> 's \<times> 'a res"

definition op_return :: "'a \<Rightarrow> ('s, 'a) op" where
  "op_return x s = (s, Inr x)"

definition op_fail :: "py_error \<Rightarrow> ('s, 'a) op" where
  "op_fail e s = (s, Inl e)"

definition op_lift :: "'a res \<Rightarrow> ('s, 'a) op" where
  "op_lift r s = (s, r)"

definition op_get :: "('s \<Rightarrow> 'a) \<Rightarrow> ('s, 'a) op" where
  "op_get f s = (s, Inr (f s))"

definition op_modify :: "('s \<Rightarrow> 's) \<Rightarrow> ('s, unit) op" where
  "op_modify f s = (f s, Inr ())"

definition op_bind :: "('s, 'a) op \<Rightarrow> ('a \<Rightarrow> ('s, 'b) op) \<Rightarrow> ('s, 'b) op" where
  "op_bind m f s = (case m s of (s', Inl e) \<Rightarrow> (s', Inl e) | (s', Inr x) \<Rightarrow> f x s')"

definition op_check :: "bool \<Rightarrow> py_error \<Rightarrow> ('s, unit) op" where
  "op_check b e s = (s, ensure b e)"

fun op_forM :: "'a list \<Rightarrow> ('a \<Rightarrow> ('s, unit) op) \<Rightarrow> ('s, unit) op" where
  "op_forM [] f = op_return ()"
| "op_forM (x # xs) f = op_bind (f x) (\<lambda>_. op_forM xs f)"

text \<open>A computation that can only read: \<open>op_read f\<close> raises or yields what \<open>f\<close> says of the state.\<close>

definition op_read :: "('s \<Rightarrow> 'a res) \<Rightarrow> ('s, 'a) op" where
  "op_read f s = (s, f s)"

lemmas op_defs = op_return_def op_fail_def op_lift_def op_get_def op_modify_def op_check_def
  op_read_def

lemma op_bind_Inr_iff:
  "op_bind m f s = (s', Inr y) \<longleftrightarrow> (\<exists>s1 x. m s = (s1, Inr x) \<and> f x s1 = (s', Inr y))"
  by (auto simp: op_bind_def split: prod.splits sum.splits)

lemma op_bindE:
  assumes "op_bind m f s = (s', Inr y)"
  obtains s1 x where "m s = (s1, Inr x)" "f x s1 = (s', Inr y)"
  using assms by (auto simp: op_bind_Inr_iff)

lemma op_bind_Inl_iff:
  "op_bind m f s = (s', Inl e) \<longleftrightarrow>
     m s = (s', Inl e) \<or> (\<exists>s1 x. m s = (s1, Inr x) \<and> f x s1 = (s', Inl e))"
  by (auto simp: op_bind_def split: prod.splits sum.splits)

lemma op_basic_Inr_iff [simp]:
  "op_return x s = (s', Inr y) \<longleftrightarrow> s' = s \<and> y = x"
  "op_fail e s \<noteq> (s', Inr y)"
  "op_lift r s = (s', Inr y) \<longleftrightarrow> s' = s \<and> r = Inr y"
  "op_get g s = (s', Inr y) \<longleftrightarrow> s' = s \<and> y = g s"
  "op_check b e s = (s', Inr u) \<longleftrightarrow> s' = s \<and> b"
  "op_read h s = (s', Inr y) \<longleftrightarrow> s' = s \<and> h s = Inr y"
  by (auto simp: op_defs)

lemma op_modify_iff [simp]: "op_modify h s = (s', Inr u) \<longleftrightarrow> s' = h s"
  by (auto simp: op_defs)

lemma op_bind_apply:
  "op_bind (op_return x) f s = f x s"
  "op_bind (op_get g) f s = f (g s) s"
  "op_bind (op_modify h) k s = k () (h s)"
  "op_bind (op_fail e) f s = (s, Inl e)"
  by (simp_all add: op_bind_def op_defs)

lemma op_bind_assoc: "op_bind (op_bind m f) g = op_bind m (\<lambda>x. op_bind (f x) g)"
  by (rule ext) (auto simp: op_bind_def split: prod.splits sum.splits)

section \<open>Invariants of operations\<close>

definition keeps :: "('s \<Rightarrow> bool) \<Rightarrow> ('s, 'a) op \<Rightarrow> bool" where
  "keeps P m = (\<forall>s. P s \<longrightarrow> P (fst (m s)))"

named_theorems keeps_rules \<open>structural rules for invariants of operations\<close>

lemma keepsI: "(\<And>s. P s \<Longrightarrow> P (fst (m s))) \<Longrightarrow> keeps P m"
  by (simp add: keeps_def)

lemma keepsD: "keeps P m \<Longrightarrow> P s \<Longrightarrow> m s = (s', r) \<Longrightarrow> P s'"
  by (metis fst_conv keeps_def)

lemma keeps_basic [keeps_rules]:
  "keeps P (op_return x)" "keeps P (op_fail e)" "keeps P (op_lift r)" "keeps P (op_get g)"
  "keeps P (op_check b e)" "keeps P (op_read h)"
  by (simp_all add: keeps_def op_defs)

lemma keeps_modify [keeps_rules]: "(\<And>s. P s \<Longrightarrow> P (h s)) \<Longrightarrow> keeps P (op_modify h)"
  by (simp add: keeps_def op_defs)

lemma keeps_bind [keeps_rules]:
  assumes "keeps P m" and "\<And>x. keeps P (f x)"
  shows "keeps P (op_bind m f)"
  using assms by (fastforce simp: keeps_def op_bind_def split: prod.splits sum.splits)

lemma keeps_forM [keeps_rules]: "(\<And>x. keeps P (f x)) \<Longrightarrow> keeps P (op_forM xs f)"
  by (induction xs) (auto intro: keeps_rules)

lemma keeps_if [keeps_rules]:
  "(b \<Longrightarrow> keeps P m) \<Longrightarrow> (\<not> b \<Longrightarrow> keeps P m') \<Longrightarrow> keeps P (if b then m else m')"
  by simp

lemma keeps_case_option [keeps_rules]:
  "(x = None \<Longrightarrow> keeps P m) \<Longrightarrow> (\<And>y. x = Some y \<Longrightarrow> keeps P (f y)) \<Longrightarrow>
     keeps P (case x of None \<Rightarrow> m | Some y \<Rightarrow> f y)"
  by (cases x) simp_all

section \<open>Decomposition into primitive updates\<close>

text \<open>\<open>reaches R m s\<close>: what \<open>m\<close> does to \<open>s\<close> is a sequence of updates of the relation \<open>R\<close>.\<close>

definition reaches :: "('s \<Rightarrow> 's \<Rightarrow> bool) \<Rightarrow> ('s, 'a) op \<Rightarrow> 's \<Rightarrow> bool" where
  "reaches R m s = R\<^sup>*\<^sup>* s (fst (m s))"

lemma reachesD: "reaches R m s \<Longrightarrow> m s = (s', r) \<Longrightarrow> R\<^sup>*\<^sup>* s s'"
  by (simp add: reaches_def)

lemma reaches_basic:
  "reaches R (op_return x) s" "reaches R (op_fail e) s" "reaches R (op_lift r) s"
  "reaches R (op_get g) s" "reaches R (op_check b e) s" "reaches R (op_read h) s"
  by (simp_all add: reaches_def op_defs)

lemma reaches_modify: "R\<^sup>*\<^sup>* s (h s) \<Longrightarrow> reaches R (op_modify h) s"
  by (simp add: reaches_def op_defs)

lemma reaches_bind:
  assumes "reaches R m s" and "\<And>s' x. m s = (s', Inr x) \<Longrightarrow> reaches R (f x) s'"
  shows "reaches R (op_bind m f) s"
proof (cases "m s")
  case (Pair s' r)
  then have step: "R\<^sup>*\<^sup>* s s'" using assms(1) by (simp add: reaches_def)
  show ?thesis
  proof (cases r)
    case (Inl e)
    with Pair step show ?thesis by (simp add: reaches_def op_bind_def)
  next
    case (Inr x)
    with Pair assms(2) have "R\<^sup>*\<^sup>* s' (fst (f x s'))" by (simp add: reaches_def)
    with Pair Inr step show ?thesis by (simp add: reaches_def op_bind_def)
  qed
qed

lemma reaches_read:
  "(\<And>x. g s = Inr x \<Longrightarrow> reaches R (f x) s) \<Longrightarrow> reaches R (op_bind (op_read g) f) s"
  by (auto intro!: reaches_bind reaches_basic)

lemma reaches_lift:
  "(\<And>x. r = Inr x \<Longrightarrow> reaches R (f x) s) \<Longrightarrow> reaches R (op_bind (op_lift r) f) s"
  by (auto intro!: reaches_bind reaches_basic)

lemma reaches_get: "reaches R (f (g s)) s \<Longrightarrow> reaches R (op_bind (op_get g) f) s"
  by (auto intro!: reaches_bind reaches_basic)

lemma reaches_check:
  "(b \<Longrightarrow> reaches R (f ()) s) \<Longrightarrow> reaches R (op_bind (op_check b e) f) s"
  by (auto intro!: reaches_bind reaches_basic)

lemma reaches_modify_bind:
  "R\<^sup>*\<^sup>* s (h s) \<Longrightarrow> reaches R (f ()) (h s) \<Longrightarrow> reaches R (op_bind (op_modify h) f) s"
  by (auto intro!: reaches_bind reaches_modify)

lemma reaches_split:
  "(\<And>a b. x = (a, b) \<Longrightarrow> reaches R (f a b) s) \<Longrightarrow> reaches R (case x of (a, b) \<Rightarrow> f a b) s"
  by (cases x) simp

lemma reaches_if:
  "(b \<Longrightarrow> reaches R m s) \<Longrightarrow> (\<not> b \<Longrightarrow> reaches R m' s) \<Longrightarrow> reaches R (if b then m else m') s"
  by simp

lemma reaches_option:
  "(x = None \<Longrightarrow> reaches R m s) \<Longrightarrow> (\<And>y. x = Some y \<Longrightarrow> reaches R (f y) s) \<Longrightarrow>
     reaches R (case x of None \<Rightarrow> m | Some y \<Rightarrow> f y) s"
  by (cases x) simp_all

lemmas reaches_rules = reaches_read reaches_lift reaches_get reaches_check

end
