(* ===== verification/Runtime_Json.thy ===== *)
theory Runtime_Json
  imports Json_Value "HOL-Library.Multiset"
begin

text \<open>
  \<^verbatim>\<open>ordin/_runtime_json.py\<close>: the bounded copy of a JSON value (\<^verbatim>\<open>freeze\<close>), its canonical
  text and its digest. Two functions of the host are parameters, held in the record \<open>host_env\<close>:
  \<^verbatim>\<open>repr\<close> of a finite float and \<^verbatim>\<open>hashlib.sha256(...).hexdigest()\<close> of a byte string.
\<close>

record host_env =
  float_repr :: "py_float \<Rightarrow> string"
  sha256 :: "nat list \<Rightarrow> string"

section \<open>Bounded copies\<close>

definition max_runtime_items :: nat where "max_runtime_items = 128"
definition max_runtime_text :: nat where "max_runtime_text = 4096"
definition max_runtime_depth :: nat where "max_runtime_depth = 10"

fun freeze :: "nat \<Rightarrow> nat \<Rightarrow> nat \<Rightarrow> json \<Rightarrow> json res" where
  "freeze depth max_depth max_items j =
     (if depth > max_depth then Inl (ValueError ''runtime JSON nesting limit exceeded'')
      else (case j of
        JObj p \<Rightarrow>
          if length p > max_items then Inl (ValueError ''runtime JSON property limit exceeded'')
          else if list_ex (\<lambda>k. k = [] \<or> length k > 128) (map fst p)
          then Inl (ValueError ''runtime JSON requires bounded text keys'')
          else res_bind (res_mapM (\<lambda>m. res_bind (freeze (Suc depth) max_depth max_items (snd m))
              (\<lambda>v. Inr (fst m, v))) p) (\<lambda>q. Inr (JObj q))
      | JArr xs \<Rightarrow>
          if length xs > max_items then Inl (ValueError ''runtime JSON collection limit exceeded'')
          else res_bind (res_mapM (freeze (Suc depth) max_depth max_items) xs) (\<lambda>ys. Inr (JArr ys))
      | JStr s \<Rightarrow>
          if length s > max_runtime_text \<or> list_ex (\<lambda>c. cp c < 32) s
          then Inl (ValueError ''runtime JSON contains oversized text or control characters'')
          else Inr (JStr s)
      | v \<Rightarrow> Inr v))"

declare freeze.simps [simp del]

section \<open>Canonical text\<close>

text \<open>\<^verbatim>\<open>json.dumps(value, sort_keys=True, separators=(",", ":"), ensure_ascii=False)\<close>.\<close>

definition digit_char :: "nat \<Rightarrow> char" where
  "digit_char d = char_of (if d < 10 then 48 + d else 87 + d)"

fun decimal :: "nat \<Rightarrow> string" where
  "decimal n = (if n < 10 then [digit_char n] else decimal (n div 10) @ [digit_char (n mod 10)])"

declare decimal.simps [simp del]

definition int_text :: "int \<Rightarrow> string" where
  "int_text i = (if i < 0 then CHR ''-'' # decimal (nat (- i)) else decimal (nat i))"

definition quote_char :: char where "quote_char = char_of (34 :: nat)"

definition escape_char :: "char \<Rightarrow> string" where
  "escape_char c = (let n = cp c; back = char_of (92 :: nat) in
     if n = 34 \<or> n = 92 then [back, c]
     else if n = 10 then [back, CHR ''n'']
     else if n = 13 then [back, CHR ''r'']
     else if n = 9 then [back, CHR ''t'']
     else if n = 12 then [back, CHR ''f'']
     else if n = 8 then [back, CHR ''b'']
     else if n < 32 then back # ''u00'' @ [digit_char (n div 16), digit_char (n mod 16)]
     else [c])"

definition string_text :: "string \<Rightarrow> string" where
  "string_text s = quote_char # concat (map escape_char s) @ [quote_char]"

definition sorted_members :: "(string \<times> 'a) list \<Rightarrow> (string \<times> 'a) list" where
  "sorted_members p = sort_key fst p"

fun canonical_json :: "host_env \<Rightarrow> json \<Rightarrow> string" where
  "canonical_json h JNull = ''null''"
| "canonical_json h (JBool b) = (if b then ''true'' else ''false'')"
| "canonical_json h (JInt i) = int_text i"
| "canonical_json h (JFloat x) = float_repr h x"
| "canonical_json h (JStr s) = string_text s"
| "canonical_json h (JArr xs) = ''['' @ py_join CHR '','' (map (canonical_json h) xs) @ '']''"
| "canonical_json h (JObj p) =
     ''{'' @ py_join CHR '','' (map (\<lambda>m. string_text (fst m) @ '':'' @ snd m)
       (sorted_members (map (\<lambda>m. (fst m, canonical_json h (snd m))) p))) @ ''}''"

definition utf8 :: "string \<Rightarrow> nat list" where
  "utf8 s = concat (map (\<lambda>c. let n = cp c in
     if n < 128 then [n] else [192 + n div 64, 128 + n mod 64]) s)"

definition digest :: "host_env \<Rightarrow> json \<Rightarrow> string" where
  "digest h j = sha256 h (utf8 (canonical_json h j))"

section \<open>Lemmas\<close>

text \<open>Nesting depth, and the limits a frozen value respects everywhere.\<close>

fun json_depth :: "json \<Rightarrow> nat" where
  "json_depth (JArr xs) = Max (insert 0 ((\<lambda>x. Suc (json_depth x)) ` set xs))"
| "json_depth (JObj p) = Max (insert 0 ((\<lambda>m. Suc (json_depth (snd m))) ` set p))"
| "json_depth _ = 0"

lemma freeze_id: "freeze depth max_depth max_items j = Inr j' \<Longrightarrow> j' = j"
proof (induction depth max_depth max_items j arbitrary: j' rule: freeze.induct)
  case (1 depth max_depth max_items j)
  show ?case
  proof (cases j)
    case (JArr xs)
    with 1(3) obtain ys where ys: "j' = JArr ys" "\<not> depth > max_depth" "\<not> length xs > max_items"
        "list_all2 (\<lambda>x y. freeze (Suc depth) max_depth max_items x = Inr y) xs ys"
      by (subst (asm) freeze.simps) (auto simp: res_mapM_Inr_iff split: if_splits)
    from ys(4) have "list_all2 (\<lambda>x y. y = x) xs ys"
      by (rule list.rel_mono_strong) (use 1(1) [OF ys(2) JArr ys(3)] in blast)
    then have "ys = xs"
      by (induction xs ys rule: list_all2_induct) auto
    with ys(1) JArr show ?thesis by simp
  next
    case (JObj p)
    let ?f = "\<lambda>m. res_bind (freeze (Suc depth) max_depth max_items (snd m)) (\<lambda>v. Inr (fst m, v))"
    from JObj 1(3) obtain q where q: "j' = JObj q" "\<not> depth > max_depth" "\<not> length p > max_items"
        "\<not> list_ex (\<lambda>k. k = [] \<or> length k > 128) (map fst p)"
        "list_all2 (\<lambda>m y. ?f m = Inr y) p q"
      by (subst (asm) freeze.simps) (auto simp: res_mapM_Inr_iff split: if_splits)
    from q(5) have "list_all2 (\<lambda>m y. y = m) p q"
      by (rule list.rel_mono_strong)
        (use 1(2) [OF q(2) JObj q(3) q(4)] in \<open>fastforce simp: prod_eq_iff\<close>)
    then have "q = p"
      by (induction p q rule: list_all2_induct) auto
    with q(1) JObj show ?thesis by simp
  qed (use 1(3) in \<open>auto simp: freeze.simps split: if_splits\<close>)
qed

lemma Max_insert_le: "finite A \<Longrightarrow> Max (insert (0 :: nat) A) \<le> n \<longleftrightarrow> (\<forall>a \<in> A. a \<le> n)"
  by (subst Max_le_iff) auto

lemma le_diff_depth: "depth \<le> m \<Longrightarrow> k \<le> m - depth \<Longrightarrow> depth + k \<le> (m :: nat)"
  by simp

lemma freeze_depth: "freeze depth max_depth max_items j = Inr j' \<Longrightarrow> depth + json_depth j \<le> max_depth"
proof (induction depth max_depth max_items j arbitrary: j' rule: freeze.induct)
  case (1 depth max_depth max_items j)
  show ?case
  proof (cases j)
    case (JArr xs)
    with 1(3) obtain ys where ys: "\<not> depth > max_depth" "\<not> length xs > max_items"
        "res_mapM (freeze (Suc depth) max_depth max_items) xs = Inr ys"
      by (subst (asm) freeze.simps) (auto split: if_splits)
    have "Suc depth + json_depth x \<le> max_depth" if "x \<in> set xs" for x
      using res_mapM_Inr_mem [OF ys(3) that] 1(1) [OF ys(1) JArr ys(2) that] by blast
    with ys(1) JArr show ?thesis
      by (intro le_diff_depth) (fastforce simp: Max_insert_le)+
  next
    case (JObj p)
    with 1(3) obtain q where q: "\<not> depth > max_depth" "\<not> length p > max_items"
        "\<not> list_ex (\<lambda>k. k = [] \<or> length k > 128) (map fst p)"
        "res_mapM (\<lambda>m. res_bind (freeze (Suc depth) max_depth max_items (snd m))
           (\<lambda>v. Inr (fst m, v))) p = Inr q"
      by (subst (asm) freeze.simps) (auto split: if_splits)
    have "Suc depth + json_depth (snd m) \<le> max_depth" if "m \<in> set p" for m
      using res_mapM_Inr_mem [OF q(4) that] 1(2) [OF q(1) JObj q(2) q(3) that] by auto
    with q(1) JObj show ?thesis
      by (intro le_diff_depth) (fastforce simp: Max_insert_le)+
  qed (use 1(3) in \<open>auto simp: freeze.simps split: if_splits\<close>)
qed

text \<open>A bound on the canonical text that ignores the order of members and the escapes needed.\<close>

fun text_bound :: "host_env \<Rightarrow> json \<Rightarrow> nat" where
  "text_bound h JNull = 4"
| "text_bound h (JBool b) = 5"
| "text_bound h (JInt i) = length (int_text i)"
| "text_bound h (JFloat x) = length (float_repr h x)"
| "text_bound h (JStr s) = 2 + 6 * length s"
| "text_bound h (JArr xs) = 2 + sum_list (map (\<lambda>x. Suc (text_bound h x)) xs)"
| "text_bound h (JObj p) =
     2 + sum_list (map (\<lambda>m. 4 + 6 * length (fst m) + text_bound h (snd m)) p)"

lemma length_py_join: "length (py_join c ws) \<le> sum_list (map (\<lambda>w. Suc (length w)) ws)"
  by (induction c ws rule: py_join.induct) auto

lemma length_escape_char: "length (escape_char c) \<le> 6"
  by (simp add: escape_char_def Let_def)

lemma length_string_text: "length (string_text s) \<le> 2 + 6 * length s"
proof -
  have "length (concat (map escape_char s)) \<le> 6 * length s"
  proof (induction s)
    case (Cons c s)
    then show ?case using length_escape_char [of c] by simp
  qed simp
  then show ?thesis by (simp add: string_text_def)
qed

lemma length_utf8: "length (utf8 s) \<le> 2 * length s"
  by (induction s) (auto simp: utf8_def Let_def)

lemma sum_list_sorted_members:
  "sum_list (map f (sorted_members p)) = (sum_list (map f p) :: nat)"
proof -
  have "mset (map f (sorted_members p)) = mset (map f p)"
    by (simp add: sorted_members_def)
  then show ?thesis by (metis sum_mset_sum_list)
qed

lemma length_canonical: "length (canonical_json h j) \<le> text_bound h j"
proof (induction j)
  case (JStr s)
  then show ?case using length_string_text by simp
next
  case (JArr xs)
  have "sum_list (map (\<lambda>w. Suc (length w)) (map (canonical_json h) xs)) \<le>
      sum_list (map (\<lambda>x. Suc (text_bound h x)) xs)"
    using JArr by (auto simp: comp_def intro!: sum_list_mono)
  with length_py_join [of "CHR '',''" "map (canonical_json h) xs"] show ?case by simp
next
  case (JObj p)
  let ?line = "\<lambda>m. string_text (fst m) @ '':'' @ snd m"
  let ?texts = "map (\<lambda>m. (fst m, canonical_json h (snd m))) p"
  have "sum_list (map (\<lambda>w. Suc (length w)) (map ?line (sorted_members ?texts))) =
      sum_list (map (\<lambda>m. Suc (length (?line m))) ?texts)"
    by (simp only: map_map comp_def sum_list_sorted_members
        [of "\<lambda>m. Suc (length (string_text (fst m) @ '':'' @ snd m))"])
  also have "\<dots> \<le> sum_list (map (\<lambda>m. 4 + 6 * length (fst m) + text_bound h (snd m)) p)"
    unfolding map_map comp_def
  proof (rule sum_list_mono)
    fix m assume m: "m \<in> set p"
    have "length (canonical_json h (snd m)) \<le> text_bound h (snd m)"
      using JObj m by (cases m) auto
    then show "Suc (length (?line (fst m, canonical_json h (snd m)))) \<le>
        4 + 6 * length (fst m) + text_bound h (snd m)"
      using length_string_text [of "fst m"] by simp
  qed
  finally show ?case
    using length_py_join [of "CHR '',''" "map ?line (sorted_members ?texts)"] by simp
qed auto

section \<open>Properties\<close>

text \<open>Freezing a JSON value either refuses it or yields a copy equal to it, never a trimmed
  or altered one; an accepted value nests no deeper than the limit allows at its position.\<close>

theorem freeze_copies_bounded:
  assumes "freeze depth max_depth max_items j = Inr j'"
  shows "j' = j \<and> depth + json_depth j \<le> max_depth"
  using freeze_id [OF assms] freeze_depth [OF assms] by simp

lemma freeze_copies_bounded_witness:
  "0 + json_depth (JObj [(''a'', JArr [JInt 1, JStr ''x''])]) \<le> max_runtime_depth"
proof -
  have "freeze 0 max_runtime_depth max_runtime_items (JObj [(''a'', JArr [JInt 1, JStr ''x''])]) =
      Inr (JObj [(''a'', JArr [JInt 1, JStr ''x''])])"
    by (simp add: freeze.simps max_runtime_depth_def max_runtime_items_def max_runtime_text_def
        cp_def)
  from freeze_copies_bounded [OF this] show ?thesis by simp
qed

end
