(* ===== verification/Swarm_Models.thy ===== *)
theory Swarm_Models
  imports Runtime_Json
begin

text \<open>
  \<^verbatim>\<open>ordin/swarm/models.py\<close> and \<^verbatim>\<open>ordin/swarm/identity.py\<close>: bounded host values, the immutable
  identity, coverage and context values of the swarm registry with their validation, and the
  bytes a context is digested from. Host clock readings are exact rationals.
\<close>

section \<open>Bounded host values\<close>

definition id_char :: "char \<Rightarrow> bool" where
  "id_char c = (ascii_alnum c \<or> c \<in> set ''_.:@-'')"

text \<open>\<^verbatim>\<open>_ID.fullmatch\<close> for \<^verbatim>\<open>[A-Za-z0-9][A-Za-z0-9_.:@-]{0,127}\<close>.\<close>

definition id_match :: "string \<Rightarrow> bool" where
  "id_match s = (case s of [] \<Rightarrow> False
     | c # cs \<Rightarrow> ascii_alnum c \<and> list_all id_char cs \<and> length cs \<le> 127)"

definition host_identifier :: "string \<Rightarrow> string \<Rightarrow> string res" where
  "host_identifier v name =
     (if length v > 128 \<or> \<not> id_match v
      then Inl (ValueError (name @ '' must be a bounded host identifier'')) else Inr v)"

definition counter :: "int \<Rightarrow> string \<Rightarrow> int res" where
  "counter v name =
     (if \<not> (0 \<le> v \<and> v < 2 ^ 63)
      then Inl (ValueError (name @ '' must be a nonnegative bounded integer'')) else Inr v)"

text \<open>
  What a host clock callback may return. A reading is kept by its value: the sign of a zero reading, which
  \<^verbatim>\<open>float\<close> would keep and only the text of a context shows, is not.
\<close>

datatype host_number = HInt int | HFloat py_float | HNan | HInfinity bool | HOther

definition clock_error :: py_error where
  "clock_error = ValueError ''host clock must provide finite nonnegative monotonic seconds''"

definition timestamp :: "host_number \<Rightarrow> rat res" where
  "timestamp v =
     (case v of
        HInt i \<Rightarrow> if 0 \<le> i \<and> i \<le> 10 ^ 18 then Inr (of_int i) else Inl clock_error
      | HFloat x \<Rightarrow> if 0 \<le> float_value x \<and> float_value x \<le> 10 ^ 18 then Inr (float_value x) else Inl clock_error
      | HNan \<Rightarrow> Inl clock_error
      | HInfinity positive \<Rightarrow> Inl clock_error
      | HOther \<Rightarrow> Inl clock_error)"

definition optional_identifier :: "string option \<Rightarrow> string \<Rightarrow> unit res" where
  "optional_identifier v name =
     (case v of None \<Rightarrow> Inr () | Some s \<Rightarrow> res_bind (host_identifier s name) (\<lambda>_. Inr ()))"

section \<open>Identity\<close>

record swarm_identity =
  id_tenant :: string
  id_swarm :: string
  id_agent :: string
  id_runtime :: string
  id_session :: string
  id_generation :: int
  id_epoch :: int
  id_parent :: "string option"
  id_parent_generation :: "int option"
  id_task :: "string option"
  id_delegation :: "string option"

definition identity_post_init :: "swarm_identity \<Rightarrow> unit res" where
  "identity_post_init i =
     res_bind (host_identifier (id_tenant i) ''tenant_id'') (\<lambda>_.
     res_bind (host_identifier (id_swarm i) ''swarm_id'') (\<lambda>_.
     res_bind (host_identifier (id_agent i) ''agent_id'') (\<lambda>_.
     res_bind (host_identifier (id_runtime i) ''runtime_id'') (\<lambda>_.
     res_bind (host_identifier (id_session i) ''session_id'') (\<lambda>_.
     res_bind (optional_identifier (id_parent i) ''parent_agent_id'') (\<lambda>_.
     res_bind (optional_identifier (id_task i) ''task_id'') (\<lambda>_.
     res_bind (optional_identifier (id_delegation i) ''delegation_id'') (\<lambda>_.
     res_bind (counter (id_generation i) ''generation'') (\<lambda>_.
     res_bind (counter (id_epoch i) ''policy_epoch'') (\<lambda>_.
     if id_generation i = 0 then Inl (ValueError ''generation must be positive'')
     else if (id_parent i = None) \<noteq> (id_parent_generation i = None)
     then Inl (ValueError ''parent identity requires an exact parent generation'')
     else res_bind (case id_parent_generation i of
         None \<Rightarrow> Inr ()
       | Some g \<Rightarrow> res_bind (counter g ''parent_generation'') (\<lambda>_.
           if g = 0 \<or> id_parent i = Some (id_agent i)
           then Inl (ValueError ''invalid parent identity'') else Inr ())) (\<lambda>_.
     if id_delegation i \<noteq> None \<and> id_parent i = None
     then Inl (ValueError ''delegation identity requires a parent'') else Inr ())))))))))))"

definition identity_as_dict :: "swarm_identity \<Rightarrow> payload" where
  "identity_as_dict i =
     [(''tenant_id'', JStr (id_tenant i)), (''swarm_id'', JStr (id_swarm i)),
      (''agent_id'', JStr (id_agent i)), (''runtime_id'', JStr (id_runtime i)),
      (''session_id'', JStr (id_session i)), (''generation'', JInt (id_generation i)),
      (''policy_epoch'', JInt (id_epoch i)), (''parent_agent_id'', option_json (id_parent i)),
      (''parent_generation'',
        (case id_parent_generation i of None \<Rightarrow> JNull | Some g \<Rightarrow> JInt g)),
      (''task_id'', option_json (id_task i)), (''delegation_id'', option_json (id_delegation i))]"

section \<open>Coverage\<close>

record coverage_entry =
  ce_capability :: string
  ce_route :: string
  ce_resource :: string
  ce_boundary :: string
  ce_state :: string

definition coverage_states :: "string list" where
  "coverage_states =
     [''observe_only'', ''mediated'', ''physically_enforced'', ''unsupported'', ''coverage_gap'']"

definition coverage_modes :: "string list" where
  "coverage_modes = [''observe'', ''intercept'', ''enforce'', ''uncovered'']"

definition entry_post_init :: "coverage_entry \<Rightarrow> unit res" where
  "entry_post_init e =
     res_bind (host_identifier (ce_capability e) ''capability'') (\<lambda>_.
     res_bind (host_identifier (ce_route e) ''route'') (\<lambda>_.
     res_bind (host_identifier (ce_boundary e) ''boundary_id'') (\<lambda>_.
     if \<not> (1 \<le> length (ce_resource e) \<and> length (ce_resource e) \<le> 512) \<or>
        list_ex (\<lambda>c. cp c < 32 \<or> cp c = 127) (ce_resource e)
     then Inl (ValueError ''resource must be bounded, explicit and free of control characters'')
     else if ce_state e \<notin> set coverage_states
     then Inl (ValueError ''unknown capability coverage state'') else Inr ())))"

definition entry_as_dict :: "coverage_entry \<Rightarrow> payload" where
  "entry_as_dict e =
     [(''capability'', JStr (ce_capability e)), (''route'', JStr (ce_route e)),
      (''resource'', JStr (ce_resource e)), (''boundary_id'', JStr (ce_boundary e)),
      (''state'', JStr (ce_state e))]"

record coverage_manifest =
  cm_mode :: string
  cm_entries :: "coverage_entry list"

definition default_manifest :: coverage_manifest where
  "default_manifest = \<lparr>cm_mode = ''uncovered'', cm_entries = []\<rparr>"

fun check_entries ::
  "string \<Rightarrow> (string \<times> string \<times> string) list \<Rightarrow> coverage_entry list \<Rightarrow> unit res" where
  "check_entries mode seen [] = Inr ()"
| "check_entries mode seen (e # es) =
     res_bind (entry_post_init e) (\<lambda>_.
     if (ce_capability e, ce_route e, ce_resource e) \<in> set seen
     then Inl (ValueError ''duplicate capability coverage'')
     else if mode = ''uncovered'' \<and> ce_state e \<notin> {''unsupported'', ''coverage_gap''}
     then Inl (ValueError ''uncovered enrollment cannot claim mediation'')
     else if mode = ''observe'' \<and> ce_state e \<in> {''mediated'', ''physically_enforced''}
     then Inl (ValueError ''observation cannot claim interception'')
     else if mode = ''intercept'' \<and> ce_state e = ''physically_enforced''
     then Inl (ValueError ''interception cannot claim physical enforcement'')
     else check_entries mode ((ce_capability e, ce_route e, ce_resource e) # seen) es)"

definition manifest_post_init :: "coverage_manifest \<Rightarrow> unit res" where
  "manifest_post_init m =
     (if cm_mode m \<notin> set coverage_modes \<or> length (cm_entries m) > 64
      then Inl (ValueError ''invalid or oversized coverage manifest'')
      else check_entries (cm_mode m) [] (cm_entries m))"

definition manifest_as_dict :: "coverage_manifest \<Rightarrow> payload" where
  "manifest_as_dict m =
     [(''mode'', JStr (cm_mode m)),
      (''entries'', JArr (map (\<lambda>e. JObj (entry_as_dict e)) (cm_entries m)))]"

section \<open>Contexts\<close>

record swarm_context =
  sc_registry :: string
  sc_identity :: swarm_identity
  sc_coverage :: coverage_manifest
  sc_enrolled :: rat

definition context_as_dict :: "swarm_context \<Rightarrow> payload" where
  "context_as_dict c =
     [(''schema_version'', JStr ''ordin.swarm_context.v1''), (''registry_id'', JStr (sc_registry c)),
      (''identity'', JObj (identity_as_dict (sc_identity c))),
      (''coverage'', JObj (manifest_as_dict (sc_coverage c))),
      (''enrolled_at'', JFloat (Float (sc_enrolled c)))]"

definition validated_bytes :: "host_env \<Rightarrow> swarm_context \<Rightarrow> nat list res" where
  "validated_bytes h c =
     res_bind (host_identifier (sc_registry c) ''registry_id'') (\<lambda>_.
     res_bind (identity_post_init (sc_identity c)) (\<lambda>_.
     res_bind (manifest_post_init (sc_coverage c)) (\<lambda>_.
     res_bind (timestamp (HFloat (Float (sc_enrolled c)))) (\<lambda>_.
     let raw = utf8 (canonical_json h (JObj (context_as_dict c)))
     in if length raw > 65536
        then Inl (ValueError ''swarm context exceeds the 64 KiB encoded limit'') else Inr raw))))"

definition make_context ::
  "host_env \<Rightarrow> string \<Rightarrow> swarm_identity \<Rightarrow> coverage_manifest \<Rightarrow> rat \<Rightarrow> swarm_context res" where
  "make_context h registry i m enrolled =
     (let c = \<lparr>sc_registry = registry, sc_identity = i, sc_coverage = m, sc_enrolled = enrolled\<rparr>
      in res_bind (validated_bytes h c) (\<lambda>_. Inr c))"

definition context_digest :: "host_env \<Rightarrow> swarm_context \<Rightarrow> string res" where
  "context_digest h c = res_bind (validated_bytes h c) (\<lambda>raw. Inr (sha256 h raw))"

text \<open>An opaque channel handle (\<^verbatim>\<open>eq=False\<close>: two handles are the same only as objects).\<close>

record host_channel =
  hc_tenant :: string
  hc_swarm :: string
  hc_runtime :: string

section \<open>Lemmas\<close>

lemma host_identifier_Inr_iff [simp]: "host_identifier v name = Inr w \<longleftrightarrow> w = v \<and> id_match v"
  by (auto simp: host_identifier_def id_match_def split: list.splits)

lemma counter_Inr_iff [simp]: "counter v name = Inr w \<longleftrightarrow> w = v \<and> 0 \<le> v \<and> v < 2 ^ 63"
  by (auto simp: counter_def)

lemma timestamp_range: "timestamp v = Inr t \<Longrightarrow> 0 \<le> t \<and> t \<le> 10 ^ 18"
  by (cases v) (auto simp: timestamp_def split: if_splits)

lemma make_context_Inr_iff:
  "make_context h rg i m t = Inr c \<longleftrightarrow>
     c = \<lparr>sc_registry = rg, sc_identity = i, sc_coverage = m, sc_enrolled = t\<rparr> \<and>
     (\<exists>raw. validated_bytes h c = Inr raw)"
  by (auto simp: make_context_def Let_def)

definition within_mode :: "string \<Rightarrow> string \<Rightarrow> bool" where
  "within_mode mode state =
     (\<not> (mode = ''uncovered'' \<and> state \<notin> {''unsupported'', ''coverage_gap''}) \<and>
      \<not> (mode = ''observe'' \<and> state \<in> {''mediated'', ''physically_enforced''}) \<and>
      \<not> (mode = ''intercept'' \<and> state = ''physically_enforced''))"

lemma check_entries_step:
  "check_entries mode seen (e # es) = Inr () \<longleftrightarrow>
     entry_post_init e = Inr () \<and> (ce_capability e, ce_route e, ce_resource e) \<notin> set seen \<and>
     within_mode mode (ce_state e) \<and>
     check_entries mode ((ce_capability e, ce_route e, ce_resource e) # seen) es = Inr ()"
  by (simp only: check_entries.simps res_bind_Inr_iff if_Inl_Inr_iff ex_unit_iff within_mode_def
      conj_assoc)

lemma check_entries_sound:
  assumes "check_entries mode seen es = Inr ()"
  shows "(\<forall>e \<in> set es. entry_post_init e = Inr () \<and> within_mode mode (ce_state e)) \<and>
    distinct (map (\<lambda>e. (ce_capability e, ce_route e, ce_resource e)) es) \<and>
    (\<lambda>e. (ce_capability e, ce_route e, ce_resource e)) ` set es \<inter> set seen = {}"
  using assms
proof (induction es arbitrary: seen)
  case (Cons e es)
  then show ?case
    unfolding check_entries_step by fastforce
qed simp

lemma within_mode_enforced:
  assumes "within_mode mode state" and "mode \<in> set coverage_modes"
  shows "state = ''physically_enforced'' \<Longrightarrow> mode = ''enforce''"
    and "state = ''mediated'' \<Longrightarrow> mode \<in> {''enforce'', ''intercept''}"
  using assms by (auto simp: within_mode_def coverage_modes_def)

section \<open>Properties\<close>

text \<open>An accepted coverage manifest never claims more than its mode: physical enforcement
  is claimed only in the mode enforce and mediation only in the modes enforce or intercept; every
  entry is valid on its own and no capability, route and resource is covered twice.\<close>

theorem manifest_claims_bounded_by_mode:
  assumes "manifest_post_init m = Inr ()"
  shows "(\<forall>e \<in> set (cm_entries m). entry_post_init e = Inr () \<and>
      (ce_state e = ''physically_enforced'' \<longrightarrow> cm_mode m = ''enforce'') \<and>
      (ce_state e = ''mediated'' \<longrightarrow> cm_mode m \<in> {''enforce'', ''intercept''})) \<and>
    distinct (map (\<lambda>e. (ce_capability e, ce_route e, ce_resource e)) (cm_entries m))"
proof -
  have mode: "cm_mode m \<in> set coverage_modes" and "check_entries (cm_mode m) [] (cm_entries m) = Inr ()"
    using assms by (auto simp: manifest_post_init_def split: if_splits)
  from check_entries_sound [OF this(2)] within_mode_enforced [OF _ mode] show ?thesis
    by blast
qed

definition sample_entry :: coverage_entry where
  "sample_entry = \<lparr>ce_capability = ''shell'', ce_route = ''hook'', ce_resource = ''/work'',
     ce_boundary = ''b1'', ce_state = ''mediated''\<rparr>"

lemma manifest_claims_bounded_by_mode_witness:
  "cm_mode \<lparr>cm_mode = ''intercept'', cm_entries = [sample_entry]\<rparr> \<in> {''enforce'', ''intercept''}"
proof -
  have "manifest_post_init \<lparr>cm_mode = ''intercept'', cm_entries = [sample_entry]\<rparr> = Inr ()"
    by (simp add: manifest_post_init_def sample_entry_def entry_post_init_def host_identifier_def
        id_match_def ascii_alnum_def id_char_def cp_def coverage_modes_def coverage_states_def)
  from manifest_claims_bounded_by_mode [OF this] show ?thesis
    by (simp add: sample_entry_def)
qed

end
