(* ===== verification/Registry.thy ===== *)
theory Registry
  imports Swarm_Models Contracts State_Result "HOL-Library.AList"
begin

text \<open>
  \<^verbatim>\<open>ordin/swarm/registry.py\<close>: the in-memory agent registry. The registry compares contexts and
  channels as objects, so the state holds the objects it created: \<open>rg_contexts\<close> and \<open>rg_chans\<close>
  list them by address and the operations are given addresses. An operation that reads the host
  clock takes the reading as an argument. The locks serialise the operations, so a run of the
  registry is a sequence of them.
\<close>

section \<open>State\<close>

datatype agent_phase = Active | Stale | Paused | Ended

record agent_record =
  ag_context :: nat
  ag_channel :: nat
  ag_digest :: string
  ag_heartbeat :: rat
  ag_phase :: agent_phase

text \<open>An adapter is an instance (by identity) or a plain value, which is never accepted.\<close>

datatype adapter = Instance nat | Plain

record registry =
  rg_tenant :: string
  rg_swarm :: string
  rg_id :: string
  rg_epoch :: int
  rg_max_agents :: nat
  rg_max_channels :: nat
  rg_max_depth :: nat
  rg_timeout :: rat
  rg_last_clock :: rat
  rg_generation :: int
  rg_channels :: "(nat \<times> adapter \<times> string) list"
  rg_agents :: "(string \<times> agent_record) list"
  rg_chans :: "host_channel list"
  rg_contexts :: "swarm_context list"

type_synonym 'a reg_op = "(registry, 'a) op"

abbreviation agent_of :: "registry \<Rightarrow> string \<Rightarrow> agent_record option" where
  "agent_of r k \<equiv> map_of (rg_agents r) k"

abbreviation context_at :: "registry \<Rightarrow> nat \<Rightarrow> swarm_context" where
  "context_at r a \<equiv> rg_contexts r ! a"

abbreviation identity_at :: "registry \<Rightarrow> nat \<Rightarrow> swarm_identity" where
  "identity_at r a \<equiv> sc_identity (rg_contexts r ! a)"

definition registry_init ::
  "string \<Rightarrow> string \<Rightarrow> string \<Rightarrow> int \<Rightarrow> int \<Rightarrow> int \<Rightarrow> int \<Rightarrow> host_number \<Rightarrow> registry res" where
  "registry_init tenant swarm registry_id epoch max_agents max_channels max_depth timeout =
     res_bind (host_identifier tenant ''tenant_id'') (\<lambda>_.
     res_bind (host_identifier swarm ''swarm_id'') (\<lambda>_.
     res_bind (host_identifier registry_id ''registry_id'') (\<lambda>_.
     res_bind (counter epoch ''policy_epoch'') (\<lambda>_.
     if \<not> (1 \<le> max_agents \<and> max_agents \<le> 4096)
     then Inl (ValueError ''invalid max_agents'')
     else if \<not> (1 \<le> max_channels \<and> max_channels \<le> 4096)
     then Inl (ValueError ''invalid max_channels'')
     else if \<not> (1 \<le> max_depth \<and> max_depth \<le> 32)
     then Inl (ValueError ''invalid max_parent_depth'')
     else res_bind (timestamp timeout) (\<lambda>t.
     if \<not> (0 < t \<and> t \<le> 3600) then Inl (ValueError ''invalid heartbeat configuration'')
     else Inr \<lparr>rg_tenant = tenant, rg_swarm = swarm, rg_id = registry_id, rg_epoch = epoch,
       rg_max_agents = nat max_agents, rg_max_channels = nat max_channels,
       rg_max_depth = nat max_depth, rg_timeout = t, rg_last_clock = 0, rg_generation = 0,
       rg_channels = [], rg_agents = [], rg_chans = [], rg_contexts = []\<rparr>)))))"

section \<open>Steps shared by the operations\<close>

definition reg_now :: "host_number \<Rightarrow> rat reg_op" where
  "reg_now reading =
     op_bind (op_lift (timestamp reading)) (\<lambda>now.
     op_bind (op_get rg_last_clock) (\<lambda>last.
     op_bind (op_check (\<not> now < last) (ValueError ''host clock moved backwards'')) (\<lambda>_.
     op_bind (op_modify (\<lambda>r. r\<lparr>rg_last_clock := now\<rparr>)) (\<lambda>_.
     op_return now))))"

definition channel_check :: "registry \<Rightarrow> nat \<Rightarrow> adapter \<Rightarrow> string res" where
  "channel_check r ch ad =
     (case map_of (rg_channels r) ch of
        None \<Rightarrow> Inl (ValueError ''unknown, changed or cross-scope host channel'')
      | Some (bound, runtime) \<Rightarrow>
          if bound \<noteq> ad \<or> (hc_tenant (rg_chans r ! ch), hc_swarm (rg_chans r ! ch),
               hc_runtime (rg_chans r ! ch)) \<noteq> (rg_tenant r, rg_swarm r, runtime)
          then Inl (ValueError ''unknown, changed or cross-scope host channel'')
          else Inr runtime)"

definition phase_at :: "registry \<Rightarrow> agent_record \<Rightarrow> rat \<Rightarrow> agent_phase" where
  "phase_at r ag now =
     (if ag_phase ag = Active \<and> now - ag_heartbeat ag \<ge> rg_timeout r then Stale
      else ag_phase ag)"

definition parent_error :: py_error where
  "parent_error = ValueError ''missing, stale or changed parent identity''"

fun parents_check ::
  "host_env \<Rightarrow> registry \<Rightarrow> rat \<Rightarrow> nat \<Rightarrow> string list \<Rightarrow> swarm_identity \<Rightarrow> unit res" where
  "parents_check h r now 0 seen current =
     ensure (id_parent current = None) (ValueError ''parent depth limit reached'')"
| "parents_check h r now (Suc depth) seen current =
     (case id_parent current of
        None \<Rightarrow> Inr ()
      | Some name \<Rightarrow>
          (case agent_of r name of
             None \<Rightarrow> Inl parent_error
           | Some parent \<Rightarrow>
               (case map_of (rg_channels r) (ag_channel parent) of
                  None \<Rightarrow> Inl parent_error
                | Some (bound, runtime) \<Rightarrow>
                    if name \<in> set seen \<or> phase_at r parent now \<noteq> Active \<or>
                       Some (id_generation (identity_at r (ag_context parent))) \<noteq>
                         id_parent_generation current \<or>
                       id_epoch (identity_at r (ag_context parent)) \<noteq> rg_epoch r
                    then Inl parent_error
                    else
                      res_bind (context_digest h (context_at r (ag_context parent))) (\<lambda>d.
                      if d \<noteq> ag_digest parent then Inl parent_error
                      else res_bind (channel_check r (ag_channel parent) bound) (\<lambda>_.
                        parents_check h r now depth (name # seen)
                          (identity_at r (ag_context parent)))))))"

definition parents :: "host_env \<Rightarrow> registry \<Rightarrow> swarm_identity \<Rightarrow> rat \<Rightarrow> unit res" where
  "parents h r i now = parents_check h r now (rg_max_depth r) [id_agent i] i"

definition store_agent :: "string \<Rightarrow> agent_record \<Rightarrow> registry \<Rightarrow> registry" where
  "store_agent k ag r = r\<lparr>rg_agents := AList.update k ag (rg_agents r)\<rparr>"

definition new_identity ::
  "registry \<Rightarrow> string \<Rightarrow> string \<Rightarrow> string \<Rightarrow> string option \<Rightarrow> string option \<Rightarrow> string option
     \<Rightarrow> swarm_identity" where
  "new_identity r runtime agent session task parent delegation =
     \<lparr>id_tenant = rg_tenant r, id_swarm = rg_swarm r, id_agent = agent, id_runtime = runtime,
      id_session = session, id_generation = rg_generation r + 1, id_epoch = rg_epoch r,
      id_parent = parent,
      id_parent_generation =
        (case parent of None \<Rightarrow> None
         | Some p \<Rightarrow> map_option (\<lambda>ag. id_generation (identity_at r (ag_context ag))) (agent_of r p)),
      id_task = task, id_delegation = delegation\<rparr>"

text \<open>The checks of \<^verbatim>\<open>_issue\<close>, yielding the new context and its digest.\<close>

definition issue_check ::
  "host_env \<Rightarrow> string \<Rightarrow> string \<Rightarrow> string \<Rightarrow> string option \<Rightarrow> string option \<Rightarrow> string option
     \<Rightarrow> coverage_manifest \<Rightarrow> rat \<Rightarrow> registry \<Rightarrow> (swarm_context \<times> string) res" where
  "issue_check h runtime agent session task parent delegation coverage now r =
     res_bind (manifest_post_init coverage) (\<lambda>_.
     if list_ex (\<lambda>e. ce_state e = ''physically_enforced'') (cm_entries coverage)
     then Inl (ValueError ''enrollment alone cannot attest physical enforcement'')
     else
     res_bind (optional_identifier parent ''parent_agent_id'') (\<lambda>_.
     res_bind (counter (rg_generation r + 1) ''generation'') (\<lambda>_.
     let i = new_identity r runtime agent session task parent delegation in
     res_bind (identity_post_init i) (\<lambda>_.
     res_bind (parents h r i now) (\<lambda>_.
     res_bind (make_context h (rg_id r) i coverage now) (\<lambda>c.
     res_bind (context_digest h c) (\<lambda>d. Inr (c, d))))))))"

definition install :: "nat \<Rightarrow> rat \<Rightarrow> swarm_context \<Rightarrow> string \<Rightarrow> registry \<Rightarrow> registry" where
  "install ch now c d r =
     store_agent (id_agent (sc_identity c))
       \<lparr>ag_context = length (rg_contexts r), ag_channel = ch, ag_digest = d, ag_heartbeat = now,
        ag_phase = Active\<rparr>
       (r\<lparr>rg_contexts := rg_contexts r @ [c], rg_generation := id_generation (sc_identity c)\<rparr>)"

text \<open>\<^verbatim>\<open>_issue\<close> returns the new context object: its address.\<close>

definition issue ::
  "host_env \<Rightarrow> nat \<Rightarrow> string \<Rightarrow> string \<Rightarrow> string \<Rightarrow> string option \<Rightarrow> string option
     \<Rightarrow> string option \<Rightarrow> coverage_manifest \<Rightarrow> rat \<Rightarrow> nat reg_op" where
  "issue h ch runtime agent session task parent delegation coverage now =
     op_bind (op_read (issue_check h runtime agent session task parent delegation coverage now))
       (\<lambda>(c, d).
     op_bind (op_get (\<lambda>r. length (rg_contexts r))) (\<lambda>a.
     op_bind (op_modify (install ch now c d)) (\<lambda>_.
     op_return a)))"

text \<open>\<^verbatim>\<open>_record\<close>: the agent record whose context and channel are these very objects.\<close>

definition record_check :: "host_env \<Rightarrow> nat \<Rightarrow> nat \<Rightarrow> adapter \<Rightarrow> registry \<Rightarrow> agent_record res" where
  "record_check h a ch ad r =
     res_bind (channel_check r ch ad) (\<lambda>_.
     if \<not> a < length (rg_contexts r) then Inl (ValueError ''unknown principal context'')
     else (case agent_of r (id_agent (identity_at r a)) of
        None \<Rightarrow> Inl (ValueError ''unknown, serialized, replaced or cross-channel principal'')
      | Some ag \<Rightarrow>
          if ag_context ag \<noteq> a \<or> ag_channel ag \<noteq> ch
          then Inl (ValueError ''unknown, serialized, replaced or cross-channel principal'')
          else res_bind (context_digest h (context_at r a)) (\<lambda>d.
            if d \<noteq> ag_digest ag then Inl (ValueError ''principal context was changed'')
            else Inr ag)))"

definition live_check ::
  "host_env \<Rightarrow> nat \<Rightarrow> nat \<Rightarrow> adapter \<Rightarrow> rat \<Rightarrow> registry \<Rightarrow> agent_record res" where
  "live_check h a ch ad now r =
     res_bind (record_check h a ch ad r) (\<lambda>ag.
     if phase_at r ag now \<noteq> Active \<or> id_epoch (identity_at r a) \<noteq> rg_epoch r
     then Inl (ValueError ''principal is paused, ended, expired or from a stale policy epoch'')
     else res_bind (parents h r (identity_at r a) now) (\<lambda>_. Inr ag))"

section \<open>Operations\<close>

definition bind_channel :: "adapter \<Rightarrow> string \<Rightarrow> nat reg_op" where
  "bind_channel ad runtime =
     op_bind (op_lift (host_identifier runtime ''runtime_id'')) (\<lambda>_.
     op_bind (op_check (ad \<noteq> Plain)
       (ValueError ''adapter must be a protected instance, not serialized identity'')) (\<lambda>_.
     op_bind (op_read (\<lambda>r. ensure (\<not> length (rg_channels r) \<ge> rg_max_channels r)
       (ValueError ''host channel limit reached''))) (\<lambda>_.
     op_bind (op_get (\<lambda>r. length (rg_chans r))) (\<lambda>ch.
     op_bind (op_modify (\<lambda>r. r\<lparr>
         rg_chans := rg_chans r @
           [\<lparr>hc_tenant = rg_tenant r, hc_swarm = rg_swarm r, hc_runtime = runtime\<rparr>],
         rg_channels := AList.update ch (ad, runtime) (rg_channels r)\<rparr>)) (\<lambda>_.
     op_return ch)))))"

definition enroll ::
  "host_env \<Rightarrow> nat \<Rightarrow> adapter \<Rightarrow> string \<Rightarrow> string \<Rightarrow> string option \<Rightarrow> string option
     \<Rightarrow> string option \<Rightarrow> coverage_manifest \<Rightarrow> host_number \<Rightarrow> nat reg_op" where
  "enroll h ch ad agent session task parent delegation coverage reading =
     op_bind (op_read (\<lambda>r. channel_check r ch ad)) (\<lambda>runtime.
     op_bind (reg_now reading) (\<lambda>now.
     op_bind (op_lift (host_identifier agent ''agent_id'')) (\<lambda>_.
     op_bind (op_read (\<lambda>r. ensure (agent_of r agent = None)
       (ValueError ''duplicate principal; use explicit restart''))) (\<lambda>_.
     op_bind (op_read (\<lambda>r. ensure (\<not> length (rg_agents r) \<ge> rg_max_agents r)
       (ValueError ''principal limit reached''))) (\<lambda>_.
     issue h ch runtime agent session task parent delegation coverage now)))))"

definition authenticate :: "host_env \<Rightarrow> nat \<Rightarrow> nat \<Rightarrow> adapter \<Rightarrow> host_number \<Rightarrow> nat reg_op" where
  "authenticate h a ch ad reading =
     op_bind (reg_now reading) (\<lambda>now.
     op_bind (op_read (live_check h a ch ad now)) (\<lambda>_.
     op_return a))"

definition heartbeat :: "host_env \<Rightarrow> nat \<Rightarrow> nat \<Rightarrow> adapter \<Rightarrow> host_number \<Rightarrow> unit reg_op" where
  "heartbeat h a ch ad reading =
     op_bind (reg_now reading) (\<lambda>now.
     op_bind (op_read (live_check h a ch ad now)) (\<lambda>ag.
     op_modify (\<lambda>r. store_agent (id_agent (identity_at r a)) (ag\<lparr>ag_heartbeat := now\<rparr>) r)))"

definition agent_state ::
  "host_env \<Rightarrow> nat \<Rightarrow> nat \<Rightarrow> adapter \<Rightarrow> host_number \<Rightarrow> agent_phase reg_op" where
  "agent_state h a ch ad reading =
     op_bind (op_read (record_check h a ch ad)) (\<lambda>ag.
     op_bind (reg_now reading) (\<lambda>now.
     op_get (\<lambda>r.
       if phase_at r ag now \<noteq> Active then phase_at r ag now
       else if id_epoch (identity_at r a) \<noteq> rg_epoch r then Stale
       else (case parents h r (identity_at r a) now of Inl e \<Rightarrow> Stale | Inr u \<Rightarrow> Active))))"

definition pause :: "host_env \<Rightarrow> nat \<Rightarrow> nat \<Rightarrow> adapter \<Rightarrow> host_number \<Rightarrow> unit reg_op" where
  "pause h a ch ad reading =
     op_bind (reg_now reading) (\<lambda>now.
     op_bind (op_read (live_check h a ch ad now)) (\<lambda>ag.
     op_modify (\<lambda>r. store_agent (id_agent (identity_at r a)) (ag\<lparr>ag_phase := Paused\<rparr>) r)))"

definition end_agent :: "host_env \<Rightarrow> nat \<Rightarrow> nat \<Rightarrow> adapter \<Rightarrow> unit reg_op" where
  "end_agent h a ch ad =
     op_bind (op_read (record_check h a ch ad)) (\<lambda>ag.
     op_modify (\<lambda>r. store_agent (id_agent (identity_at r a)) (ag\<lparr>ag_phase := Ended\<rparr>) r))"

definition restart ::
  "host_env \<Rightarrow> nat \<Rightarrow> nat \<Rightarrow> adapter \<Rightarrow> nat \<Rightarrow> adapter \<Rightarrow> string \<Rightarrow> coverage_manifest
     \<Rightarrow> host_number \<Rightarrow> nat reg_op" where
  "restart h a ch ad new_ch new_ad session coverage reading =
     op_bind (op_read (record_check h a ch ad)) (\<lambda>_.
     op_bind (op_read (\<lambda>r. channel_check r new_ch new_ad)) (\<lambda>runtime.
     op_bind (op_get (\<lambda>r. identity_at r a)) (\<lambda>i.
     op_bind (op_check (session \<noteq> id_session i)
       (ValueError ''restart requires a new session identity'')) (\<lambda>_.
     op_bind (reg_now reading) (\<lambda>now.
     issue h new_ch runtime (id_agent i) session (id_task i) (id_parent i) (id_delegation i)
       coverage now)))))"

definition advance_policy_epoch :: "int \<Rightarrow> unit reg_op" where
  "advance_policy_epoch epoch =
     op_bind (op_lift (counter epoch ''policy_epoch'')) (\<lambda>_.
     op_bind (op_read (\<lambda>r. ensure (\<not> epoch \<le> rg_epoch r)
       (ValueError ''policy epoch must increase monotonically''))) (\<lambda>_.
     op_modify (\<lambda>r. r\<lparr>rg_epoch := epoch\<rparr>)))"

definition refresh_policy_context ::
  "host_env \<Rightarrow> nat \<Rightarrow> nat \<Rightarrow> adapter \<Rightarrow> coverage_manifest \<Rightarrow> host_number \<Rightarrow> nat reg_op" where
  "refresh_policy_context h a ch ad coverage reading =
     op_bind (op_read (record_check h a ch ad)) (\<lambda>ag.
     op_bind (reg_now reading) (\<lambda>now.
     op_bind (op_read (\<lambda>r. ensure (phase_at r ag now = Active \<and>
         \<not> id_epoch (identity_at r a) \<ge> rg_epoch r)
       (ValueError ''only a live stale-policy context can be refreshed''))) (\<lambda>_.
     op_bind (op_get (\<lambda>r. identity_at r a)) (\<lambda>i.
     op_bind (op_read (\<lambda>r. channel_check r ch ad)) (\<lambda>runtime.
     issue h ch runtime (id_agent i) (id_session i) (id_task i) (id_parent i) (id_delegation i)
       coverage now)))))"

text \<open>
  \<^verbatim>\<open>rebind_delegation\<close>: \<open>relationship\<close> is the outcome of the delegation issuer's check of the
  grant (\<^verbatim>\<open>verify_current_delegation_relationship\<close>, run first), \<open>grant\<close> the record it checked.
\<close>

record delegation_scope =
  dl_grant :: string
  dl_parent :: string
  dl_child :: string
  dl_source_epoch :: int

definition rebind_delegation ::
  "host_env \<Rightarrow> unit res \<Rightarrow> delegation_scope \<Rightarrow> nat \<Rightarrow> nat \<Rightarrow> adapter \<Rightarrow> nat \<Rightarrow> nat \<Rightarrow> adapter
     \<Rightarrow> host_number \<Rightarrow> nat reg_op" where
  "rebind_delegation h relationship grant a ch ad pa pch pad reading =
     op_bind (op_lift relationship) (\<lambda>_.
     op_bind (reg_now reading) (\<lambda>now.
     op_bind (op_read (record_check h a ch ad)) (\<lambda>child.
     op_bind (op_read (live_check h pa pch pad now)) (\<lambda>parent.
     op_bind (op_get (\<lambda>r. identity_at r a)) (\<lambda>i.
     op_bind (op_get (\<lambda>r. identity_at r pa)) (\<lambda>pi.
     op_bind (op_read (\<lambda>r. ensure
       (phase_at r child now = Active \<and> id_epoch i = rg_epoch r \<and> id_agent i = dl_child grant \<and>
        id_agent (identity_at r (ag_context parent)) = dl_parent grant \<and>
        dl_source_epoch grant = id_epoch i \<and>
        (id_tenant i, id_swarm i, id_task i) = (id_tenant pi, id_swarm pi, id_task pi))
       (ValueError ''delegation rebind differs from live parent/child workload scope''))) (\<lambda>_.
     if id_delegation i = Some (dl_grant grant) \<and> id_parent i = Some (id_agent pi) \<and>
        id_parent_generation i = Some (id_generation pi)
     then op_return a
     else op_bind (op_read (\<lambda>r. channel_check r ch ad)) (\<lambda>runtime.
       op_bind (op_get (\<lambda>r. sc_coverage (context_at r a))) (\<lambda>coverage.
       issue h ch runtime (id_agent i) (id_session i) (id_task i) (Some (id_agent pi))
         (Some (dl_grant grant)) coverage now)))))))))"

definition forget_ended :: "host_env \<Rightarrow> nat \<Rightarrow> nat \<Rightarrow> adapter \<Rightarrow> unit reg_op" where
  "forget_ended h a ch ad =
     op_bind (op_read (record_check h a ch ad)) (\<lambda>ag.
     op_bind (op_check (ag_phase ag = Ended)
       (ValueError ''only ended principals can be forgotten'')) (\<lambda>_.
     op_modify (\<lambda>r. r\<lparr>rg_agents := AList.delete (id_agent (identity_at r a)) (rg_agents r)\<rparr>)))"

definition close_channel :: "nat \<Rightarrow> adapter \<Rightarrow> unit reg_op" where
  "close_channel ch ad =
     op_bind (op_read (\<lambda>r. channel_check r ch ad)) (\<lambda>_.
     op_modify (\<lambda>r. r\<lparr>
       rg_agents := filter (\<lambda>(k, ag). ag_channel ag \<noteq> ch) (rg_agents r),
       rg_channels := AList.delete ch (rg_channels r)\<rparr>))"

section \<open>Primitive updates\<close>

text \<open>
  Every operation decomposes into these updates of the state; each rule carries what the
  operation has checked before it. Invariants are proved once, by induction over the relation.
\<close>

inductive reg_prim :: "host_env \<Rightarrow> registry \<Rightarrow> registry \<Rightarrow> bool" for h where
  tick: "rg_last_clock r \<le> t \<Longrightarrow> reg_prim h r (r\<lparr>rg_last_clock := t\<rparr>)"
| issued: "issue_check h runtime agent session task parent delegation coverage now r = Inr (c, d) \<Longrightarrow>
    channel_check r ch ad = Inr runtime \<Longrightarrow> now = rg_last_clock r \<Longrightarrow>
    agent_of r agent \<noteq> None \<or> length (rg_agents r) < rg_max_agents r \<Longrightarrow>
    reg_prim h r (install ch now c d r)"
| beat: "live_check h a ch ad now r = Inr ag \<Longrightarrow> now = rg_last_clock r \<Longrightarrow>
    reg_prim h r (store_agent (id_agent (identity_at r a)) (ag\<lparr>ag_heartbeat := now\<rparr>) r)"
| phased: "record_check h a ch ad r = Inr ag \<Longrightarrow> p \<noteq> Active \<Longrightarrow> p \<noteq> Stale \<Longrightarrow>
    reg_prim h r (store_agent (id_agent (identity_at r a)) (ag\<lparr>ag_phase := p\<rparr>) r)"
| bound: "length (rg_channels r) < rg_max_channels r \<Longrightarrow> ad \<noteq> Plain \<Longrightarrow>
    reg_prim h r (r\<lparr>
      rg_chans := rg_chans r @
        [\<lparr>hc_tenant = rg_tenant r, hc_swarm = rg_swarm r, hc_runtime = runtime\<rparr>],
      rg_channels := AList.update (length (rg_chans r)) (ad, runtime) (rg_channels r)\<rparr>)"
| epoch: "rg_epoch r < e \<Longrightarrow> reg_prim h r (r\<lparr>rg_epoch := e\<rparr>)"
| forgot: "record_check h a ch ad r = Inr ag \<Longrightarrow>
    reg_prim h r (r\<lparr>rg_agents := AList.delete (id_agent (identity_at r a)) (rg_agents r)\<rparr>)"
| closed: "channel_check r ch ad = Inr runtime \<Longrightarrow>
    reg_prim h r (r\<lparr>rg_agents := filter (\<lambda>(k, ag). ag_channel ag \<noteq> ch) (rg_agents r),
      rg_channels := AList.delete ch (rg_channels r)\<rparr>)"

lemma prim_step: "reg_prim h r r' \<Longrightarrow> (reg_prim h)\<^sup>*\<^sup>* r r'"
  by (rule r_into_rtranclp)

lemmas prim_steps = reg_prim.intros [THEN prim_step]

lemma reg_now_cases:
  "(\<exists>e. reg_now reading r = (r, Inl e)) \<or>
   (\<exists>t. rg_last_clock r \<le> t \<and> timestamp reading = Inr t \<and>
      reg_now reading r = (r\<lparr>rg_last_clock := t\<rparr>, Inr t))"
  by (cases "timestamp reading") (auto simp: reg_now_def op_bind_def op_defs ensure_def)

lemma reg_now_Inr_iff:
  "reg_now reading r = (r', Inr t) \<longleftrightarrow>
     rg_last_clock r \<le> t \<and> timestamp reading = Inr t \<and> r' = r\<lparr>rg_last_clock := t\<rparr>"
  by (auto simp: reg_now_def op_bind_Inr_iff not_less)

lemma reg_now_ok:
  "reg_now reading r = (r', Inr t) \<Longrightarrow>
     rg_last_clock r \<le> t \<and> timestamp reading = Inr t \<and> r' = r\<lparr>rg_last_clock := t\<rparr>"
  using reg_now_cases [of reading r] by auto

lemma reg_now_refused: "reg_now reading r = (r', Inl e) \<Longrightarrow> r' = r"
  using reg_now_cases [of reading r] by auto

lemma reaches_now:
  assumes "\<And>t. rg_last_clock r \<le> t \<Longrightarrow> reaches (reg_prim h) (f t) (r\<lparr>rg_last_clock := t\<rparr>)"
  shows "reaches (reg_prim h) (op_bind (reg_now reading) f) r"
proof (rule reaches_bind)
  show "reaches (reg_prim h) (reg_now reading) r"
    using reg_now_cases [of reading r] by (auto simp: reaches_def intro: prim_steps)
qed (use assms reg_now_ok in blast)

lemma reaches_issue:
  assumes "channel_check r ch ad = Inr runtime" "now = rg_last_clock r"
    "agent_of r agent \<noteq> None \<or> length (rg_agents r) < rg_max_agents r"
  shows "reaches (reg_prim h)
    (issue h ch runtime agent session task parent delegation coverage now) r"
  unfolding issue_def
  by (rule reaches_read)
    (use assms in \<open>auto intro!: reaches_get reaches_modify_bind reaches_basic prim_steps\<close>)

lemma record_check_Inr_iff:
  "record_check h a ch ad r = Inr ag \<longleftrightarrow>
     (\<exists>runtime. channel_check r ch ad = Inr runtime) \<and> a < length (rg_contexts r) \<and>
     agent_of r (id_agent (identity_at r a)) = Some ag \<and> ag_context ag = a \<and>
     ag_channel ag = ch \<and> context_digest h (context_at r a) = Inr (ag_digest ag)"
  by (auto simp: record_check_def split: option.splits if_splits)

lemma live_check_Inr_iff:
  "live_check h a ch ad now r = Inr ag \<longleftrightarrow>
     record_check h a ch ad r = Inr ag \<and> phase_at r ag now = Active \<and>
     id_epoch (identity_at r a) = rg_epoch r \<and> parents h r (identity_at r a) now = Inr ()"
  by (auto simp: live_check_def)

lemma checks_ignore_clock [simp]:
  "channel_check (r\<lparr>rg_last_clock := t\<rparr>) ch ad = channel_check r ch ad"
  "record_check h a ch ad (r\<lparr>rg_last_clock := t\<rparr>) = record_check h a ch ad r"
  by (simp_all add: channel_check_def record_check_def
      cong: option.case_cong prod.case_cong if_cong)

section \<open>Operations decompose\<close>

lemma reaches_bind_channel: "reaches (reg_prim h) (bind_channel ad runtime) r"
  unfolding bind_channel_def
  by (intro reaches_rules reaches_modify_bind reaches_basic prim_steps) auto

lemma reaches_enroll:
  "reaches (reg_prim h)
     (enroll h ch ad agent session task parent delegation coverage reading) r"
  unfolding enroll_def by (intro reaches_rules reaches_now reaches_issue) auto

lemma reaches_authenticate: "reaches (reg_prim h) (authenticate h a ch ad reading) r"
  unfolding authenticate_def by (intro reaches_rules reaches_now reaches_basic)

lemma reaches_heartbeat: "reaches (reg_prim h) (heartbeat h a ch ad reading) r"
  unfolding heartbeat_def
  by (intro reaches_rules reaches_now reaches_modify prim_steps) auto

lemma reaches_agent_state: "reaches (reg_prim h) (agent_state h a ch ad reading) r"
  unfolding agent_state_def by (intro reaches_rules reaches_now reaches_basic)

lemma reaches_pause: "reaches (reg_prim h) (pause h a ch ad reading) r"
  unfolding pause_def
  by (intro reaches_rules reaches_now reaches_modify prim_steps(4))
    (auto simp: live_check_Inr_iff)

lemma reaches_end: "reaches (reg_prim h) (end_agent h a ch ad) r"
  unfolding end_agent_def by (intro reaches_rules reaches_modify prim_steps) auto

lemma reaches_restart:
  "reaches (reg_prim h) (restart h a ch ad new_ch new_ad session coverage reading) r"
  unfolding restart_def
  by (intro reaches_rules reaches_now reaches_issue) (auto simp: record_check_Inr_iff)

lemma reaches_advance: "reaches (reg_prim h) (advance_policy_epoch e) r"
  unfolding advance_policy_epoch_def by (intro reaches_rules reaches_modify prim_steps) auto

lemma reaches_refresh:
  "reaches (reg_prim h) (refresh_policy_context h a ch ad coverage reading) r"
  unfolding refresh_policy_context_def
  by (intro reaches_rules reaches_now reaches_issue) (auto simp: record_check_Inr_iff)

lemma reaches_rebind:
  "reaches (reg_prim h) (rebind_delegation h rel grant a ch ad pa pch pad reading) r"
  unfolding rebind_delegation_def
  by (intro reaches_rules reaches_now, cases "id_delegation (identity_at r a) = Some (dl_grant grant)")
    (auto intro!: reaches_rules reaches_issue reaches_basic simp: record_check_Inr_iff)

lemma reaches_forget: "reaches (reg_prim h) (forget_ended h a ch ad) r"
  unfolding forget_ended_def by (intro reaches_rules reaches_modify prim_steps) auto

lemma reaches_close: "reaches (reg_prim h) (close_channel ch ad) r"
  unfolding close_channel_def by (intro reaches_rules reaches_modify prim_steps) auto

section \<open>The registry invariant\<close>

lemma length_AList_update:
  "length (AList.update k v al) = (if k \<in> fst ` set al then length al else Suc (length al))"
  by (induction al) auto

lemma length_update_le:
  assumes "map_of al k \<noteq> None \<or> length al < n" and "length al \<le> n"
  shows "length (AList.update k v al) \<le> n"
  using assms by (auto simp: length_AList_update map_of_eq_None_iff)

lemma map_of_filter_keys:
  assumes "distinct (map fst al)"
  shows "map_of (filter (\<lambda>(k, v). P v) al) k =
    (case map_of al k of None \<Rightarrow> None | Some v \<Rightarrow> if P v then Some v else None)"
  using assms
  by (induction al) (auto split: option.splits simp: map_of_eq_None_iff dest: map_of_SomeD)

definition contexts_ok :: "registry \<Rightarrow> bool" where
  "contexts_ok r = (rg_generation r = int (length (rg_contexts r)) \<and>
     (\<forall>i < length (rg_contexts r). id_generation (identity_at r i) = int i + 1 \<and>
        id_epoch (identity_at r i) \<le> rg_epoch r))"

definition agent_ok :: "registry \<Rightarrow> string \<Rightarrow> agent_record \<Rightarrow> bool" where
  "agent_ok r k ag = (ag_context ag < length (rg_contexts r) \<and>
     id_agent (identity_at r (ag_context ag)) = k \<and> ag_heartbeat ag \<le> rg_last_clock r \<and>
     map_of (rg_channels r) (ag_channel ag) \<noteq> None)"

definition agents_ok :: "registry \<Rightarrow> bool" where
  "agents_ok r = (\<forall>k ag. agent_of r k = Some ag \<longrightarrow> agent_ok r k ag)"

definition tables_ok :: "registry \<Rightarrow> bool" where
  "tables_ok r = (distinct (map fst (rg_agents r)) \<and> distinct (map fst (rg_channels r)) \<and>
     length (rg_agents r) \<le> rg_max_agents r \<and> length (rg_channels r) \<le> rg_max_channels r \<and>
     (\<forall>ch b. map_of (rg_channels r) ch = Some b \<longrightarrow> ch < length (rg_chans r)))"

definition reg_inv :: "registry \<Rightarrow> bool" where
  "reg_inv r = (contexts_ok r \<and> agents_ok r \<and> tables_ok r)"

lemma issue_check_Inr:
  assumes "issue_check h runtime agent session task parent delegation coverage now r = Inr (c, d)"
  shows "sc_identity c = new_identity r runtime agent session task parent delegation"
    "sc_registry c = rg_id r" "sc_coverage c = coverage" "sc_enrolled c = now"
    "context_digest h c = Inr d"
    "parents h r (new_identity r runtime agent session task parent delegation) now = Inr ()"
    "manifest_post_init coverage = Inr ()"
    "\<forall>e \<in> set (cm_entries coverage). ce_state e \<noteq> ''physically_enforced''"
    "identity_post_init (new_identity r runtime agent session task parent delegation) = Inr ()"
  using assms
  by (simp_all add: issue_check_def Let_def make_context_Inr_iff list_ex_iff if_Inl_Inr_iff) auto

lemma new_identity_simps [simp]:
  "id_generation (new_identity r rt ag se ta pa de) = rg_generation r + 1"
  "id_epoch (new_identity r rt ag se ta pa de) = rg_epoch r"
  "id_agent (new_identity r rt ag se ta pa de) = ag"
  "id_tenant (new_identity r rt ag se ta pa de) = rg_tenant r"
  "id_swarm (new_identity r rt ag se ta pa de) = rg_swarm r"
  "id_runtime (new_identity r rt ag se ta pa de) = rt"
  "id_session (new_identity r rt ag se ta pa de) = se"
  "id_parent (new_identity r rt ag se ta pa de) = pa"
  by (simp_all add: new_identity_def)

lemma install_simps:
  "rg_contexts (install ch now c d r) = rg_contexts r @ [c]"
  "rg_generation (install ch now c d r) = id_generation (sc_identity c)"
  "rg_epoch (install ch now c d r) = rg_epoch r"
  "rg_last_clock (install ch now c d r) = rg_last_clock r"
  "rg_channels (install ch now c d r) = rg_channels r"
  "rg_chans (install ch now c d r) = rg_chans r"
  "rg_timeout (install ch now c d r) = rg_timeout r"
  "rg_max_agents (install ch now c d r) = rg_max_agents r"
  "rg_max_channels (install ch now c d r) = rg_max_channels r"
  "rg_agents (install ch now c d r) = AList.update (id_agent (sc_identity c))
     \<lparr>ag_context = length (rg_contexts r), ag_channel = ch, ag_digest = d, ag_heartbeat = now,
      ag_phase = Active\<rparr> (rg_agents r)"
  by (simp_all add: install_def store_agent_def)

lemma store_agent_simps [simp]:
  "rg_contexts (store_agent k ag r) = rg_contexts r"
  "rg_generation (store_agent k ag r) = rg_generation r"
  "rg_epoch (store_agent k ag r) = rg_epoch r"
  "rg_last_clock (store_agent k ag r) = rg_last_clock r"
  "rg_channels (store_agent k ag r) = rg_channels r"
  "rg_chans (store_agent k ag r) = rg_chans r"
  "rg_timeout (store_agent k ag r) = rg_timeout r"
  "rg_max_agents (store_agent k ag r) = rg_max_agents r"
  "rg_max_channels (store_agent k ag r) = rg_max_channels r"
  "rg_agents (store_agent k ag r) = AList.update k ag (rg_agents r)"
  by (simp_all add: store_agent_def)

lemma channel_check_bound:
  "channel_check r ch ad = Inr rt \<Longrightarrow> map_of (rg_channels r) ch = Some (ad, rt)"
  by (auto simp: channel_check_def split: option.splits if_splits)

text \<open>Each half of the invariant, over every primitive update.\<close>

lemma prim_contexts: "reg_prim h r r' \<Longrightarrow> contexts_ok r \<Longrightarrow> contexts_ok r'"
proof (induction rule: reg_prim.induct)
  case (issued runtime agent session task parent delegation coverage now r c d ch ad)
  from issue_check_Inr(1) [OF issued(1)] issued(5) show ?case
    by (auto simp: contexts_ok_def install_simps nth_append less_Suc_eq)
qed (auto simp: contexts_ok_def)

lemma agents_ok_store:
  assumes "agents_ok r" and "agent_ok r k ag"
  shows "agents_ok (store_agent k ag r)"
  using assms by (auto simp: agents_ok_def agent_ok_def update_conv split: if_splits)

lemma prim_agents: "reg_prim h r r' \<Longrightarrow> agents_ok r \<Longrightarrow> tables_ok r \<Longrightarrow> agents_ok r'"
proof (induction rule: reg_prim.induct)
  case (tick r t)
  then show ?case by (fastforce simp: agents_ok_def agent_ok_def)
next
  case (issued runtime agent session task parent delegation coverage now r c d ch ad)
  with issue_check_Inr(1) [OF issued(1)] channel_check_bound [OF issued(2)] show ?case
    by (fastforce simp: agents_ok_def agent_ok_def install_simps update_conv nth_append)
next
  case (beat a ch ad now r ag)
  then show ?case
    by (intro agents_ok_store)
      (auto simp: live_check_Inr_iff record_check_Inr_iff agent_ok_def dest!: channel_check_bound)
next
  case (phased a ch ad r ag p)
  then show ?case
    by (intro agents_ok_store)
      (auto simp: record_check_Inr_iff agent_ok_def agents_ok_def)
next
  case (bound r ad runtime)
  then show ?case by (auto simp: agents_ok_def agent_ok_def update_conv)
next
  case (epoch r e)
  then show ?case by (auto simp: agents_ok_def agent_ok_def)
next
  case (forgot a ch ad r ag)
  then show ?case by (auto simp: agents_ok_def agent_ok_def delete_conv' restrict_map_def split: if_splits)
next
  case (closed r ch ad runtime)
  then show ?case
    by (auto simp: agents_ok_def agent_ok_def tables_ok_def map_of_filter_keys delete_conv'
        restrict_map_def split: option.splits if_splits)
qed

lemma prim_tables: "reg_prim h r r' \<Longrightarrow> tables_ok r \<Longrightarrow> tables_ok r'"
proof (induction rule: reg_prim.induct)
  case (tick r t)
  then show ?case by (auto simp: tables_ok_def)
next
  case (issued runtime agent session task parent delegation coverage now r c d ch ad)
  with issue_check_Inr(1) [OF issued(1)] show ?case
    by (auto simp: tables_ok_def install_simps distinct_update intro!: length_update_le)
next
  case (beat a ch ad now r ag)
  then show ?case
    by (auto simp: tables_ok_def live_check_Inr_iff record_check_Inr_iff distinct_update
        intro!: length_update_le)
next
  case (phased a ch ad r ag p)
  then show ?case
    by (auto simp: tables_ok_def record_check_Inr_iff distinct_update intro!: length_update_le)
next
  case (bound r ad runtime)
  then show ?case
    by (auto simp: tables_ok_def length_AList_update distinct_update update_conv less_Suc_eq)
next
  case (epoch r e)
  then show ?case by (auto simp: tables_ok_def)
next
  case (forgot a ch ad r ag)
  then show ?case
    by (auto simp: tables_ok_def distinct_delete intro: order_trans [OF length_delete_le])
next
  case (closed r ch ad runtime)
  then show ?case
    by (auto simp: tables_ok_def distinct_delete distinct_map_filter delete_conv'
        restrict_map_def split: if_splits
        intro: order_trans [OF length_delete_le] order_trans [OF length_filter_le])
qed

lemma prim_inv: "reg_prim h r r' \<Longrightarrow> reg_inv r \<Longrightarrow> reg_inv r'"
  by (auto simp: reg_inv_def intro: prim_contexts prim_agents prim_tables)

lemma prims_inv: "(reg_prim h)\<^sup>*\<^sup>* r r' \<Longrightarrow> reg_inv r \<Longrightarrow> reg_inv r'"
  by (induction rule: rtranclp_induct) (auto intro: prim_inv)

section \<open>Revocation\<close>

text \<open>
  A context is dead when no agent record makes it usable: it is not an agent's current context,
  or the agent was paused, ended or has outlived its heartbeat, or the policy epoch moved on.
\<close>

definition dead :: "registry \<Rightarrow> nat \<Rightarrow> bool" where
  "dead r a = (\<forall>k ag. agent_of r k = Some ag \<longrightarrow> ag_context ag = a \<longrightarrow>
     phase_at r ag (rg_last_clock r) \<noteq> Active \<or> id_epoch (identity_at r a) < rg_epoch r)"

lemma phase_later:
  assumes "t \<le> t'" and "phase_at r ag t \<noteq> Active"
  shows "phase_at r ag t' \<noteq> Active"
  using assms by (auto simp: phase_at_def split: if_splits)

lemma live_not_dead:
  assumes "live_check h a ch ad now r = Inr ag" and "rg_last_clock r = now"
  shows "\<not> dead r a"
  using assms by (force simp: dead_def live_check_Inr_iff record_check_Inr_iff)

lemma prim_length: "reg_prim h r r' \<Longrightarrow> length (rg_contexts r) \<le> length (rg_contexts r')"
  by (induction rule: reg_prim.induct) (simp_all add: install_simps)

lemma prim_dead:
  "reg_prim h r r' \<Longrightarrow> reg_inv r \<Longrightarrow> a0 < length (rg_contexts r) \<Longrightarrow> dead r a0 \<Longrightarrow> dead r' a0"
proof (induction rule: reg_prim.induct)
  case (tick r t)
  then show ?case
    using phase_later [OF tick(1)] by (fastforce simp: dead_def phase_at_def)
next
  case (issued runtime agent session task parent delegation coverage now r c d ch ad)
  then show ?case
    by (auto simp: dead_def install_simps update_conv nth_append phase_at_def)
next
  case (beat a ch ad now r ag)
  then have "a \<noteq> a0"
    using live_not_dead by blast
  then have "ag_context ag \<noteq> a0"
    using beat by (simp add: live_check_Inr_iff record_check_Inr_iff)
  then show ?case
    using beat by (auto simp: dead_def update_conv phase_at_def)
next
  case (phased a ch ad r ag p)
  then show ?case
    by (auto simp: dead_def update_conv phase_at_def record_check_Inr_iff)
next
  case (bound r ad runtime)
  then show ?case by (simp add: dead_def phase_at_def)
next
  case (epoch r e)
  then show ?case by (fastforce simp: dead_def phase_at_def)
next
  case (forgot a ch ad r ag)
  then show ?case
    by (auto simp: dead_def delete_conv' restrict_map_def phase_at_def)
next
  case (closed r ch ad runtime)
  then show ?case
    by (auto simp: dead_def map_of_filter_keys reg_inv_def tables_ok_def phase_at_def
        split: option.splits if_splits)
qed

lemma prims_dead:
  assumes "(reg_prim h)\<^sup>*\<^sup>* r r'" "reg_inv r" "a < length (rg_contexts r)" "dead r a"
  shows "dead r' a \<and> a < length (rg_contexts r') \<and> reg_inv r'"
  using assms
  by (induction rule: rtranclp_induct)
    (auto intro: prim_dead prim_inv dest: prim_length)

lemma dead_not_authenticated:
  assumes "dead r a"
  shows "\<exists>e. snd (authenticate h a ch ad reading r) = Inl e"
proof (cases "snd (authenticate h a ch ad reading r)")
  case (Inr x)
  then obtain t ag where t: "rg_last_clock r \<le> t"
      and live: "live_check h a ch ad t (r\<lparr>rg_last_clock := t\<rparr>) = Inr ag"
    by (cases "authenticate h a ch ad reading r")
      (auto simp: authenticate_def op_bind_Inr_iff dest!: reg_now_ok)
  have "dead (r\<lparr>rg_last_clock := t\<rparr>) a"
    using assms phase_later [OF t] by (fastforce simp: dead_def phase_at_def)
  with live_not_dead [OF live] show ?thesis by simp
qed simp

section \<open>Runs of the registry\<close>

datatype registry_call =
    BindChannel adapter string
  | Enroll nat adapter string string "string option" "string option" "string option"
      coverage_manifest host_number
  | Authenticate nat nat adapter host_number
  | Heartbeat nat nat adapter host_number
  | QueryState nat nat adapter host_number
  | Pause nat nat adapter host_number
  | EndAgent nat nat adapter
  | Restart nat nat adapter nat adapter string coverage_manifest host_number
  | AdvanceEpoch int
  | Refresh nat nat adapter coverage_manifest host_number
  | Rebind "unit res" delegation_scope nat nat adapter nat nat adapter host_number
  | Forget nat nat adapter
  | CloseChannel nat adapter

datatype registry_value = Done | Address nat | Phase agent_phase

fun registry_exec :: "host_env \<Rightarrow> registry_call \<Rightarrow> registry_value reg_op" where
  "registry_exec h (BindChannel ad rt) = op_bind (bind_channel ad rt) (\<lambda>a. op_return (Address a))"
| "registry_exec h (Enroll ch ad ag se ta pa de co t) =
     op_bind (enroll h ch ad ag se ta pa de co t) (\<lambda>a. op_return (Address a))"
| "registry_exec h (Authenticate a ch ad t) =
     op_bind (authenticate h a ch ad t) (\<lambda>a. op_return (Address a))"
| "registry_exec h (Heartbeat a ch ad t) = op_bind (heartbeat h a ch ad t) (\<lambda>_. op_return Done)"
| "registry_exec h (QueryState a ch ad t) =
     op_bind (agent_state h a ch ad t) (\<lambda>p. op_return (Phase p))"
| "registry_exec h (Pause a ch ad t) = op_bind (pause h a ch ad t) (\<lambda>_. op_return Done)"
| "registry_exec h (EndAgent a ch ad) = op_bind (end_agent h a ch ad) (\<lambda>_. op_return Done)"
| "registry_exec h (Restart a ch ad nch nad se co t) =
     op_bind (restart h a ch ad nch nad se co t) (\<lambda>a. op_return (Address a))"
| "registry_exec h (AdvanceEpoch e) = op_bind (advance_policy_epoch e) (\<lambda>_. op_return Done)"
| "registry_exec h (Refresh a ch ad co t) =
     op_bind (refresh_policy_context h a ch ad co t) (\<lambda>a. op_return (Address a))"
| "registry_exec h (Rebind rel g a ch ad pa pch pad t) =
     op_bind (rebind_delegation h rel g a ch ad pa pch pad t) (\<lambda>a. op_return (Address a))"
| "registry_exec h (Forget a ch ad) = op_bind (forget_ended h a ch ad) (\<lambda>_. op_return Done)"
| "registry_exec h (CloseChannel ch ad) = op_bind (close_channel ch ad) (\<lambda>_. op_return Done)"

definition registry_step :: "host_env \<Rightarrow> registry \<Rightarrow> registry_call \<Rightarrow> registry" where
  "registry_step h r c = fst (registry_exec h c r)"

lemmas reaches_operations = reaches_bind_channel reaches_enroll reaches_authenticate
  reaches_heartbeat reaches_agent_state reaches_pause reaches_end reaches_restart reaches_advance
  reaches_refresh reaches_rebind reaches_forget reaches_close

lemma reaches_exec: "reaches (reg_prim h) (registry_exec h c) r"
  by (cases c) (auto intro!: reaches_bind reaches_basic reaches_operations)

lemma step_prims: "(reg_prim h)\<^sup>*\<^sup>* r (registry_step h r c)"
  using reaches_exec [of h c r] by (simp add: reaches_def registry_step_def)

lemma run_prims: "(reg_prim h)\<^sup>*\<^sup>* r (foldl (registry_step h) r cs)"
proof (induction cs arbitrary: r)
  case (Cons c cs)
  show ?case
    using rtranclp_trans [OF step_prims [of h r c] Cons.IH [of "registry_step h r c"]] by simp
qed simp

lemma prim_generation: "reg_prim h r r' \<Longrightarrow> rg_generation r \<le> rg_generation r'"
  by (induction rule: reg_prim.induct) (auto simp: install_simps dest: issue_check_Inr(1))

lemma prim_epoch: "reg_prim h r r' \<Longrightarrow> rg_epoch r \<le> rg_epoch r'"
  by (induction rule: reg_prim.induct) (auto simp: install_simps)

lemma prims_mono:
  assumes "(reg_prim h)\<^sup>*\<^sup>* r r'"
  shows "rg_generation r \<le> rg_generation r'" "rg_epoch r \<le> rg_epoch r'"
  using assms by (induction rule: rtranclp_induct) (auto dest: prim_generation prim_epoch)

interpretation registry_generations: monotone_system "registry_step h" reg_inv rg_generation for h
  by unfold_locales (use prims_inv prims_mono step_prims in blast)+

interpretation registry_epochs: monotone_system "registry_step h" reg_inv rg_epoch for h
  by unfold_locales (use prims_mono step_prims in blast)+

interpretation registry_clock: fenced_clock "\<lambda>r t. reg_now (HFloat (Float t)) r" rg_last_clock
  by unfold_locales
    (auto dest!: reg_now_ok reg_now_refused simp: timestamp_def split: if_splits)

lemma registry_init_inv: "registry_init te sw ri ep ma mc md ti = Inr r \<Longrightarrow> reg_inv r"
  by (auto simp: registry_init_def reg_inv_def contexts_ok_def agents_ok_def tables_ok_def
      split: if_splits)

section \<open>What each call revokes\<close>

text \<open>The calls after whose success the context at \<open>a\<close> is revoked.\<close>

fun revokes :: "registry \<Rightarrow> registry_call \<Rightarrow> registry_value \<Rightarrow> nat \<Rightarrow> bool" where
  "revokes r (Pause b ch ad t) v a = (b = a)"
| "revokes r (EndAgent b ch ad) v a = (b = a)"
| "revokes r (Restart b ch ad nch nad se co t) v a = (b = a)"
| "revokes r (AdvanceEpoch e) v a = (a < length (rg_contexts r))"
| "revokes r (Refresh b ch ad co t) v a = (b = a)"
| "revokes r (Rebind rel g b ch ad pa pch pad t) v a = (b = a \<and> v \<noteq> Address a)"
| "revokes r (Forget b ch ad) v a = (b = a)"
| "revokes r (CloseChannel ch ad) v a = (a < length (rg_contexts r) \<and>
     (case agent_of r (id_agent (identity_at r a)) of None \<Rightarrow> False
      | Some ag \<Rightarrow> ag_context ag = a \<and> ag_channel ag = ch))"
| "revokes r c v a = False"

lemma owner_of_context:
  "reg_inv r \<Longrightarrow> agent_of r k = Some ag \<Longrightarrow> k = id_agent (identity_at r (ag_context ag))"
  by (auto simp: reg_inv_def agents_ok_def agent_ok_def)

lemma issue_dead:
  assumes "issue h ch rt (id_agent (identity_at r a)) se ta pa de co now r = (r', Inr b)"
    and "reg_inv r" and "a < length (rg_contexts r)"
  shows "dead r' a \<and> b = length (rg_contexts r)"
proof -
  obtain c d where c: "issue_check h rt (id_agent (identity_at r a)) se ta pa de co now r = Inr (c, d)"
      "r' = install ch now c d r" "b = length (rg_contexts r)"
    using assms(1) by (auto simp: issue_def op_bind_Inr_iff split: prod.splits)
  from issue_check_Inr(1) [OF c(1)] owner_of_context [OF assms(2)] assms(3) c show ?thesis
    by (auto simp: dead_def install_simps update_conv)
qed

lemma inv_now: "reg_inv r \<Longrightarrow> rg_last_clock r \<le> t \<Longrightarrow> reg_inv (r\<lparr>rg_last_clock := t\<rparr>)"
  using prim_inv reg_prim.tick by blast

lemma phase_change_dead:
  assumes "reg_inv r" "record_check h a ch ad r = Inr ag" "p \<noteq> Active"
  shows "dead (store_agent (id_agent (identity_at r a)) (ag\<lparr>ag_phase := p\<rparr>) r) a"
proof -
  have "\<not> (k \<noteq> id_agent (identity_at r a) \<and> agent_of r k = Some ag' \<and> ag_context ag' = a)" for k ag'
    using owner_of_context [OF assms(1)] by blast
  then show ?thesis
    using assms(3) by (auto simp: dead_def update_conv phase_at_def)
qed

lemma pause_dead:
  assumes "pause h a ch ad t r = (r', Inr u)" "reg_inv r"
  shows "dead r' a"
proof -
  obtain now ag where now: "rg_last_clock r \<le> now"
      and live: "live_check h a ch ad now (r\<lparr>rg_last_clock := now\<rparr>) = Inr ag"
      and r': "r' = store_agent (id_agent (identity_at (r\<lparr>rg_last_clock := now\<rparr>) a))
        (ag\<lparr>ag_phase := Paused\<rparr>) (r\<lparr>rg_last_clock := now\<rparr>)"
    using assms(1) by (auto simp: pause_def op_bind_Inr_iff dest!: reg_now_ok)
  show ?thesis
    unfolding r' by (rule phase_change_dead [OF inv_now [OF assms(2) now]])
      (use live in \<open>auto simp: live_check_Inr_iff\<close>)
qed

lemma end_dead: "end_agent h a ch ad r = (r', Inr u) \<Longrightarrow> reg_inv r \<Longrightarrow> dead r' a"
  by (auto simp: end_agent_def op_bind_Inr_iff intro!: phase_change_dead)

lemma restart_dead:
  assumes "restart h a ch ad nch nad se co t r = (r', Inr b)" "reg_inv r"
  shows "dead r' a"
proof -
  obtain now rt ag where now: "rg_last_clock r \<le> now" and "record_check h a ch ad r = Inr ag"
    and iss: "issue h nch rt (id_agent (identity_at (r\<lparr>rg_last_clock := now\<rparr>) a)) se
      (id_task (identity_at r a)) (id_parent (identity_at r a)) (id_delegation (identity_at r a))
      co now (r\<lparr>rg_last_clock := now\<rparr>) = (r', Inr b)"
    using assms(1) by (auto simp: restart_def op_bind_Inr_iff dest!: reg_now_ok)
  then show ?thesis
    using issue_dead [OF iss inv_now [OF assms(2) now]] by (simp add: record_check_Inr_iff)
qed

lemma refresh_dead:
  assumes "refresh_policy_context h a ch ad co t r = (r', Inr b)" "reg_inv r"
  shows "dead r' a"
proof -
  obtain now rt ag where now: "rg_last_clock r \<le> now" and "record_check h a ch ad r = Inr ag"
    and iss: "issue h ch rt (id_agent (identity_at (r\<lparr>rg_last_clock := now\<rparr>) a))
      (id_session (identity_at r a)) (id_task (identity_at r a)) (id_parent (identity_at r a))
      (id_delegation (identity_at r a)) co now (r\<lparr>rg_last_clock := now\<rparr>) = (r', Inr b)"
    using assms(1) by (auto simp: refresh_policy_context_def op_bind_Inr_iff dest!: reg_now_ok)
  then show ?thesis
    using issue_dead [OF iss inv_now [OF assms(2) now]] by (simp add: record_check_Inr_iff)
qed

lemma rebind_dead:
  assumes "rebind_delegation h rel g a ch ad pa pch pad t r = (r', Inr b)" "reg_inv r" "b \<noteq> a"
  shows "dead r' a"
proof -
  obtain now rt ag se ta pp dd co where now: "rg_last_clock r \<le> now"
    and "record_check h a ch ad r = Inr ag"
    and iss: "issue h ch rt (id_agent (identity_at (r\<lparr>rg_last_clock := now\<rparr>) a)) se ta pp dd co now
      (r\<lparr>rg_last_clock := now\<rparr>) = (r', Inr b)"
    using assms(1,3)
    by (auto simp: rebind_delegation_def op_bind_Inr_iff dest!: reg_now_ok split: if_splits)
  then show ?thesis
    using issue_dead [OF iss inv_now [OF assms(2) now]] by (simp add: record_check_Inr_iff)
qed

lemma advance_dead:
  assumes "advance_policy_epoch e r = (r', Inr u)" "reg_inv r" "a < length (rg_contexts r)"
  shows "dead r' a"
  using assms
  by (fastforce simp: advance_policy_epoch_def op_bind_Inr_iff dead_def reg_inv_def contexts_ok_def)

lemma forget_dead:
  assumes "forget_ended h a ch ad r = (r', Inr u)" "reg_inv r"
  shows "dead r' a"
proof -
  have "\<not> (k \<noteq> id_agent (identity_at r a) \<and> agent_of r k = Some ag' \<and> ag_context ag' = a)" for k ag'
    using owner_of_context [OF assms(2)] by blast
  then show ?thesis
    using assms(1)
    by (fastforce simp: forget_ended_def op_bind_Inr_iff dead_def delete_conv' restrict_map_def
        split: if_splits)
qed

lemma close_dead:
  assumes "close_channel ch ad r = (r', Inr u)" "reg_inv r"
    "agent_of r (id_agent (identity_at r a)) = Some ag" "ag_context ag = a" "ag_channel ag = ch"
  shows "dead r' a"
proof -
  have "ag' = ag" if "agent_of r k = Some ag'" "ag_context ag' = a" for k ag'
    using owner_of_context [OF assms(2) that(1)] that assms(3) by simp
  moreover have "distinct (map fst (rg_agents r))"
    using assms(2) by (simp add: reg_inv_def tables_ok_def)
  ultimately show ?thesis
    using assms(1,5)
    by (auto simp: close_channel_def op_bind_Inr_iff dead_def map_of_filter_keys
        split: option.splits if_splits)
qed

lemma exec_dead:
  assumes "registry_exec h c r = (r', Inr v)" "reg_inv r" "revokes r c v a"
  shows "dead r' a"
  using assms
  by (cases c)
    (auto simp: op_bind_Inr_iff split: option.splits
      intro: pause_dead end_dead restart_dead refresh_dead rebind_dead advance_dead forget_dead
        close_dead)

lemma exec_allocated:
  assumes "registry_exec h c r = (r', Inr v)" "revokes r c v a"
  shows "a < length (rg_contexts r)"
  using assms
  by (cases c)
    (auto simp: op_bind_Inr_iff pause_def end_agent_def restart_def refresh_policy_context_def
      rebind_delegation_def forget_ended_def record_check_Inr_iff live_check_Inr_iff
      dest!: reg_now_ok)

section \<open>Ancestry\<close>

text \<open>The context at \<open>b\<close> is the exact parent incarnation the context at \<open>a\<close> was issued under.\<close>

definition parent_of :: "registry \<Rightarrow> nat \<Rightarrow> nat \<Rightarrow> bool" where
  "parent_of r b a = (b < length (rg_contexts r) \<and>
     id_parent (identity_at r a) = Some (id_agent (identity_at r b)) \<and>
     id_parent_generation (identity_at r a) = Some (id_generation (identity_at r b)))"

definition usable_at :: "registry \<Rightarrow> rat \<Rightarrow> nat \<Rightarrow> bool" where
  "usable_at r now a = (\<exists>ag. agent_of r (id_agent (identity_at r a)) = Some ag \<and>
     ag_context ag = a \<and> phase_at r ag now = Active \<and> id_epoch (identity_at r a) = rg_epoch r)"

lemma same_generation:
  assumes "reg_inv r" "i < length (rg_contexts r)" "j < length (rg_contexts r)"
    "id_generation (identity_at r i) = id_generation (identity_at r j)"
  shows "i = j"
  using assms by (auto simp: reg_inv_def contexts_ok_def)

lemma parents_check_parent:
  assumes "parents_check h r now depth seen (identity_at r a) = Inr ()" "parent_of r b a" "reg_inv r"
  shows "usable_at r now b \<and> (\<exists>d sn. parents_check h r now d sn (identity_at r b) = Inr ())"
proof (cases depth)
  case 0
  then show ?thesis using assms by (simp add: parent_of_def)
next
  case (Suc d)
  let ?name = "id_agent (identity_at r b)"
  obtain ag where ag: "agent_of r ?name = Some ag" "phase_at r ag now = Active"
      "id_generation (identity_at r (ag_context ag)) = id_generation (identity_at r b)"
      "id_epoch (identity_at r (ag_context ag)) = rg_epoch r"
      "parents_check h r now d (?name # seen) (identity_at r (ag_context ag)) = Inr ()"
    using assms(1,2) Suc by (auto simp: parent_of_def split: option.splits prod.splits if_splits)
  have "ag_context ag < length (rg_contexts r)"
    using assms(3) ag(1) by (auto simp: reg_inv_def agents_ok_def agent_ok_def)
  then have "ag_context ag = b"
    using same_generation [OF assms(3)] ag(3) assms(2) by (auto simp: parent_of_def)
  with ag show ?thesis by (auto simp: usable_at_def)
qed

lemma ancestors_usable:
  assumes "(parent_of r)\<^sup>*\<^sup>* b a" "live_check h a ch ad now r = Inr ag" "reg_inv r"
  shows "usable_at r now b \<and> (\<exists>d sn. parents_check h r now d sn (identity_at r b) = Inr ())"
  using assms(1)
proof (induction rule: converse_rtranclp_induct)
  case base
  then show ?case
    using assms(2)
    by (auto simp: usable_at_def live_check_Inr_iff record_check_Inr_iff parents_def)
next
  case (step b c)
  then show ?case using parents_check_parent [OF _ step(1) assms(3)] by blast
qed

lemma usable_not_dead: "usable_at r (rg_last_clock r) a \<Longrightarrow> \<not> dead r a"
  by (force simp: usable_at_def dead_def)

lemma authenticate_ok_iff:
  "authenticate h a ch ad reading r = (r', Inr b) \<longleftrightarrow>
     (\<exists>t ag. timestamp reading = Inr t \<and> rg_last_clock r \<le> t \<and> b = a \<and>
        r' = r\<lparr>rg_last_clock := t\<rparr> \<and> live_check h a ch ad t (r\<lparr>rg_last_clock := t\<rparr>) = Inr ag)"
  by (auto simp: authenticate_def op_bind_Inr_iff reg_now_Inr_iff)

lemma dead_later: "dead r a \<Longrightarrow> rg_last_clock r \<le> t \<Longrightarrow> dead (r\<lparr>rg_last_clock := t\<rparr>) a"
  using phase_later by (fastforce simp: dead_def phase_at_def)

lemma dead_ancestor_not_authenticated:
  assumes "reg_inv r" "dead r b" "(parent_of r)\<^sup>*\<^sup>* b a"
  shows "\<exists>e. snd (authenticate h a ch ad reading r) = Inl e"
proof (cases "authenticate h a ch ad reading r")
  case (Pair r' res)
  show ?thesis
  proof (cases res)
    case (Inr x)
    then obtain t ag where t: "rg_last_clock r \<le> t"
        and live: "live_check h a ch ad t (r\<lparr>rg_last_clock := t\<rparr>) = Inr ag"
      using Pair by (auto simp: authenticate_ok_iff)
    have "(parent_of (r\<lparr>rg_last_clock := t\<rparr>))\<^sup>*\<^sup>* b a"
      using assms(3) by (simp add: parent_of_def [abs_def])
    then have "usable_at (r\<lparr>rg_last_clock := t\<rparr>) t b"
      using ancestors_usable [OF _ live inv_now [OF assms(1) t]] by blast
    then show ?thesis
      using usable_not_dead dead_later [OF assms(2) t] by fastforce
  qed (use Pair in simp)
qed

lemma prim_contexts_prefix:
  "reg_prim h r r' \<Longrightarrow> \<exists>cs. rg_contexts r' = rg_contexts r @ cs"
  by (induction rule: reg_prim.induct) (auto simp: install_simps)

lemma prims_contexts_prefix:
  "(reg_prim h)\<^sup>*\<^sup>* r r' \<Longrightarrow> \<exists>cs. rg_contexts r' = rg_contexts r @ cs"
  by (induction rule: rtranclp_induct) (auto dest: prim_contexts_prefix)

section \<open>Properties\<close>

text \<open>C20: From a freshly constructed registry on, whatever calls are made and whatever they
  return, every context ever issued has its own incarnation: the i-th one carries generation
  i + 1; agents stay within the configured limits, every agent record names a context issued
  for that agent and a channel still bound, and the clock never precedes a heartbeat.\<close>

theorem registry_runs_invariant:
  assumes "registry_init tenant swarm rid epoch ma mc md timeout = Inr r0"
  shows "reg_inv (foldl (registry_step h) r0 calls)"
  by (rule registry_generations.run_inv [OF registry_init_inv [OF assms]])

definition sample_env :: host_env where
  "sample_env = \<lparr>float_repr = (\<lambda>_. ''1.0''), sha256 = (\<lambda>bytes. map char_of bytes)\<rparr>"

definition sample_registry :: registry where
  "sample_registry = \<lparr>rg_tenant = ''t1'', rg_swarm = ''s1'', rg_id = ''r1'', rg_epoch = 0,
     rg_max_agents = 4, rg_max_channels = 4, rg_max_depth = 2, rg_timeout = 30,
     rg_last_clock = 0, rg_generation = 0, rg_channels = [], rg_agents = [], rg_chans = [],
     rg_contexts = []\<rparr>"

lemma sample_registry_init:
  "registry_init ''t1'' ''s1'' ''r1'' 0 4 4 2 (HInt 30) = Inr sample_registry"
  by (simp add: registry_init_def sample_registry_def timestamp_def host_identifier_def
      id_match_def ascii_alnum_def id_char_def cp_def counter_def)

lemma registry_runs_invariant_witness:
  "reg_inv (foldl (registry_step sample_env) sample_registry [BindChannel (Instance 7) ''rt1''])"
  by (rule registry_runs_invariant [OF sample_registry_init])

text \<open>C5: Revocation is permanent and reaches every descendant: once a pause, end, restart,
  policy-epoch advance, refresh, rebinding, forgetting or channel closing of the context at
  \<open>b\<close> succeeded, no sequence of later calls makes that context, or any context issued under it
  directly or through other agents, authenticate again.\<close>

theorem revoked_context_never_authenticates:
  assumes "reg_inv r" and "registry_exec h c r = (r1, Inr v)" and "revokes r c v b"
    and "(parent_of (foldl (registry_step h) r1 calls))\<^sup>*\<^sup>* b a"
  shows "\<exists>e. snd (authenticate h a ch ad reading (foldl (registry_step h) r1 calls)) = Inl e"
proof -
  have "(reg_prim h)\<^sup>*\<^sup>* r r1"
    using reachesD [OF reaches_exec assms(2)] .
  then have "reg_inv r1" and "b < length (rg_contexts r1)"
    using prims_inv assms(1) prims_contexts_prefix exec_allocated [OF assms(2,3)]
    by (blast, fastforce)
  with prims_dead [OF run_prims this exec_dead [OF assms(2,1,3)]] assms(4)
  show ?thesis by (blast intro: dead_ancestor_not_authenticated)
qed

definition sample_context :: swarm_context where
  "sample_context = \<lparr>sc_registry = ''r1'', sc_identity = \<lparr>id_tenant = ''t1'', id_swarm = ''s1'',
     id_agent = ''a1'', id_runtime = ''rt1'', id_session = ''x1'', id_generation = 1, id_epoch = 0,
     id_parent = None, id_parent_generation = None, id_task = None, id_delegation = None\<rparr>,
     sc_coverage = default_manifest, sc_enrolled = 1\<rparr>"

lemma plain_context_digest:
  assumes "float_repr h = (\<lambda>_. ''1.0'')"
  shows "context_digest h sample_context =
     Inr (sha256 h (utf8 (canonical_json h (JObj (context_as_dict sample_context)))))"
proof -
  let ?text = "canonical_json h (JObj (context_as_dict sample_context))"
  have "text_bound h (JObj (context_as_dict sample_context)) \<le> 3000"
    by (simp add: context_as_dict_def identity_as_dict_def manifest_as_dict_def option_json_def
        sample_context_def default_manifest_def assms int_text_def decimal.simps)
  then have "length (utf8 ?text) \<le> 65536"
    using length_utf8 [of ?text] length_canonical [of h "JObj (context_as_dict sample_context)"]
    by linarith
  moreover have "identity_post_init (sc_identity sample_context) = Inr ()"
      "manifest_post_init (sc_coverage sample_context) = Inr ()"
      "host_identifier (sc_registry sample_context) ''registry_id'' = Inr ''r1''"
      "timestamp (HFloat (Float (sc_enrolled sample_context))) = Inr 1"
    by code_simp+
  ultimately show ?thesis
    by (simp add: context_digest_def validated_bytes_def Let_def)
qed

lemma sample_context_digest:
  "context_digest sample_env sample_context =
     Inr (sha256 sample_env (utf8 (canonical_json sample_env (JObj (context_as_dict sample_context)))))"
  by (rule plain_context_digest) (simp add: sample_env_def)

text \<open>A registry with one enrolled agent, as enrolling it on a bound channel leaves it.\<close>

definition sample_host :: registry where
  "sample_host = sample_registry\<lparr>rg_last_clock := 1, rg_generation := 1,
     rg_chans := [\<lparr>hc_tenant = ''t1'', hc_swarm = ''s1'', hc_runtime = ''rt1''\<rparr>],
     rg_channels := [(0, Instance 7, ''rt1'')], rg_contexts := [sample_context],
     rg_agents := [(''a1'', \<lparr>ag_context = 0, ag_channel = 0,
       ag_digest = projr (context_digest sample_env sample_context), ag_heartbeat = 1,
       ag_phase = Active\<rparr>)]\<rparr>"

lemma sample_live:
  "live_check sample_env 0 0 (Instance 7) 1 sample_host =
     Inr (the (agent_of sample_host ''a1''))"
  unfolding live_check_Inr_iff record_check_Inr_iff
  by (simp add: sample_host_def sample_registry_def sample_context_digest channel_check_def
      phase_at_def parents_def numeral_2_eq_2)
    (simp add: sample_context_def)

lemma sample_host_inv: "reg_inv sample_host"
  by (simp add: sample_host_def sample_registry_def reg_inv_def contexts_ok_def agents_ok_def
      agent_ok_def tables_ok_def sample_context_def)

lemma sample_authenticates:
  "authenticate sample_env 0 0 (Instance 7) (HFloat (Float 1)) sample_host = (sample_host, Inr 0)"
  using sample_live
  by (simp add: authenticate_ok_iff timestamp_def sample_host_def sample_registry_def)

lemma revoked_context_never_authenticates_witness:
  "\<exists>e. snd (authenticate sample_env 0 0 (Instance 7) (HFloat (Float 2))
     (foldl (registry_step sample_env)
       (fst (registry_exec sample_env (EndAgent 0 0 (Instance 7)) sample_host)) [])) = Inl e"
proof (rule revoked_context_never_authenticates [OF sample_host_inv])
  show "registry_exec sample_env (EndAgent 0 0 (Instance 7)) sample_host =
      (fst (registry_exec sample_env (EndAgent 0 0 (Instance 7)) sample_host), Inr Done)"
    using sample_live
    by (simp add: end_agent_def op_bind_def op_defs live_check_Inr_iff)
qed (rule rtranclp.rtrancl_refl | simp)+

text \<open>C27: Authentication succeeds only for a live lineage: the context object is the current one
  of its agent on this very channel and adapter, its content still has the digest recorded at
  enrollment, and it and every context it was issued under, at any distance, are active, within
  the heartbeat timeout and of the current policy epoch; it changes nothing but the clock.\<close>

theorem authentication_requires_live_lineage:
  assumes "authenticate h a ch ad reading r = (r', Inr b)" and "reg_inv r"
  shows "b = a \<and> (\<exists>t. r' = r\<lparr>rg_last_clock := t\<rparr> \<and> rg_last_clock r \<le> t \<and>
    (\<exists>ag rt. agent_of r (id_agent (identity_at r a)) = Some ag \<and> ag_context ag = a \<and>
       ag_channel ag = ch \<and> channel_check r ch ad = Inr rt \<and>
       context_digest h (context_at r a) = Inr (ag_digest ag)) \<and>
    (\<forall>c. (parent_of r)\<^sup>*\<^sup>* c a \<longrightarrow> usable_at r t c))"
proof -
  obtain t ag where t: "rg_last_clock r \<le> t" "r' = r\<lparr>rg_last_clock := t\<rparr>" "b = a"
      and live: "live_check h a ch ad t (r\<lparr>rg_last_clock := t\<rparr>) = Inr ag"
    using assms(1) by (auto simp: authenticate_ok_iff)
  have "parent_of (r\<lparr>rg_last_clock := t\<rparr>) = parent_of r" "usable_at (r\<lparr>rg_last_clock := t\<rparr>) t = usable_at r t"
    by (auto simp: parent_of_def usable_at_def phase_at_def fun_eq_iff)
  with ancestors_usable [OF _ live inv_now [OF assms(2) t(1)]]
  have "\<forall>c. (parent_of r)\<^sup>*\<^sup>* c a \<longrightarrow> usable_at r t c"
    by simp
  with t live show ?thesis
    by (auto simp: live_check_Inr_iff record_check_Inr_iff)
qed

lemma authentication_requires_live_lineage_witness:
  "usable_at sample_host 1 0"
proof -
  obtain t where t: "sample_host = sample_host\<lparr>rg_last_clock := t\<rparr>"
      "\<forall>c. (parent_of sample_host)\<^sup>*\<^sup>* c 0 \<longrightarrow> usable_at sample_host t c"
    using authentication_requires_live_lineage [OF sample_authenticates sample_host_inv] by auto
  from arg_cong [OF t(1), of rg_last_clock] have "t = 1"
    by (simp add: sample_host_def)
  with t(2) show ?thesis by blast
qed

end
