(* ===== verification/Budget_Store.thy ===== *)
theory Budget_Store
  imports Registry
begin

text \<open>
  The accounting store of \<^verbatim>\<open>ordin/swarm/budget_store.py\<close> and the SQL statements
  \<^verbatim>\<open>ordin/swarm/budgets.py\<close> runs on it: the four tables as lists of rows in insertion order,
  each statement as a function that refuses with an integrity error exactly when one of the
  table's constraints would be violated.
\<close>

section \<open>Tables\<close>

datatype reservation_status =
  Reserved | Forwarding | Uncertain | Committed | Released | Overrun | Canceled | Expired

record bucket_row =
  bk_key :: string
  bk_metric :: string
  bk_held :: int
  bk_consumed :: int
  bk_observed :: int
  bk_observations :: int
  bk_blocked :: int

record reservation_row =
  rs_id :: string
  rs_key :: string
  rs_context :: string
  rs_action :: string
  rs_costs :: string
  rs_epoch :: int
  rs_generation :: int
  rs_status :: reservation_status
  rs_expires :: rat
  rs_settlement :: "string option"

record item_row =
  it_reservation :: string
  it_bucket :: string
  it_metric :: string
  it_amount :: int

record meta_row =
  me_digest :: string
  me_epoch :: int
  me_generation :: int
  me_nonce :: string
  me_last :: rat

record budget_db =
  db_meta :: "meta_row option"
  db_buckets :: "bucket_row list"
  db_reservations :: "reservation_row list"
  db_items :: "item_row list"

definition empty_db :: budget_db where
  "empty_db = \<lparr>db_meta = None, db_buckets = [], db_reservations = [], db_items = []\<rparr>"

definition find_bucket :: "budget_db \<Rightarrow> string \<Rightarrow> bucket_row option" where
  "find_bucket db k = find (\<lambda>b. bk_key b = k) (db_buckets db)"

definition find_reservation :: "budget_db \<Rightarrow> string \<Rightarrow> reservation_row option" where
  "find_reservation db i = find (\<lambda>r. rs_id r = i) (db_reservations db)"

definition items_of :: "budget_db \<Rightarrow> string \<Rightarrow> item_row list" where
  "items_of db i = filter (\<lambda>it. it_reservation it = i) (db_items db)"

section \<open>Statements\<close>

text \<open>The \<^verbatim>\<open>CHECK\<close> constraints of \<^verbatim>\<open>budget_buckets\<close>.\<close>

definition bucket_checks :: "bucket_row \<Rightarrow> bool" where
  "bucket_checks b =
     (0 \<le> bk_held b \<and> 0 \<le> bk_consumed b \<and> 0 \<le> bk_observed b \<and> 0 \<le> bk_observations b)"

text \<open>\<^verbatim>\<open>UPDATE budget_buckets SET ... WHERE bucket=?\<close>.\<close>

definition update_bucket ::
  "string \<Rightarrow> (bucket_row \<Rightarrow> bucket_row) \<Rightarrow> budget_db \<Rightarrow> budget_db res" where
  "update_bucket k f db =
     (if list_all (\<lambda>b. bk_key b = k \<longrightarrow> bucket_checks (f b)) (db_buckets db)
      then Inr (db\<lparr>db_buckets := map (\<lambda>b. if bk_key b = k then f b else b) (db_buckets db)\<rparr>)
      else Inl (IntegrityError ''CHECK constraint failed''))"

text \<open>\<^verbatim>\<open>INSERT OR IGNORE INTO budget_buckets VALUES(?,?,0,0,0,0,-1)\<close>.\<close>

definition insert_bucket :: "string \<Rightarrow> string \<Rightarrow> budget_db \<Rightarrow> budget_db" where
  "insert_bucket k metric db =
     (if find_bucket db k = None
      then db\<lparr>db_buckets := db_buckets db @ [\<lparr>bk_key = k, bk_metric = metric, bk_held = 0,
        bk_consumed = 0, bk_observed = 0, bk_observations = 0, bk_blocked = - 1\<rparr>]\<rparr>
      else db)"

text \<open>\<^verbatim>\<open>INSERT INTO budget_reservations\<close>, with its primary key and its unique column.\<close>

definition insert_reservation :: "reservation_row \<Rightarrow> budget_db \<Rightarrow> budget_db res" where
  "insert_reservation r db =
     (if list_ex (\<lambda>q. rs_id q = rs_id r \<or> rs_key q = rs_key r) (db_reservations db)
      then Inl (IntegrityError ''UNIQUE constraint failed'')
      else Inr (db\<lparr>db_reservations := db_reservations db @ [r]\<rparr>))"

text \<open>\<^verbatim>\<open>INSERT INTO budget_items\<close>, with its references, its check and its primary key.\<close>

definition insert_item :: "item_row \<Rightarrow> budget_db \<Rightarrow> budget_db res" where
  "insert_item it db =
     (if find_reservation db (it_reservation it) = None \<or> find_bucket db (it_bucket it) = None
      then Inl (IntegrityError ''FOREIGN KEY constraint failed'')
      else if it_amount it < 0 then Inl (IntegrityError ''CHECK constraint failed'')
      else if list_ex (\<lambda>q. it_reservation q = it_reservation it \<and> it_bucket q = it_bucket it)
        (db_items db)
      then Inl (IntegrityError ''UNIQUE constraint failed'')
      else Inr (db\<lparr>db_items := db_items db @ [it]\<rparr>))"

definition update_reservation ::
  "string \<Rightarrow> (reservation_row \<Rightarrow> reservation_row) \<Rightarrow> budget_db \<Rightarrow> budget_db" where
  "update_reservation i f db =
     db\<lparr>db_reservations := map (\<lambda>r. if rs_id r = i then f r else r) (db_reservations db)\<rparr>"

text \<open>A loop of bucket updates over items: every ledger operation charges this way.\<close>

definition charge_items ::
  "(item_row \<Rightarrow> bucket_row \<Rightarrow> bucket_row) \<Rightarrow> budget_db \<Rightarrow> item_row list \<Rightarrow> budget_db res" where
  "charge_items g = res_foldM (\<lambda>db it. update_bucket (it_bucket it) (g it) db)"

text \<open>\<^verbatim>\<open>BudgetLedger._release\<close>.\<close>

definition release :: "string \<Rightarrow> reservation_status \<Rightarrow> budget_db \<Rightarrow> budget_db res" where
  "release i status db =
     res_bind (charge_items (\<lambda>it b. b\<lparr>bk_held := bk_held b - it_amount it\<rparr>) db (items_of db i)) (\<lambda>db1.
     Inr (update_reservation i (\<lambda>r. r\<lparr>rs_status := status\<rparr>) db1))"

text \<open>\<^verbatim>\<open>BudgetLedger._expire\<close>: the rows are selected first.\<close>

definition expire_rows :: "rat \<Rightarrow> budget_db \<Rightarrow> (budget_db \<times> nat) res" where
  "expire_rows now db =
     (let rows = filter (\<lambda>r. rs_status r = Reserved \<and> rs_expires r \<le> now) (db_reservations db)
      in res_bind (res_foldM (\<lambda>d r. release (rs_id r) Expired d) db rows) (\<lambda>db1.
         Inr (db1, length rows)))"

section \<open>Transactions of the store\<close>

text \<open>\<^verbatim>\<open>_validate_history\<close>: an existing coordinator, or a permitted first use of empty tables.\<close>

definition history_ok :: "budget_db \<Rightarrow> bool \<Rightarrow> bool" where
  "history_ok db allow =
     (db_meta db \<noteq> None \<or>
      allow \<and> db_buckets db = [] \<and> db_reservations db = [] \<and> db_items db = [])"

section \<open>Holds\<close>

definition active_status :: "reservation_status \<Rightarrow> bool" where
  "active_status s = (s \<in> {Reserved, Forwarding, Uncertain})"

definition item_active :: "budget_db \<Rightarrow> item_row \<Rightarrow> bool" where
  "item_active db it =
     (case find_reservation db (it_reservation it) of None \<Rightarrow> False
      | Some r \<Rightarrow> active_status (rs_status r))"

text \<open>What the active reservations hold of a bucket.\<close>

definition hold_sum :: "budget_db \<Rightarrow> string \<Rightarrow> int" where
  "hold_sum db k =
     sum_list (map it_amount (filter (\<lambda>it. it_bucket it = k \<and> item_active db it) (db_items db)))"

definition db_inv :: "budget_db \<Rightarrow> bool" where
  "db_inv db =
     (distinct (map bk_key (db_buckets db)) \<and> distinct (map rs_id (db_reservations db)) \<and>
      distinct (map rs_key (db_reservations db)) \<and>
      (\<forall>it \<in> set (db_items db). 0 \<le> it_amount it \<and>
         find_reservation db (it_reservation it) \<noteq> None \<and> find_bucket db (it_bucket it) \<noteq> None) \<and>
      (\<forall>b \<in> set (db_buckets db). bucket_checks b \<and> bk_held b = hold_sum db (bk_key b)))"

section \<open>Lemmas: rows and statements\<close>

lemma find_key_iff:
  assumes "distinct (map k xs)"
  shows "find (\<lambda>x. k x = v) xs = Some x \<longleftrightarrow> x \<in> set xs \<and> k x = v"
  using assms by (induction xs) (auto simp: rev_image_eqI)

lemma find_map_key:
  assumes "\<And>x. k (f x) = k x"
  shows "find (\<lambda>x. k x = v) (map f xs) = map_option f (find (\<lambda>x. k x = v) xs)"
  using assms by (induction xs) auto

lemma find_None_key: "find (\<lambda>x. k x = v) xs = None \<longleftrightarrow> v \<notin> k ` set xs"
  by (auto simp: find_None_iff)

lemma update_bucket_Inr:
  "update_bucket k f db = Inr db' \<Longrightarrow>
     db' = db\<lparr>db_buckets := map (\<lambda>b. if bk_key b = k then f b else b) (db_buckets db)\<rparr>"
  by (auto simp: update_bucket_def split: if_splits)

lemma update_bucket_checks:
  assumes "update_bucket k f db = Inr db'" "\<forall>b \<in> set (db_buckets db). bucket_checks b"
  shows "\<forall>b \<in> set (db_buckets db'). bucket_checks b"
  using assms by (auto simp: update_bucket_def list_all_iff split: if_splits)

definition charged ::
  "(item_row \<Rightarrow> bucket_row \<Rightarrow> bucket_row) \<Rightarrow> item_row list \<Rightarrow> bucket_row \<Rightarrow> bucket_row" where
  "charged g items b = foldl (\<lambda>b it. if bk_key b = it_bucket it then g it b else b) b items"

lemma charge_items_Inr:
  assumes "charge_items g db items = Inr db'" "\<And>it b. bk_key (g it b) = bk_key b"
  shows "db' = db\<lparr>db_buckets := map (charged g items) (db_buckets db)\<rparr>"
  using assms(1)
proof (induction items arbitrary: db)
  case Nil
  then show ?case by (simp add: charge_items_def charged_def)
next
  case (Cons it items)
  obtain d where d: "update_bucket (it_bucket it) (g it) db = Inr d" "charge_items g d items = Inr db'"
    using Cons.prems by (auto simp: charge_items_def)
  have "charged g (it # items) b =
      charged g items (if bk_key b = it_bucket it then g it b else b)" for b
    by (simp add: charged_def)
  with Cons.IH [OF d(2)] update_bucket_Inr [OF d(1)] show ?case by (simp add: comp_def)
qed

lemma charge_items_checks:
  assumes "charge_items g db items = Inr db'" "\<forall>b \<in> set (db_buckets db). bucket_checks b"
  shows "\<forall>b \<in> set (db_buckets db'). bucket_checks b"
  using assms(1) unfolding charge_items_def
  by (rule res_foldM_keeps) (use assms(2) update_bucket_checks in blast)+

lemma charged_key [simp]:
  "(\<And>it b. bk_key (g it b) = bk_key b) \<Longrightarrow> bk_key (charged g items b) = bk_key b"
  unfolding charged_def by (induction items arbitrary: b) simp_all

lemma charged_held:
  assumes "\<And>it b. bk_key (g it b) = bk_key b" "\<And>it b. bk_held (g it b) = bk_held b + d it"
  shows "bk_held (charged g items b) =
    bk_held b + sum_list (map d (filter (\<lambda>it. it_bucket it = bk_key b) items))"
  unfolding charged_def by (induction items arbitrary: b) (simp_all add: assms)

lemma find_update_reservation:
  assumes "\<And>r. rs_id (f r) = rs_id r"
  shows "find_reservation (update_reservation i f db) j =
    map_option (\<lambda>r. if rs_id r = i then f r else r) (find_reservation db j)"
  unfolding find_reservation_def update_reservation_def
  by (simp add: find_map_key [where k = rs_id] assms)

lemma find_reservation_id: "find_reservation db i = Some r \<Longrightarrow> rs_id r = i"
  by (auto simp: find_reservation_def find_Some_iff)

lemma find_bucket_key: "find_bucket db k = Some b \<Longrightarrow> bk_key b = k"
  by (auto simp: find_bucket_def find_Some_iff)

section \<open>Lemmas: holds\<close>

lemma sum_list_filter_if:
  "sum_list (map f (filter P xs)) = sum_list (map (\<lambda>x. if P x then f x else (0 :: int)) xs)"
  by (induction xs) auto

lemma hold_sum_cong:
  assumes "db_items db' = db_items db" "\<And>it. it \<in> set (db_items db) \<Longrightarrow> item_active db' it = item_active db it"
  shows "hold_sum db' k = hold_sum db k"
  using assms unfolding hold_sum_def by (intro arg_cong [of _ _ sum_list] map_cong filter_cong) auto

text \<open>Closing an active reservation takes exactly its items out of the holds.\<close>

lemma hold_sum_close:
  assumes items: "db_items db' = db_items db"
    and act: "\<And>it. it \<in> set (db_items db) \<Longrightarrow>
      item_active db' it = (item_active db it \<and> it_reservation it \<noteq> i)"
    and open_i: "\<And>it. it \<in> set (db_items db) \<Longrightarrow> it_reservation it = i \<Longrightarrow> item_active db it"
  shows "hold_sum db' k =
    hold_sum db k - sum_list (map it_amount (filter (\<lambda>it. it_bucket it = k) (items_of db i)))"
proof -
  have "sum_list (map it_amount (filter (\<lambda>it. it_bucket it = k \<and> item_active db' it) xs)) =
      sum_list (map it_amount (filter (\<lambda>it. it_bucket it = k \<and> item_active db it) xs)) -
      sum_list (map it_amount (filter (\<lambda>it. it_bucket it = k \<and> it_reservation it = i) xs))"
    if "set xs \<subseteq> set (db_items db)" for xs
    using that by (induction xs) (auto simp: act open_i)
  from this [of "db_items db"] show ?thesis
    by (simp add: hold_sum_def items items_of_def filter_filter conj_commute)
qed

text \<open>Charging the items of a reservation with a change of \<open>held\<close> that follows the holds.\<close>

lemma db_inv_charge:
  assumes inv: "db_inv db"
    and ch: "charge_items g db items = Inr db1"
    and key: "\<And>it b. bk_key (g it b) = bk_key b"
    and held: "\<And>it b. bk_held (g it b) = bk_held b + d it"
    and rows: "db' = db1\<lparr>db_reservations := map f (db_reservations db)\<rparr>"
    and ids: "\<And>r. rs_id (f r) = rs_id r" "\<And>r. rs_key (f r) = rs_key r"
    and sums: "\<And>k. hold_sum db' k =
      hold_sum db k + sum_list (map d (filter (\<lambda>it. it_bucket it = k) items))"
  shows "db_inv db'"
proof -
  have db1: "db1 = db\<lparr>db_buckets := map (charged g items) (db_buckets db)\<rparr>"
    by (rule charge_items_Inr [OF ch key])
  have same: "map bk_key (db_buckets db') = map bk_key (db_buckets db)"
      "map rs_id (db_reservations db') = map rs_id (db_reservations db)"
      "map rs_key (db_reservations db') = map rs_key (db_reservations db)"
      "db_items db' = db_items db"
    by (simp_all add: rows db1 key ids comp_def)
  have refs: "find_reservation db' i \<noteq> None \<longleftrightarrow> find_reservation db i \<noteq> None"
      "find_bucket db' k \<noteq> None \<longleftrightarrow> find_bucket db k \<noteq> None" for i k
    by (simp_all add: find_reservation_def find_bucket_def rows db1
        find_map_key [where k = rs_id, OF ids(1)] find_map_key [where k = bk_key] key)
  have checks: "\<forall>b \<in> set (db_buckets db'). bucket_checks b"
    using charge_items_checks [OF ch] inv by (simp add: rows db_inv_def)
  have "\<forall>b \<in> set (db_buckets db'). bk_held b = hold_sum db' (bk_key b)"
    using inv by (auto simp: rows db1 key charged_held [OF key held] sums [unfolded rows db1] db_inv_def)
  with inv same refs checks show ?thesis
    unfolding db_inv_def by metis
qed

section \<open>Lemmas: releasing\<close>

lemma item_active_update:
  assumes "\<And>r. rs_id (f r) = rs_id r"
  shows "item_active (update_reservation i f db) it =
    (case find_reservation db (it_reservation it) of None \<Rightarrow> False
     | Some r \<Rightarrow> active_status (rs_status (if rs_id r = i then f r else r)))"
  by (simp add: item_active_def find_update_reservation assms split: option.splits)

lemma item_active_buckets [simp]:
  "item_active (db\<lparr>db_buckets := bs\<rparr>) it = item_active db it"
  "find_reservation (db\<lparr>db_buckets := bs\<rparr>) i = find_reservation db i"
  by (simp_all add: item_active_def find_reservation_def)

lemma update_reservation_buckets:
  "update_reservation i f (db\<lparr>db_buckets := bs\<rparr>) = (update_reservation i f db)\<lparr>db_buckets := bs\<rparr>"
  by (simp add: update_reservation_def)

lemma release_Inr:
  assumes "release i st db = Inr db'"
  shows "\<exists>bs. db' = (update_reservation i (\<lambda>r. r\<lparr>rs_status := st\<rparr>) db)\<lparr>db_buckets := bs\<rparr>"
  using assms by (auto simp: release_def update_reservation_buckets dest!: charge_items_Inr)

lemma release_inv:
  assumes "release i st db = Inr db'" "db_inv db" "find_reservation db i = Some r"
    "active_status (rs_status r)" "\<not> active_status st"
  shows "db_inv db'"
proof -
  let ?g = "\<lambda>it b. b\<lparr>bk_held := bk_held b - it_amount it\<rparr>"
  let ?f = "\<lambda>r. if rs_id r = i then r\<lparr>rs_status := st\<rparr> else r"
  obtain db1 where ch: "charge_items ?g db (items_of db i) = Inr db1"
      and db': "db' = update_reservation i (\<lambda>r. r\<lparr>rs_status := st\<rparr>) db1"
    using assms(1) by (auto simp: release_def)
  have db1: "db1 = db\<lparr>db_buckets := map (charged ?g (items_of db i)) (db_buckets db)\<rparr>"
    by (rule charge_items_Inr [OF ch]) simp
  have act: "item_active db' it = (item_active db it \<and> it_reservation it \<noteq> i)" for it
    unfolding db' using assms(5)
    by (auto simp: item_active_def find_update_reservation db1 dest: find_reservation_id
        split: option.splits)
  have items: "db_items db' = db_items db"
    by (simp add: db' db1 update_reservation_def)
  have closing: "hold_sum db' k = hold_sum db k +
      sum_list (map (\<lambda>it. - it_amount it) (filter (\<lambda>it. it_bucket it = k) (items_of db i)))" for k
    using hold_sum_close [OF items act, of k] assms(3,4)
    by (simp add: item_active_def uminus_sum_list_map comp_def)
  show ?thesis
    by (rule db_inv_charge [OF assms(2) ch, where f = ?f and d = "\<lambda>it. - it_amount it"])
      (use closing in \<open>auto simp: db' db1 update_reservation_def\<close>)
qed

text \<open>Taking the items of an active reservation out of the holds never breaks a \<^verbatim>\<open>CHECK\<close>.\<close>

lemma charge_down_ok:
  assumes "\<forall>it \<in> set items. 0 \<le> it_amount it"
    and "\<forall>b \<in> set (db_buckets db). bucket_checks b \<and>
      sum_list (map it_amount (filter (\<lambda>it. it_bucket it = bk_key b) items)) \<le> bk_held b"
  shows "\<exists>db'. charge_items (\<lambda>it b. b\<lparr>bk_held := bk_held b - it_amount it\<rparr>) db items = Inr db'"
  using assms
proof (induction items arbitrary: db)
  case Nil
  then show ?case by (simp add: charge_items_def)
next
  case (Cons it items)
  let ?f = "\<lambda>b. b\<lparr>bk_held := bk_held b - it_amount it\<rparr>"
  let ?db = "db\<lparr>db_buckets := map (\<lambda>b. if bk_key b = it_bucket it then ?f b else b) (db_buckets db)\<rparr>"
  have rest: "0 \<le> sum_list (map it_amount (filter (\<lambda>it. it_bucket it = k) items))" for k
    using Cons.prems(1) by (intro sum_list_nonneg) auto
  have checks: "list_all (\<lambda>b. bk_key b = it_bucket it \<longrightarrow> bucket_checks (?f b)) (db_buckets db)"
    unfolding list_all_iff
  proof (intro ballI impI)
    fix b assume b: "b \<in> set (db_buckets db)" "bk_key b = it_bucket it"
    with Cons.prems(2) rest [of "it_bucket it"] show "bucket_checks (?f b)"
      by (fastforce simp: bucket_checks_def)
  qed
  have low: "\<forall>b \<in> set (db_buckets ?db). bucket_checks b \<and>
      sum_list (map it_amount (filter (\<lambda>it. it_bucket it = bk_key b) items)) \<le> bk_held b"
    using Cons.prems(2) checks by (fastforce simp: list_all_iff)
  have "\<forall>it \<in> set items. 0 \<le> it_amount it"
    using Cons.prems(1) by simp
  from Cons.IH [OF this low] obtain db'
    where "charge_items (\<lambda>it b. b\<lparr>bk_held := bk_held b - it_amount it\<rparr>) ?db items = Inr db'"
    by blast
  with checks show ?case by (auto simp: charge_items_def update_bucket_def)
qed

lemma hold_sum_ge_items:
  assumes "db_inv db" "find_reservation db i = Some r" "active_status (rs_status r)"
  shows "sum_list (map it_amount (filter (\<lambda>it. it_bucket it = k) (items_of db i))) \<le> hold_sum db k"
proof -
  have "sum_list (map it_amount (filter (\<lambda>it. it_bucket it = k \<and> it_reservation it = i) xs)) \<le>
      sum_list (map it_amount (filter (\<lambda>it. it_bucket it = k \<and> item_active db it) xs))"
    if "set xs \<subseteq> set (db_items db)" for xs
    using that assms by (induction xs) (auto simp: item_active_def db_inv_def)
  from this [of "db_items db"] show ?thesis
    by (simp add: hold_sum_def items_of_def filter_filter conj_commute)
qed

lemma release_ok:
  assumes "db_inv db" "find_reservation db i = Some r" "active_status (rs_status r)"
  shows "\<exists>db'. release i st db = Inr db'"
proof -
  have "\<exists>d. charge_items (\<lambda>it b. b\<lparr>bk_held := bk_held b - it_amount it\<rparr>) db (items_of db i) = Inr d"
    using assms(1) hold_sum_ge_items [OF assms]
    by (intro charge_down_ok) (auto simp: db_inv_def items_of_def)
  then show ?thesis by (auto simp: release_def)
qed

section \<open>Lemmas: the life cycle of a reservation\<close>

fun status_next :: "reservation_status \<Rightarrow> reservation_status list" where
  "status_next Reserved = [Forwarding, Uncertain, Committed, Released, Overrun, Canceled, Expired]"
| "status_next Forwarding = [Uncertain, Committed, Released, Overrun]"
| "status_next Uncertain = [Committed, Released, Overrun]"
| "status_next Committed = [Released, Overrun]"
| "status_next Released = []"
| "status_next Overrun = []"
| "status_next Canceled = []"
| "status_next Expired = []"

definition status_le :: "reservation_status \<Rightarrow> reservation_status \<Rightarrow> bool" where
  "status_le s t = (t = s \<or> t \<in> set (status_next s))"

lemma status_le_refl [simp]: "status_le s s"
  by (simp add: status_le_def)

lemma status_le_trans: "status_le s t \<Longrightarrow> status_le t u \<Longrightarrow> status_le s u"
  by (cases s; cases t) (auto simp: status_le_def)

text \<open>A row moves forward in its life cycle, and what identifies it never changes.\<close>

definition row_moves :: "reservation_row \<Rightarrow> reservation_row \<Rightarrow> bool" where
  "row_moves r r' = (status_le (rs_status r) (rs_status r') \<and>
     (rs_id r', rs_key r', rs_context r', rs_action r', rs_costs r', rs_epoch r', rs_generation r',
      rs_expires r') =
     (rs_id r, rs_key r, rs_context r, rs_action r, rs_costs r, rs_epoch r, rs_generation r,
      rs_expires r))"

definition db_moves :: "budget_db \<Rightarrow> budget_db \<Rightarrow> bool" where
  "db_moves db db' = (\<forall>i r. find_reservation db i = Some r \<longrightarrow>
     (\<exists>r'. find_reservation db' i = Some r' \<and> row_moves r r'))"

lemma db_moves_refl [simp]: "db_moves db db"
  by (simp add: db_moves_def row_moves_def)

lemma row_moves_trans: "row_moves r s \<Longrightarrow> row_moves s t \<Longrightarrow> row_moves r t"
  by (auto simp: row_moves_def intro: status_le_trans)

lemma db_moves_trans: "db_moves db1 db2 \<Longrightarrow> db_moves db2 db3 \<Longrightarrow> db_moves db1 db3"
  unfolding db_moves_def by (meson row_moves_trans)

lemma db_moves_update:
  assumes "\<And>r. rs_id (f r) = rs_id r" "\<And>r. find_reservation db i = Some r \<Longrightarrow> row_moves r (f r)"
  shows "db_moves db ((update_reservation i f db)\<lparr>db_buckets := bs\<rparr>)"
  using assms(2)
  by (auto simp: db_moves_def find_update_reservation [OF assms(1)] row_moves_def
      dest: find_reservation_id)

lemma release_moves:
  assumes "release i st db = Inr db'"
    "\<And>r. find_reservation db i = Some r \<Longrightarrow> status_le (rs_status r) st"
  shows "db_moves db db'"
  using release_Inr [OF assms(1)] assms(2) by (auto simp: row_moves_def intro!: db_moves_update)

end
