(* ===== verification/Budgets.thy ===== *)
theory Budgets
  imports Budget_Store
begin

text \<open>
  \<^verbatim>\<open>ordin/swarm/budgets.py\<close>: costs, limits and policies, the selection of budget buckets and the
  resolution of unknown costs, the settlement receipts, and the ledger over the accounting store:
  admission, forwarding, cancellation, expiry, settlement, reconciliation and recovery.
\<close>

section \<open>Costs, limits and policies\<close>

definition metrics :: "string list" where
  "metrics = [''dollar_micros'', ''tokens'', ''external_operations'', ''child_spawns'', ''requests'',
     ''concurrency'', ''output_bytes'', ''destructive_actions'', ''tool_calls'', ''processes'']"

definition max_units :: int where "max_units = 10 ^ 12"

definition amount_check :: "int \<Rightarrow> int \<Rightarrow> int res" where
  "amount_check v maximum =
     (if \<not> (0 \<le> v \<and> v \<le> maximum) then Inl (ValueError ''invalid bounded budget quantity'')
      else Inr v)"

record budget_cost =
  bc_metric :: string
  bc_amount :: "int option"

definition cost_post_init :: "budget_cost \<Rightarrow> unit res" where
  "cost_post_init c =
     (if bc_metric c \<notin> set metrics then Inl (ValueError ''unknown budget metric'')
      else (case bc_amount c of None \<Rightarrow> Inr ()
        | Some v \<Rightarrow> res_bind (amount_check v max_units) (\<lambda>_. Inr ())))"

record budget_limit =
  bl_scope :: string
  bl_metric :: string
  bl_maximum :: int
  bl_subject :: "string option"
  bl_ceiling :: "int option"
  bl_effects :: "string list"

fun check_identifiers :: "string \<Rightarrow> string list \<Rightarrow> unit res" where
  "check_identifiers name [] = Inr ()"
| "check_identifiers name (e # es) =
     res_bind (host_identifier e name) (\<lambda>_. check_identifiers name es)"

definition limit_post_init :: "budget_limit \<Rightarrow> unit res" where
  "limit_post_init l =
     (if bl_scope l \<notin> {''tenant'', ''swarm'', ''task'', ''agent''}
      then Inl (ValueError ''unknown budget scope'')
      else
      res_bind (cost_post_init \<lparr>bc_metric = bl_metric l, bc_amount = Some 0\<rparr>) (\<lambda>_.
      res_bind (amount_check (bl_maximum l) (10 ^ 15)) (\<lambda>_.
      res_bind (optional_identifier (bl_subject l) ''budget_subject'') (\<lambda>_.
      if bl_scope l \<in> {''tenant'', ''swarm''} \<and> bl_subject l \<noteq> None
      then Inl (ValueError ''tenant/swarm budgets derive identity from the protected registry'')
      else
      res_bind (case bl_ceiling l of
          None \<Rightarrow> Inr ()
        | Some v \<Rightarrow> res_bind (amount_check v max_units) (\<lambda>_.
            if v = 0 \<or> v > bl_maximum l
            then Inl (ValueError ''unknown cost ceiling exceeds operator maximum'') else Inr ())) (\<lambda>_.
      if length (bl_effects l) > 64 \<or> \<not> distinct (bl_effects l)
      then Inl (ValueError ''bounded immutable unknown-cost effects required'')
      else check_identifiers ''unknown_effect'' (bl_effects l))))))"

definition option_int_json :: "int option \<Rightarrow> json" where
  "option_int_json v = (case v of None \<Rightarrow> JNull | Some i \<Rightarrow> JInt i)"

definition limit_as_dict :: "budget_limit \<Rightarrow> payload" where
  "limit_as_dict l =
     [(''scope'', JStr (bl_scope l)), (''metric'', JStr (bl_metric l)),
      (''maximum'', JInt (bl_maximum l)), (''subject'', option_json (bl_subject l)),
      (''unknown_ceiling'', option_int_json (bl_ceiling l)),
      (''unknown_effects'', JArr (map JStr (bl_effects l)))]"

record budget_policy =
  bp_epoch :: int
  bp_limits :: "budget_limit list"
  bp_lifetime :: host_number
  bp_capacity :: int
  bp_physical :: bool

fun check_limits :: "budget_limit list \<Rightarrow> unit res" where
  "check_limits [] = Inr ()"
| "check_limits (l # ls) = res_bind (limit_post_init l) (\<lambda>_. check_limits ls)"

definition budget_policy_post_init :: "budget_policy \<Rightarrow> unit res" where
  "budget_policy_post_init p =
     res_bind (counter (bp_epoch p) ''budget_policy_epoch'') (\<lambda>_.
     if \<not> (1 \<le> length (bp_limits p) \<and> length (bp_limits p) \<le> 64)
     then Inl (ValueError ''bounded protected budget limits required'')
     else
     res_bind (check_limits (bp_limits p)) (\<lambda>_.
     if \<not> distinct (map (\<lambda>l. (bl_scope l, bl_metric l, bl_subject l)) (bp_limits p))
     then Inl (ValueError ''duplicate budget limit selector'')
     else
     res_bind (timestamp (bp_lifetime p)) (\<lambda>t.
     if \<not> (0 < t \<and> t \<le> 3600) \<or> \<not> (1 \<le> bp_capacity p \<and> bp_capacity p \<le> 16384)
     then Inl (ValueError ''invalid bounded budget reservation policy'') else Inr ())))"

text \<open>The number a host value stands for, and its JSON form (an int and a float print differently).\<close>

definition number_json :: "host_number \<Rightarrow> json" where
  "number_json v = (case v of HInt i \<Rightarrow> JInt i | HFloat x \<Rightarrow> JFloat x | HNan \<Rightarrow> JNull
     | HInfinity positive \<Rightarrow> JNull | HOther \<Rightarrow> JNull)"

definition number_value :: "host_number \<Rightarrow> rat" where
  "number_value v = (case v of HInt i \<Rightarrow> of_int i | HFloat x \<Rightarrow> float_value x | HNan \<Rightarrow> 0
     | HInfinity positive \<Rightarrow> 0 | HOther \<Rightarrow> 0)"

definition budget_policy_digest :: "host_env \<Rightarrow> budget_policy \<Rightarrow> string res" where
  "budget_policy_digest h p =
     res_bind (budget_policy_post_init p) (\<lambda>_.
     Inr (digest h (JObj
       [(''epoch'', JInt (bp_epoch p)),
        (''limits'', JArr (map (\<lambda>l. JObj (limit_as_dict l)) (bp_limits p))),
        (''lifetime'', number_json (bp_lifetime p)), (''capacity'', JInt (bp_capacity p)),
        (''require_physical_enforcement'', JBool (bp_physical p))])))"

section \<open>Settlement receipts\<close>

record observation =
  ob_reservation :: string
  ob_action :: string
  ob_context :: string
  ob_outcome :: string
  ob_costs :: "budget_cost list"

definition observation_digest :: "host_env \<Rightarrow> observation \<Rightarrow> string" where
  "observation_digest h ob =
     digest h (JObj
       [(''id'', JStr (ob_reservation ob)), (''action'', JStr (ob_action ob)),
        (''context'', JStr (ob_context ob)), (''outcome'', JStr (ob_outcome ob)),
        (''costs'', JArr (map (\<lambda>c. JArr [JStr (bc_metric c), option_int_json (bc_amount c)])
          (ob_costs ob)))])"

fun check_costs :: "budget_cost list \<Rightarrow> unit res" where
  "check_costs [] = Inr ()"
| "check_costs (c # cs) = res_bind (cost_post_init c) (\<lambda>_. check_costs cs)"

text \<open>\<^verbatim>\<open>_costs\<close>: the dictionary from metrics to amounts.\<close>

definition costs_dict :: "budget_cost list \<Rightarrow> bool \<Rightarrow> (string \<times> int option) list res" where
  "costs_dict cs observed =
     (if length cs > length metrics
      then Inl (ValueError ''bounded protected budget costs required'')
      else
      res_bind (check_costs cs) (\<lambda>_.
      if \<not> distinct (map bc_metric cs) \<or> observed \<and> list_ex (\<lambda>c. bc_amount c = None) cs
      then Inl (ValueError ''duplicate or unknown observed budget metric'')
      else Inr (map (\<lambda>c. (bc_metric c, bc_amount c)) cs)))"

text \<open>
  The observation source issues receipt objects: \<open>os_receipts\<close> holds every receipt object by
  address, \<open>os_issued\<close> the digests of those it issued itself.
\<close>

record observation_source =
  os_limit :: nat
  os_issued :: "(nat \<times> string) list"
  os_receipts :: "observation list"

definition record_observation ::
  "host_env \<Rightarrow> string \<Rightarrow> json \<Rightarrow> swarm_context \<Rightarrow> string \<Rightarrow> budget_cost list
     \<Rightarrow> (observation_source, nat) op" where
  "record_observation h reservation action context outcome costs =
     op_bind (op_lift (host_identifier reservation ''reservation_id'')) (\<lambda>_.
     op_bind (op_check (outcome \<in> {''completed'', ''no_effect''})
       (ValueError ''typed exact settlement scope required'')) (\<lambda>_.
     op_bind (op_lift (costs_dict costs True)) (\<lambda>_.
     op_bind (op_check (\<not> (outcome = ''no_effect'' \<and> list_ex (\<lambda>c. bc_amount c \<noteq> Some 0) costs))
       (ValueError ''no-effect settlement must attest zero expenditure'')) (\<lambda>_.
     op_bind (op_read (\<lambda>s. ensure (\<not> length (os_issued s) \<ge> os_limit s)
       (ValueError ''budget observation capacity reached''))) (\<lambda>_.
     op_bind (op_get (\<lambda>s. length (os_receipts s))) (\<lambda>a.
     let receipt = \<lparr>ob_reservation = reservation, ob_action = digest h action,
       ob_context = digest h (JObj (context_as_dict context)), ob_outcome = outcome,
       ob_costs = costs\<rparr> in
     op_bind (op_modify (\<lambda>s. s\<lparr>os_receipts := os_receipts s @ [receipt],
       os_issued := AList.update a (observation_digest h receipt) (os_issued s)\<rparr>)) (\<lambda>_.
     op_return a)))))))"

definition verify_observation :: "host_env \<Rightarrow> observation_source \<Rightarrow> nat \<Rightarrow> bool" where
  "verify_observation h s a =
     (a < length (os_receipts s) \<and>
      map_of (os_issued s) a = Some (observation_digest h (os_receipts s ! a)))"

section \<open>Buckets\<close>

record budget_scopes =
  sp_tenant :: "string list"
  sp_swarm :: "string list"
  sp_task :: "string list"
  sp_agent :: "string list"

definition scope_subjects :: "budget_scopes \<Rightarrow> string \<Rightarrow> string list" where
  "scope_subjects s scope =
     (if scope = ''tenant'' then sp_tenant s else if scope = ''swarm'' then sp_swarm s
      else if scope = ''task'' then sp_task s else sp_agent s)"

record bucket =
  bu_key :: string
  bu_limits :: "budget_limit list"

definition bucket_maximum :: "bucket \<Rightarrow> int" where
  "bucket_maximum b = Min (bl_maximum ` set (bu_limits b))"

definition bucket_digest ::
  "host_env \<Rightarrow> swarm_identity \<Rightarrow> budget_limit \<Rightarrow> string \<Rightarrow> string" where
  "bucket_digest h i l subject =
     digest h (JArr (map JStr
       ([''ordin.swarm.budget.bucket.v1'', bl_scope l, bl_metric l, id_tenant i] @
        (if bl_scope l \<noteq> ''tenant'' then [id_swarm i] else []) @
        (if bl_scope l \<in> {''agent'', ''task''} then [subject] else []))))"

text \<open>\<^verbatim>\<open>result.setdefault(key, []).append(limit)\<close>.\<close>

fun add_limit ::
  "string \<Rightarrow> budget_limit \<Rightarrow> (string \<times> budget_limit list) list \<Rightarrow> (string \<times> budget_limit list) list"
where
  "add_limit k l [] = [(k, [l])]"
| "add_limit k l ((k', ls) # rest) =
     (if k' = k then (k', ls @ [l]) # rest else (k', ls) # add_limit k l rest)"

fun select_subjects ::
  "host_env \<Rightarrow> swarm_identity \<Rightarrow> budget_limit \<Rightarrow> string list
     \<Rightarrow> (string \<times> budget_limit list) list \<Rightarrow> (string \<times> budget_limit list) list"
where
  "select_subjects h i l [] result = result"
| "select_subjects h i l (subject # subjects) result =
     (if bl_subject l \<noteq> None \<and> bl_subject l \<noteq> Some subject
      then select_subjects h i l subjects result
      else select_subjects h i l subjects (add_limit (bucket_digest h i l subject) l result))"

fun select_limits ::
  "host_env \<Rightarrow> swarm_identity \<Rightarrow> budget_scopes \<Rightarrow> budget_limit list
     \<Rightarrow> (string \<times> budget_limit list) list \<Rightarrow> (string \<times> budget_limit list) list res"
where
  "select_limits h i s [] result = Inr result"
| "select_limits h i s (l # ls) result =
     (if bl_scope l = ''task'' \<and> sp_task s = [] then Inl (BudgetError ''budget.missing_task_identity'')
      else select_limits h i s ls (select_subjects h i l (scope_subjects s (bl_scope l)) result))"

definition select_budget_buckets ::
  "host_env \<Rightarrow> budget_policy \<Rightarrow> swarm_context \<Rightarrow> budget_scopes \<Rightarrow> bucket list res" where
  "select_budget_buckets h p c s =
     res_bind (select_limits h (sc_identity c) s (bp_limits p) []) (\<lambda>result.
     if result = [] \<or> length result > 128
     then Inl (BudgetError ''budget.missing_or_oversized_scope'')
     else Inr (map (\<lambda>(k, ls). \<lparr>bu_key = k, bu_limits = ls\<rparr>) result))"

definition bucket_metric :: "bucket \<Rightarrow> string" where
  "bucket_metric b = bl_metric (hd (bu_limits b))"

section \<open>Unknown costs\<close>

text \<open>\<^verbatim>\<open>requests\<close> and \<^verbatim>\<open>concurrency\<close> are at least one.\<close>

definition at_least_one :: "string \<Rightarrow> (string \<times> int option) list \<Rightarrow> (string \<times> int option) list" where
  "at_least_one metric values =
     AList.update metric
       (case map_of values metric of
          None \<Rightarrow> Some 1 | Some None \<Rightarrow> Some 1 | Some (Some v) \<Rightarrow> Some (max 1 v)) values"

definition known_cost :: "(string \<times> int option) list \<Rightarrow> string \<Rightarrow> int option" where
  "known_cost costs metric = (case map_of costs metric of None \<Rightarrow> None | Some v \<Rightarrow> v)"

definition limits_for :: "bucket list \<Rightarrow> string \<Rightarrow> budget_limit list" where
  "limits_for buckets metric =
     filter (\<lambda>l. bl_metric l = metric) (concat (map bu_limits buckets))"

fun resolve_metrics ::
  "bucket list \<Rightarrow> string list \<Rightarrow> string list \<Rightarrow> (string \<times> int option) list
     \<Rightarrow> (string \<times> int option) list res"
where
  "resolve_metrics buckets effects [] resolved = Inr resolved"
| "resolve_metrics buckets effects (metric # ms) resolved =
     (if known_cost resolved metric = None then
        (if list_ex (\<lambda>l. bl_ceiling l = None \<or>
             bl_effects l \<noteq> [] \<and> set (bl_effects l) \<inter> set effects = {}) (limits_for buckets metric)
         then Inl (BudgetError ''budget.unknown_cost'')
         else resolve_metrics buckets effects ms (AList.update metric
           (Some (Max (set (map (\<lambda>l. case bl_ceiling l of None \<Rightarrow> 0 | Some v \<Rightarrow> v)
             (limits_for buckets metric))))) resolved))
      else resolve_metrics buckets effects ms resolved)"

definition resolve_budget_costs ::
  "bucket list \<Rightarrow> budget_cost list \<Rightarrow> string list
     \<Rightarrow> ((string \<times> int option) list \<times> (string \<times> int option) list) res" where
  "resolve_budget_costs buckets costs effects =
     res_bind (costs_dict costs False) (\<lambda>given.
     let values = at_least_one ''concurrency'' (at_least_one ''requests'' given) in
     res_bind (resolve_metrics buckets effects (remdups (map bucket_metric buckets)) values)
       (\<lambda>resolved. Inr (values, resolved)))"

section \<open>Lemmas: buckets and unknown costs\<close>

lemma map_of_add_limit:
  "map_of (add_limit k l result) j =
     (if j = k then Some ((case map_of result k of None \<Rightarrow> [] | Some ls \<Rightarrow> ls) @ [l])
      else map_of result j)"
  by (induction k l result rule: add_limit.induct) auto

lemma keys_add_limit: "fst ` set (add_limit k l result) = insert k (fst ` set result)"
  by (induction k l result rule: add_limit.induct) auto

lemma distinct_add_limit:
  "distinct (map fst result) \<Longrightarrow> distinct (map fst (add_limit k l result))"
  by (induction k l result rule: add_limit.induct) (auto simp: keys_add_limit)

text \<open>What a selection table contains: only limits of the policy, each under its own key.\<close>

definition table_holds :: "(string \<times> budget_limit list) list \<Rightarrow> string \<Rightarrow> budget_limit \<Rightarrow> bool" where
  "table_holds result k l = (\<exists>ls. map_of result k = Some ls \<and> l \<in> set ls)"

definition table_ok :: "budget_limit set \<Rightarrow> (string \<times> budget_limit list) list \<Rightarrow> bool" where
  "table_ok L result = (distinct (map fst result) \<and> (\<forall>(k, ls) \<in> set result. ls \<noteq> [] \<and> set ls \<subseteq> L))"

lemma table_ok_add:
  assumes "table_ok L result" "l \<in> L"
  shows "table_ok L (add_limit k l result)"
  using assms by (induction k l result rule: add_limit.induct) (auto simp: table_ok_def keys_add_limit)

lemma table_holds_add:
  "table_holds result j m \<Longrightarrow> table_holds (add_limit k l result) j m"
  "table_holds (add_limit k l result) k l"
  by (auto simp: table_holds_def map_of_add_limit split: option.splits)

lemma select_subjects_mono:
  "table_holds result j m \<Longrightarrow> table_holds (select_subjects h i l subjects result) j m"
  by (induction h i l subjects result rule: select_subjects.induct) (auto intro: table_holds_add)

lemma select_subjects_ok:
  "table_ok L result \<Longrightarrow> l \<in> L \<Longrightarrow> table_ok L (select_subjects h i l subjects result)"
  by (induction h i l subjects result rule: select_subjects.induct) (auto intro: table_ok_add)

lemma select_subjects_holds:
  assumes "subject \<in> set subjects" "bl_subject l = None \<or> bl_subject l = Some subject"
  shows "table_holds (select_subjects h i l subjects result) (bucket_digest h i l subject) l"
  using assms
  by (induction h i l subjects result rule: select_subjects.induct)
    (auto intro: select_subjects_mono table_holds_add)

lemma select_limits_mono:
  "select_limits h i s ls result = Inr result' \<Longrightarrow> table_holds result j m \<Longrightarrow> table_holds result' j m"
  by (induction h i s ls result rule: select_limits.induct)
    (auto split: if_splits intro: select_subjects_mono)

lemma select_limits_ok:
  "select_limits h i s ls result = Inr result' \<Longrightarrow> table_ok L result \<Longrightarrow> set ls \<subseteq> L \<Longrightarrow> table_ok L result'"
  by (induction h i s ls result rule: select_limits.induct)
    (auto split: if_splits intro: select_subjects_ok)

lemma select_limits_holds:
  assumes "select_limits h i s ls result = Inr result'" "l \<in> set ls"
    "subject \<in> set (scope_subjects s (bl_scope l))" "bl_subject l = None \<or> bl_subject l = Some subject"
  shows "table_holds result' (bucket_digest h i l subject) l"
  using assms
proof (induction h i s ls result rule: select_limits.induct)
  case (2 h i s l' ls result)
  let ?r = "select_subjects h i l' (scope_subjects s (bl_scope l')) result"
  have rest: "select_limits h i s ls ?r = Inr result'"
    using 2(2) by (auto split: if_splits)
  show ?case
  proof (cases "l = l'")
    case True
    then have "table_holds ?r (bucket_digest h i l subject) l"
      using 2(4,5) select_subjects_holds by blast
    then show ?thesis by (rule select_limits_mono [OF rest])
  next
    case False
    with 2(3) have "l \<in> set ls" by simp
    with 2 rest show ?thesis by (auto split: if_splits)
  qed
qed simp

lemma known_cost_update:
  "known_cost (AList.update m v costs) j = (if j = m then v else known_cost costs j)"
  by (simp add: known_cost_def update_conv split: option.splits)

text \<open>Resolution settles exactly the metrics that were unknown.\<close>

lemma resolve_metrics_Inr:
  assumes "resolve_metrics buckets effects ms resolved = Inr resolved'"
  shows "(\<forall>m v. known_cost resolved m = Some v \<longrightarrow> known_cost resolved' m = Some v) \<and>
    (\<forall>m \<in> set ms. known_cost resolved m = None \<longrightarrow> (\<exists>v. known_cost resolved' m = Some v \<and>
       (limits_for buckets m \<noteq> [] \<longrightarrow> (\<exists>l \<in> set (limits_for buckets m). bl_ceiling l = Some v)) \<and>
       (\<forall>l \<in> set (limits_for buckets m). \<exists>c. bl_ceiling l = Some c \<and> c \<le> v \<and>
          (bl_effects l = [] \<or> set (bl_effects l) \<inter> set effects \<noteq> {}))))"
  using assms
proof (induction buckets effects ms resolved rule: resolve_metrics.induct)
  case (1 buckets effects resolved)
  then show ?case by simp
next
  case (2 buckets effects metric ms resolved)
  let ?c = "\<lambda>l. case bl_ceiling l of None \<Rightarrow> 0 | Some v \<Rightarrow> v"
  show ?case
  proof (cases "known_cost resolved metric")
    case (Some w)
    with 2 show ?thesis by auto
  next
    case None
    let ?ls = "limits_for buckets metric"
    let ?max = "Max (set (map ?c ?ls))"
    have ok: "\<forall>l \<in> set ?ls. bl_ceiling l \<noteq> None \<and>
        (bl_effects l = [] \<or> set (bl_effects l) \<inter> set effects \<noteq> {})"
      and run: "resolve_metrics buckets effects ms (AList.update metric (Some ?max) resolved) = Inr resolved'"
      using 2(3) None by (auto simp: list_ex_iff split: if_splits)
    have "\<not> list_ex (\<lambda>l. bl_ceiling l = None \<or>
        bl_effects l \<noteq> [] \<and> set (bl_effects l) \<inter> set effects = {}) ?ls"
      using ok by (auto simp: list_ex_iff)
    note IH = 2(1) [OF None this run]
    have now: "known_cost resolved' metric = Some ?max"
      using IH by (simp add: known_cost_update)
    have "\<forall>l \<in> set ?ls. \<exists>c. bl_ceiling l = Some c \<and> c \<le> ?max"
    proof
      fix l assume l: "l \<in> set ?ls"
      with ok obtain c where "bl_ceiling l = Some c" by blast
      moreover have "?c l \<le> ?max"
        using l by (intro Max_ge) auto
      ultimately show "\<exists>c. bl_ceiling l = Some c \<and> c \<le> ?max" by simp
    qed
    moreover have "\<exists>l \<in> set ?ls. bl_ceiling l = Some ?max" if "?ls \<noteq> []"
    proof -
      have "?max \<in> ?c ` set ?ls"
        using that by (simp only: set_map) (intro Max_in, simp_all)
      with ok show ?thesis by fastforce
    qed
    ultimately have head: "\<exists>v. known_cost resolved' metric = Some v \<and>
       (?ls \<noteq> [] \<longrightarrow> (\<exists>l \<in> set ?ls. bl_ceiling l = Some v)) \<and>
       (\<forall>l \<in> set ?ls. \<exists>c. bl_ceiling l = Some c \<and> c \<le> v \<and>
          (bl_effects l = [] \<or> set (bl_effects l) \<inter> set effects \<noteq> {}))"
      using ok now by blast
    have keep: "\<forall>m v. known_cost resolved m = Some v \<longrightarrow> known_cost resolved' m = Some v"
    proof (intro allI impI)
      fix m v assume "known_cost resolved m = Some v"
      moreover from this None have "m \<noteq> metric" by auto
      ultimately show "known_cost resolved' m = Some v"
        using IH by (simp add: known_cost_update)
    qed
    show ?thesis
    proof (intro conjI keep ballI impI)
      fix m assume m: "m \<in> set (metric # ms)" "known_cost resolved m = None"
      show "\<exists>v. known_cost resolved' m = Some v \<and>
         (limits_for buckets m \<noteq> [] \<longrightarrow> (\<exists>l \<in> set (limits_for buckets m). bl_ceiling l = Some v)) \<and>
         (\<forall>l \<in> set (limits_for buckets m). \<exists>c. bl_ceiling l = Some c \<and> c \<le> v \<and>
            (bl_effects l = [] \<or> set (bl_effects l) \<inter> set effects \<noteq> {}))"
      proof (cases "m = metric")
        case True
        with head show ?thesis by simp
      next
        case False
        with IH m show ?thesis by (simp add: known_cost_update)
      qed
    qed
  qed
qed

text \<open>
  The owner of a bucket is a scope, a metric, an identity and a subject under whose digest it is kept; the
  limits of the owner are those of its scope and metric that name no subject or this one. A quantity is
  within them all.
\<close>

definition names_subject :: "budget_limit \<Rightarrow> string \<Rightarrow> bool" where
  "names_subject l subject = (bl_subject l = None \<or> bl_subject l = Some subject)"

definition owner_limits :: "host_env \<Rightarrow> budget_policy \<Rightarrow> string \<Rightarrow> string \<Rightarrow> int \<Rightarrow> bool" where
  "owner_limits h p k metric x = (\<exists>i l subject. l \<in> set (bp_limits p) \<and> k = bucket_digest h i l subject \<and>
     bl_metric l = metric \<and> names_subject l subject \<and>
     (\<forall>m \<in> set (bp_limits p). bl_scope m = bl_scope l \<and> bl_metric m = metric \<and> names_subject m subject \<longrightarrow>
        x \<le> bl_maximum m))"

lemma owner_limits_mono: "owner_limits h p k m x \<Longrightarrow> y \<le> x \<Longrightarrow> owner_limits h p k m y"
  unfolding owner_limits_def by (elim exE conjE) (intro exI conjI, assumption+, meson order_trans)

definition origin :: "host_env \<Rightarrow> swarm_identity \<Rightarrow> budget_scopes \<Rightarrow> string \<Rightarrow> budget_limit \<Rightarrow> bool" where
  "origin h i s k l = (\<exists>subject \<in> set (scope_subjects s (bl_scope l)). names_subject l subject \<and>
     k = bucket_digest h i l subject)"

definition origins :: "host_env \<Rightarrow> swarm_identity \<Rightarrow> budget_scopes \<Rightarrow> (string \<times> budget_limit list) list \<Rightarrow> bool" where
  "origins h i s result = (\<forall>(k, ls) \<in> set result. \<forall>l \<in> set ls. origin h i s k l)"

lemma add_limit_origins: "origins h i s result \<Longrightarrow> origin h i s k l \<Longrightarrow> origins h i s (add_limit k l result)"
  by (induction k l result rule: add_limit.induct) (auto simp: origins_def)

lemma select_subjects_origins:
  "origins h i s result \<Longrightarrow> set subjects \<subseteq> set (scope_subjects s (bl_scope l)) \<Longrightarrow>
     origins h i s (select_subjects h i l subjects result)"
proof (induction h i l subjects result rule: select_subjects.induct)
  case (2 h i l subject subjects result)
  then have "origin h i s (bucket_digest h i l subject) l"
    if "\<not> (bl_subject l \<noteq> None \<and> bl_subject l \<noteq> Some subject)"
    using that by (auto simp: origin_def names_subject_def)
  with 2 show ?case by (auto intro: add_limit_origins)
qed simp

lemma select_limits_origins:
  "select_limits h i s ls result = Inr result' \<Longrightarrow> origins h i s result \<Longrightarrow> origins h i s result'"
  by (induction h i s ls result rule: select_limits.induct)
    (auto split: if_splits intro: select_subjects_origins)

lemma selection_owners:
  assumes "select_budget_buckets h p c s = Inr buckets" "b \<in> set buckets"
  shows "owner_limits h p (bu_key b) (bucket_metric b) (bucket_maximum b)"
proof -
  let ?i = "sc_identity c"
  obtain result where sel: "select_limits h ?i s (bp_limits p) [] = Inr result"
      and buckets: "buckets = map (\<lambda>(k, ls). \<lparr>bu_key = k, bu_limits = ls\<rparr>) result"
    using assms(1) by (auto simp: select_budget_buckets_def split: if_splits)
  have ok: "table_ok (set (bp_limits p)) result"
    by (rule select_limits_ok [OF sel]) (simp_all add: table_ok_def)
  have "origins h ?i s result" by (rule select_limits_origins [OF sel]) (simp add: origins_def)
  moreover have b: "(bu_key b, bu_limits b) \<in> set result" using assms(2) by (auto simp: buckets)
  moreover from b ok have l: "hd (bu_limits b) \<in> set (bu_limits b)" "hd (bu_limits b) \<in> set (bp_limits p)"
    unfolding table_ok_def by fastforce+
  ultimately obtain subject where subject: "subject \<in> set (scope_subjects s (bl_scope (hd (bu_limits b))))"
      "names_subject (hd (bu_limits b)) subject" and key: "bu_key b = bucket_digest h ?i (hd (bu_limits b)) subject"
    unfolding origins_def origin_def by fastforce
  have "bucket_maximum b \<le> bl_maximum m"
    if m: "m \<in> set (bp_limits p)" "bl_scope m = bl_scope (hd (bu_limits b))" "bl_metric m = bucket_metric b"
      "names_subject m subject" for m
  proof -
    have "table_holds result (bucket_digest h ?i m subject) m"
      using select_limits_holds [OF sel m(1)] subject(1) m(2,4) by (simp add: names_subject_def)
    moreover have "bucket_digest h ?i m subject = bu_key b"
      using m(2,3) by (simp add: key bucket_digest_def bucket_metric_def)
    moreover have "map_of result (bu_key b) = Some (bu_limits b)"
      using b ok by (simp add: table_ok_def)
    ultimately have "m \<in> set (bu_limits b)" by (simp add: table_holds_def)
    then show ?thesis by (simp add: bucket_maximum_def)
  qed
  then show ?thesis using l(2) subject(2) key
    unfolding owner_limits_def
    by (intro exI [of _ ?i] exI [of _ "hd (bu_limits b)"] exI [of _ subject]) (auto simp: bucket_metric_def)
qed

lemma selection_complete:
  assumes "select_budget_buckets h p c s = Inr buckets"
  shows "distinct (map bu_key buckets) \<and>
    (\<forall>b \<in> set buckets. bu_limits b \<noteq> [] \<and> set (bu_limits b) \<subseteq> set (bp_limits p)) \<and>
    (\<forall>l subject. l \<in> set (bp_limits p) \<and> subject \<in> set (scope_subjects s (bl_scope l)) \<and>
       (bl_subject l = None \<or> bl_subject l = Some subject) \<longrightarrow>
       (\<exists>b \<in> set buckets. bu_key b = bucket_digest h (sc_identity c) l subject \<and>
          l \<in> set (bu_limits b) \<and> bucket_maximum b \<le> bl_maximum l))"
proof -
  obtain result where sel: "select_limits h (sc_identity c) s (bp_limits p) [] = Inr result"
      and buckets: "buckets = map (\<lambda>(k, ls). \<lparr>bu_key = k, bu_limits = ls\<rparr>) result"
    using assms by (auto simp: select_budget_buckets_def split: if_splits)
  have ok: "table_ok (set (bp_limits p)) result"
    by (rule select_limits_ok [OF sel]) (simp_all add: table_ok_def)
  have keys: "map bu_key buckets = map fst result"
    by (simp add: buckets comp_def case_prod_beta)
  have holds: "\<exists>b \<in> set buckets. bu_key b = bucket_digest h (sc_identity c) l subject \<and>
      l \<in> set (bu_limits b) \<and> bucket_maximum b \<le> bl_maximum l"
    if l: "l \<in> set (bp_limits p)" "subject \<in> set (scope_subjects s (bl_scope l))"
      "bl_subject l = None \<or> bl_subject l = Some subject" for l subject
  proof -
    obtain ls where ls: "map_of result (bucket_digest h (sc_identity c) l subject) = Some ls" "l \<in> set ls"
      using select_limits_holds [OF sel l] by (auto simp: table_holds_def)
    let ?b = "\<lparr>bu_key = bucket_digest h (sc_identity c) l subject, bu_limits = ls\<rparr>"
    have "?b \<in> set buckets"
      using map_of_SomeD [OF ls(1)] by (force simp: buckets)
    moreover have "bucket_maximum ?b \<le> bl_maximum l"
      using ls(2) by (simp add: bucket_maximum_def)
    ultimately show ?thesis using ls(2) by force
  qed
  have "distinct (map bu_key buckets)"
    using ok by (simp add: keys table_ok_def)
  moreover have "\<forall>b \<in> set buckets. bu_limits b \<noteq> [] \<and> set (bu_limits b) \<subseteq> set (bp_limits p)"
    using ok by (fastforce simp: buckets table_ok_def)
  ultimately show ?thesis
    using holds by blast
qed

text \<open>What the resolved values start from, and that a selected bucket's metric has limits.\<close>

lemma known_at_least_one:
  "known_cost (at_least_one m cs) j =
     (if j = m then Some (case known_cost cs m of None \<Rightarrow> 1 | Some v \<Rightarrow> max 1 v) else known_cost cs j)"
  by (auto simp: at_least_one_def known_cost_def update_conv split: option.splits)

lemma known_values:
  fixes given defines "values \<equiv> at_least_one ''concurrency'' (at_least_one ''requests'' given)"
  shows "known_cost given m = Some v \<Longrightarrow>
      known_cost values m = Some (if m \<in> {''requests'', ''concurrency''} then max 1 v else v)"
    and "m \<in> {''requests'', ''concurrency''} \<Longrightarrow> known_cost given m = None \<Longrightarrow> known_cost values m = Some 1"
    and "known_cost values m = None \<longleftrightarrow> m \<notin> {''requests'', ''concurrency''} \<and> known_cost given m = None"
  by (auto simp: values_def known_at_least_one)

lemma limits_for_nonempty: "b \<in> set buckets \<Longrightarrow> bu_limits b \<noteq> [] \<Longrightarrow> limits_for buckets (bucket_metric b) \<noteq> []"
  by (auto simp: limits_for_def bucket_metric_def filter_empty_conv intro: hd_in_set)

text \<open>The limits of the policy that apply to a caller's scopes, metric by metric.\<close>

definition applicable_limits :: "budget_policy \<Rightarrow> budget_scopes \<Rightarrow> string \<Rightarrow> budget_limit set" where
  "applicable_limits p s m = {l \<in> set (bp_limits p). bl_metric l = m \<and>
     (\<exists>subject \<in> set (scope_subjects s (bl_scope l)). names_subject l subject)}"

lemma limits_for_selection:
  assumes "select_budget_buckets h p c s = Inr buckets"
  shows "set (limits_for buckets m) = applicable_limits p s m"
proof -
  obtain result where sel: "select_limits h (sc_identity c) s (bp_limits p) [] = Inr result"
      and buckets: "buckets = map (\<lambda>(k, ls). \<lparr>bu_key = k, bu_limits = ls\<rparr>) result"
    using assms by (auto simp: select_budget_buckets_def split: if_splits)
  have "origins h (sc_identity c) s result"
    by (rule select_limits_origins [OF sel]) (simp add: origins_def)
  then have "\<exists>subject \<in> set (scope_subjects s (bl_scope l)). names_subject l subject"
    if "b \<in> set buckets" "l \<in> set (bu_limits b)" for b l
    using that by (fastforce simp: buckets origins_def origin_def)
  then show ?thesis
    using selection_complete [OF assms]
    by (fastforce simp: limits_for_def applicable_limits_def names_subject_def)
qed

lemma check_limits_Inr: "check_limits ls = Inr () \<longleftrightarrow> (\<forall>l \<in> set ls. limit_post_init l = Inr ())"
  by (induction ls rule: check_limits.induct) (auto simp: res_bind_Inr_iff)

lemma ceiling_positive:
  assumes "budget_policy_post_init p = Inr ()" "l \<in> set (bp_limits p)" "bl_ceiling l = Some v"
  shows "1 \<le> v"
proof -
  have "limit_post_init l = Inr ()"
    using assms(1,2) by (auto simp: budget_policy_post_init_def check_limits_Inr res_bind_Inr_iff split: if_splits)
  then show ?thesis
    using assms(3) by (auto simp: limit_post_init_def amount_check_def res_bind_Inr_iff split: if_splits)
qed

section \<open>A sample policy\<close>

definition budget_env :: host_env where
  "budget_env = \<lparr>float_repr = (\<lambda>_. ''1.0''), sha256 = (\<lambda>_. ''d'')\<rparr>"

definition sample_limit :: budget_limit where
  "sample_limit = \<lparr>bl_scope = ''agent'', bl_metric = ''tokens'', bl_maximum = 5,
     bl_subject = None, bl_ceiling = Some 2, bl_effects = []\<rparr>"

definition sample_budget :: budget_policy where
  "sample_budget = \<lparr>bp_epoch = 0, bp_limits = [sample_limit], bp_lifetime = HInt 60,
     bp_capacity = 16, bp_physical = False\<rparr>"

definition sample_scopes :: budget_scopes where
  "sample_scopes = \<lparr>sp_tenant = [''t1''], sp_swarm = [''s1''], sp_task = [], sp_agent = [''a1'']\<rparr>"

definition sample_bucket :: bucket where
  "sample_bucket = \<lparr>bu_key = ''d'', bu_limits = [sample_limit]\<rparr>"

lemma sample_selection:
  "select_budget_buckets budget_env sample_budget sample_context sample_scopes = Inr [sample_bucket]"
  by (simp add: select_budget_buckets_def sample_budget_def sample_limit_def sample_scopes_def
      scope_subjects_def bucket_digest_def digest_def budget_env_def sample_bucket_def)

lemma sample_resolution:
  "resolve_budget_costs [sample_bucket] [] [''write''] =
     Inr ([(''requests'', Some 1), (''concurrency'', Some 1)],
       [(''requests'', Some 1), (''concurrency'', Some 1), (''tokens'', Some 2)])"
  by (simp add: resolve_budget_costs_def costs_dict_def at_least_one_def known_cost_def
      bucket_metric_def sample_bucket_def sample_limit_def limits_for_def)

section \<open>Properties\<close>

text \<open>Selecting budget buckets drops no applicable limit and invents none: every limit of the
  policy that applies to a subject of the caller's scopes is in the bucket of that subject, so
  the bucket's effective maximum is at most that limit's, and every bucket is a distinct key
  with one or more limits of the policy.\<close>

theorem bucket_selection_complete:
  assumes "select_budget_buckets h p c s = Inr buckets"
  shows "distinct (map bu_key buckets) \<and>
    (\<forall>b \<in> set buckets. bu_limits b \<noteq> [] \<and> set (bu_limits b) \<subseteq> set (bp_limits p)) \<and>
    (\<forall>l subject. l \<in> set (bp_limits p) \<and> subject \<in> set (scope_subjects s (bl_scope l)) \<and>
       (bl_subject l = None \<or> bl_subject l = Some subject) \<longrightarrow>
       (\<exists>b \<in> set buckets. bu_key b = bucket_digest h (sc_identity c) l subject \<and>
          l \<in> set (bu_limits b) \<and> bucket_maximum b \<le> bl_maximum l))"
  using selection_complete [OF assms] .

lemma bucket_selection_complete_witness:
  "bucket_maximum sample_bucket \<le> 5"
  using bucket_selection_complete [OF sample_selection]
  by (simp add: sample_budget_def) (simp add: sample_limit_def sample_scopes_def scope_subjects_def)

text \<open>C35: Resolving costs never treats an unknown cost as zero. Under a valid policy, for the buckets
  selected for a caller, a cost the caller gave is kept (requests and concurrency count at least one, and
  are one when not given); every selected bucket's metric gets an amount; and an unknown amount of
  another metric is positive and the largest ceiling among the policy's limits on that metric that apply to
  the caller, each of which has a ceiling and permits unknown costs for the action's effects.\<close>

theorem unknown_costs_take_ceilings:
  assumes "budget_policy_post_init p = Inr ()" and "select_budget_buckets h p c s = Inr buckets"
    and "resolve_budget_costs buckets costs effects = Inr (values, resolved)"
  shows "\<exists>given. costs_dict costs False = Inr given \<and>
    (\<forall>m v. known_cost given m = Some v \<longrightarrow>
       known_cost resolved m = Some (if m \<in> {''requests'', ''concurrency''} then max 1 v else v)) \<and>
    (\<forall>m \<in> {''requests'', ''concurrency''}. known_cost given m = None \<longrightarrow> known_cost resolved m = Some 1) \<and>
    (\<forall>m v. known_cost values m = Some v \<longrightarrow> known_cost resolved m = Some v) \<and>
    (\<forall>m \<in> bucket_metric ` set buckets. (\<exists>v. known_cost resolved m = Some v) \<and>
       (m \<notin> {''requests'', ''concurrency''} \<and> known_cost given m = None \<longrightarrow>
          (\<exists>v \<ge> 1. known_cost resolved m = Some v \<and>
             (\<exists>l \<in> applicable_limits p s m. bl_ceiling l = Some v) \<and>
             (\<forall>l \<in> applicable_limits p s m. \<exists>w. bl_ceiling l = Some w \<and> w \<le> v \<and>
                (bl_effects l = [] \<or> set (bl_effects l) \<inter> set effects \<noteq> {})))))"
proof -
  obtain given where given: "costs_dict costs False = Inr given"
      and vals: "values = at_least_one ''concurrency'' (at_least_one ''requests'' given)"
      and run: "resolve_metrics buckets effects (remdups (map bucket_metric buckets)) values = Inr resolved"
    using assms(3) by (auto simp: resolve_budget_costs_def Let_def)
  note kept = known_values [where given = given, folded vals]
  note r = resolve_metrics_Inr [OF run, unfolded set_remdups set_map]
  have metrics: "(\<exists>v. known_cost resolved m = Some v) \<and>
      (m \<notin> {''requests'', ''concurrency''} \<and> known_cost given m = None \<longrightarrow>
        (\<exists>v \<ge> 1. known_cost resolved m = Some v \<and>
           (\<exists>l \<in> applicable_limits p s m. bl_ceiling l = Some v) \<and>
           (\<forall>l \<in> applicable_limits p s m. \<exists>w. bl_ceiling l = Some w \<and> w \<le> v \<and>
              (bl_effects l = [] \<or> set (bl_effects l) \<inter> set effects \<noteq> {}))))"
    if m: "m \<in> bucket_metric ` set buckets" for m
  proof (cases "known_cost values m")
    case None
    have some: "limits_for buckets m \<noteq> []"
      using m selection_complete [OF assms(2)] by (auto simp: limits_for_nonempty)
    with r m None obtain v where v: "known_cost resolved m = Some v"
        "\<exists>l \<in> set (limits_for buckets m). bl_ceiling l = Some v"
        "\<forall>l \<in> set (limits_for buckets m). \<exists>w. bl_ceiling l = Some w \<and> w \<le> v \<and>
           (bl_effects l = [] \<or> set (bl_effects l) \<inter> set effects \<noteq> {})"
      by blast
    moreover from v(2) have "1 \<le> v"
      using ceiling_positive [OF assms(1)]
      unfolding limits_for_selection [OF assms(2)] by (auto simp: applicable_limits_def)
    ultimately show ?thesis
      unfolding limits_for_selection [OF assms(2)] by blast
  next
    case (Some v)
    then have "\<not> (m \<notin> {''requests'', ''concurrency''} \<and> known_cost given m = None)"
      using kept(3) by (metis option.distinct(1))
    with r Some show ?thesis by blast
  qed
  moreover have "known_cost resolved m = Some (if m \<in> {''requests'', ''concurrency''} then max 1 v else v)"
    if "known_cost given m = Some v" for m v
    using kept(1) [OF that] conjunct1 [OF r] by blast
  moreover have "known_cost resolved m = Some 1"
    if "m \<in> {''requests'', ''concurrency''}" "known_cost given m = None" for m
    using kept(2) [OF that] conjunct1 [OF r] by blast
  ultimately show ?thesis using given r by blast
qed

lemma unknown_costs_take_ceilings_witness:
  "\<exists>v \<ge> 1. known_cost [(''requests'', Some 1), (''concurrency'', Some 1), (''tokens'', Some 2)] ''tokens'' = Some v \<and>
     (\<exists>l \<in> applicable_limits sample_budget sample_scopes ''tokens''. bl_ceiling l = Some v)"
proof -
  have "budget_policy_post_init sample_budget = Inr ()" by code_simp
  note sample = unknown_costs_take_ceilings [OF this sample_selection sample_resolution]
  have "costs_dict [] False = Inr []" "bucket_metric ` set [sample_bucket] = {''tokens''}"
    by (simp_all add: costs_dict_def bucket_metric_def sample_bucket_def sample_limit_def)
  with sample show ?thesis by (simp add: known_cost_def)
qed

end
