(* ===== verification/Budget_Ledger.thy ===== *)
theory Budget_Ledger
  imports Budgets
begin

text \<open>
  \<^verbatim>\<open>BudgetLedger\<close> of \<^verbatim>\<open>ordin/swarm/budgets.py\<close> on \<^verbatim>\<open>InMemoryBudgetStore\<close>. Registries, tickets
  and receipts are compared as objects, so they are given by address; clocks and random
  identifiers are arguments (\<open>rtime\<close> the registry's clock, \<open>reading\<close> the ledger's,
  \<open>uuid\<close> the new identifier), and so is the verdict of the executor's proof check.
\<close>

section \<open>State\<close>

record binding =
  bi_ticket :: nat
  bi_registry :: nat
  bi_context :: string
  bi_action :: string
  bi_generation :: int
  bi_executor :: "nat option"
  bi_costs :: "budget_cost list"

record ledger =
  ld_registries :: "registry list"
  ld_policy :: budget_policy
  ld_operator :: nat
  ld_db :: budget_db
  ld_allow :: bool
  ld_observations :: "observation_source option"
  ld_issued :: "(string \<times> binding) list"
  ld_executors :: "nat list"
  ld_generation :: int
  ld_nonce :: string
  ld_clock :: rat
  ld_tickets :: "string list"

type_synonym 'a ledger_op = "(ledger, 'a) op"

text \<open>An action envelope, as the ledger sees it.\<close>

record envelope =
  ac_id :: "string option"
  ac_dict :: json

text \<open>The calling context: its object in a registry view, its channel and its adapter.\<close>

record caller =
  ca_view :: nat
  ca_context :: nat
  ca_channel :: nat
  ca_adapter :: adapter

abbreviation rejected :: "string \<Rightarrow> ('s, 'a) op" where
  "rejected code \<equiv> op_fail (BudgetError code)"

definition require :: "bool \<Rightarrow> string \<Rightarrow> ('s, unit) op" where
  "require b code = op_check b (BudgetError code)"

section \<open>Store access\<close>

definition ledger_commit :: "ledger \<Rightarrow> ledger \<Rightarrow> ledger" where
  "ledger_commit s s' = s'\<lparr>ld_allow := ld_allow s \<and> db_meta (ld_db s') = None\<rparr>"

definition ledger_rollback :: "ledger \<Rightarrow> ledger \<Rightarrow> ledger" where
  "ledger_rollback s s' =
     s'\<lparr>ld_db := ld_db s,
       ld_allow := ld_allow s \<and> history_ok (ld_db s) True \<and> db_meta (ld_db s) = None\<rparr>"

definition store_usable :: "ledger \<Rightarrow> bool" where
  "store_usable s = history_ok (ld_db s) (ld_allow s)"

definition store_report :: "py_error \<Rightarrow> py_error" where
  "store_report e =
     (case e of IntegrityError m \<Rightarrow> ValueError ''budget transaction unavailable or corrupt''
      | _ \<Rightarrow> e)"

definition transaction :: "'a ledger_op \<Rightarrow> 'a ledger_op" where
  "transaction body s =
     (if \<not> store_usable s
      then (ledger_rollback s s,
        Inl (ValueError ''budget coordinator history unavailable; reinitialization denied''))
      else (case body s of
          (s', Inr x) \<Rightarrow> (ledger_commit s s', Inr x)
        | (s', Inl e) \<Rightarrow>
            (case e of
               BudgetError c \<Rightarrow> (ledger_commit s s', Inl e)
             | _ \<Rightarrow> (ledger_rollback s s', Inl (store_report e)))))"

text \<open>Running statements on the store's tables.\<close>

definition on_db :: "(budget_db \<Rightarrow> budget_db res) \<Rightarrow> unit ledger_op" where
  "on_db f s =
     (case f (ld_db s) of Inl e \<Rightarrow> (s, Inl e) | Inr db \<Rightarrow> (s\<lparr>ld_db := db\<rparr>, Inr ()))"

definition ledger_expire :: "rat \<Rightarrow> nat ledger_op" where
  "ledger_expire now s =
     (case expire_rows now (ld_db s) of
        Inl e \<Rightarrow> (s, Inl e) | Inr (db, n) \<Rightarrow> (s\<lparr>ld_db := db\<rparr>, Inr n))"

section \<open>Steps shared by the operations\<close>

definition meta_check :: "ledger \<Rightarrow> string \<Rightarrow> bool" where
  "meta_check s policy_digest =
     (case db_meta (ld_db s) of
        None \<Rightarrow> False
      | Some m \<Rightarrow> me_generation m = ld_generation s \<and> me_nonce m = ld_nonce s \<and>
          me_digest m = policy_digest)"

definition last_seen :: "ledger \<Rightarrow> rat" where
  "last_seen s =
     (case db_meta (ld_db s) of None \<Rightarrow> ld_clock s | Some m \<Rightarrow> max (me_last m) (ld_clock s))"

definition set_last :: "rat \<Rightarrow> ledger \<Rightarrow> ledger" where
  "set_last now s = s\<lparr>ld_clock := now,
     ld_db := (ld_db s)\<lparr>db_meta := map_option (\<lambda>m. m\<lparr>me_last := now\<rparr>) (db_meta (ld_db s))\<rparr>\<rparr>"

definition ledger_tick :: "host_number \<Rightarrow> rat ledger_op" where
  "ledger_tick reading =
     op_bind (op_lift (timestamp reading)) (\<lambda>now.
     op_bind (op_read (\<lambda>s. ensure (\<not> now < last_seen s)
       (BudgetError ''budget.clock_moved_backward''))) (\<lambda>_.
     op_bind (op_modify (set_last now)) (\<lambda>_.
     op_return now)))"

text \<open>\<^verbatim>\<open>_meta\<close>\<close>

definition ledger_meta :: "host_env \<Rightarrow> host_number \<Rightarrow> rat ledger_op" where
  "ledger_meta h reading =
     op_bind (op_read (\<lambda>s. budget_policy_digest h (ld_policy s))) (\<lambda>d.
     op_bind (op_read (\<lambda>s. ensure (meta_check s d)
       (BudgetError ''budget.coordinator_fenced''))) (\<lambda>_.
     ledger_tick reading))"

text \<open>\<^verbatim>\<open>_scopes\<close>: the registry authenticates, then the ancestors are collected.\<close>

fun collect_ancestors ::
  "registry \<Rightarrow> nat \<Rightarrow> string list \<Rightarrow> string list \<Rightarrow> swarm_identity \<Rightarrow> (string list \<times> string list) res"
where
  "collect_ancestors r 0 agents tasks current = Inr (agents, tasks)"
| "collect_ancestors r (Suc n) agents tasks current =
     (case id_parent current of
        None \<Rightarrow> Inr (agents, tasks)
      | Some name \<Rightarrow>
          (case agent_of r name of
             None \<Rightarrow> Inl (KeyError name)
           | Some ag \<Rightarrow>
               (let parent = identity_at r (ag_context ag) in
                collect_ancestors r n (agents @ [id_agent parent])
                  (case id_task parent of None \<Rightarrow> tasks | Some t \<Rightarrow> tasks @ [t]) parent)))"

definition scopes_of :: "registry \<Rightarrow> nat \<Rightarrow> budget_scopes res" where
  "scopes_of r a =
     (let i = identity_at r a in
      res_bind (collect_ancestors r (rg_max_depth r) [id_agent i]
        (case id_task i of None \<Rightarrow> [] | Some t \<Rightarrow> [t]) i) (\<lambda>(agents, tasks).
      Inr \<lparr>sp_tenant = [id_tenant i], sp_swarm = [id_swarm i], sp_task = uniq tasks,
           sp_agent = agents\<rparr>))"

text \<open>An operation of the registry the ledger view is for.\<close>

definition on_registry :: "nat \<Rightarrow> 'a reg_op \<Rightarrow> 'a ledger_op" where
  "on_registry v m s =
     (case m (ld_registries s ! v) of
        (r, x) \<Rightarrow> (s\<lparr>ld_registries := (ld_registries s)[v := r]\<rparr>, x))"

definition caller_context :: "ledger \<Rightarrow> caller \<Rightarrow> swarm_context" where
  "caller_context s c = context_at (ld_registries s ! ca_view c) (ca_context c)"

definition ledger_scopes :: "host_env \<Rightarrow> caller \<Rightarrow> host_number \<Rightarrow> budget_scopes ledger_op" where
  "ledger_scopes h c rtime =
     op_bind (on_registry (ca_view c)
       (authenticate h (ca_context c) (ca_channel c) (ca_adapter c) rtime)) (\<lambda>_.
     op_bind (op_read (\<lambda>s. ensure
       (id_epoch (sc_identity (caller_context s c)) = bp_epoch (ld_policy s))
       (BudgetError ''budget.stale_policy_epoch''))) (\<lambda>_.
     op_read (\<lambda>s. scopes_of (ld_registries s ! ca_view c) (ca_context c))))"

definition context_digest_of :: "host_env \<Rightarrow> swarm_context \<Rightarrow> string" where
  "context_digest_of h c = digest h (JObj (context_as_dict c))"

section \<open>Admission\<close>

definition compute_charge ::
  "budget_policy \<Rightarrow> budget_db \<Rightarrow> (string \<times> int option) list \<Rightarrow> bucket
     \<Rightarrow> (string \<times> string \<times> int) res" where
  "compute_charge p db resolved b =
     (case known_cost resolved (bucket_metric b) of
        None \<Rightarrow> Inl (AssertionError ''resolved budget cost missing'')
      | Some amount \<Rightarrow>
          (let state = find_bucket db (bu_key b);
               held = (case state of None \<Rightarrow> 0 | Some r \<Rightarrow> bk_held r);
               consumed = (case state of None \<Rightarrow> 0 | Some r \<Rightarrow> bk_consumed r)
           in if (case state of None \<Rightarrow> False | Some r \<Rightarrow> bk_blocked r \<ge> bp_epoch p)
              then Inl (BudgetError ''budget.observed_cost_exceeded_bound'')
              else if held + consumed + amount > bucket_maximum b
              then Inl (BudgetError ''budget.limit_exceeded'')
              else Inr (bu_key b, bucket_metric b, amount)))"

definition charge_insert ::
  "string \<Rightarrow> budget_db \<Rightarrow> (string \<times> string \<times> int) \<Rightarrow> budget_db res" where
  "charge_insert i db charge =
     (case charge of (k, metric, amount) \<Rightarrow>
        res_bind (update_bucket k (\<lambda>b. b\<lparr>bk_held := bk_held b + amount\<rparr>) (insert_bucket k metric db))
          (\<lambda>db1. insert_item \<lparr>it_reservation = i, it_bucket = k, it_metric = metric,
                             it_amount = amount\<rparr> db1))"

definition admit ::
  "reservation_row \<Rightarrow> (string \<times> string \<times> int) list \<Rightarrow> budget_db \<Rightarrow> budget_db res" where
  "admit row charges db =
     res_bind (insert_reservation row db) (\<lambda>db1.
     res_foldM (charge_insert (rs_id row)) db1 charges)"

text \<open>The stored request an idempotency key stands for, if it is the same one and still open.\<close>

definition same_request ::
  "ledger \<Rightarrow> reservation_row \<Rightarrow> string \<Rightarrow> string \<Rightarrow> string \<Rightarrow> binding option" where
  "same_request s row context_d action_d cost_d =
     (case map_of (ld_issued s) (rs_id row) of
        None \<Rightarrow> None
      | Some b \<Rightarrow>
          if rs_status row \<noteq> Reserved \<or> rs_context row \<noteq> context_d \<or> rs_action row \<noteq> action_d \<or>
             rs_costs row \<noteq> cost_d
          then None else Some b)"

record request =
  rq_caller :: caller
  rq_action :: envelope
  rq_key :: string
  rq_costs :: "budget_cost list"
  rq_effects :: "string list"
  rq_executor :: "nat option"
  rq_proof :: bool

definition costs_json :: "(string \<times> int option) list \<Rightarrow> string list \<Rightarrow> json" where
  "costs_json values effects =
     JObj [(''costs'', JObj (map (\<lambda>(k, v). (k, option_int_json v)) values)),
           (''effects'', JArr (map JStr effects))]"

definition physical_ok :: "ledger \<Rightarrow> nat option \<Rightarrow> bool \<Rightarrow> bool" where
  "physical_ok s executor verdict =
     (\<not> bp_physical (ld_policy s) \<or>
      (case executor of None \<Rightarrow> False | Some e \<Rightarrow> e \<in> set (ld_executors s) \<and> verdict))"

text \<open>The body of the admission transaction: the ticket, and the binding to publish.\<close>

definition admission ::
  "host_env \<Rightarrow> request \<Rightarrow> bucket list \<Rightarrow> (string \<times> int option) list \<Rightarrow> budget_cost list
     \<Rightarrow> string \<Rightarrow> string \<Rightarrow> string \<Rightarrow> string \<Rightarrow> string \<Rightarrow> host_number
     \<Rightarrow> (nat \<times> (string \<times> binding) option) ledger_op" where
  "admission h q buckets resolved physical action_d context_d key cost_d uuid reading =
     op_bind (ledger_meta h reading) (\<lambda>now.
     op_bind (ledger_expire now) (\<lambda>_.
     op_bind (op_get id) (\<lambda>s.
     case find (\<lambda>r. rs_key r = key) (db_reservations (ld_db s)) of
       Some previous \<Rightarrow>
         (case same_request s previous context_d action_d cost_d of
            None \<Rightarrow> rejected ''budget.idempotency_conflict_or_consumed''
          | Some b \<Rightarrow> op_return (bi_ticket b, None))
     | None \<Rightarrow>
         op_bind (require (\<not> int (length (db_reservations (ld_db s))) \<ge> bp_capacity (ld_policy s))
           ''budget.history_capacity_reached'') (\<lambda>_.
         op_bind (op_lift (res_mapM (compute_charge (ld_policy s) (ld_db s) resolved) buckets))
           (\<lambda>charges.
         op_bind (on_db (admit \<lparr>rs_id = uuid, rs_key = key, rs_context = context_d,
             rs_action = action_d, rs_costs = cost_d, rs_epoch = bp_epoch (ld_policy s),
             rs_generation = ld_generation s, rs_status = Reserved,
             rs_expires = now + number_value (bp_lifetime (ld_policy s)),
             rs_settlement = None\<rparr> charges)) (\<lambda>_.
         op_bind (op_modify (\<lambda>s. s\<lparr>ld_tickets := ld_tickets s @ [uuid]\<rparr>)) (\<lambda>_.
         op_return (length (ld_tickets s), Some (uuid,
           \<lparr>bi_ticket = length (ld_tickets s), bi_registry = ca_view (rq_caller q),
            bi_context = context_d, bi_action = action_d, bi_generation = ld_generation s,
            bi_executor = (if bp_physical (ld_policy s) then rq_executor q else None),
            bi_costs = physical\<rparr>)))))))))"

text \<open>\<^verbatim>\<open>_admission_transaction\<close> publishes the staged binding only after the commit.\<close>

definition publish :: "(string \<times> binding) option \<Rightarrow> ledger \<Rightarrow> ledger" where
  "publish staged s =
     (case staged of None \<Rightarrow> s
      | Some (i, b) \<Rightarrow> s\<lparr>ld_issued := AList.update i b (ld_issued s)\<rparr>)"

definition reserve ::
  "host_env \<Rightarrow> request \<Rightarrow> host_number \<Rightarrow> host_number \<Rightarrow> string \<Rightarrow> nat ledger_op" where
  "reserve h q rtime reading uuid =
     op_bind (op_lift (host_identifier (rq_key q) ''idempotency_key'')) (\<lambda>_.
     op_bind (op_check (ac_id (rq_action q) \<noteq> None)
       (ValueError ''budget reservation requires an exact host-correlated action'')) (\<lambda>_.
     op_bind (op_check (length (rq_effects q) \<le> 64)
       (ValueError ''bounded protected action effects required'')) (\<lambda>_.
     op_bind (op_lift (check_identifiers ''effect'' (rq_effects q))) (\<lambda>_.
     op_bind (ledger_scopes h (rq_caller q) rtime) (\<lambda>scopes.
     op_bind (op_get id) (\<lambda>s.
     op_bind (op_lift (select_budget_buckets h (ld_policy s) (caller_context s (rq_caller q)) scopes))
       (\<lambda>buckets.
     op_bind (op_lift (resolve_budget_costs buckets (rq_costs q) (rq_effects q)))
       (\<lambda>(values, resolved).
     op_bind (require (physical_ok s (rq_executor q) (rq_proof q))
       ''budget.physical_enforcement_unavailable'') (\<lambda>_.
     op_bind (transaction (admission h q buckets resolved
       (map (\<lambda>m. \<lparr>bc_metric = m, bc_amount = known_cost resolved m\<rparr>)
         (sort (remdups (map bucket_metric buckets))))
       (digest h (ac_dict (rq_action q))) (context_digest_of h (caller_context s (rq_caller q)))
       (digest h (JArr [JStr (id_tenant (sc_identity (caller_context s (rq_caller q)))),
         JStr (rq_key q)]))
       (digest h (costs_json values (rq_effects q))) uuid reading)) (\<lambda>(ticket, staged).
     op_bind (op_modify (publish staged)) (\<lambda>_.
     op_return ticket)))))))))))"

section \<open>Tickets\<close>

text \<open>\<^verbatim>\<open>_ticket\<close>: the original ticket object, used from the view it was issued to.\<close>

definition ticket_row :: "nat \<Rightarrow> nat \<Rightarrow> ledger \<Rightarrow> reservation_row res" where
  "ticket_row v t s =
     (if \<not> t < length (ld_tickets s) then Inl (BudgetError ''budget.original_ticket_required'')
      else (case map_of (ld_issued s) (ld_tickets s ! t) of
        None \<Rightarrow> Inl (BudgetError ''budget.original_ticket_required'')
      | Some b \<Rightarrow>
          if bi_ticket b \<noteq> t \<or> bi_registry b \<noteq> v
          then Inl (BudgetError ''budget.original_ticket_required'')
          else (case find_reservation (ld_db s) (ld_tickets s ! t) of
              None \<Rightarrow> Inl (BudgetError ''budget.stale_ticket'')
            | Some row \<Rightarrow>
                if rs_generation row \<noteq> ld_generation s \<or> rs_action row \<noteq> bi_action b \<or>
                   rs_context row \<noteq> bi_context b
                then Inl (BudgetError ''budget.stale_ticket'') else Inr row)))"

definition set_status :: "string \<Rightarrow> reservation_status \<Rightarrow> budget_db \<Rightarrow> budget_db res" where
  "set_status i st db = Inr (update_reservation i (\<lambda>r. r\<lparr>rs_status := st\<rparr>) db)"

definition begin_forward ::
  "host_env \<Rightarrow> nat \<Rightarrow> caller \<Rightarrow> envelope \<Rightarrow> bool \<Rightarrow> host_number \<Rightarrow> host_number \<Rightarrow> unit ledger_op"
where
  "begin_forward h t c action verdict rtime reading =
     op_bind (ledger_scopes h c rtime) (\<lambda>_.
     op_bind (op_read (\<lambda>s. ensure (physical_ok s
         (if t < length (ld_tickets s)
          then (case map_of (ld_issued s) (ld_tickets s ! t) of
              None \<Rightarrow> None | Some b \<Rightarrow> bi_executor b)
          else None) verdict)
       (BudgetError ''budget.physical_enforcement_unavailable''))) (\<lambda>_.
     transaction (
       op_bind (ledger_meta h reading) (\<lambda>now.
       op_bind (ledger_expire now) (\<lambda>_.
       op_bind (op_read (ticket_row (ca_view c) t)) (\<lambda>row.
       op_bind (op_read (\<lambda>s. ensure
         (rs_status row = Reserved \<and> \<not> rs_expires row \<le> now \<and>
          rs_context row = context_digest_of h (caller_context s c) \<and>
          rs_action row = digest h (ac_dict action) \<and>
          id_epoch (sc_identity (caller_context s c)) = bp_epoch (ld_policy s))
         (BudgetError ''budget.forward_binding_or_state_invalid''))) (\<lambda>_.
       on_db (set_status (rs_id row) Forwarding))))))))"

definition cancel :: "host_env \<Rightarrow> nat \<Rightarrow> nat \<Rightarrow> host_number \<Rightarrow> unit ledger_op" where
  "cancel h v t reading =
     transaction (
       op_bind (ledger_meta h reading) (\<lambda>_.
       op_bind (op_read (ticket_row v t)) (\<lambda>row.
       if rs_status row \<in> {Canceled, Expired} then op_return ()
       else
       op_bind (require (rs_status row = Reserved)
         ''budget.forwarded_reservation_requires_reconciliation'') (\<lambda>_.
       on_db (release (rs_id row) Canceled)))))"

definition expire :: "host_env \<Rightarrow> host_number \<Rightarrow> nat ledger_op" where
  "expire h reading = transaction (op_bind (ledger_meta h reading) ledger_expire)"

definition mark_uncertain :: "host_env \<Rightarrow> nat \<Rightarrow> nat \<Rightarrow> host_number \<Rightarrow> unit ledger_op" where
  "mark_uncertain h v t reading =
     transaction (
       op_bind (ledger_meta h reading) (\<lambda>_.
       op_bind (op_read (ticket_row v t)) (\<lambda>row.
       if rs_status row = Uncertain then op_return ()
       else
       op_bind (require (rs_status row = Forwarding) ''budget.uncertain_requires_forwarding'') (\<lambda>_.
       on_db (set_status (rs_id row) Uncertain)))))"

section \<open>Settlement\<close>

definition settled :: "reservation_status \<Rightarrow> bool" where
  "settled st = (st \<in> {Committed, Released, Overrun})"

definition late_settlement :: "reservation_row \<Rightarrow> bool \<Rightarrow> bool" where
  "late_settlement row observed =
     (rs_status row = Committed \<and> rs_settlement row = None \<and> observed)"

text \<open>
  What settling one item does to its bucket. The flag \<open>no_effect\<close> stands for the loop's
  \<^verbatim>\<open>status == "released"\<close>: a no-effect receipt is issued only with every amount zero
  (\<^verbatim>\<open>record\<close>) and an item's amount is never negative, so no item turns the status into
  \<^verbatim>\<open>overrun\<close> in such a settlement and the flag is the same for every item.
\<close>

definition settle_item ::
  "int \<Rightarrow> bool \<Rightarrow> bool \<Rightarrow> (string \<times> int option) list \<Rightarrow> item_row \<Rightarrow> bucket_row \<Rightarrow> bucket_row" where
  "settle_item epoch late no_effect observed it b =
     (let value = known_cost observed (it_metric it);
          charge = (if it_metric it = ''concurrency'' \<or> no_effect then 0
                    else (case value of None \<Rightarrow> it_amount it | Some v \<Rightarrow> v));
          b' = (case value of None \<Rightarrow> b
                | Some v \<Rightarrow> if v > it_amount it then b\<lparr>bk_blocked := epoch\<rparr> else b)
      in b'\<lparr>bk_held := bk_held b - (if late then 0 else it_amount it),
           bk_consumed := bk_consumed b +
             (if late then charge - (if it_metric it = ''concurrency'' then 0 else it_amount it)
              else charge),
           bk_observed := bk_observed b +
             (case value of None \<Rightarrow> 0
              | Some v \<Rightarrow> if it_metric it = ''concurrency'' then 0 else v),
           bk_observations := bk_observations b + (if value = None then 0 else 1)\<rparr>)"

definition settle_status ::
  "bool \<Rightarrow> (string \<times> int option) list \<Rightarrow> item_row list \<Rightarrow> reservation_status" where
  "settle_status no_effect observed items =
     (if list_ex (\<lambda>it. case known_cost observed (it_metric it) of None \<Rightarrow> False
          | Some v \<Rightarrow> v > it_amount it) items then Overrun
      else if no_effect then Released else Committed)"

definition settle_rows ::
  "int \<Rightarrow> reservation_row \<Rightarrow> bool \<Rightarrow> bool \<Rightarrow> (string \<times> int option) list \<Rightarrow> string option
     \<Rightarrow> budget_db \<Rightarrow> budget_db res" where
  "settle_rows epoch row late no_effect observed settlement db =
     res_bind (charge_items (settle_item epoch late no_effect observed) db (items_of db (rs_id row)))
       (\<lambda>db1.
     Inr (update_reservation (rs_id row)
       (\<lambda>r. r\<lparr>rs_status := settle_status no_effect observed (items_of db (rs_id row)),
             rs_settlement := settlement\<rparr>) db1))"

text \<open>The observation a receipt object carries, if it is one this ledger's source issued for the row.\<close>

definition settlement_observation ::
  "host_env \<Rightarrow> ledger \<Rightarrow> reservation_row \<Rightarrow> nat \<Rightarrow> observation res" where
  "settlement_observation h s row a =
     (case ld_observations s of
        None \<Rightarrow> Inl (BudgetError ''budget.original_bound_settlement_required'')
      | Some src \<Rightarrow>
          if \<not> verify_observation h src a \<or>
             (ob_reservation (os_receipts src ! a), ob_action (os_receipts src ! a),
              ob_context (os_receipts src ! a)) \<noteq> (rs_id row, rs_action row, rs_context row)
          then Inl (BudgetError ''budget.original_bound_settlement_required'')
          else Inr (os_receipts src ! a))"

text \<open>The observed costs, the digest and the outcome flag a settlement works with.\<close>

definition settlement_terms ::
  "host_env \<Rightarrow> ledger \<Rightarrow> reservation_row \<Rightarrow> nat option
     \<Rightarrow> ((string \<times> int option) list \<times> string option \<times> bool) res" where
  "settlement_terms h s row receipt =
     (case receipt of
        None \<Rightarrow> Inr ([], None, False)
      | Some a \<Rightarrow>
          res_bind (settlement_observation h s row a) (\<lambda>ob.
          res_bind (costs_dict (ob_costs ob) True) (\<lambda>observed.
          Inr (observed, Some (observation_digest h ob), ob_outcome ob = ''no_effect''))))"

definition settle ::
  "host_env \<Rightarrow> reservation_row \<Rightarrow> nat option \<Rightarrow> reservation_status ledger_op" where
  "settle h row receipt =
     op_bind (op_read (\<lambda>s. settlement_terms h s row receipt)) (\<lambda>(observed, settlement, no_effect).
     op_bind (op_get (\<lambda>s. items_of (ld_db s) (rs_id row))) (\<lambda>items.
     op_bind (require (receipt = None \<or> set (map fst observed) = set (map it_metric items))
       ''budget.settlement_metric_coverage_mismatch'') (\<lambda>_.
     let late = late_settlement row (receipt \<noteq> None) in
     if settled (rs_status row) \<and> \<not> late then
       op_bind (require (receipt = None \<or> rs_settlement row = settlement)
         ''budget.conflicting_settlement'') (\<lambda>_. op_return (rs_status row))
     else
       op_bind (require (rs_status row \<in> {Forwarding, Uncertain} \<or> late)
         ''budget.settlement_requires_forwarding'') (\<lambda>_.
       op_bind (op_get (\<lambda>s. bp_epoch (ld_policy s))) (\<lambda>epoch.
       op_bind (on_db (settle_rows epoch row late no_effect observed settlement)) (\<lambda>_.
       op_return (settle_status no_effect observed items)))))))"

definition commit ::
  "host_env \<Rightarrow> nat \<Rightarrow> nat \<Rightarrow> nat option \<Rightarrow> host_number \<Rightarrow> reservation_status ledger_op" where
  "commit h v t receipt reading =
     transaction (
       op_bind (ledger_meta h reading) (\<lambda>_.
       op_bind (op_read (ticket_row v t)) (\<lambda>row. settle h row receipt)))"

definition reconcile ::
  "host_env \<Rightarrow> string \<Rightarrow> nat \<Rightarrow> nat \<Rightarrow> host_number \<Rightarrow> reservation_status ledger_op" where
  "reconcile h reservation operator receipt reading =
     op_bind (op_read (\<lambda>s. ensure (operator = ld_operator s)
       (BudgetError ''budget.protected_operator_required''))) (\<lambda>_.
     op_bind (op_lift (host_identifier reservation ''reservation_id'')) (\<lambda>_.
     transaction (
       op_bind (ledger_meta h reading) (\<lambda>_.
       op_bind (op_read (\<lambda>s. case find_reservation (ld_db s) reservation of
           None \<Rightarrow> Inl (BudgetError ''budget.unknown_reservation'') | Some row \<Rightarrow> Inr row)) (\<lambda>row.
       settle h row (Some receipt))))))"

section \<open>Starting, views and executors\<close>

text \<open>Recovery: reserved rows are released, forwarding rows become uncertain.\<close>

definition recover :: "budget_db \<Rightarrow> budget_db res" where
  "recover db =
     res_bind (res_foldM (\<lambda>d r. release (rs_id r) Canceled d) db
       (filter (\<lambda>r. rs_status r = Reserved) (db_reservations db))) (\<lambda>db1.
     Inr (db1\<lparr>db_reservations := map
       (\<lambda>r. if rs_status r = Forwarding then r\<lparr>rs_status := Uncertain\<rparr> else r)
       (db_reservations db1)\<rparr>))"

definition recovery_allowed :: "budget_policy \<Rightarrow> string \<Rightarrow> rat \<Rightarrow> meta_row \<Rightarrow> bool" where
  "recovery_allowed p d now m =
     (\<not> (now < me_last m \<or> bp_epoch p < me_epoch m \<or> bp_epoch p = me_epoch m \<and> d \<noteq> me_digest m))"

definition write_meta :: "string \<Rightarrow> int \<Rightarrow> string \<Rightarrow> rat \<Rightarrow> ledger \<Rightarrow> ledger" where
  "write_meta d generation nonce now s = s\<lparr>ld_generation := generation, ld_db := (ld_db s)\<lparr>db_meta :=
     Some \<lparr>me_digest = d, me_epoch = bp_epoch (ld_policy s), me_generation = generation,
           me_nonce = nonce, me_last = now\<rparr>\<rparr>\<rparr>"

text \<open>\<^verbatim>\<open>BudgetLedger.__init__\<close>, on a ledger object with its store already attached.\<close>

definition start_ledger :: "host_env \<Rightarrow> nat \<Rightarrow> host_number \<Rightarrow> string \<Rightarrow> unit ledger_op" where
  "start_ledger h v reading nonce =
     op_bind (op_read (\<lambda>s. ensure (bp_epoch (ld_policy s) = rg_epoch (ld_registries s ! v))
       (ValueError ''budget policy epoch differs from the registry''))) (\<lambda>_.
     op_bind (op_lift (timestamp reading)) (\<lambda>now.
     op_bind (op_modify (\<lambda>s. s\<lparr>ld_issued := [], ld_executors := [], ld_tickets := [],
       ld_nonce := nonce, ld_clock := now\<rparr>)) (\<lambda>_.
     transaction (
       op_bind (op_read (\<lambda>s. budget_policy_digest h (ld_policy s))) (\<lambda>d.
       op_bind (op_get id) (\<lambda>s.
       case db_meta (ld_db s) of
         None \<Rightarrow> op_modify (write_meta d 1 nonce now)
       | Some m \<Rightarrow>
           op_bind (require (recovery_allowed (ld_policy s) d now m)
             ''budget.recovery_policy_or_clock_mismatch'') (\<lambda>_.
           op_bind (op_lift (counter (me_generation m + 1) ''budget_generation'')) (\<lambda>generation.
           op_bind (on_db recover) (\<lambda>_.
           op_modify (write_meta d generation nonce now))))))))))"

definition for_registry :: "registry \<Rightarrow> nat ledger_op" where
  "for_registry r =
     op_bind (op_read (\<lambda>s. ensure (rg_epoch r = bp_epoch (ld_policy s))
       (ValueError ''invalid registry view for current budget authority''))) (\<lambda>_.
     op_bind (op_get (\<lambda>s. length (ld_registries s))) (\<lambda>v.
     op_bind (op_modify (\<lambda>s. s\<lparr>ld_registries := ld_registries s @ [r]\<rparr>)) (\<lambda>_.
     op_return v)))"

text \<open>\<open>original\<close> says that the executor is a broker built on this very ledger.\<close>

definition bind_executor :: "nat \<Rightarrow> bool \<Rightarrow> nat \<Rightarrow> unit ledger_op" where
  "bind_executor executor original operator =
     op_bind (op_read (\<lambda>s. ensure (operator = ld_operator s \<and> original)
       (BudgetError ''budget.protected_original_executor_required''))) (\<lambda>_.
     op_modify (\<lambda>s. s\<lparr>ld_executors := List.insert executor (ld_executors s)\<rparr>))"

section \<open>Reports\<close>

record bucket_report =
  br_bucket :: string
  br_scope :: string
  br_metric :: string
  br_maximum :: int
  br_reserved :: int
  br_consumed :: int
  br_observed :: "int option"
  br_remaining :: int
  br_blocked :: bool

definition report_bucket :: "budget_policy \<Rightarrow> budget_db \<Rightarrow> bucket \<Rightarrow> bucket_report" where
  "report_bucket p db b =
     (let state = find_bucket db (bu_key b);
          held = (case state of None \<Rightarrow> 0 | Some r \<Rightarrow> bk_held r);
          consumed = (case state of None \<Rightarrow> 0 | Some r \<Rightarrow> bk_consumed r)
      in \<lparr>br_bucket = bu_key b, br_scope = bl_scope (hd (bu_limits b)),
          br_metric = bucket_metric b, br_maximum = bucket_maximum b, br_reserved = held,
          br_consumed = consumed,
          br_observed = (case state of None \<Rightarrow> None
            | Some r \<Rightarrow> if bk_observations r \<noteq> 0 then Some (bk_observed r) else None),
          br_remaining = max 0 (bucket_maximum b - held - consumed),
          br_blocked = (case state of None \<Rightarrow> False | Some r \<Rightarrow> bk_blocked r \<ge> bp_epoch p)\<rparr>)"

definition budget_report ::
  "host_env \<Rightarrow> caller \<Rightarrow> host_number \<Rightarrow> host_number \<Rightarrow> bucket_report list ledger_op" where
  "budget_report h c rtime reading =
     op_bind (ledger_scopes h c rtime) (\<lambda>scopes.
     transaction (
       op_bind (ledger_meta h reading) (\<lambda>now.
       op_bind (ledger_expire now) (\<lambda>_.
       op_bind (op_read (\<lambda>s. select_budget_buckets h (ld_policy s) (caller_context s c) scopes))
         (\<lambda>buckets.
       op_get (\<lambda>s. map (report_bucket (ld_policy s) (ld_db s)) buckets))))))"

definition reservation_state ::
  "host_env \<Rightarrow> nat \<Rightarrow> nat \<Rightarrow> host_number \<Rightarrow> (string \<times> string \<times> reservation_status) ledger_op" where
  "reservation_state h v t reading =
     transaction (
       op_bind (ledger_meta h reading) (\<lambda>now.
       op_bind (ledger_expire now) (\<lambda>_.
       op_bind (op_read (ticket_row v t)) (\<lambda>row.
       op_return (rs_id row, rs_action row, rs_status row)))))"

definition require_current :: "host_env \<Rightarrow> unit ledger_op" where
  "require_current h =
     op_bind (op_read (\<lambda>s. budget_policy_digest h (ld_policy s))) (\<lambda>d.
     op_read (\<lambda>s. ensure (meta_check s d) (BudgetError ''budget.coordinator_fenced'')))"

definition bucket_json :: "bucket_row \<Rightarrow> json" where
  "bucket_json b = JArr [JStr (bk_key b), JStr (bk_metric b), JInt (bk_held b), JInt (bk_consumed b),
     JInt (bk_observed b), JInt (bk_observations b), JInt (bk_blocked b)]"

definition snapshot_digest :: "host_env \<Rightarrow> caller \<Rightarrow> host_number \<Rightarrow> string ledger_op" where
  "snapshot_digest h c rtime =
     op_bind (ledger_scopes h c rtime) (\<lambda>scopes.
     transaction (
       op_bind (require_current h) (\<lambda>_.
       op_bind (op_read (\<lambda>s. budget_policy_digest h (ld_policy s))) (\<lambda>d.
       op_bind (op_read (\<lambda>s. select_budget_buckets h (ld_policy s) (caller_context s c) scopes))
         (\<lambda>buckets.
       op_get (\<lambda>s. digest h (JArr [JStr d, JInt (ld_generation s),
         JStr (context_digest_of h (caller_context s c)),
         JArr (map (\<lambda>b. JArr [JStr (bu_key b),
           (case find_bucket (ld_db s) (bu_key b) of None \<Rightarrow> JNull | Some r \<Rightarrow> bucket_json r)])
           buckets)])))))))"

definition authority_binding_digest :: "host_env \<Rightarrow> string ledger_op" where
  "authority_binding_digest h =
     transaction (
       op_bind (require_current h) (\<lambda>_.
       op_bind (op_read (\<lambda>s. budget_policy_digest h (ld_policy s))) (\<lambda>d.
       op_get (\<lambda>s. digest h (JArr [JStr d, JInt (ld_generation s), JStr (ld_nonce s)])))))"

definition audit_page ::
  "host_env \<Rightarrow> nat \<Rightarrow> int \<Rightarrow> int \<Rightarrow> host_number \<Rightarrow> (reservation_row list \<times> int option) ledger_op"
where
  "audit_page h operator offset limit reading =
     op_bind (op_read (\<lambda>s. ensure (operator = ld_operator s)
       (BudgetError ''budget.protected_operator_required''))) (\<lambda>_.
     op_bind (op_check (0 \<le> offset \<and> offset \<le> 16384 \<and> 1 \<le> limit \<and> limit \<le> 256)
       (ValueError ''invalid bounded budget audit page'')) (\<lambda>_.
     transaction (
       op_bind (ledger_meta h reading) (\<lambda>now.
       op_bind (ledger_expire now) (\<lambda>_.
       op_get (\<lambda>s.
         let rows = take (nat limit + 1) (drop (nat offset) (db_reservations (ld_db s)))
         in (take (nat limit) rows,
             if length rows > nat limit then Some (offset + limit) else None)))))))"

end
