(* ===== verification/Budget_Invariants.thy ===== *)
theory Budget_Invariants
  imports Budget_Ledger
begin

text \<open>
  What the budget ledger keeps: every change of its tables is one of a few primitive updates, and
  each of them keeps the tables consistent and moves reservations forward in their life cycle.
\<close>

section \<open>Primitive updates of the tables\<close>

inductive db_prim :: "host_env \<Rightarrow> budget_policy \<Rightarrow> int \<Rightarrow> budget_db \<Rightarrow> budget_db \<Rightarrow> bool" for h p g where
  seen: "db_prim h p g db (db\<lparr>db_meta := map_option (\<lambda>m. m\<lparr>me_last := now\<rparr>) (db_meta db)\<rparr>)"
| expired: "expire_rows now db = Inr (db', n) \<Longrightarrow> db_prim h p g db db'"
| admitted: "\<forall>b \<in> set buckets. owner_limits h p (bu_key b) (bucket_metric b) (bucket_maximum b) \<Longrightarrow>
    res_mapM (compute_charge p db resolved) buckets = Inr charges \<Longrightarrow>
    int (length (db_reservations db)) < bp_capacity p \<Longrightarrow>
    rs_status row = Reserved \<Longrightarrow> rs_generation row = g \<Longrightarrow>
    admit row charges db = Inr db' \<Longrightarrow> db_prim h p g db db'"
| forwarded: "find_reservation db i = Some row \<Longrightarrow> rs_status row = Reserved \<Longrightarrow>
    rs_generation row = g \<Longrightarrow> set_status i Forwarding db = Inr db' \<Longrightarrow> db_prim h p g db db'"
| doubted: "find_reservation db i = Some row \<Longrightarrow> rs_status row = Forwarding \<Longrightarrow>
    set_status i Uncertain db = Inr db' \<Longrightarrow> db_prim h p g db db'"
| canceled: "find_reservation db i = Some row \<Longrightarrow> rs_status row = Reserved \<Longrightarrow>
    release i Canceled db = Inr db' \<Longrightarrow> db_prim h p g db db'"
| settled: "find_reservation db (rs_id row) = Some row \<Longrightarrow>
    late \<and> rs_status row = Committed \<and> rs_settlement row = None \<or>
      \<not> late \<and> rs_status row \<in> {Forwarding, Uncertain} \<Longrightarrow>
    settle_rows epoch row late no_effect observed settlement db = Inr db' \<Longrightarrow> db_prim h p g db db'"

section \<open>The tables stay consistent\<close>

lemma set_status_inv:
  assumes "set_status i st db = Inr db'" "db_inv db" "find_reservation db i = Some r"
    "active_status (rs_status r)" "active_status st"
  shows "db_inv db'"
proof -
  have db': "db' = update_reservation i (\<lambda>r. r\<lparr>rs_status := st\<rparr>) db"
    using assms(1) by (simp add: set_status_def)
  have act: "item_active db' it = item_active db it" for it
    unfolding db' using assms(3-5) find_reservation_id [OF assms(3)]
    by (cases "it_reservation it = i")
      (auto simp: item_active_def find_update_reservation dest: find_reservation_id
        split: option.splits)
  have "hold_sum db' k = hold_sum db k" for k
    by (rule hold_sum_cong) (simp_all add: act, simp add: db' update_reservation_def)
  then show ?thesis
    by (intro db_inv_charge [OF assms(2), where items = "[]" and g = "\<lambda>it b. b" and d = "\<lambda>it. 0"
        and ?db1.0 = db and f = "\<lambda>r. if rs_id r = i then r\<lparr>rs_status := st\<rparr> else r"])
      (simp_all add: charge_items_def, simp add: db' update_reservation_def)
qed

lemma insert_bucket_inv: "db_inv db \<Longrightarrow> db_inv (insert_bucket k metric db)"
proof (cases "find_bucket db k")
  case None
  assume inv: "db_inv db"
  let ?new = "\<lparr>bk_key = k, bk_metric = metric, bk_held = 0, bk_consumed = 0, bk_observed = 0,
    bk_observations = 0, bk_blocked = - 1\<rparr>"
  have "\<forall>it \<in> set (db_items db). it_bucket it \<noteq> k"
    using inv None by (auto simp: db_inv_def)
  then have "filter (\<lambda>it. it_bucket it = k \<and> item_active db it) (db_items db) = []"
    by (simp add: filter_empty_conv)
  then have sum0: "hold_sum db k = 0"
    by (simp add: hold_sum_def)
  have "k \<notin> bk_key ` set (db_buckets db)"
    using None by (simp add: find_bucket_def find_None_key)
  moreover have "hold_sum (db\<lparr>db_buckets := bs\<rparr>) j = hold_sum db j" for bs j
    by (rule hold_sum_cong) simp_all
  moreover have "find_bucket (db\<lparr>db_buckets := db_buckets db @ [?new]\<rparr>) j \<noteq> None"
    if "find_bucket db j \<noteq> None" for j
    using that by (auto simp: find_bucket_def find_None_key)
  ultimately show ?thesis
    using inv None sum0 unfolding insert_bucket_def
    by (auto simp: db_inv_def bucket_checks_def)
qed (simp add: insert_bucket_def)

lemma hold_sum_insert:
  assumes "db_items db' = db_items db @ [it]" "db_reservations db' = db_reservations db"
    "find_reservation db (it_reservation it) = Some r" "active_status (rs_status r)"
  shows "hold_sum db' k = hold_sum db k + (if it_bucket it = k then it_amount it else 0)"
proof -
  have "item_active db' = item_active db"
    using assms(2) by (auto simp: item_active_def find_reservation_def fun_eq_iff)
  then show ?thesis
    using assms by (simp add: hold_sum_def item_active_def)
qed

lemma charge_insert_inv:
  assumes "charge_insert i db (k, metric, amount) = Inr db'" "db_inv db"
    "find_reservation db i = Some r" "active_status (rs_status r)"
  shows "db_inv db' \<and> db_reservations db' = db_reservations db"
proof -
  let ?db0 = "insert_bucket k metric db"
  let ?it = "\<lparr>it_reservation = i, it_bucket = k, it_metric = metric, it_amount = amount\<rparr>"
  obtain db1 where up: "update_bucket k (\<lambda>b. b\<lparr>bk_held := bk_held b + amount\<rparr>) ?db0 = Inr db1"
      and ins: "insert_item ?it db1 = Inr db'"
    using assms(1) by (auto simp: charge_insert_def)
  have res: "db_reservations ?db0 = db_reservations db" "db_items ?db0 = db_items db"
    by (simp_all add: insert_bucket_def)
  have inv0: "db_inv ?db0"
    by (rule insert_bucket_inv [OF assms(2)])
  note db1 = update_bucket_Inr [OF up]
  have db': "db' = db1\<lparr>db_items := db_items db1 @ [?it]\<rparr>" "0 \<le> amount" "find_bucket db1 k \<noteq> None"
    using ins by (auto simp: insert_item_def split: if_splits)
  have "find_reservation ?db0 i = Some r"
    using assms(3) by (simp add: find_reservation_def res)
  then have sum: "hold_sum db' j = hold_sum ?db0 j + (if k = j then amount else 0)" for j
    using hold_sum_insert [of db' ?db0 ?it r j] assms(4) by (simp add: db' db1)
  have checks: "\<forall>b \<in> set (db_buckets db'). bucket_checks b"
    using update_bucket_checks [OF up] inv0 by (simp add: db'(1) db_inv_def)
  have fb: "find_bucket db' j \<noteq> None \<longleftrightarrow> find_bucket ?db0 j \<noteq> None" for j
    by (simp add: db'(1) db1 find_bucket_def find_map_key [where k = bk_key])
  have fr: "find_reservation db' j = find_reservation ?db0 j" for j
    by (simp add: db'(1) db1 find_reservation_def)
  have buckets: "db_buckets db' = map (\<lambda>b. if bk_key b = k
      then b\<lparr>bk_held := bk_held b + amount\<rparr> else b) (db_buckets ?db0)"
    by (simp add: db'(1) db1)
  have "\<forall>b \<in> set (db_buckets db'). bk_held b = hold_sum db' (bk_key b)"
    using inv0 by (auto simp: buckets sum db_inv_def)
  moreover have "map bk_key (db_buckets db') = map bk_key (db_buckets ?db0)"
    by (simp add: db'(1) db1 comp_def)
  moreover have "\<forall>it \<in> set (db_items db'). 0 \<le> it_amount it \<and>
      find_reservation db' (it_reservation it) \<noteq> None \<and> find_bucket db' (it_bucket it) \<noteq> None"
    using inv0 db'(2,3) \<open>find_reservation ?db0 i = Some r\<close> fb
    unfolding fr by (auto simp: db'(1) db1 db_inv_def find_bucket_def)
  moreover have "db_reservations db' = db_reservations ?db0"
    by (simp add: db'(1) db1)
  ultimately show ?thesis
    using inv0 checks res(1) unfolding db_inv_def by (metis (no_types, lifting))
qed

lemma insert_reservation_inv:
  assumes "insert_reservation row db = Inr db'" "db_inv db"
  shows "db_inv db' \<and> find_reservation db' (rs_id row) = Some row \<and>
    db_reservations db' = db_reservations db @ [row] \<and> db_buckets db' = db_buckets db \<and>
    db_items db' = db_items db"
proof -
  have fresh: "rs_id row \<notin> rs_id ` set (db_reservations db)" "rs_key row \<notin> rs_key ` set (db_reservations db)"
      and db': "db' = db\<lparr>db_reservations := db_reservations db @ [row]\<rparr>"
    using assms(1) by (auto simp: insert_reservation_def list_ex_iff split: if_splits)
  have find_app: "find P (xs @ ys) = (case find P xs of None \<Rightarrow> find P ys | Some x \<Rightarrow> Some x)"
    for P :: "reservation_row \<Rightarrow> bool" and xs ys
    by (induction xs) auto
  have old: "find_reservation db' i = find_reservation db i" if "find_reservation db i \<noteq> None" for i
    using that by (auto simp: find_reservation_def db' find_app)
  have "item_active db' it = item_active db it" if "it \<in> set (db_items db)" for it
    using that assms(2) old by (simp add: item_active_def db_inv_def)
  then have "hold_sum db' k = hold_sum db k" for k
    by (intro hold_sum_cong) (simp_all add: db')
  moreover have "find_reservation db (rs_id row) = None"
    using fresh(1) by (simp add: find_reservation_def find_None_key)
  then have "find_reservation db' (rs_id row) = Some row"
    by (simp add: find_reservation_def db' find_app)
  moreover have "find_bucket db' k = find_bucket db k" for k
    by (simp add: find_bucket_def db')
  ultimately show ?thesis
    using assms(2) fresh old by (auto simp: db_inv_def db')
qed

lemma admit_inv:
  assumes "admit row charges db = Inr db'" "db_inv db" "rs_status row = Reserved"
  shows "db_inv db' \<and> db_reservations db' = db_reservations db @ [row]"
proof -
  obtain db1 where ins: "insert_reservation row db = Inr db1"
      and run: "res_foldM (charge_insert (rs_id row)) db1 charges = Inr db'"
    using assms(1) by (auto simp: admit_def)
  note i = insert_reservation_inv [OF ins assms(2)]
  let ?P = "\<lambda>d. db_inv d \<and> db_reservations d = db_reservations db @ [row] \<and>
    find_reservation d (rs_id row) = Some row"
  have "?P db'"
  proof (rule res_foldM_keeps [OF run, where P = ?P])
    show "?P db1" using i by simp
    fix d c d' assume "?P d" "charge_insert (rs_id row) d c = Inr d'"
    moreover obtain k m a where "c = (k, m, a)" by (cases c)
    ultimately show "?P d'"
      using charge_insert_inv [of "rs_id row" d k m a d' row] assms(3)
      by (auto simp: active_status_def find_reservation_def)
  qed
  then show ?thesis by simp
qed

lemma settle_item_simps [simp]:
  "bk_key (settle_item epoch late ne observed it b) = bk_key b"
  "bk_held (settle_item epoch late ne observed it b) = bk_held b + (if late then 0 else - it_amount it)"
  by (auto simp: settle_item_def Let_def split: option.splits)

lemma settle_status_inactive: "\<not> active_status (settle_status ne observed items)"
  by (auto simp: settle_status_def active_status_def)

lemma settle_rows_inv:
  assumes run: "settle_rows epoch row late ne observed settlement db = Inr db'"
    and inv: "db_inv db" and row: "find_reservation db (rs_id row) = Some row"
    and st: "active_status (rs_status row) = (\<not> late)"
  shows "db_inv db'"
proof -
  let ?items = "items_of db (rs_id row)"
  let ?st = "settle_status ne observed ?items"
  let ?g = "settle_item epoch late ne observed"
  let ?u = "\<lambda>r. r\<lparr>rs_status := ?st, rs_settlement := settlement\<rparr>"
  obtain db1 where ch: "charge_items ?g db ?items = Inr db1"
      and db': "db' = update_reservation (rs_id row) ?u db1"
    using run by (auto simp: settle_rows_def)
  have db1: "db1 = db\<lparr>db_buckets := map (charged ?g ?items) (db_buckets db)\<rparr>"
    by (rule charge_items_Inr [OF ch]) simp
  have items: "db_items db' = db_items db"
    by (simp add: db' db1 update_reservation_def)
  have act: "item_active db' it = (item_active db it \<and> it_reservation it \<noteq> rs_id row)" for it
    unfolding db' using settle_status_inactive
    by (auto simp: item_active_def find_update_reservation db1 dest: find_reservation_id
        split: option.splits)
  have sums: "hold_sum db' k = hold_sum db k +
      sum_list (map (\<lambda>it. if late then 0 else - it_amount it) (filter (\<lambda>it. it_bucket it = k) ?items))" for k
  proof (cases late)
    case True
    have "\<not> item_active db it" if "it_reservation it = rs_id row" for it
      using that row st True by (simp add: item_active_def)
    then have "item_active db' it = item_active db it" for it
      using act by blast
    then have "hold_sum db' k = hold_sum db k"
      by (intro hold_sum_cong items) simp
    with True show ?thesis by simp
  next
    case False
    then show ?thesis
      using hold_sum_close [OF items act, of k] row st
      by (simp add: item_active_def uminus_sum_list_map comp_def)
  qed
  show ?thesis
    by (rule db_inv_charge [OF inv ch, where f = "\<lambda>r. if rs_id r = rs_id row then ?u r else r"
        and d = "\<lambda>it. if late then 0 else - it_amount it"])
      (use sums in \<open>auto simp: db' db1 update_reservation_def\<close>)
qed

text \<open>Expiring releases rows that were open when they were selected, one after the other.\<close>

lemma release_others:
  assumes "release i st db = Inr db'" "j \<noteq> i"
  shows "find_reservation db' j = find_reservation db j"
  using release_Inr [OF assms(1)] assms(2)
  by (cases "find_reservation db j") (auto simp: find_update_reservation dest: find_reservation_id)

lemma release_loop:
  assumes "res_foldM (\<lambda>d r. release (rs_id r) st d) db rows = Inr db'" "db_inv db"
    "distinct (map rs_id rows)" "\<forall>r \<in> set rows. find_reservation db (rs_id r) = Some r"
    "\<forall>r \<in> set rows. active_status (rs_status r)" "\<not> active_status st"
    "\<forall>r \<in> set rows. status_le (rs_status r) st"
  shows "db_inv db' \<and> db_moves db db'"
  using assms
proof (induction rows arbitrary: db)
  case (Cons r rows)
  obtain d where d: "release (rs_id r) st db = Inr d"
      and run: "res_foldM (\<lambda>d r. release (rs_id r) st d) d rows = Inr db'"
    using Cons.prems(1) by auto
  have r: "find_reservation db (rs_id r) = Some r" "active_status (rs_status r)" "status_le (rs_status r) st"
    using Cons.prems by auto
  have "db_inv d"
    by (rule release_inv [OF d Cons.prems(2) r(1,2) Cons.prems(6)])
  moreover have "\<forall>q \<in> set rows. find_reservation d (rs_id q) = Some q"
    using release_others [OF d] Cons.prems(3,4) by (auto simp: image_iff)
  ultimately have "db_inv db' \<and> db_moves d db'"
    using Cons.IH [OF run] Cons.prems(3,5,6,7) by simp
  moreover have "db_moves db d"
    by (rule release_moves [OF d]) (use r in simp)
  ultimately show ?case by (blast intro: db_moves_trans)
qed simp

lemma selected_rows:
  assumes "db_inv db"
  shows "distinct (map rs_id (filter P (db_reservations db)))"
    "r \<in> set (filter P (db_reservations db)) \<Longrightarrow> find_reservation db (rs_id r) = Some r"
  using assms by (auto simp: db_inv_def distinct_map_filter find_reservation_def find_key_iff)

lemma expire_rows_inv:
  assumes "expire_rows now db = Inr (db', n)" "db_inv db"
  shows "db_inv db' \<and> db_moves db db'"
  using assms selected_rows [OF assms(2)]
  by (intro release_loop [where st = Expired
      and rows = "filter (\<lambda>r. rs_status r = Reserved \<and> rs_expires r \<le> now) (db_reservations db)"])
    (auto simp: expire_rows_def Let_def active_status_def status_le_def)

lemma hold_sum_meta [simp]: "hold_sum (db\<lparr>db_meta := m\<rparr>) k = hold_sum db k"
  by (rule hold_sum_cong) (simp_all add: item_active_def find_reservation_def)

lemma db_inv_meta [simp]: "db_inv (db\<lparr>db_meta := m\<rparr>) = db_inv db"
  by (simp add: db_inv_def find_reservation_def find_bucket_def)

lemma db_moves_same: "db_reservations db' = db_reservations db \<Longrightarrow> db_moves db db'"
  by (simp add: db_moves_def find_reservation_def row_moves_def)

lemma db_moves_append: "db_reservations db' = db_reservations db @ rows \<Longrightarrow> db_moves db db'"
  by (fastforce simp: db_moves_def find_reservation_def row_moves_def find_Some_iff nth_append)

lemma db_prim_inv: "db_prim h p g db db' \<Longrightarrow> db_inv db \<Longrightarrow> db_inv db'"
proof (induction rule: db_prim.induct)
  case (admitted buckets db resolved charges row db')
  then show ?case using admit_inv by blast
next
  case (settled db row late epoch no_effect observed settlement db')
  have "active_status (rs_status row) = (\<not> late)"
    using settled(2) by (auto simp: active_status_def)
  then show ?case by (rule settle_rows_inv [OF settled(3,4,1)])
next
  case (seen db now)
  then show ?case by simp
next
  case (expired now db db' n)
  then show ?case using expire_rows_inv by blast
next
  case (forwarded db i row db')
  show ?case
    by (rule set_status_inv [OF forwarded(4,5,1)])
      (simp_all add: forwarded(2) active_status_def)
next
  case (doubted db i row db')
  show ?case
    by (rule set_status_inv [OF doubted(3,4,1)]) (simp_all add: doubted(2) active_status_def)
next
  case (canceled db i row db')
  show ?case
    by (rule release_inv [OF canceled(3,4,1)]) (simp_all add: canceled(2) active_status_def)
qed

lemma settle_rows_moves:
  assumes "settle_rows epoch row late ne observed settlement db = Inr db'"
    "find_reservation db (rs_id row) = Some row" "rs_status row \<in> {Forwarding, Uncertain, Committed}"
  shows "db_moves db db'"
proof -
  let ?st = "settle_status ne observed (items_of db (rs_id row))"
  let ?u = "\<lambda>r. r\<lparr>rs_status := ?st, rs_settlement := settlement\<rparr>"
  obtain bs where db': "db' = (update_reservation (rs_id row) ?u db)\<lparr>db_buckets := bs\<rparr>"
    using assms(1) by (auto simp: settle_rows_def update_reservation_buckets dest!: charge_items_Inr)
  have "status_le (rs_status row) ?st"
    using assms(3) by (auto simp: settle_status_def status_le_def)
  then show ?thesis
    unfolding db' by (intro db_moves_update) (use assms(2) in \<open>auto simp: row_moves_def\<close>)
qed

lemma set_status_moves:
  assumes "set_status i st db = Inr db'" "\<And>r. find_reservation db i = Some r \<Longrightarrow> status_le (rs_status r) st"
  shows "db_moves db db'"
proof -
  have "db' = (update_reservation i (\<lambda>r. r\<lparr>rs_status := st\<rparr>) db)\<lparr>db_buckets := db_buckets db\<rparr>"
    using assms(1) by (auto simp: set_status_def update_reservation_def)
  then show ?thesis
    using assms(2) by (auto simp: row_moves_def intro!: db_moves_update)
qed

lemma db_prim_moves: "db_prim h p g db db' \<Longrightarrow> db_inv db \<Longrightarrow> db_moves db db'"
proof (induction rule: db_prim.induct)
  case (seen db now)
  then show ?case by (intro db_moves_same) simp
next
  case (expired now db db' n)
  then show ?case using expire_rows_inv by blast
next
  case (admitted buckets db resolved charges row db')
  then show ?case using admit_inv db_moves_append by blast
next
  case (forwarded db i row db')
  then show ?case by (intro set_status_moves) (auto simp: status_le_def)
next
  case (doubted db i row db')
  then show ?case by (intro set_status_moves) (auto simp: status_le_def)
next
  case (canceled db i row db')
  then show ?case by (intro release_moves) (auto simp: status_le_def)
next
  case (settled db row late epoch no_effect observed settlement db')
  have "rs_status row \<in> {Forwarding, Uncertain, Committed}"
    using settled(2) by auto
  then show ?case by (rule settle_rows_moves [OF settled(3,1)])
qed

section \<open>Operations of the ledger decompose\<close>

definition same_ledger :: "ledger \<Rightarrow> ledger \<Rightarrow> bool" where
  "same_ledger s s' = (ld_policy s' = ld_policy s \<and> ld_generation s' = ld_generation s \<and>
     ld_nonce s' = ld_nonce s \<and> ld_operator s' = ld_operator s)"

inductive led_prim :: "host_env \<Rightarrow> ledger \<Rightarrow> ledger \<Rightarrow> bool" for h where
  other: "ld_db s' = ld_db s \<Longrightarrow> same_ledger s s' \<Longrightarrow> led_prim h s s'"
| tables: "db_prim h (ld_policy s) (ld_generation s) (ld_db s) db \<Longrightarrow> led_prim h s (s\<lparr>ld_db := db\<rparr>)"

lemma led_prims_same: "(led_prim h)\<^sup>*\<^sup>* s s' \<Longrightarrow> same_ledger s s'"
  by (induction rule: rtranclp_induct) (auto simp: same_ledger_def elim: led_prim.cases)

lemma led_other: "ld_db s' = ld_db s \<Longrightarrow> same_ledger s s' \<Longrightarrow> (led_prim h)\<^sup>*\<^sup>* s s'"
  by (blast intro: led_prim.other)

lemma led_tables:
  "db_prim h (ld_policy s) (ld_generation s) (ld_db s) db \<Longrightarrow> (led_prim h)\<^sup>*\<^sup>* s (s\<lparr>ld_db := db\<rparr>)"
  by (blast intro: led_prim.tables)

lemma led_inv: "(led_prim h)\<^sup>*\<^sup>* s s' \<Longrightarrow> db_inv (ld_db s) \<Longrightarrow> db_inv (ld_db s')"
  by (induction rule: rtranclp_induct) (auto elim!: led_prim.cases intro: db_prim_inv)

lemma led_moves:
  assumes "(led_prim h)\<^sup>*\<^sup>* s s'" "db_inv (ld_db s)"
  shows "db_moves (ld_db s) (ld_db s')"
  using assms(1)
proof (induction rule: rtranclp_induct)
  case (step y z)
  have "db_moves (ld_db y) (ld_db z)"
    using step(2) led_inv [OF step(1) assms(2)] by cases (auto intro: db_prim_moves)
  with step(3) show ?case by (rule db_moves_trans)
qed simp

interpretation ledger_store:
  transactional transaction store_usable ledger_commit ledger_rollback store_report
  by unfold_locales (auto simp: transaction_def split: py_error.splits)

lemma reaches_transaction:
  assumes "reaches (led_prim h) body s"
  shows "reaches (led_prim h) (transaction body) s"
proof -
  have body: "(led_prim h)\<^sup>*\<^sup>* s (fst (body s))"
    using assms by (simp add: reaches_def)
  then have same: "same_ledger s (fst (body s))"
    by (rule led_prims_same)
  have commit: "(led_prim h)\<^sup>*\<^sup>* (fst (body s)) (ledger_commit s (fst (body s)))"
    by (rule led_other) (simp_all add: ledger_commit_def same_ledger_def)
  have roll: "(led_prim h)\<^sup>*\<^sup>* s (ledger_rollback s s')" if "same_ledger s s'" for s'
    using that by (intro led_other) (simp_all add: ledger_rollback_def same_ledger_def)
  show ?thesis
    unfolding reaches_def
  proof (cases rule: ledger_store.trans_cases [of s body])
    case committed
    then show "(led_prim h)\<^sup>*\<^sup>* s (fst (transaction body s))"
      using rtranclp_trans [OF body commit] by simp
  next
    case rolled
    then show "(led_prim h)\<^sup>*\<^sup>* s (fst (transaction body s))"
      using roll same by simp
  next
    case refused
    then show "(led_prim h)\<^sup>*\<^sup>* s (fst (transaction body s))"
      using roll by (simp add: same_ledger_def)
  qed
qed

lemma on_db_reaches:
  assumes "\<And>db. f (ld_db s) = Inr db \<Longrightarrow> db_prim h (ld_policy s) (ld_generation s) (ld_db s) db"
  shows "reaches (led_prim h) (on_db f) s"
  using assms by (auto simp: reaches_def on_db_def split: sum.splits intro: led_tables)

lemma expire_reaches: "reaches (led_prim h) (ledger_expire now) s"
  by (auto simp: reaches_def ledger_expire_def split: sum.splits
      intro!: led_tables intro: db_prim.expired)

lemma registry_reaches: "reaches (led_prim h) (on_registry v m) s"
  by (auto simp: reaches_def on_registry_def same_ledger_def split: prod.splits intro!: led_other)

lemma modify_reaches:
  "ld_db (f s) = ld_db s \<Longrightarrow> same_ledger s (f s) \<Longrightarrow> reaches (led_prim h) (op_modify f) s"
  by (intro reaches_modify led_other)

lemma tick_reaches: "reaches (led_prim h) (ledger_tick reading) s"
  unfolding ledger_tick_def
proof (intro reaches_rules)
  fix now
  have "(led_prim h)\<^sup>*\<^sup>* s (s\<lparr>ld_db := (ld_db s)\<lparr>db_meta :=
      map_option (\<lambda>m. m\<lparr>me_last := now\<rparr>) (db_meta (ld_db s))\<rparr>\<rparr>)" (is "(led_prim h)\<^sup>*\<^sup>* s ?s")
    by (intro led_tables db_prim.seen)
  moreover have "(led_prim h)\<^sup>*\<^sup>* ?s (set_last now s)"
    by (intro led_other) (simp_all add: set_last_def same_ledger_def)
  ultimately show "reaches (led_prim h) (op_bind (op_modify (set_last now)) (\<lambda>_. op_return now)) s"
    by (intro reaches_modify_bind reaches_basic) (rule rtranclp_trans)
qed

lemma meta_reaches: "reaches (led_prim h) (ledger_meta h reading) s"
  unfolding ledger_meta_def by (intro reaches_rules tick_reaches)

lemma scopes_reaches: "reaches (led_prim h) (ledger_scopes h c rtime) s"
  unfolding ledger_scopes_def by (intro reaches_bind registry_reaches reaches_rules reaches_basic)

lemma ticket_row_Inr:
  assumes "ticket_row v t s = Inr row"
  shows "t < length (ld_tickets s)" "rs_id row = ld_tickets s ! t"
    "find_reservation (ld_db s) (rs_id row) = Some row" "rs_generation row = ld_generation s"
    "\<exists>b. map_of (ld_issued s) (rs_id row) = Some b \<and> bi_ticket b = t \<and> bi_registry b = v \<and>
       rs_action row = bi_action b \<and> rs_context row = bi_context b"
  using assms find_reservation_id
  by (fastforce simp: ticket_row_def split: option.splits if_splits)+

text \<open>Each operation, through the step it shares with the others.\<close>

lemmas ledger_rules = reaches_transaction meta_reaches expire_reaches scopes_reaches on_db_reaches
  reaches_basic reaches_split reaches_if

lemma reaches_meta_bind:
  assumes "\<And>s' now. reaches (led_prim h) (f now) s'"
  shows "reaches (led_prim h) (op_bind (ledger_meta h reading) f) s"
  by (intro reaches_bind meta_reaches assms)

lemma reaches_expire_bind:
  assumes "\<And>s' n. reaches (led_prim h) (f n) s'"
  shows "reaches (led_prim h) (op_bind (ledger_expire now) f) s"
  by (intro reaches_bind expire_reaches assms)

lemma reaches_scopes_bind:
  assumes "\<And>s' n. reaches (led_prim h) (f n) s'"
  shows "reaches (led_prim h) (op_bind (ledger_scopes h c rtime) f) s"
  by (intro reaches_bind scopes_reaches assms)

lemmas ledger_binds = reaches_meta_bind reaches_expire_bind reaches_scopes_bind reaches_rules

lemma begin_forward_reaches: "reaches (led_prim h) (begin_forward h t c action verdict rtime reading) s"
  unfolding begin_forward_def
  by (intro ledger_binds ledger_rules db_prim.forwarded) (auto dest: ticket_row_Inr)

lemma cancel_reaches: "reaches (led_prim h) (cancel h v t reading) s"
  unfolding cancel_def require_def
  by (intro ledger_binds ledger_rules db_prim.canceled) (auto dest: ticket_row_Inr)

lemma expire_op_reaches: "reaches (led_prim h) (expire h reading) s"
  unfolding expire_def by (intro ledger_binds ledger_rules)

lemma uncertain_reaches: "reaches (led_prim h) (mark_uncertain h v t reading) s"
  unfolding mark_uncertain_def require_def
  by (intro ledger_binds ledger_rules db_prim.doubted) (auto dest: ticket_row_Inr)

lemma settle_reaches:
  assumes "find_reservation (ld_db s) (rs_id row) = Some row"
  shows "reaches (led_prim h) (settle h row receipt) s"
  unfolding settle_def require_def Let_def
  by (intro reaches_rules reaches_split reaches_if reaches_basic, rule reaches_bind,
      intro on_db_reaches db_prim.settled [OF assms])
    (auto simp: settled_def late_settlement_def intro: reaches_basic)

lemma commit_reaches: "reaches (led_prim h) (commit h v t receipt reading) s"
  unfolding commit_def
  by (intro ledger_binds reaches_transaction settle_reaches) (auto dest: ticket_row_Inr)

lemma reconcile_reaches: "reaches (led_prim h) (reconcile h i op receipt reading) s"
  unfolding reconcile_def
  by (intro ledger_binds reaches_transaction settle_reaches)
    (auto split: option.splits dest: find_reservation_id)

lemma selection_limits:
  "select_budget_buckets h p c s = Inr buckets \<Longrightarrow>
     \<forall>b \<in> set buckets. owner_limits h p (bu_key b) (bucket_metric b) (bucket_maximum b)"
  using selection_owners by blast

lemma meta_keeps_policy: "ledger_meta h reading s = (s', r) \<Longrightarrow> ld_policy s' = ld_policy s"
  using led_prims_same [OF reachesD [OF meta_reaches]] by (simp add: same_ledger_def)

lemma expire_keeps_policy: "ledger_expire now s = (s', r) \<Longrightarrow> ld_policy s' = ld_policy s"
  using led_prims_same [OF reachesD [OF expire_reaches]] by (simp add: same_ledger_def)

lemma admission_reaches:
  assumes "\<forall>b \<in> set buckets. owner_limits h (ld_policy s) (bu_key b) (bucket_metric b) (bucket_maximum b)"
  shows "reaches (led_prim h)
     (admission h q buckets resolved physical action_d context_d key cost_d uuid reading) s"
  unfolding admission_def require_def id_def
  apply (rule reaches_bind [OF meta_reaches], drule meta_keeps_policy)
  apply (rule reaches_bind [OF expire_reaches], drule expire_keeps_policy)
  apply (intro ledger_binds reaches_option reaches_basic)
  apply (rule reaches_bind, intro on_db_reaches db_prim.admitted)
  by (use assms in \<open>auto intro!: reaches_modify_bind reaches_basic led_other simp: same_ledger_def not_le\<close>)

lemma reserve_reaches: "reaches (led_prim h) (reserve h q rtime reading uuid) s"
  unfolding reserve_def require_def id_def
  by (intro ledger_binds reaches_split, rule reaches_bind,
      intro reaches_transaction admission_reaches selection_limits)
    (auto intro!: reaches_split reaches_modify_bind reaches_basic led_other
      simp: same_ledger_def publish_def split: option.splits prod.splits)

lemma report_reaches: "reaches (led_prim h) (budget_report h c rtime reading) s"
  unfolding budget_report_def by (intro ledger_binds ledger_rules)

lemma state_reaches: "reaches (led_prim h) (reservation_state h v t reading) s"
  unfolding reservation_state_def by (intro ledger_binds ledger_rules)

lemma audit_reaches: "reaches (led_prim h) (audit_page h op offset limit reading) s"
  unfolding audit_page_def by (intro ledger_binds ledger_rules)

lemma snapshot_reaches: "reaches (led_prim h) (snapshot_digest h c rtime) s"
  unfolding snapshot_digest_def require_current_def op_bind_assoc
  by (intro ledger_binds ledger_rules)

lemma authority_reaches: "reaches (led_prim h) (authority_binding_digest h) s"
  unfolding authority_binding_digest_def require_current_def op_bind_assoc
  by (intro ledger_binds ledger_rules)

lemma view_reaches: "reaches (led_prim h) (for_registry r) s"
  unfolding for_registry_def
  by (intro reaches_rules reaches_modify_bind led_other reaches_basic) (simp_all add: same_ledger_def)

lemma executor_reaches: "reaches (led_prim h) (bind_executor e original op) s"
  unfolding bind_executor_def
  by (intro reaches_rules modify_reaches) (simp_all add: same_ledger_def)

end
