(* ===== verification/Budget_Safety.thy ===== *)
theory Budget_Safety
  imports Budget_Invariants
begin

text \<open>
  Runs of the budget ledger, with the host's environment in them (registry calls, forged ticket
  objects, new receipts), and the properties of the accounting over all runs.
\<close>

section \<open>Runs\<close>

datatype ledger_call =
    Reserve request host_number host_number string
  | BeginForward nat caller envelope bool host_number host_number
  | Cancel nat nat host_number
  | ExpireAll host_number
  | MarkUncertain nat nat host_number
  | Commit nat nat "nat option" host_number
  | Reconcile string nat nat host_number
  | BudgetReport caller host_number host_number
  | ReservationState nat nat host_number
  | Audit nat int int host_number
  | Snapshot caller host_number
  | AuthorityBinding
  | ForRegistry registry
  | BindExecutor nat bool nat
  | RegistryCall nat registry_call
  | ForgeTicket string
  | RecordObservation string json swarm_context string "budget_cost list"

text \<open>Any code can construct a ticket object with any identifier.\<close>

definition forge_ticket :: "string \<Rightarrow> nat ledger_op" where
  "forge_ticket i =
     op_bind (op_get (\<lambda>s. length (ld_tickets s))) (\<lambda>t.
     op_bind (op_modify (\<lambda>s. s\<lparr>ld_tickets := ld_tickets s @ [i]\<rparr>)) (\<lambda>_. op_return t))"

definition on_observations :: "(observation_source, 'a) op \<Rightarrow> 'a ledger_op" where
  "on_observations m s =
     (case ld_observations s of
        None \<Rightarrow> (s, Inl (ValueError ''protected budget observation source required''))
      | Some src \<Rightarrow> (case m src of (src', x) \<Rightarrow> (s\<lparr>ld_observations := Some src'\<rparr>, x)))"

definition op_ignore :: "('s, 'a) op \<Rightarrow> ('s, unit) op" where
  "op_ignore m = op_bind m (\<lambda>_. op_return ())"

fun ledger_exec :: "host_env \<Rightarrow> ledger_call \<Rightarrow> unit ledger_op" where
  "ledger_exec h (Reserve q rt t i) = op_ignore (reserve h q rt t i)"
| "ledger_exec h (BeginForward k c a v rt t) = begin_forward h k c a v rt t"
| "ledger_exec h (Cancel v k t) = cancel h v k t"
| "ledger_exec h (ExpireAll t) = op_ignore (expire h t)"
| "ledger_exec h (MarkUncertain v k t) = mark_uncertain h v k t"
| "ledger_exec h (Commit v k a t) = op_ignore (commit h v k a t)"
| "ledger_exec h (Reconcile i opr a t) = op_ignore (reconcile h i opr a t)"
| "ledger_exec h (BudgetReport c rt t) = op_ignore (budget_report h c rt t)"
| "ledger_exec h (ReservationState v k t) = op_ignore (reservation_state h v k t)"
| "ledger_exec h (Audit opr off n t) = op_ignore (audit_page h opr off n t)"
| "ledger_exec h (Snapshot c rt) = op_ignore (snapshot_digest h c rt)"
| "ledger_exec h AuthorityBinding = op_ignore (authority_binding_digest h)"
| "ledger_exec h (ForRegistry r) = op_ignore (for_registry r)"
| "ledger_exec h (BindExecutor e b opr) = bind_executor e b opr"
| "ledger_exec h (RegistryCall v c) = op_ignore (on_registry v (registry_exec h c))"
| "ledger_exec h (ForgeTicket i) = op_ignore (forge_ticket i)"
| "ledger_exec h (RecordObservation i a c out cs) =
     op_ignore (on_observations (record_observation h i a c out cs))"

definition ledger_step :: "host_env \<Rightarrow> ledger \<Rightarrow> ledger_call \<Rightarrow> ledger" where
  "ledger_step h s c = fst (ledger_exec h c s)"

lemma forge_reaches: "reaches (led_prim h) (forge_ticket i) s"
  unfolding forge_ticket_def
  by (intro reaches_rules reaches_modify_bind led_other reaches_basic) (simp_all add: same_ledger_def)

lemma observations_reaches: "reaches (led_prim h) (on_observations m) s"
  by (auto simp: reaches_def on_observations_def same_ledger_def split: option.splits prod.splits
      intro!: led_other)

lemma ignore_reaches: "reaches (led_prim h) m s \<Longrightarrow> reaches (led_prim h) (op_ignore m) s"
  unfolding op_ignore_def by (intro reaches_bind reaches_basic)

lemma exec_reaches: "reaches (led_prim h) (ledger_exec h c) s"
  by (cases c)
    (auto intro!: ignore_reaches reserve_reaches begin_forward_reaches cancel_reaches
      expire_op_reaches uncertain_reaches commit_reaches reconcile_reaches report_reaches
      state_reaches audit_reaches snapshot_reaches authority_reaches view_reaches
      executor_reaches registry_reaches forge_reaches observations_reaches)

lemma ledger_run_prims: "(led_prim h)\<^sup>*\<^sup>* s (foldl (ledger_step h) s cs)"
proof (induction cs arbitrary: s)
  case (Cons c cs)
  have "(led_prim h)\<^sup>*\<^sup>* s (ledger_step h s c)"
    using exec_reaches [of h c s] by (simp add: reaches_def ledger_step_def)
  with Cons.IH [of "ledger_step h s c"] show ?case by simp
qed simp

text \<open>No row of the history is ever deleted.\<close>

lemma res_foldM_release_length:
  "res_foldM (\<lambda>d r. release (rs_id r) st d) db rows = Inr db' \<Longrightarrow>
     length (db_reservations db') = length (db_reservations db)"
  by (rule res_foldM_keeps [where P = "\<lambda>d. length (db_reservations d) = length (db_reservations db)"])
    (auto simp: update_reservation_def dest!: release_Inr)

lemma db_prim_length:
  "db_prim h p g db db' \<Longrightarrow> db_inv db \<Longrightarrow> length (db_reservations db) \<le> length (db_reservations db')"
proof (induction rule: db_prim.induct)
  case (expired now db db' n)
  then show ?case
    by (auto simp: expire_rows_def Let_def dest!: res_foldM_release_length)
next
  case (admitted buckets db resolved charges row db')
  then show ?case using admit_inv by fastforce
next
  case (canceled db i row db')
  then show ?case by (auto simp: update_reservation_def dest!: release_Inr)
next
  case (settled db row late epoch no_effect observed settlement db')
  then show ?case
    by (auto simp: settle_rows_def update_reservation_def dest!: charge_items_Inr)
qed (auto simp: set_status_def update_reservation_def)

interpretation ledger_runs:
  monotone_system "ledger_step h" "\<lambda>s :: ledger. db_inv (ld_db s)" "\<lambda>s :: ledger. length (db_reservations (ld_db s))" for h
proof
  fix h s c assume inv: "db_inv (ld_db (s :: ledger))"
  have run: "(led_prim h)\<^sup>*\<^sup>* s (ledger_step h s c)"
    using ledger_run_prims [of h s "[c]"] by simp
  then show "db_inv (ld_db (ledger_step h s c))"
    using inv by (rule led_inv)
  show "length (db_reservations (ld_db s)) \<le> length (db_reservations (ld_db (ledger_step h s c)))"
    using run
  proof (induction rule: rtranclp_induct)
    case (step y z)
    have "db_inv (ld_db y)"
      using step(1) inv by (rule led_inv)
    with step(2) have "length (db_reservations (ld_db y)) \<le> length (db_reservations (ld_db z))"
      by cases (auto dest: db_prim_length)
    with step(3) show ?case by simp
  qed simp
qed

text \<open>The ledger's own clock: the stored reading and the in-memory one fence each other.\<close>

interpretation ledger_clock: fenced_clock "\<lambda>s t. ledger_tick (HFloat (Float t)) s" last_seen
proof
  fix s s' :: ledger and t u :: rat
  assume "ledger_tick (HFloat (Float t)) s = (s', Inr u)"
  then show "u = t \<and> last_seen s \<le> t \<and> last_seen s' = t"
    by (auto simp: ledger_tick_def op_bind_Inr_iff timestamp_def set_last_def last_seen_def
        split: if_splits option.splits)
next
  fix s s' :: ledger and t :: rat and e
  assume "ledger_tick (HFloat (Float t)) s = (s', Inl e)"
  then show "s' = s"
    by (auto simp: ledger_tick_def op_bind_Inl_iff op_defs timestamp_def ensure_def split: if_splits)
qed

section \<open>Recovery\<close>

definition doubt_forwarding :: "reservation_row \<Rightarrow> reservation_row" where
  "doubt_forwarding r = (if rs_status r = Forwarding then r\<lparr>rs_status := Uncertain\<rparr> else r)"

lemma doubt_forwarding_simps [simp]:
  "rs_id (doubt_forwarding r) = rs_id r" "rs_key (doubt_forwarding r) = rs_key r"
  "active_status (rs_status (doubt_forwarding r)) = active_status (rs_status r)"
  "row_moves r (doubt_forwarding r)"
  by (simp_all add: doubt_forwarding_def active_status_def row_moves_def status_le_def)

lemma find_doubted:
  "find_reservation (db\<lparr>db_reservations := map doubt_forwarding (db_reservations db)\<rparr>) i =
     map_option doubt_forwarding (find_reservation db i)"
  by (simp add: find_reservation_def find_map_key [where k = rs_id])

lemma doubt_inv:
  assumes "db_inv db"
  shows "db_inv (db\<lparr>db_reservations := map doubt_forwarding (db_reservations db)\<rparr>)" (is "db_inv ?db")
proof -
  have "hold_sum ?db k = hold_sum db k" for k
    by (rule hold_sum_cong) (simp_all add: item_active_def find_doubted split: option.splits)
  then show ?thesis
    by (intro db_inv_charge [OF assms, where items = "[]" and g = "\<lambda>it b. b" and d = "\<lambda>it. 0"
        and ?db1.0 = db and f = doubt_forwarding])
      (simp_all add: charge_items_def)
qed

lemma release_loop_status:
  assumes "res_foldM (\<lambda>d r. release (rs_id r) st d) db rows = Inr db'"
    "q \<in> rs_id ` set rows \<and> find_reservation db q \<noteq> None \<or>
     (\<exists>r. find_reservation db q = Some r \<and> rs_status r = st)"
  shows "\<exists>r. find_reservation db' q = Some r \<and> rs_status r = st"
  using assms
proof (induction rows arbitrary: db)
  case (Cons x rows)
  obtain d where d: "release (rs_id x) st db = Inr d"
      and rest: "res_foldM (\<lambda>d r. release (rs_id r) st d) d rows = Inr db'"
    using Cons.prems(1) by auto
  from release_Inr [OF d] have find1: "find_reservation d q =
      map_option (\<lambda>r. if rs_id r = rs_id x then r\<lparr>rs_status := st\<rparr> else r) (find_reservation db q)"
    by (auto simp: find_update_reservation)
  have "q \<in> rs_id ` set rows \<and> find_reservation d q \<noteq> None \<or>
      (\<exists>r. find_reservation d q = Some r \<and> rs_status r = st)"
  proof (cases "q = rs_id x")
    case True
    then obtain r where "find_reservation db q = Some r" "rs_id r = rs_id x"
      using Cons.prems(2) find_reservation_id by blast
    then show ?thesis by (simp add: find1)
  next
    case False
    with Cons.prems(2) show ?thesis by (auto simp: find1 dest: find_reservation_id)
  qed
  then show ?case by (rule Cons.IH [OF rest])
qed simp

lemma recover_Inr:
  assumes "recover db = Inr db'" "db_inv db"
  shows "db_inv db' \<and> db_moves db db' \<and>
    (\<forall>i r. find_reservation db i = Some r \<longrightarrow> rs_status r = Reserved \<longrightarrow>
       (\<exists>r'. find_reservation db' i = Some r' \<and> rs_status r' = Canceled)) \<and>
    (\<forall>r \<in> set (db_reservations db'). rs_status r \<noteq> Forwarding)"
proof -
  let ?rows = "filter (\<lambda>r. rs_status r = Reserved) (db_reservations db)"
  obtain db1 where loop: "res_foldM (\<lambda>d r. release (rs_id r) Canceled d) db ?rows = Inr db1"
      and db': "db' = db1\<lparr>db_reservations := map doubt_forwarding (db_reservations db1)\<rparr>"
    using assms(1) by (auto simp: recover_def doubt_forwarding_def [abs_def])
  have l: "db_inv db1 \<and> db_moves db db1"
    using selected_rows [OF assms(2)]
    by (intro release_loop [OF loop assms(2)]) (auto simp: active_status_def status_le_def)
  have fwd: "db_moves db1 db'"
    by (simp add: db_moves_def db' find_doubted)
  have canceled: "\<exists>r'. find_reservation db1 i = Some r' \<and> rs_status r' = Canceled"
    if "find_reservation db i = Some r" "rs_status r = Reserved" for i r
  proof -
    have "i \<in> rs_id ` set ?rows"
      using that find_reservation_id [OF that(1)] by (force simp: find_reservation_def find_Some_iff)
    then show ?thesis
      using release_loop_status [OF loop] that(1) by blast
  qed
  have "\<forall>r \<in> set (db_reservations db'). rs_status r \<noteq> Forwarding"
    by (auto simp: db' doubt_forwarding_def)
  moreover have "\<exists>r'. find_reservation db' i = Some r' \<and> rs_status r' = Canceled"
    if ir: "find_reservation db i = Some r" "rs_status r = Reserved" for i r
  proof -
    obtain r' where "find_reservation db1 i = Some r'" "rs_status r' = Canceled"
      using canceled [OF ir] by blast
    then show ?thesis by (simp add: db' find_doubted) (simp add: doubt_forwarding_def)
  qed
  ultimately show ?thesis
    using l fwd doubt_inv db' by (blast intro: db_moves_trans)
qed

text \<open>What a successful start leaves in the store.\<close>

lemma start_ledger_Inr:
  assumes "start_ledger h v reading nonce s = (s', Inr u)"
  shows "\<exists>m'. db_meta (ld_db s') = Some m' \<and> budget_policy_digest h (ld_policy s) = Inr (me_digest m') \<and>
    me_generation m' = ld_generation s' \<and> me_nonce m' = nonce \<and>
    ld_policy s' = ld_policy s \<and> ld_nonce s' = nonce \<and>
    (case db_meta (ld_db s) of
       None \<Rightarrow> ld_db s' = (ld_db s)\<lparr>db_meta := Some m'\<rparr> \<and> ld_generation s' = 1
     | Some m \<Rightarrow> ld_generation s' = me_generation m + 1 \<and> me_last m \<le> me_last m' \<and>
         (\<exists>db. recover (ld_db s) = Inr db \<and> ld_db s' = db\<lparr>db_meta := Some m'\<rparr>))"
proof -
  let ?pre = "\<lambda>now. s\<lparr>ld_issued := [], ld_executors := [], ld_tickets := [], ld_nonce := nonce, ld_clock := now\<rparr>"
  let ?body = "\<lambda>now. op_bind (op_read (\<lambda>s. budget_policy_digest h (ld_policy s))) (\<lambda>d.
     op_bind (op_get id) (\<lambda>s. case db_meta (ld_db s) of
         None \<Rightarrow> op_modify (write_meta d 1 nonce now)
       | Some m \<Rightarrow>
           op_bind (require (recovery_allowed (ld_policy s) d now m)
             ''budget.recovery_policy_or_clock_mismatch'') (\<lambda>_.
           op_bind (op_lift (counter (me_generation m + 1) ''budget_generation'')) (\<lambda>generation.
           op_bind (on_db recover) (\<lambda>_. op_modify (write_meta d generation nonce now))))))"
  obtain now s1 where now: "timestamp reading = Inr now"
      and body: "?body now (?pre now) = (s1, Inr u)" and s': "s' = ledger_commit (?pre now) s1"
    using assms
    by (auto simp: start_ledger_def op_bind_Inr_iff [where m = "op_read f" for f]
        op_bind_Inr_iff [where m = "op_lift f" for f] op_bind_Inr_iff [where m = "op_modify f" for f]
        dest!: ledger_store.trans_Inr)
  from body obtain d where d: "budget_policy_digest h (ld_policy s) = Inr d"
    by (auto simp: op_bind_Inr_iff)
  show ?thesis
  proof (cases "db_meta (ld_db s)")
    case None
    with body d s' show ?thesis
      by (auto simp: op_bind_Inr_iff write_meta_def ledger_commit_def)
  next
    case (Some m)
    with body d obtain db where rec: "recover (ld_db s) = Inr db"
        and s1: "s1 = write_meta d (me_generation m + 1) nonce now ((?pre now)\<lparr>ld_db := db\<rparr>)"
        and "recovery_allowed (ld_policy s) d now m"
      by (auto simp: op_bind_Inr_iff require_def on_db_def split: sum.splits)
    with Some d s' show ?thesis
      by (simp add: write_meta_def ledger_commit_def recovery_allowed_def)
  qed
qed

section \<open>Fencing\<close>

text \<open>The stored coordinator is another one than this ledger.\<close>

definition fenced :: "ledger \<Rightarrow> bool" where
  "fenced s = (case db_meta (ld_db s) of None \<Rightarrow> False
     | Some m \<Rightarrow> me_generation m \<noteq> ld_generation s)"

definition stays_fenced :: "budget_db \<Rightarrow> ledger \<Rightarrow> bool" where
  "stays_fenced db s = (ld_db s = db \<and> fenced s)"

lemma meta_fenced:
  assumes "fenced s"
  shows "\<exists>e. ledger_meta h reading s = (s, Inl e)"
  using assms
  by (cases "budget_policy_digest h (ld_policy s)")
    (auto simp: ledger_meta_def op_bind_def op_defs fenced_def meta_check_def ensure_def
      split: option.splits)

lemma current_fenced:
  assumes "fenced s"
  shows "\<exists>e. require_current h s = (s, Inl e)"
  using assms
  by (cases "budget_policy_digest h (ld_policy s)")
    (auto simp: require_current_def op_bind_def op_defs fenced_def meta_check_def ensure_def
      split: option.splits)

lemma transaction_fenced:
  assumes "\<And>s. fenced s \<Longrightarrow> \<exists>e. m s = (s, Inl e)"
  shows "keeps (stays_fenced db) (transaction (op_bind m f))"
proof (rule keepsI)
  fix s assume s: "stays_fenced db s"
  then obtain e where "m s = (s, Inl e)"
    using assms by (auto simp: stays_fenced_def)
  then have body: "op_bind m f s = (s, Inl e)"
    by (simp add: op_bind_def)
  show "stays_fenced db (fst (transaction (op_bind m f) s))"
    by (rule ledger_store.trans_inv)
      (use s body in \<open>auto simp: stays_fenced_def fenced_def ledger_commit_def ledger_rollback_def
        split: option.splits\<close>)
qed

lemma keeps_fenced:
  "keeps (stays_fenced db) (transaction (op_bind (ledger_meta h reading) f))"
  "keeps (stays_fenced db) (transaction (op_bind (require_current h) g))"
  "keeps (stays_fenced db) (on_registry v m)"
  "keeps (stays_fenced db) (on_observations m')"
  using transaction_fenced meta_fenced current_fenced
  by (blast, blast)
    (auto simp: keeps_def on_registry_def on_observations_def stays_fenced_def fenced_def
      split: prod.splits option.splits)

lemma keeps_fenced_modify:
  "(\<And>s. ld_db (k s) = ld_db s \<and> ld_generation (k s) = ld_generation s) \<Longrightarrow>
     keeps (stays_fenced db) (op_modify k)"
  by (auto intro!: keeps_modify simp: stays_fenced_def fenced_def split: option.splits)

lemma keeps_fenced_scopes: "keeps (stays_fenced db) (ledger_scopes h c rtime)"
  unfolding ledger_scopes_def by (intro keeps_rules keeps_fenced)

lemma keeps_fenced_reserve: "keeps (stays_fenced db) (reserve h q rtime reading uuid)"
proof -
  have "keeps (stays_fenced db) (transaction (admission h q b r p a c k d uuid reading))" for b r p a c k d
    unfolding admission_def by (rule keeps_fenced)
  then show ?thesis
    unfolding reserve_def require_def
    by (intro keeps_rules keeps_fenced_scopes)
      (auto intro!: keeps_rules keeps_fenced_scopes keeps_fenced_modify
        simp: publish_def split: option.splits prod.splits)
qed

lemma keeps_fenced_exec: "keeps (stays_fenced db) (ledger_exec h c)"
  by (cases c)
    (auto simp: op_ignore_def begin_forward_def cancel_def expire_def mark_uncertain_def commit_def
      reconcile_def budget_report_def reservation_state_def audit_page_def snapshot_digest_def
      authority_binding_digest_def for_registry_def bind_executor_def forge_ticket_def
      intro!: keeps_rules keeps_fenced keeps_fenced_scopes keeps_fenced_reserve keeps_fenced_modify)

lemma run_fenced:
  assumes "fenced s"
  shows "ld_db (foldl (ledger_step h) s cs) = ld_db s"
proof -
  have "stays_fenced (ld_db s) (foldl (ledger_step h) s cs)"
    using assms keeps_fenced_exec
    by (induction cs rule: rev_induct) (auto simp: stays_fenced_def ledger_step_def keeps_def)
  then show ?thesis by (simp add: stays_fenced_def)
qed

section \<open>Properties\<close>

text \<open>C7: In every run of the ledger that starts from consistent tables, what each bucket holds is
  exactly the sum of the amounts of its items in reservations that are reserved, forwarding or
  uncertain, and no counter of a bucket is ever negative.\<close>

theorem ledger_holds_conserved:
  assumes "db_inv (ld_db s)" and "b \<in> set (db_buckets (ld_db (foldl (ledger_step h) s calls)))"
  shows "bk_held b = hold_sum (ld_db (foldl (ledger_step h) s calls)) (bk_key b) \<and> bucket_checks b"
proof -
  have "db_inv (ld_db (foldl (ledger_step h) s calls))"
    by (rule ledger_runs.run_inv) (rule assms(1))
  then show ?thesis using assms(2) by (simp add: db_inv_def)
qed

text \<open>C24: In every run of the ledger a reservation only moves forward in its life cycle and is
  never deleted or rewritten: a canceled, expired, released or overrun reservation stays as it
  is, a forwarded one is never reserved, canceled or expired again, and the request it stands
  for never changes.\<close>

theorem reservation_life_cycle:
  assumes "db_inv (ld_db s)" and "find_reservation (ld_db s) i = Some r"
  shows "\<exists>r'. find_reservation (ld_db (foldl (ledger_step h) s calls)) i = Some r' \<and> row_moves r r'"
  using led_moves [OF ledger_run_prims assms(1)] assms(2) by (auto simp: db_moves_def)

text \<open>C17: Starting a new coordinator on a store fences the previous one: whatever calls are made
  on the old ledger afterwards, it changes nothing in the store.\<close>

theorem started_coordinator_fences_previous:
  assumes "start_ledger h v reading nonce s1 = (s1', Inr u)"
    and "db_meta (ld_db s1) = Some m" and "me_generation m = ld_generation old"
  shows "ld_db (foldl (ledger_step h) (old\<lparr>ld_db := ld_db s1'\<rparr>) calls) = ld_db s1'"
proof -
  have "fenced (old\<lparr>ld_db := ld_db s1'\<rparr>)"
    using start_ledger_Inr [OF assms(1)] assms(2,3) by (auto simp: fenced_def)
  then show ?thesis using run_fenced by fastforce
qed

text \<open>C25: A coordinator started on existing history keeps the tables consistent and every row,
  never revives a reservation: what was reserved is canceled and its hold released, and
  nothing is left in forwarding (it is uncertain until settled).\<close>

theorem recovery_releases_only_unforwarded:
  assumes "start_ledger h v reading nonce s = (s', Inr u)" and "db_meta (ld_db s) = Some m"
    and "db_inv (ld_db s)"
  shows "db_inv (ld_db s') \<and> db_moves (ld_db s) (ld_db s') \<and>
    (\<forall>i r. find_reservation (ld_db s) i = Some r \<longrightarrow> rs_status r = Reserved \<longrightarrow>
       (\<exists>r'. find_reservation (ld_db s') i = Some r' \<and> rs_status r' = Canceled)) \<and>
    (\<forall>r \<in> set (db_reservations (ld_db s')). rs_status r \<noteq> Forwarding)"
proof -
  obtain m' db where db: "recover (ld_db s) = Inr db" "ld_db s' = db\<lparr>db_meta := Some m'\<rparr>"
    using start_ledger_Inr [OF assms(1)] assms(2) by auto
  from recover_Inr [OF db(1) assms(3)] show ?thesis
    by (simp add: db(2) db_moves_def find_reservation_def)
qed

section \<open>Sample runs\<close>

definition sample_row :: reservation_row where
  "sample_row = \<lparr>rs_id = ''r'', rs_key = ''k'', rs_context = ''d'', rs_action = ''d'',
     rs_costs = ''d'', rs_epoch = 0, rs_generation = 1, rs_status = Reserved, rs_expires = 60,
     rs_settlement = None\<rparr>"

definition sample_db :: budget_db where
  "sample_db = \<lparr>db_meta = Some \<lparr>me_digest = ''d'', me_epoch = 0, me_generation = 1,
       me_nonce = ''n'', me_last = 1\<rparr>,
     db_buckets = [\<lparr>bk_key = ''b'', bk_metric = ''tokens'', bk_held = 2, bk_consumed = 1,
       bk_observed = 1, bk_observations = 1, bk_blocked = - 1\<rparr>],
     db_reservations = [sample_row],
     db_items = [\<lparr>it_reservation = ''r'', it_bucket = ''b'', it_metric = ''tokens'',
       it_amount = 2\<rparr>]\<rparr>"

text \<open>A ledger with one open reservation, on a registry of one enrolled agent.\<close>

definition sample_ledger :: ledger where
  "sample_ledger = \<lparr>ld_registries = [sample_host], ld_policy = sample_budget, ld_operator = 0,
     ld_db = sample_db, ld_allow = False, ld_observations = None, ld_issued = [],
     ld_executors = [], ld_generation = 1, ld_nonce = ''n'', ld_clock = 1, ld_tickets = []\<rparr>"

lemma sample_policy_digest: "budget_policy_digest budget_env sample_budget = Inr ''d''"
proof -
  have "budget_policy_post_init sample_budget = Inr ()"
    by code_simp
  then show ?thesis by (simp add: budget_policy_digest_def digest_def budget_env_def)
qed

lemma sample_db_inv: "db_inv sample_db"
  by (simp add: db_inv_def sample_db_def sample_row_def find_reservation_def find_bucket_def
      bucket_checks_def hold_sum_def item_active_def active_status_def)

text \<open>The reservation expires.\<close>

definition expired_db :: budget_db where
  "expired_db = sample_db\<lparr>
     db_meta := map_option (\<lambda>m. m\<lparr>me_last := 70\<rparr>) (db_meta sample_db),
     db_buckets := map (\<lambda>b. b\<lparr>bk_held := 0\<rparr>) (db_buckets sample_db),
     db_reservations := [sample_row\<lparr>rs_status := Expired\<rparr>]\<rparr>"

lemma sample_expiry:
  "ld_db (foldl (ledger_step budget_env) sample_ledger [ForgeTicket ''r'', ExpireAll (HFloat (Float 70))]) =
     expired_db"
  by (simp add: ledger_step_def expire_def transaction_def store_usable_def history_ok_def
      op_ignore_def op_bind_def op_defs ledger_meta_def ledger_tick_def ledger_expire_def
      sample_policy_digest forge_ticket_def sample_ledger_def meta_check_def
      expire_rows_def release_def charge_items_def update_bucket_def update_reservation_def
      bucket_checks_def items_of_def timestamp_def last_seen_def set_last_def ledger_commit_def
      expired_db_def sample_db_def sample_row_def)

lemma ledger_holds_conserved_witness:
  "\<exists>b \<in> set (db_buckets expired_db). bk_key b = ''b'' \<and> bk_consumed b = 1 \<and>
     bk_held b = hold_sum expired_db ''b''"
proof -
  obtain b where b: "b \<in> set (db_buckets expired_db)" "bk_key b = ''b''" "bk_consumed b = 1"
    by (simp add: expired_db_def sample_db_def)
  then show ?thesis
    using ledger_holds_conserved [of sample_ledger b budget_env "[ForgeTicket ''r'', ExpireAll (HFloat (Float 70))]"]
      sample_db_inv by (simp only: sample_expiry) (force simp add: sample_ledger_def)
qed

lemma reservation_life_cycle_witness:
  "\<exists>r'. find_reservation expired_db ''r'' = Some r' \<and> row_moves sample_row r'"
  using reservation_life_cycle [of sample_ledger "''r''" sample_row budget_env
      "[ForgeTicket ''r'', ExpireAll (HFloat (Float 70))]"] sample_db_inv
  by (simp only: sample_expiry) (simp add: sample_ledger_def sample_db_def sample_row_def find_reservation_def)

definition restarted :: ledger where
  "restarted = fst (start_ledger budget_env 0 (HFloat (Float 2)) ''n2'' sample_ledger)"

lemma sample_restart: "start_ledger budget_env 0 (HFloat (Float 2)) ''n2'' sample_ledger = (restarted, Inr ())"
  unfolding restarted_def
  by (simp add: start_ledger_def transaction_def store_usable_def history_ok_def op_bind_def op_defs
      sample_policy_digest sample_ledger_def sample_host_def sample_registry_def timestamp_def
      recovery_allowed_def require_def counter_def on_db_def recover_def release_def charge_items_def
      update_bucket_def update_reservation_def bucket_checks_def items_of_def sample_db_def
      sample_row_def write_meta_def) (simp add: sample_budget_def)

lemma started_coordinator_fences_previous_witness:
  "ld_db (foldl (ledger_step budget_env) (sample_ledger\<lparr>ld_db := ld_db restarted\<rparr>)
     [ExpireAll (HFloat (Float 70))]) = ld_db restarted"
  by (rule started_coordinator_fences_previous [OF sample_restart, where m = "the (db_meta sample_db)"])
    (simp_all add: sample_ledger_def sample_db_def)

lemma recovery_releases_only_unforwarded_witness:
  "\<exists>r'. find_reservation (ld_db restarted) ''r'' = Some r' \<and> rs_status r' = Canceled"
  using recovery_releases_only_unforwarded [OF sample_restart, where m = "the (db_meta sample_db)"]
    sample_db_inv
  by (simp add: sample_ledger_def) (simp add: sample_db_def find_reservation_def sample_row_def)

end
