(* ===== verification/Budget_Admission.thy ===== *)
theory Budget_Admission
  imports Budget_Safety
begin

text \<open>
  Admission of the budget ledger: what \<^verbatim>\<open>BudgetLedger.reserve\<close> does to the buckets when it
  admits a new reservation, and what it does when a request is retried.
\<close>

section \<open>Lemmas: admission\<close>

lemma find_append: "find P (xs @ ys) = (case find P xs of None \<Rightarrow> find P ys | Some x \<Rightarrow> Some x)"
  by (induction xs) auto

definition held_of :: "budget_db \<Rightarrow> string \<Rightarrow> int" where
  "held_of db k = (case find_bucket db k of None \<Rightarrow> 0 | Some r \<Rightarrow> bk_held r)"

definition consumed_of :: "budget_db \<Rightarrow> string \<Rightarrow> int" where
  "consumed_of db k = (case find_bucket db k of None \<Rightarrow> 0 | Some r \<Rightarrow> bk_consumed r)"

lemma find_insert_bucket:
  "find_bucket (insert_bucket k metric db) j =
     (if j = k \<and> find_bucket db k = None
      then Some \<lparr>bk_key = k, bk_metric = metric, bk_held = 0, bk_consumed = 0, bk_observed = 0,
        bk_observations = 0, bk_blocked = - 1\<rparr>
      else find_bucket db j)"
  by (auto simp: insert_bucket_def find_bucket_def find_append split: option.splits)

lemma find_update_bucket:
  assumes "update_bucket k f db = Inr db'" "\<And>b. bk_key (f b) = bk_key b"
  shows "find_bucket db' j = map_option (\<lambda>b. if bk_key b = k then f b else b) (find_bucket db j)"
  using update_bucket_Inr [OF assms(1)]
  by (simp add: find_bucket_def find_map_key [where k = bk_key] assms(2))

lemma insert_item_Inr: "insert_item it db = Inr db' \<Longrightarrow> db' = db\<lparr>db_items := db_items db @ [it]\<rparr>"
  by (auto simp: insert_item_def split: if_splits)

lemma charge_insert_find:
  assumes "charge_insert i db (k, metric, amount) = Inr db'"
  shows "find_bucket db' j = (case find_bucket db j of
      None \<Rightarrow> if j = k then Some \<lparr>bk_key = k, bk_metric = metric, bk_held = amount, bk_consumed = 0,
        bk_observed = 0, bk_observations = 0, bk_blocked = - 1\<rparr> else None
    | Some r \<Rightarrow> Some (if j = k then r\<lparr>bk_held := bk_held r + amount\<rparr> else r))"
proof -
  obtain db1 where up: "update_bucket k (\<lambda>b. b\<lparr>bk_held := bk_held b + amount\<rparr>)
        (insert_bucket k metric db) = Inr db1"
      and ins: "insert_item \<lparr>it_reservation = i, it_bucket = k, it_metric = metric, it_amount = amount\<rparr>
        db1 = Inr db'"
    using assms by (auto simp: charge_insert_def)
  have "find_bucket db' j = map_option (\<lambda>b. if bk_key b = k
      then b\<lparr>bk_held := bk_held b + amount\<rparr> else b) (find_bucket (insert_bucket k metric db) j)"
    using find_update_bucket [OF up] insert_item_Inr [OF ins] by (simp add: find_bucket_def)
  then show ?thesis
    by (cases "j = k"; cases "find_bucket db j")
      (simp_all add: find_insert_bucket find_bucket_key)
qed

lemma charge_insert_held:
  assumes "charge_insert i db (k, metric, amount) = Inr db'"
  shows "find_bucket db' k \<noteq> None" "held_of db' j = held_of db j + (if j = k then amount else 0)"
    "consumed_of db' j = consumed_of db j" "find_bucket db j \<noteq> None \<longrightarrow> find_bucket db' j \<noteq> None"
  by (simp_all add: held_of_def consumed_of_def charge_insert_find [OF assms] split: option.split)

lemma charge_loop_find:
  assumes "res_foldM (charge_insert i) db charges = Inr db'" "distinct (map fst charges)"
  shows "consumed_of db' j = consumed_of db j"
    and "j \<notin> fst ` set charges \<Longrightarrow> held_of db' j = held_of db j"
    and "find_bucket db j \<noteq> None \<Longrightarrow> find_bucket db' j \<noteq> None"
    and "(j, m, a) \<in> set charges \<Longrightarrow> find_bucket db' j \<noteq> None \<and> held_of db' j = held_of db j + a"
  using assms
proof (induction charges arbitrary: db)
  case (Cons c charges)
  obtain k n x where c: "c = (k, n, x)" by (cases c)
  {
    case 1
    then show ?case
      using Cons.IH(1) by (auto simp: c charge_insert_held)
  next
    case 2
    then show ?case
      using Cons.IH(2) by (auto simp: c charge_insert_held)
  next
    case 3
    then show ?case
      using Cons.IH(3) by (auto simp: c dest!: charge_insert_held(4))
  next
    case 4
    then obtain d where d: "charge_insert i db (k, n, x) = Inr d"
        "res_foldM (charge_insert i) d charges = Inr db'" "distinct (map fst charges)"
        "k \<notin> fst ` set charges"
      by (auto simp: c)
    note first = charge_insert_held [OF d(1)]
    show ?case
    proof (cases "j = k")
      case True
      with 4 d(4) have "a = x" by (force simp: c)
      then show ?thesis
        using Cons.IH(2,3) [OF _ d(2,3)] d(4) first True by simp
    next
      case False
      with 4 have "(j, m, a) \<in> set charges" by (simp add: c)
      then show ?thesis
        using Cons.IH(4) [OF _ d(2,3)] first(2) [of j] False by simp
    qed
  }
qed simp_all

lemma compute_charge_Inr:
  assumes "compute_charge p db resolved b = Inr c"
  shows "\<exists>amount. c = (bu_key b, bucket_metric b, amount) \<and>
    known_cost resolved (bucket_metric b) = Some amount \<and>
    held_of db (bu_key b) + consumed_of db (bu_key b) + amount \<le> bucket_maximum b \<and>
    (\<forall>r. find_bucket db (bu_key b) = Some r \<longrightarrow> bk_blocked r < bp_epoch p)"
  using assms
  by (auto simp: compute_charge_def held_of_def consumed_of_def Let_def split: option.splits if_splits)

lemma insert_reservation_buckets:
  "insert_reservation row db = Inr db' \<Longrightarrow> find_bucket db' k = find_bucket db k"
  by (auto simp: insert_reservation_def find_bucket_def split: if_splits)

lemma admit_within:
  assumes "res_mapM (compute_charge p db resolved) buckets = Inr charges"
    "distinct (map bu_key buckets)" "admit row charges db = Inr db'"
  shows "\<forall>b \<in> set buckets. \<exists>r amount. find_bucket db' (bu_key b) = Some r \<and>
    known_cost resolved (bucket_metric b) = Some amount \<and>
    bk_held r = held_of db (bu_key b) + amount \<and> bk_held r + bk_consumed r \<le> bucket_maximum b"
proof
  fix b assume b: "b \<in> set buckets"
  obtain db1 where ins: "insert_reservation row db = Inr db1"
      and run: "res_foldM (charge_insert (rs_id row)) db1 charges = Inr db'"
    using assms(3) by (auto simp: admit_def)
  have "list_all2 (\<lambda>b c. compute_charge p db resolved b = Inr c) buckets charges"
    using assms(1) by (simp only: res_mapM_Inr_iff)
  then have "list_all2 (\<lambda>b c. bu_key b = fst c) buckets charges"
    by (rule list_all2_mono) (use compute_charge_Inr in fastforce)
  then have "map fst charges = map bu_key buckets"
    by (induction rule: list_all2_induct) simp_all
  then have "distinct (map fst charges)" using assms(2) by simp
  note loop = charge_loop_find [OF run this]
  obtain c where c: "c \<in> set charges" "compute_charge p db resolved b = Inr c"
    using res_mapM_Inr_mem [OF assms(1) b] by auto
  obtain amount where amount: "c = (bu_key b, bucket_metric b, amount)"
      "known_cost resolved (bucket_metric b) = Some amount"
      "held_of db (bu_key b) + consumed_of db (bu_key b) + amount \<le> bucket_maximum b"
    using compute_charge_Inr [OF c(2)] by blast
  have same: "held_of db1 j = held_of db j" "consumed_of db1 j = consumed_of db j" for j
    by (simp_all add: held_of_def consumed_of_def insert_reservation_buckets [OF ins])
  have "find_bucket db' (bu_key b) \<noteq> None \<and> held_of db' (bu_key b) = held_of db (bu_key b) + amount"
    using loop(4) c(1) amount(1) same by simp
  moreover have "consumed_of db' (bu_key b) = consumed_of db (bu_key b)"
    using loop(1) same by simp
  ultimately show "\<exists>r amount. find_bucket db' (bu_key b) = Some r \<and>
    known_cost resolved (bucket_metric b) = Some amount \<and>
    bk_held r = held_of db (bu_key b) + amount \<and> bk_held r + bk_consumed r \<le> bucket_maximum b"
    using amount(2,3) by (auto simp: held_of_def [of db'] consumed_of_def [of db'])
qed

text \<open>Housekeeping before admission changes no row's identity.\<close>

lemma release_ids:
  "release i st db = Inr db' \<Longrightarrow> map rs_id (db_reservations db') = map rs_id (db_reservations db)"
  by (auto simp: update_reservation_def comp_def dest!: release_Inr)

lemma expire_ids:
  assumes "expire_rows now db = Inr (db', n)"
  shows "map rs_id (db_reservations db') = map rs_id (db_reservations db)"
proof -
  have "res_foldM (\<lambda>d r. release (rs_id r) Expired d) db
      (filter (\<lambda>r. rs_status r = Reserved \<and> rs_expires r \<le> now) (db_reservations db)) = Inr db'"
    using assms by (simp add: expire_rows_def Let_def)
  then show ?thesis
    by (rule res_foldM_keeps) (auto dest: release_ids)
qed

lemma meta_Inr:
  assumes "ledger_meta h reading s = (s', Inr now)"
  shows "s' = set_last now s \<and> last_seen s \<le> now \<and> (\<exists>d. budget_policy_digest h (ld_policy s) = Inr d \<and> meta_check s d)"
  using assms by (auto simp: ledger_meta_def ledger_tick_def op_bind_Inr_iff)

lemma set_last_simps [simp]:
  "db_reservations (ld_db (set_last now s)) = db_reservations (ld_db s)"
  "db_buckets (ld_db (set_last now s)) = db_buckets (ld_db s)"
  "ld_policy (set_last now s) = ld_policy s" "ld_registries (set_last now s) = ld_registries s"
  "ld_tickets (set_last now s) = ld_tickets s" "ld_issued (set_last now s) = ld_issued s"
  "ld_generation (set_last now s) = ld_generation s"
  by (simp_all add: set_last_def)

lemma ledger_expire_Inr:
  "ledger_expire now s = (s', Inr n) \<longleftrightarrow>
     (\<exists>db. expire_rows now (ld_db s) = Inr (db, n) \<and> s' = s\<lparr>ld_db := db\<rparr>)"
  by (auto simp: ledger_expire_def split: sum.splits)

lemma on_db_Inr:
  "on_db f s = (s', Inr u) \<longleftrightarrow> (\<exists>db. f (ld_db s) = Inr db \<and> s' = s\<lparr>ld_db := db\<rparr>)"
  by (auto simp: on_db_def split: sum.splits)

lemma fresh_Inr:
  "op_bind (require b code) (\<lambda>_. op_bind (op_lift r) (\<lambda>charges. op_bind (on_db (f charges)) (\<lambda>_.
     op_bind (op_modify k) (\<lambda>_. op_return x)))) s = (s', Inr y) \<longleftrightarrow>
   b \<and> (\<exists>charges db. r = Inr charges \<and> f charges (ld_db s) = Inr db \<and> s' = k (s\<lparr>ld_db := db\<rparr>) \<and> y = x)"
  by (auto simp: op_bind_Inr_iff require_def on_db_Inr)

text \<open>The two ways an admission succeeds: the same request again, or a new reservation.\<close>

lemma admission_Inr:
  assumes "admission h q buckets resolved physical action_d context_d key cost_d uuid reading s =
    (s', Inr (t, staged))"
  shows "ld_policy s' = ld_policy s \<and> ld_registries s' = ld_registries s \<and> ld_issued s' = ld_issued s \<and>
    (\<exists>now db n. expire_rows now (ld_db (set_last now s)) = Inr (db, n) \<and>
    ((staged = None \<and> ld_db s' = db \<and> ld_tickets s' = ld_tickets s \<and>
        (\<exists>row b. row \<in> set (db_reservations db) \<and> rs_key row = key \<and>
        rs_status row = Reserved \<and> rs_context row = context_d \<and> rs_action row = action_d \<and>
        rs_costs row = cost_d \<and> map_of (ld_issued s) (rs_id row) = Some b \<and> t = bi_ticket b)) \<or>
     (ld_tickets s' = ld_tickets s @ [uuid] \<and> t = length (ld_tickets s) \<and> (\<exists>charges row.
        res_mapM (compute_charge (ld_policy s) db resolved) buckets = Inr charges \<and>
        rs_id row = uuid \<and> admit row charges db = Inr (ld_db s')))))"
  using assms unfolding admission_def
proof (elim op_bindE)
  fix s1 now s2 n s3 s4
  assume meta: "ledger_meta h reading s = (s1, Inr now)"
    and ex: "ledger_expire now s1 = (s2, Inr n)"
    and get: "op_get id s2 = (s3, Inr s4)"
    and rest: "(case find (\<lambda>r. rs_key r = key) (db_reservations (ld_db s4)) of
       None \<Rightarrow>
         op_bind (require (\<not> int (length (db_reservations (ld_db s4))) \<ge> bp_capacity (ld_policy s4))
           ''budget.history_capacity_reached'') (\<lambda>_.
         op_bind (op_lift (res_mapM (compute_charge (ld_policy s4) (ld_db s4) resolved) buckets))
           (\<lambda>charges.
         op_bind (on_db (admit \<lparr>rs_id = uuid, rs_key = key, rs_context = context_d,
             rs_action = action_d, rs_costs = cost_d, rs_epoch = bp_epoch (ld_policy s4),
             rs_generation = ld_generation s4, rs_status = Reserved,
             rs_expires = now + number_value (bp_lifetime (ld_policy s4)),
             rs_settlement = None\<rparr> charges)) (\<lambda>_.
         op_bind (op_modify (\<lambda>s. s\<lparr>ld_tickets := ld_tickets s @ [uuid]\<rparr>)) (\<lambda>_.
         op_return (length (ld_tickets s4), Some (uuid,
           \<lparr>bi_ticket = length (ld_tickets s4), bi_registry = ca_view (rq_caller q),
            bi_context = context_d, bi_action = action_d, bi_generation = ld_generation s4,
            bi_executor = (if bp_physical (ld_policy s4) then rq_executor q else None),
            bi_costs = physical\<rparr>))))))
     | Some previous \<Rightarrow>
         (case same_request s4 previous context_d action_d cost_d of
            None \<Rightarrow> rejected ''budget.idempotency_conflict_or_consumed''
          | Some b \<Rightarrow> op_return (bi_ticket b, None))) s3 = (s', Inr (t, staged))"
  have s1: "s1 = set_last now s" using meta_Inr [OF meta] by simp
  obtain db where db: "expire_rows now (ld_db (set_last now s)) = Inr (db, n)"
      and s2: "s2 = (set_last now s)\<lparr>ld_db := db\<rparr>"
    using ex by (auto simp: ledger_expire_Inr s1)
  have s34: "s3 = s2" "s4 = s2" using get by simp_all
  show ?thesis
  proof (cases "find (\<lambda>r. rs_key r = key) (db_reservations db)")
    case (Some previous)
    then have "previous \<in> set (db_reservations db)" "rs_key previous = key"
      by (auto simp: find_Some_iff)
    with Some rest db show ?thesis
      by (auto simp: s34 s2 same_request_def split: option.splits if_splits)
  next
    case None
    let ?row = "\<lparr>rs_id = uuid, rs_key = key, rs_context = context_d,
        rs_action = action_d, rs_costs = cost_d, rs_epoch = bp_epoch (ld_policy s),
        rs_generation = ld_generation s, rs_status = Reserved,
        rs_expires = now + number_value (bp_lifetime (ld_policy s)), rs_settlement = None\<rparr>"
    from rest None
    obtain charges db' where c: "res_mapM (compute_charge (ld_policy s) db resolved) buckets = Inr charges"
        "admit ?row charges db = Inr db'" "t = length (ld_tickets s)"
        "s' = (set_last now s)\<lparr>ld_db := db', ld_tickets := ld_tickets s @ [uuid]\<rparr>"
      by (simp add: s34 s2 fresh_Inr) blast
    have "rs_id ?row = uuid \<and> ld_db s' = db'" by (simp add: c(4))
    then have new: "\<exists>charges row. res_mapM (compute_charge (ld_policy s) db resolved) buckets = Inr charges \<and>
        rs_id row = uuid \<and> admit row charges db = Inr (ld_db s')"
      using c(1,2) by metis
    have "ld_policy s' = ld_policy s" "ld_registries s' = ld_registries s" "ld_issued s' = ld_issued s"
        "ld_tickets s' = ld_tickets s @ [uuid]"
      by (simp_all add: c(4))
    with new db c(3) show ?thesis by blast
  qed
qed

lemma ledger_scopes_Inr:
  assumes "ledger_scopes h c rtime s = (s', Inr scopes)"
  shows "(\<exists>rs. s' = s\<lparr>ld_registries := rs\<rparr>) \<and>
    scopes_of (ld_registries s' ! ca_view c) (ca_context c) = Inr scopes"
  using assms unfolding ledger_scopes_def
  by (elim op_bindE) (auto simp: on_registry_def split: prod.splits)

text \<open>A successful reservation, step by step.\<close>

lemma reserve_Inr:
  assumes "reserve h q rtime reading uuid s = (s', Inr t)"
  obtains s1 scopes buckets given resolved s2 staged where
    "ledger_scopes h (rq_caller q) rtime s = (s1, Inr scopes)"
    "select_budget_buckets h (ld_policy s1) (caller_context s1 (rq_caller q)) scopes = Inr buckets"
    "resolve_budget_costs buckets (rq_costs q) (rq_effects q) = Inr (given, resolved)"
    "admission h q buckets resolved
       (map (\<lambda>m. \<lparr>bc_metric = m, bc_amount = known_cost resolved m\<rparr>)
         (sort (remdups (map bucket_metric buckets))))
       (digest h (ac_dict (rq_action q))) (context_digest_of h (caller_context s1 (rq_caller q)))
       (digest h (JArr [JStr (id_tenant (sc_identity (caller_context s1 (rq_caller q)))),
         JStr (rq_key q)]))
       (digest h (costs_json given (rq_effects q))) uuid reading s1 = (s2, Inr (t, staged))"
    "s' = publish staged (ledger_commit s1 s2)"
  using assms unfolding reserve_def require_def
  by (elim op_bindE, clarsimp simp del: id_apply, elim op_bindE) 
    (auto elim!: op_bindE dest!: ledger_store.trans_Inr intro: that)

lemma publish_simps [simp]:
  "ld_db (publish staged s) = ld_db s" "ld_tickets (publish staged s) = ld_tickets s"
  "ld_registries (publish staged s) = ld_registries s" "ld_policy (publish staged s) = ld_policy s"
  "ld_generation (publish staged s) = ld_generation s" "ld_nonce (publish staged s) = ld_nonce s"
  "ld_allow (publish staged s) = ld_allow s" "ld_clock (publish staged s) = ld_clock s"
  by (simp_all add: publish_def split: option.split prod.split)

lemma ledger_commit_simps [simp]:
  "ld_db (ledger_commit s s') = ld_db s'" "ld_tickets (ledger_commit s s') = ld_tickets s'"
  "ld_registries (ledger_commit s s') = ld_registries s'"
  by (simp_all add: ledger_commit_def)

section \<open>A sample admission\<close>

text \<open>The registry of the sample ledger, its digests taken with \<open>budget_env\<close>.\<close>

definition budget_host :: registry where
  "budget_host = sample_host\<lparr>rg_agents := [(''a1'', \<lparr>ag_context = 0, ag_channel = 0,
     ag_digest = ''d'', ag_heartbeat = 1, ag_phase = Active\<rparr>)]\<rparr>"

lemma budget_host_live:
  "live_check budget_env 0 0 (Instance 7) 1 budget_host = Inr (the (agent_of budget_host ''a1''))"
  unfolding live_check_Inr_iff record_check_Inr_iff
  by (simp add: budget_host_def sample_host_def sample_registry_def plain_context_digest budget_env_def channel_check_def
      phase_at_def parents_def numeral_2_eq_2)
    (simp add: sample_context_def)

lemma budget_host_authenticates:
  "authenticate budget_env 0 0 (Instance 7) (HFloat (Float 1)) budget_host = (budget_host, Inr 0)"
  using budget_host_live
  by (simp add: authenticate_ok_iff timestamp_def budget_host_def sample_host_def sample_registry_def)

definition sample_caller :: caller where
  "sample_caller = \<lparr>ca_view = 0, ca_context = 0, ca_channel = 0, ca_adapter = Instance 7\<rparr>"

definition sample_request :: request where
  "sample_request = \<lparr>rq_caller = sample_caller, rq_action = \<lparr>ac_id = Some ''x'', ac_dict = JNull\<rparr>,
     rq_key = ''k1'', rq_costs = [], rq_effects = [], rq_executor = None, rq_proof = False\<rparr>"

definition budget_ledger :: ledger where
  "budget_ledger = sample_ledger\<lparr>ld_registries := [budget_host]\<rparr>"

lemma sample_ledger_scopes:
  "ld_registries s = [budget_host] \<Longrightarrow> ld_policy s = sample_budget \<Longrightarrow>
   ledger_scopes budget_env sample_caller (HFloat (Float 1)) s = (s, Inr sample_scopes)"
  by (simp add: ledger_scopes_def op_bind_def op_defs on_registry_def sample_caller_def budget_host_authenticates caller_context_def)
    (simp add: budget_host_def sample_host_def sample_registry_def sample_context_def sample_budget_def scopes_of_def sample_scopes_def numeral_2_eq_2)

lemma sample_caller_context: "ld_registries s = [budget_host] \<Longrightarrow> caller_context s sample_caller = sample_context"
  by (simp add: caller_context_def sample_caller_def budget_host_def sample_host_def)

lemma const_digest: "digest budget_env j = ''d''"
  by (simp add: digest_def budget_env_def)

lemma sample_buckets_found:
  "resolve_budget_costs [sample_bucket] [] [] =
     Inr ([(''requests'', Some 1), (''concurrency'', Some 1)],
       [(''requests'', Some 1), (''concurrency'', Some 1), (''tokens'', Some 2)])"
  by (simp add: resolve_budget_costs_def costs_dict_def at_least_one_def known_cost_def
      bucket_metric_def sample_bucket_def sample_limit_def limits_for_def)

lemma reserve_sample:
  assumes "ld_registries s = [budget_host]" "ld_policy s = sample_budget"
  shows "reserve budget_env sample_request (HFloat (Float 1)) reading uuid s =
   (case transaction (admission budget_env sample_request [sample_bucket]
     [(''requests'', Some 1), (''concurrency'', Some 1), (''tokens'', Some 2)]
      [\<lparr>bc_metric = ''tokens'', bc_amount = Some 2\<rparr>] ''d'' ''d'' ''d'' ''d'' uuid reading) s of
      (s', Inl e) \<Rightarrow> (s', Inl e) | (s', Inr (t, st)) \<Rightarrow> (publish st s', Inr t))"
  using assms
  by (simp add: reserve_def op_bind_def op_defs sample_request_def sample_ledger_scopes sample_caller_context require_def physical_ok_def
    sample_selection sample_buckets_found host_identifier_def id_match_def ascii_alnum_def id_char_def cp_def
    const_digest context_digest_of_def split: prod.split sum.split)
   (simp add: sample_budget_def sample_bucket_def bucket_metric_def sample_limit_def known_cost_def)

definition reserved_ledger :: ledger where
  "reserved_ledger = fst (reserve budget_env sample_request (HFloat (Float 1)) (HFloat (Float 2)) ''u'' budget_ledger)"

lemmas admission_eval = transaction_def store_usable_def history_ok_def ledger_commit_def
  op_bind_def op_defs ledger_meta_def ledger_tick_def ledger_expire_def meta_check_def
  expire_rows_def release_def charge_items_def update_bucket_def update_reservation_def
  bucket_checks_def items_of_def timestamp_def last_seen_def set_last_def require_def on_db_def

lemma sample_reserved:
  "reserve budget_env sample_request (HFloat (Float 1)) (HFloat (Float 2)) ''u'' budget_ledger =
     (reserved_ledger, Inr 0)" "ld_tickets reserved_ledger = [''u'']"
  unfolding reserved_ledger_def
  by (simp_all add: reserve_sample budget_ledger_def sample_ledger_def admission_def admission_eval
      sample_policy_digest sample_db_def sample_row_def compute_charge_def admit_def
      charge_insert_def insert_bucket_def insert_item_def insert_reservation_def find_bucket_def
      find_reservation_def known_cost_def sample_bucket_def sample_limit_def bucket_metric_def
      bucket_maximum_def publish_def)
    (simp_all add: sample_budget_def sample_limit_def)

lemmas admission_tables = sample_policy_digest sample_db_def sample_row_def compute_charge_def admit_def
  charge_insert_def insert_bucket_def insert_item_def insert_reservation_def find_bucket_def
  find_reservation_def known_cost_def sample_bucket_def sample_limit_def bucket_metric_def
  bucket_maximum_def publish_def

definition retried_ledger :: ledger where
  "retried_ledger = fst (reserve budget_env sample_request (HFloat (Float 1)) (HFloat (Float 3)) ''v'' reserved_ledger)"

lemma sample_retried:
  "reserve budget_env sample_request (HFloat (Float 1)) (HFloat (Float 3)) ''v'' reserved_ledger =
     (retried_ledger, Inr 0)" "ld_tickets retried_ledger = ld_tickets reserved_ledger"
proof -
  have "ld_registries reserved_ledger = [budget_host]" "ld_policy reserved_ledger = sample_budget"
    "ld_generation reserved_ledger = 1" "ld_nonce reserved_ledger = ''n''" "ld_allow reserved_ledger = False"
    "ld_tickets reserved_ledger = [''u'']" "ld_clock reserved_ledger = 2"
    "map_option bi_ticket (map_of (ld_issued reserved_ledger) ''u'') = Some 0"
    "db_meta (ld_db reserved_ledger) = Some \<lparr>me_digest = ''d'', me_epoch = 0, me_generation = 1,
       me_nonce = ''n'', me_last = 2\<rparr>"
    "db_reservations (ld_db reserved_ledger) = [sample_row, 
      \<lparr>rs_id = ''u'', rs_key = ''d'', rs_context = ''d'',
        rs_action = ''d'', rs_costs = ''d'', rs_epoch = 0,
        rs_generation = 1, rs_status = Reserved, rs_expires = 62, rs_settlement = None\<rparr>]"
    unfolding reserved_ledger_def
    by (simp_all add: reserve_sample budget_ledger_def sample_ledger_def admission_def admission_eval
      admission_tables)
     (simp_all add: sample_budget_def sample_limit_def number_value_def)
  then show "reserve budget_env sample_request (HFloat (Float 1)) (HFloat (Float 3)) ''v'' reserved_ledger =
     (retried_ledger, Inr 0)" "ld_tickets retried_ledger = ld_tickets reserved_ledger"
    unfolding retried_ledger_def
    by (auto simp add: reserve_sample admission_def admission_eval same_request_def
      sample_policy_digest sample_row_def publish_def)
qed

section \<open>Properties\<close>

text \<open>C2: A reservation is admitted only within every limit: when a reservation hands out a new
  ticket, then for every limit of the policy that applies to the caller's tenant, swarm, task,
  agent or any of its ancestors, the bucket of that subject ends with held plus consumed
  units at most that limit's maximum.\<close>

theorem admission_within_limits:
  assumes "reserve h q rtime reading uuid s = (s', Inr t)" and "ld_tickets s' \<noteq> ld_tickets s"
  shows "t = length (ld_tickets s) \<and> ld_tickets s' = ld_tickets s @ [uuid] \<and>
    (\<exists>scopes. scopes_of (ld_registries s' ! ca_view (rq_caller q)) (ca_context (rq_caller q)) =
        Inr scopes \<and>
      (\<forall>l \<in> set (bp_limits (ld_policy s)). \<forall>subject \<in> set (scope_subjects scopes (bl_scope l)).
         bl_subject l = None \<or> bl_subject l = Some subject \<longrightarrow>
         (\<exists>r. find_bucket (ld_db s') (bucket_digest h
              (sc_identity (caller_context s' (rq_caller q))) l subject) = Some r \<and>
            bk_held r + bk_consumed r \<le> bl_maximum l)))"
proof -
  let ?c = "rq_caller q"
  from assms(1) obtain s1 scopes buckets given resolved s2 staged where
    scopes: "ledger_scopes h ?c rtime s = (s1, Inr scopes)"
    and sel: "select_budget_buckets h (ld_policy s1) (caller_context s1 ?c) scopes = Inr buckets"
    and adm: "admission h q buckets resolved
       (map (\<lambda>m. \<lparr>bc_metric = m, bc_amount = known_cost resolved m\<rparr>)
         (sort (remdups (map bucket_metric buckets))))
       (digest h (ac_dict (rq_action q))) (context_digest_of h (caller_context s1 ?c))
       (digest h (JArr [JStr (id_tenant (sc_identity (caller_context s1 ?c))), JStr (rq_key q)]))
       (digest h (costs_json given (rq_effects q))) uuid reading s1 = (s2, Inr (t, staged))"
    and s': "s' = publish staged (ledger_commit s1 s2)"
    by (rule reserve_Inr)
  obtain rs where s1: "s1 = s\<lparr>ld_registries := rs\<rparr>"
      and sc: "scopes_of (ld_registries s1 ! ca_view ?c) (ca_context ?c) = Inr scopes"
    using ledger_scopes_Inr [OF scopes] by blast
  note a = admission_Inr [OF adm]
  obtain db charges row where new: "ld_tickets s2 = ld_tickets s1 @ [uuid]" "t = length (ld_tickets s1)"
      "res_mapM (compute_charge (ld_policy s1) db resolved) buckets = Inr charges"
      "admit row charges db = Inr (ld_db s2)"
    using a assms(2) by (auto simp: s' s1)
  have regs: "ld_registries s2 = ld_registries s1" using a by simp
  have pol: "ld_policy s1 = ld_policy s" by (simp add: s1)
  have same: "ld_db s' = ld_db s2" "caller_context s' ?c = caller_context s1 ?c"
      "ld_registries s' = ld_registries s1"
    by (simp_all add: s' regs caller_context_def)
  note buckets = selection_complete [OF sel]
  have within: "\<forall>b \<in> set buckets. \<exists>r. find_bucket (ld_db s2) (bu_key b) = Some r \<and>
      bk_held r + bk_consumed r \<le> bucket_maximum b"
    using admit_within [OF new(3) _ new(4)] buckets by blast
  have limits: "\<exists>r. find_bucket (ld_db s') (bucket_digest h (sc_identity (caller_context s' ?c)) l subject) =
        Some r \<and> bk_held r + bk_consumed r \<le> bl_maximum l"
    if l: "l \<in> set (bp_limits (ld_policy s))" "subject \<in> set (scope_subjects scopes (bl_scope l))"
      "bl_subject l = None \<or> bl_subject l = Some subject" for l subject
  proof -
    obtain b where b: "b \<in> set buckets"
        "bu_key b = bucket_digest h (sc_identity (caller_context s1 ?c)) l subject"
        "bucket_maximum b \<le> bl_maximum l"
      using buckets l unfolding pol by blast
    with within show ?thesis unfolding same by fastforce
  qed
  have "t = length (ld_tickets s)" "ld_tickets s' = ld_tickets s @ [uuid]"
    using new(1,2) by (simp_all add: s' s1)
  moreover have "scopes_of (ld_registries s' ! ca_view ?c) (ca_context ?c) = Inr scopes"
    using sc by (simp add: same(3))
  ultimately show ?thesis using limits by blast
qed

lemma admission_within_limits_witness:
  "ld_tickets reserved_ledger = ld_tickets budget_ledger @ [''u'']"
  using admission_within_limits [OF sample_reserved(1)]
  by (simp add: sample_reserved(2) budget_ledger_def sample_ledger_def)

text \<open>C26: Retrying a reservation never charges twice: when a reservation succeeds without handing
  out a new ticket, it adds no row and returns the ticket already issued for an open reservation
  of the same key, calling context, action and costs: the row carries the digests of this request's
  own key, context, action, and of its costs (requests and concurrency counted at least one) together
  with its effects.\<close>

theorem reserve_retry_same_ticket:
  assumes "reserve h q rtime reading uuid s = (s', Inr t)" and "ld_tickets s' = ld_tickets s"
  shows "map rs_id (db_reservations (ld_db s')) = map rs_id (db_reservations (ld_db s)) \<and>
    (\<exists>row \<in> set (db_reservations (ld_db s')). \<exists>b. map_of (ld_issued s) (rs_id row) = Some b \<and>
       t = bi_ticket b \<and> rs_status row = Reserved \<and>
       rs_key row = digest h (JArr [JStr (id_tenant (sc_identity (caller_context s' (rq_caller q)))),
         JStr (rq_key q)]) \<and>
       rs_context row = context_digest_of h (caller_context s' (rq_caller q)) \<and>
       rs_action row = digest h (ac_dict (rq_action q)) \<and>
       (\<exists>costs. costs_dict (rq_costs q) False = Inr costs \<and>
          rs_costs row = digest h (costs_json
            (at_least_one ''concurrency'' (at_least_one ''requests'' costs)) (rq_effects q))))"
proof -
  let ?c = "rq_caller q"
  from assms(1) obtain s1 scopes buckets given resolved s2 staged where
    scopes: "ledger_scopes h ?c rtime s = (s1, Inr scopes)"
    and resolve: "resolve_budget_costs buckets (rq_costs q) (rq_effects q) = Inr (given, resolved)"
    and adm: "admission h q buckets resolved
       (map (\<lambda>m. \<lparr>bc_metric = m, bc_amount = known_cost resolved m\<rparr>)
         (sort (remdups (map bucket_metric buckets))))
       (digest h (ac_dict (rq_action q))) (context_digest_of h (caller_context s1 ?c))
       (digest h (JArr [JStr (id_tenant (sc_identity (caller_context s1 ?c))), JStr (rq_key q)]))
       (digest h (costs_json given (rq_effects q))) uuid reading s1 = (s2, Inr (t, staged))"
    and s': "s' = publish staged (ledger_commit s1 s2)"
    by (rule reserve_Inr)
  from resolve obtain costs where costs: "costs_dict (rq_costs q) False = Inr costs"
      "given = at_least_one ''concurrency'' (at_least_one ''requests'' costs)"
    by (auto simp: resolve_budget_costs_def Let_def)
  obtain rs where s1: "s1 = s\<lparr>ld_registries := rs\<rparr>"
    using ledger_scopes_Inr [OF scopes] by blast
  note a = admission_Inr [OF adm]
  have same: "caller_context s' ?c = caller_context s1 ?c"
    using a by (simp add: s' caller_context_def)
  obtain now db n row b where again: "expire_rows now (ld_db (set_last now s1)) = Inr (db, n)"
      "ld_db s2 = db" "row \<in> set (db_reservations db)" "map_of (ld_issued s1) (rs_id row) = Some b"
      "t = bi_ticket b" "rs_status row = Reserved"
      "rs_key row = digest h (JArr [JStr (id_tenant (sc_identity (caller_context s1 ?c))), JStr (rq_key q)])"
      "rs_context row = context_digest_of h (caller_context s1 ?c)"
      "rs_action row = digest h (ac_dict (rq_action q))" "rs_costs row = digest h (costs_json given (rq_effects q))"
    using a assms(2) by (auto simp: s' s1)
  then have "map rs_id (db_reservations (ld_db s')) = map rs_id (db_reservations (ld_db s))"
    using expire_ids [OF again(1)] by (simp add: s' s1)
  moreover have "ld_db s' = db" "ld_issued s1 = ld_issued s"
    by (simp_all add: s' s1 again(2))
  ultimately show ?thesis
    unfolding same using again(3-) costs by metis
qed

lemma reserve_retry_same_ticket_witness:
  "map rs_id (db_reservations (ld_db retried_ledger)) = map rs_id (db_reservations (ld_db reserved_ledger)) \<and>
   (\<exists>row \<in> set (db_reservations (ld_db retried_ledger)). rs_costs row = digest budget_env (costs_json
      [(''requests'', Some 1), (''concurrency'', Some 1)] []))"
proof -
  have "costs_dict (rq_costs sample_request) False = Inr []" "rq_effects sample_request = []"
    by (simp_all add: costs_dict_def sample_request_def)
  then show ?thesis
    using reserve_retry_same_ticket [OF sample_retried] by (auto simp: at_least_one_def)
qed

end
