(* ===== verification/Schedule.thy ===== *)
theory Schedule
  imports Registry "HOL-Library.Sublist"
begin

text \<open>
  \<^verbatim>\<open>ordin/swarm/schedule.py\<close>: the bounded exploration of topological schedules, a depth-first
  search on an explicit stack. The top of the stack is the head of the list; the seeded order is
  the order of the SHA-256 digests, which the hexadecimal digits of \<^const>\<open>sha256\<close> keep.
\<close>

section \<open>Operations and schedules\<close>

record scheduled_operation =
  so_id :: string
  so_actor :: int
  so_kind :: string
  so_after :: "string list"

fun check_dependencies :: "string list \<Rightarrow> unit res" where
  "check_dependencies [] = Inr ()"
| "check_dependencies (v # vs) =
     res_bind (host_identifier v ''dependency'') (\<lambda>_. check_dependencies vs)"

definition operation_post_init :: "scheduled_operation \<Rightarrow> unit res" where
  "operation_post_init v =
     res_bind (host_identifier (so_id v) ''operation_id'') (\<lambda>_.
     res_bind (host_identifier (so_kind v) ''operation_kind'') (\<lambda>_.
     if \<not> (0 \<le> so_actor v \<and> so_actor v < 10) \<or> length (so_after v) > 32
     then Inl (ValueError ''invalid bounded schedule operation'')
     else check_dependencies (so_after v)))"

record schedule_set =
  ss_schedules :: "scheduled_operation list list"
  ss_truncated :: bool
  ss_seed :: int
  ss_input :: string

definition schedule_digest :: "host_env \<Rightarrow> schedule_set \<Rightarrow> string" where
  "schedule_digest h s =
     digest h (JObj
       [(''seed'', JInt (ss_seed s)), (''input'', JStr (ss_input s)),
        (''schedules'', JArr (map (\<lambda>row. JArr (map (\<lambda>v. JStr (so_id v)) row)) (ss_schedules s))),
        (''truncated'', JBool (ss_truncated s))])"

section \<open>Exploration\<close>

definition operation_by_id :: "scheduled_operation list \<Rightarrow> string \<Rightarrow> scheduled_operation" where
  "operation_by_id ops name = the (find (\<lambda>v. so_id v = name) ops)"

definition dependencies :: "scheduled_operation list \<Rightarrow> string \<Rightarrow> string list" where
  "dependencies ops name = so_after (operation_by_id ops name)"

definition available :: "(string \<Rightarrow> string list) \<Rightarrow> string list \<Rightarrow> string set \<Rightarrow> string list" where
  "available after order finished =
     filter (\<lambda>name. name \<notin> finished \<and> set (after name) \<subseteq> finished) order"

definition stack_limit :: nat where "stack_limit = 16384"

definition push_available ::
  "string list \<Rightarrow> string set \<Rightarrow> string list \<Rightarrow> (string list \<times> string set) list
     \<Rightarrow> (string list \<times> string set) list" where
  "push_available path finished names stack =
     map (\<lambda>name. (path @ [name], insert name finished)) names @ stack"

text \<open>An upper bound for the nodes of the search below an entry with \<open>k\<close> names to go.\<close>

fun tree_size :: "nat \<Rightarrow> nat" where
  "tree_size 0 = 1"
| "tree_size (Suc k) = Suc (Suc k * tree_size k)"

definition stack_size :: "string list \<Rightarrow> (string list \<times> string set) list \<Rightarrow> nat" where
  "stack_size order stack =
     sum_list (map (\<lambda>(p, d). tree_size (length (filter (\<lambda>x. x \<notin> d) order))) stack)"

lemma tree_size_mono: "k \<le> m \<Longrightarrow> tree_size k \<le> tree_size m"
proof (induction m arbitrary: k)
  case (Suc m)
  show ?case
  proof (cases "k = Suc m")
    case False
    with Suc have "tree_size k \<le> tree_size m" by simp
    also have "\<dots> \<le> tree_size (Suc m)" by simp
    finally show ?thesis .
  qed simp
qed simp

lemma stack_size_push:
  "stack_size order (push_available path d (available after order d) stack) <
     stack_size order ((path, d) # stack)"
proof -
  let ?left = "\<lambda>d. length (filter (\<lambda>x. x \<notin> d) order)"
  have small: "tree_size (?left (insert x d)) \<le> tree_size (?left d - 1)"
    if "x \<in> set (available after order d)" for x
  proof (rule tree_size_mono)
    have "x \<in> set (filter (\<lambda>y. y \<notin> d) order)"
      using that by (auto simp: available_def)
    then have "length (filter (\<lambda>y. y \<noteq> x) (filter (\<lambda>y. y \<notin> d) order)) < ?left d"
      by (intro length_filter_less) auto
    moreover have "filter (\<lambda>y. y \<noteq> x) (filter (\<lambda>y. y \<notin> d) order) = filter (\<lambda>y. y \<notin> insert x d) order"
      by (auto intro: filter_cong)
    ultimately show "?left (insert x d) \<le> ?left d - 1" by simp
  qed
  have "length (available after order d) \<le> ?left d"
    unfolding available_def by (induction order) auto
  then have "length (available after order d) * tree_size (?left d - 1) \<le> ?left d * tree_size (?left d - 1)"
    by (rule mult_le_mono1)
  also have "\<dots> < tree_size (?left d)"
    by (cases "?left d") simp_all
  finally have "length (available after order d) * tree_size (?left d - 1) < tree_size (?left d)" .
  moreover have "sum_list (map (\<lambda>x. tree_size (?left (insert x d))) (available after order d)) \<le>
      sum_list (map (\<lambda>x. tree_size (?left d - 1)) (available after order d))"
    by (intro sum_list_mono small)
  ultimately show ?thesis
    by (simp add: stack_size_def push_available_def comp_def sum_list_triv)
qed

function explore_loop ::
  "(string \<Rightarrow> string list) \<Rightarrow> string list \<Rightarrow> nat \<Rightarrow> nat \<Rightarrow> (string list \<times> string set) list
     \<Rightarrow> string list list \<Rightarrow> (string list list \<times> bool) res"
where
  "explore_loop after order goal_size limit [] schedules = Inr (schedules, False)"
| "explore_loop after order goal_size limit ((path, finished) # stack) schedules =
     (if card finished = goal_size then
        (if length schedules = limit then Inr (schedules, True)
         else explore_loop after order goal_size limit stack (schedules @ [path]))
      else
        (let names = available after order finished;
             stack' = push_available path finished names stack
         in if names = [] then Inl (ValueError ''cyclic schedule dependencies'')
            else if length stack' > stack_limit then Inr (schedules, True)
            else explore_loop after order goal_size limit stack' schedules))"
  by pat_completeness auto

termination
proof (relation "measure (\<lambda>(after, order, goal_size, limit, stack, schedules). stack_size order stack)")
  fix after order goal_size limit path and finished :: "string set" and stack schedules
  have "0 < tree_size k" for k by (cases k) simp_all
  then show "((after, order, goal_size, limit, stack, schedules @ [path]),
      (after, order, goal_size, limit, (path, finished) # stack, schedules))
    \<in> measure (\<lambda>(after, order, goal_size, limit, stack, schedules). stack_size order stack)"
    by (simp add: stack_size_def)
qed (use stack_size_push in simp_all)

definition seeded_order :: "host_env \<Rightarrow> int \<Rightarrow> string list \<Rightarrow> string list" where
  "seeded_order h seed ids =
     sort_key (\<lambda>name. sha256 h (utf8 (int_text seed @ '':'' @ name))) ids"

definition operations_digest :: "host_env \<Rightarrow> scheduled_operation list \<Rightarrow> string" where
  "operations_digest h ops =
     digest h (JArr (map (\<lambda>v. JArr [JStr (so_id v), JInt (so_actor v), JStr (so_kind v),
       JArr (map JStr (so_after v))]) ops))"

definition explore ::
  "host_env \<Rightarrow> scheduled_operation list \<Rightarrow> int \<Rightarrow> int \<Rightarrow> int \<Rightarrow> schedule_set res" where
  "explore h ops agents seed limit =
     (if \<not> (2 \<le> agents \<and> agents \<le> 10) \<or> \<not> (0 \<le> seed \<and> seed < 2 ^ 32) \<or>
         \<not> (1 \<le> limit \<and> limit \<le> 4096)
      then Inl (ValueError ''invalid bounded deterministic schedule parameters'')
      else if \<not> (1 \<le> length ops \<and> length ops \<le> 128) \<or> list_ex (\<lambda>v. so_actor v \<ge> agents) ops
      then Inl (ValueError ''invalid schedule operation inventory'')
      else if \<not> distinct (map so_id ops) \<or>
        list_ex (\<lambda>v. \<not> set (so_after v) \<subseteq> set (map so_id ops) \<or> so_id v \<in> set (so_after v)) ops
      then Inl (ValueError ''duplicate, self, or unknown schedule dependencies'')
      else
      res_bind (explore_loop (dependencies ops) (seeded_order h seed (map so_id ops)) (length ops)
        (nat limit) [([], {})] []) (\<lambda>(schedules, truncated).
      if schedules = [] then Inl (ValueError ''schedule exploration produced no complete schedule'')
      else Inr \<lparr>ss_schedules = map (map (operation_by_id ops)) schedules,
        ss_truncated = truncated, ss_seed = seed, ss_input = operations_digest h ops\<rparr>))"

section \<open>Lemmas: prefixes of topological orders\<close>

text \<open>Every dependency of a name comes before it.\<close>

definition consistent :: "(string \<Rightarrow> string list) \<Rightarrow> string list \<Rightarrow> bool" where
  "consistent after p = (\<forall>i < length p. set (after (p ! i)) \<subseteq> set (take i p))"

definition topological :: "(string \<Rightarrow> string list) \<Rightarrow> string list \<Rightarrow> string list \<Rightarrow> bool" where
  "topological after order p = (distinct p \<and> set p = set order \<and> consistent after p)"

lemma consistent_Nil [simp]: "consistent after []"
  by (simp add: consistent_def)

lemma consistent_snoc: "consistent after (p @ [x]) \<longleftrightarrow> consistent after p \<and> set (after x) \<subseteq> set p"
  by (auto simp: consistent_def less_Suc_eq nth_append)

lemma consistent_append: "consistent after (p @ q) \<Longrightarrow> consistent after p"
  by (induction q rule: rev_induct) (auto simp: consistent_snoc simp flip: append_assoc)

lemma topological_length: "topological after order p \<Longrightarrow> distinct order \<Longrightarrow> length p = length order"
  by (metis distinct_card topological_def)

definition entry_ok :: "(string \<Rightarrow> string list) \<Rightarrow> string list \<Rightarrow> string list \<times> string set \<Rightarrow> bool" where
  "entry_ok after order e = (case e of (p, d) \<Rightarrow>
     d = set p \<and> distinct p \<and> set p \<subseteq> set order \<and> consistent after p)"

lemma entry_full:
  assumes "entry_ok after order (p, d)" "distinct order" "card d = length order"
  shows "topological after order p"
proof -
  have "card (set p) = card (set order)" "set p \<subseteq> set order"
    using assms by (auto simp: entry_ok_def distinct_card)
  then have "set p = set order" by (intro card_subset_eq) auto
  then show ?thesis using assms(1) by (simp add: entry_ok_def topological_def)
qed

lemma push_ok:
  assumes "entry_ok after order (p, d)" "list_all (entry_ok after order) stack"
  shows "list_all (entry_ok after order) (push_available p d (available after order d) stack)"
  using assms by (auto simp: push_available_def available_def list_all_iff entry_ok_def consistent_snoc)

text \<open>A topological order extends an incomplete entry by a name that is available.\<close>

lemma next_available:
  assumes "topological after order \<pi>" "prefix p \<pi>" "entry_ok after order (p, d)" "d \<noteq> set order"
  shows "\<exists>x \<in> set (available after order d). prefix (p @ [x]) \<pi>"
proof -
  from assms(2) obtain q where q: "\<pi> = p @ q" by (auto simp: prefix_def)
  with assms(1,3,4) obtain x r where x: "q = x # r"
    by (cases q) (auto simp: topological_def entry_ok_def)
  have "consistent after (p @ [x])"
    using assms(1) consistent_append [of after "p @ [x]" r] by (simp add: q x topological_def)
  then have "x \<in> set (available after order d)"
    using assms(1,3) by (auto simp: available_def entry_ok_def consistent_snoc topological_def q x)
  then show ?thesis by (auto simp: q x prefix_def)
qed

text \<open>With any topological order at all, every incomplete entry can be extended.\<close>

lemma available_nonempty:
  assumes "topological after order \<pi>" "entry_ok after order (p, d)" "d \<noteq> set order"
  shows "available after order d \<noteq> []"
proof -
  have "\<exists>x \<in> set \<pi>. x \<notin> d"
    using assms by (auto simp: topological_def entry_ok_def)
  then obtain xs x ys where \<pi>: "\<pi> = xs @ x # ys" "x \<notin> d" "\<forall>y \<in> set xs. y \<in> d"
    using split_list_first_prop [of \<pi> "\<lambda>y. y \<notin> d"] by blast
  have "consistent after (xs @ [x])"
    using assms(1) consistent_append [of after "xs @ [x]" ys] by (simp add: \<pi>(1) topological_def)
  then have "x \<in> set (available after order d)"
    using assms(1) \<pi> by (auto simp: available_def consistent_snoc topological_def)
  then show ?thesis by auto
qed

section \<open>Lemmas: the stack stays small\<close>

text \<open>The number of entries from one of depth \<open>k\<close> down to the bottom.\<close>

fun depth_bound :: "nat \<Rightarrow> nat \<Rightarrow> nat" where
  "depth_bound n 0 = 1"
| "depth_bound n (Suc k) = depth_bound n k + (n - Suc k)"

fun stack_shape :: "nat \<Rightarrow> (string list \<times> string set) list \<Rightarrow> bool" where
  "stack_shape n [] = True"
| "stack_shape n (e # stack) =
     (Suc (length stack) \<le> depth_bound n (card (snd e)) \<and> stack_shape n stack)"

lemma depth_bound_le: "depth_bound n k \<le> Suc (k * (n - 1))"
  by (induction k) (auto simp: diff_le_mono2 intro: order_trans [OF add_le_mono])

lemma push_length:
  assumes "entry_ok after order (p, d)" "distinct order"
  shows "length (available after order d) \<le> length order - card d"
proof -
  have "set (available after order d) \<subseteq> set order - d"
    by (auto simp: available_def)
  moreover have "card (set order - d) = length order - card d"
    using assms by (auto simp: entry_ok_def card_Diff_subset distinct_card)
  moreover have "distinct (available after order d)"
    using assms(2) by (simp add: available_def)
  ultimately show ?thesis
    by (metis List.finite_set card_mono distinct_card finite_Diff)
qed

lemma push_shape:
  assumes "stack_shape n ((p, d) # stack)" "finite d" "length names \<le> n - card d" "\<forall>x \<in> set names. x \<notin> d"
  shows "stack_shape n (push_available p d names stack)"
proof -
  have top: "Suc (length stack) \<le> depth_bound n (card d)"
    using assms(1) by simp
  show ?thesis
    using assms(3,4)
proof (induction names)
  case Nil
  then show ?case using assms(1) by (simp add: push_available_def)
next
  case (Cons x names)
  have "Suc (length names + length stack) \<le> depth_bound n (card d) + (n - Suc (card d))"
    using top Cons.prems(1) unfolding list.size by linarith
  with Cons assms(2) show ?case by (simp add: push_available_def)
qed
qed

lemma push_small:
  assumes "stack_shape n ((p, d) # stack)" "length names \<le> n - card d" "n \<le> 128" "card d < n"
  shows "length (push_available p d names stack) \<le> stack_limit"
proof -
  have "Suc (length stack) \<le> depth_bound n (card d)"
    using assms(1) by simp
  then have "length (push_available p d names stack) \<le> depth_bound n (Suc (card d))"
    using assms(2,4)
    unfolding push_available_def length_append length_map depth_bound.simps by linarith
  also have "\<dots> \<le> Suc (Suc (card d) * (n - 1))" by (rule depth_bound_le)
  also have "\<dots> \<le> Suc (128 * 127)"
    using assms(3,4) by (intro Suc_leI le_imp_less_Suc mult_le_mono) auto
  finally show ?thesis by (simp add: stack_limit_def)
qed

section \<open>Lemmas: the search\<close>

definition extends :: "(string list \<times> string set) list \<Rightarrow> string list \<Rightarrow> bool" where
  "extends stack \<pi> = (\<exists>(p, d) \<in> set stack. prefix p \<pi>)"

definition stack_parallel :: "(string list \<times> string set) list \<Rightarrow> bool" where
  "stack_parallel stack = sorted_wrt parallel (map fst stack)"

lemma extends_Cons: "extends ((p, d) # stack) \<pi> \<longleftrightarrow> prefix p \<pi> \<or> extends stack \<pi>"
  by (simp add: extends_def)

lemma extends_push:
  "extends (push_available p d names stack) \<pi> \<longleftrightarrow>
     (\<exists>x \<in> set names. prefix (p @ [x]) \<pi>) \<or> extends stack \<pi>"
  by (auto simp: extends_def push_available_def)

lemma parallel_snoc: "x \<noteq> y \<Longrightarrow> parallel (p @ [x]) (p @ [y])"
  by (auto simp: parallel_def prefix_def)

lemma parallel_push:
  assumes "stack_parallel ((p, d) # stack)" "distinct names"
  shows "stack_parallel (push_available p d names stack)"
  using assms
  by (induction names)
    (auto simp: stack_parallel_def push_available_def parallel_snoc
      intro: parallel_appendI [where xs' = "[_]" and ys' = "[]"])

lemma parallel_not_extended:
  assumes "stack_parallel ((p, d) # stack)" shows "\<not> extends stack p"
proof
  assume "extends stack p"
  then obtain q d' where "(q, d') \<in> set stack" "prefix q p" by (auto simp: extends_def)
  with assms have "parallel p q" by (force simp: stack_parallel_def)
  with \<open>prefix q p\<close> show False by (auto dest: parallelD2)
qed

text \<open>What the search returns, for a stack of sound entries.\<close>

lemma explore_loop_Inr:
  assumes "explore_loop after order (length order) limit stack schedules = Inr (found, truncated)"
    and "distinct order" and "list_all (entry_ok after order) stack" and "stack_parallel stack"
    and "length schedules \<le> limit"
  shows "\<exists>new. found = schedules @ new \<and> distinct new \<and> length found \<le> limit \<and>
    (\<forall>\<pi> \<in> set new. topological after order \<pi> \<and> extends stack \<pi>) \<and>
    (\<not> truncated \<longrightarrow> (\<forall>\<pi>. topological after order \<pi> \<and> extends stack \<pi> \<longrightarrow> \<pi> \<in> set new))"
  using assms
proof (induction after order "length order" limit stack schedules rule: explore_loop.induct)
  case (1 after order limit schedules)
  then show ?case by (auto simp: extends_def)
next
  case (2 after order limit p d stack schedules)
  have entry: "entry_ok after order (p, d)" and rest: "list_all (entry_ok after order) stack"
    using 2(5) by simp_all
  have par: "stack_parallel stack"
    using 2(6) by (simp add: stack_parallel_def)
  show ?case
  proof (cases "card d = length order")
    case full: True
    note top = entry_full [OF entry 2(4) full]
    show ?thesis
    proof (cases "length schedules = limit")
      case True
      with 2(3) full have "found = schedules" "truncated" by simp_all
      with 2(7) show ?thesis by auto
    next
      case False
      have "explore_loop after order (length order) limit stack (schedules @ [p]) = Inr (found, truncated)"
        using 2(3) full False by simp
      moreover have "length (schedules @ [p]) \<le> limit" using 2(7) False by simp
      ultimately obtain new where
        new: "found = (schedules @ [p]) @ new" "distinct new" "length found \<le> limit"
          "\<forall>\<pi> \<in> set new. topological after order \<pi> \<and> extends stack \<pi>"
          "\<not> truncated \<longrightarrow> (\<forall>\<pi>. topological after order \<pi> \<and> extends stack \<pi> \<longrightarrow> \<pi> \<in> set new)"
        using 2(1) [OF full False _ 2(4) rest par] by blast
      have "p \<notin> set new"
        using new(4) parallel_not_extended [OF 2(6)] by blast
      then have "found = schedules @ (p # new)" "distinct (p # new)"
        using new(1,2) by simp_all
      moreover have "\<forall>\<pi> \<in> set (p # new). topological after order \<pi> \<and> extends ((p, d) # stack) \<pi>"
        using new(4) top by (simp add: extends_Cons)
      moreover have "\<pi> = p" if "topological after order \<pi>" "prefix p \<pi>" for \<pi>
        using that topological_length [OF top 2(4)] topological_length [OF that(1) 2(4)]
        by (auto simp: prefix_def)
      then have "\<not> truncated \<longrightarrow> (\<forall>\<pi>. topological after order \<pi> \<and> extends ((p, d) # stack) \<pi> \<longrightarrow>
          \<pi> \<in> set (p # new))"
        using new(5) unfolding extends_Cons by auto
      ultimately show ?thesis using new(3) by blast
    qed
  next
    case open_entry: False
    let ?names = "available after order d"
    let ?stack = "push_available p d ?names stack"
    have names: "?names \<noteq> []"
      using 2(3) open_entry by (auto simp: Let_def)
    show ?thesis
    proof (cases "length ?stack > stack_limit")
      case True
      with 2(3) open_entry names have "found = schedules" "truncated" by (simp_all add: Let_def)
      with 2(7) show ?thesis by auto
    next
      case False
      have run: "explore_loop after order (length order) limit ?stack schedules = Inr (found, truncated)"
        using 2(3) open_entry names False by (simp add: Let_def)
      have "distinct ?names" using 2(4) by (simp add: available_def)
      with 2(2) [OF open_entry refl refl names False run 2(4)] push_ok [OF entry rest]
        parallel_push [OF 2(6)] 2(7) obtain new where
        new: "found = schedules @ new" "distinct new" "length found \<le> limit"
          "\<forall>\<pi> \<in> set new. topological after order \<pi> \<and> extends ?stack \<pi>"
          "\<not> truncated \<longrightarrow> (\<forall>\<pi>. topological after order \<pi> \<and> extends ?stack \<pi> \<longrightarrow> \<pi> \<in> set new)"
        by blast
      have "d \<noteq> set order"
        using open_entry distinct_card [OF 2(4)] by auto
      then have "extends ?stack \<pi> \<longleftrightarrow> extends ((p, d) # stack) \<pi>" if "topological after order \<pi>" for \<pi>
        using next_available [OF that _ entry] append_prefixD
        by (auto simp: extends_push extends_Cons)
      with new show ?thesis by blast
    qed
  qed
qed

text \<open>With a topological order, the search always returns, and stops early only at the limit.\<close>

lemma explore_loop_returns:
  assumes "topological after order \<pi>" and "distinct order" and "length order \<le> 128"
    and "list_all (entry_ok after order) stack" and "stack_shape (length order) stack"
  shows "\<exists>found truncated. explore_loop after order (length order) limit stack schedules =
      Inr (found, truncated) \<and> (truncated \<longrightarrow> length found = limit)"
  using assms
proof (induction after order "length order" limit stack schedules rule: explore_loop.induct)
  case (2 after order limit p d stack schedules)
  have entry: "entry_ok after order (p, d)" and rest: "list_all (entry_ok after order) stack"
    and shape: "stack_shape (length order) stack"
    using 2(6,7) by simp_all
  show ?case
  proof (cases "card d = length order")
    case True
    then show ?thesis
      using 2(1) [OF True _ 2(3-5) rest shape] by auto
  next
    case False
    let ?names = "available after order d"
    let ?stack = "push_available p d ?names stack"
    have sub: "d \<noteq> set order" "card d < length order" "finite d"
      using False entry 2(4) by (auto simp: entry_ok_def distinct_card [symmetric] psubset_card_mono
          intro!: psubset_card_mono)
    have names: "?names \<noteq> []" by (rule available_nonempty [OF 2(3) entry sub(1)])
    have "\<not> length ?stack > stack_limit"
      using push_small [OF 2(7) push_length [OF entry 2(4)] 2(5) sub(2)] by simp
    moreover have "stack_shape (length order) ?stack"
      using push_shape [OF 2(7) sub(3) push_length [OF entry 2(4)]] by (simp add: available_def)
    ultimately show ?thesis
      using 2(2) [OF False refl refl names _ 2(3-5) push_ok [OF entry rest]] False names
      by (simp add: Let_def)
  qed
qed (auto intro: exI [of _ False])

text \<open>Without one, the search of a non-empty stack fails with the cycle error.\<close>

lemma explore_loop_cyclic:
  assumes "\<nexists>\<pi>. topological after order \<pi>" and "distinct order" and "length order \<le> 128"
    and "list_all (entry_ok after order) stack" and "stack_shape (length order) stack" and "stack \<noteq> []"
  shows "explore_loop after order (length order) limit stack schedules =
      Inl (ValueError ''cyclic schedule dependencies'')"
  using assms
proof (induction after order "length order" limit stack schedules rule: explore_loop.induct)
  case (2 after order limit p d stack schedules)
  have entry: "entry_ok after order (p, d)" and rest: "list_all (entry_ok after order) stack"
    using 2(6) by simp_all
  have False: "card d \<noteq> length order"
    using entry_full [OF entry 2(4)] 2(3) by blast
  let ?names = "available after order d"
  let ?stack = "push_available p d ?names stack"
  have sub: "card d < length order" "finite d"
    using False entry 2(4) by (auto simp: entry_ok_def distinct_card [symmetric] intro!: psubset_card_mono)
  have "\<not> length ?stack > stack_limit"
    using push_small [OF 2(7) push_length [OF entry 2(4)] 2(5) sub(1)] by simp
  moreover have "stack_shape (length order) ?stack"
    using push_shape [OF 2(7) sub(2) push_length [OF entry 2(4)]] by (simp add: available_def)
  ultimately show ?case
    using 2(2) [OF False refl refl _ _ 2(3-5) push_ok [OF entry rest]] False
    by (cases "?names = []") (simp_all add: Let_def push_available_def)
qed simp

declare explore_loop.simps [simp del]

section \<open>Lemmas: schedules of operations\<close>

text \<open>A schedule runs every operation once, after everything it depends on.\<close>

definition in_order :: "scheduled_operation list \<Rightarrow> bool" where
  "in_order row = (\<forall>i < length row. set (so_after (row ! i)) \<subseteq> so_id ` set (take i row))"

definition schedule_of :: "scheduled_operation list \<Rightarrow> scheduled_operation list \<Rightarrow> bool" where
  "schedule_of ops row = (mset row = mset ops \<and> in_order row)"

lemma operation_by_id_of:
  assumes "distinct (map so_id ops)" "v \<in> set ops"
  shows "operation_by_id ops (so_id v) = v"
proof -
  have "find (\<lambda>w. so_id w = so_id v) ops = Some v"
    using assms by (induction ops) (auto simp: rev_image_eqI)
  then show ?thesis by (simp add: operation_by_id_def)
qed

lemma by_id_inverse:
  assumes "distinct (map so_id ops)" "set p \<subseteq> so_id ` set ops"
  shows "map so_id (map (operation_by_id ops) p) = p"
  using assms(2) by (induction p) (auto simp: operation_by_id_of [OF assms(1)])

lemma respects_by_id:
  assumes "distinct (map so_id ops)" "set p \<subseteq> so_id ` set ops"
  shows "in_order (map (operation_by_id ops) p) \<longleftrightarrow> consistent (dependencies ops) p"
proof -
  have "so_id ` set (take i (map (operation_by_id ops) p)) = set (take i p)" for i
    using arg_cong [OF by_id_inverse [OF assms], of "\<lambda>xs. set (take i xs)"]
    by (simp add: take_map image_image)
  then show ?thesis
    by (simp add: in_order_def consistent_def dependencies_def)
qed

lemma schedule_by_id:
  assumes ids: "distinct (map so_id ops)" and order: "set order = so_id ` set ops"
    and p: "topological (dependencies ops) order p"
  shows "schedule_of ops (map (operation_by_id ops) p)"
proof -
  let ?row = "map (operation_by_id ops) p"
  have inv: "map so_id ?row = p"
    using p by (intro by_id_inverse [OF ids]) (simp add: topological_def order)
  have "distinct (map so_id ?row)"
    using p unfolding inv by (simp add: topological_def)
  then have "distinct ?row" by (rule distinct_map [THEN iffD1, THEN conjunct1])
  moreover have "set ?row = operation_by_id ops ` so_id ` set ops"
    using p by (simp add: topological_def order)
  then have "set ?row = set ops"
    by (simp add: image_image operation_by_id_of [OF ids] cong: image_cong)
  ultimately have "mset ?row = mset ops"
    using ids by (metis distinct_map set_eq_iff_mset_eq_distinct)
  moreover have "in_order ?row"
    using p by (simp add: respects_by_id [OF ids] topological_def order)
  ultimately show ?thesis by (simp add: schedule_of_def)
qed

lemma id_of_schedule:
  assumes ids: "distinct (map so_id ops)" and order: "set order = so_id ` set ops"
    and row: "schedule_of ops row"
  shows "topological (dependencies ops) order (map so_id row) \<and>
    map (operation_by_id ops) (map so_id row) = row"
proof -
  have same: "set row = set ops"
    using row by (metis schedule_of_def set_mset_mset)
  have "mset (map so_id row) = mset (map so_id ops)"
    using row by (simp add: schedule_of_def)
  then have "distinct (map so_id row)"
    using ids by (metis mset_eq_imp_distinct_iff)
  moreover have again: "map (operation_by_id ops) (map so_id row) = row"
    unfolding map_map by (rule map_idI) (simp add: same operation_by_id_of [OF ids])
  moreover have "consistent (dependencies ops) (map so_id row)"
    using row respects_by_id [OF ids, of "map so_id row"]
    unfolding again by (simp add: schedule_of_def same)
  ultimately show ?thesis by (simp add: topological_def order same)
qed

text \<open>The inputs \<^verbatim>\<open>explore\<close> accepts.\<close>

definition schedule_inputs :: "scheduled_operation list \<Rightarrow> int \<Rightarrow> int \<Rightarrow> int \<Rightarrow> bool" where
  "schedule_inputs ops agents seed limit =
     (2 \<le> agents \<and> agents \<le> 10 \<and> 0 \<le> seed \<and> seed < 2 ^ 32 \<and> 1 \<le> limit \<and> limit \<le> 4096 \<and>
      1 \<le> length ops \<and> length ops \<le> 128 \<and> (\<forall>v \<in> set ops. so_actor v < agents) \<and>
      distinct (map so_id ops) \<and>
      (\<forall>v \<in> set ops. set (so_after v) \<subseteq> so_id ` set ops \<and> so_id v \<notin> set (so_after v)))"

lemma explore_inputs:
  assumes "explore h ops agents seed limit = Inr s"
  shows "schedule_inputs ops agents seed limit"
  using assms unfolding explore_def if_Inl_Inr_iff
  by (auto simp: schedule_inputs_def list_ex_iff not_le Suc_le_eq)

lemma explore_run:
  "schedule_inputs ops agents seed limit \<Longrightarrow> explore h ops agents seed limit =
     res_bind (explore_loop (dependencies ops) (seeded_order h seed (map so_id ops)) (length ops)
        (nat limit) [([], {})] []) (\<lambda>(schedules, truncated).
      if schedules = [] then Inl (ValueError ''schedule exploration produced no complete schedule'')
      else Inr \<lparr>ss_schedules = map (map (operation_by_id ops)) schedules,
        ss_truncated = truncated, ss_seed = seed, ss_input = operations_digest h ops\<rparr>)"
  by (auto simp: explore_def schedule_inputs_def list_ex_iff)

lemma seeded_order_simps [simp]:
  "set (seeded_order h seed ids) = set ids" "distinct (seeded_order h seed ids) = distinct ids"
  "length (seeded_order h seed ids) = length ids"
  by (simp_all add: seeded_order_def)

lemma initial_entry:
  "list_all (entry_ok after order) [([], {})]" "stack_shape n [([], {})]" "stack_parallel [([], {})]"
  "extends [([], {})] \<pi>" "entry_ok after order ([], {})"
  by (simp_all add: entry_ok_def stack_parallel_def extends_def)

lemma explore_Inr:
  assumes "explore h ops agents seed limit = Inr s"
  shows "distinct (ss_schedules s) \<and> ss_schedules s \<noteq> [] \<and> length (ss_schedules s) \<le> nat limit \<and>
    (\<forall>row \<in> set (ss_schedules s). schedule_of ops row) \<and>
    (\<not> ss_truncated s \<longrightarrow> (\<forall>row. schedule_of ops row \<longrightarrow> row \<in> set (ss_schedules s))) \<and>
    (ss_truncated s \<longrightarrow> length (ss_schedules s) = nat limit)"
proof -
  have inputs: "schedule_inputs ops agents seed limit"
    using assms by (rule explore_inputs)
  then have ids: "distinct (map so_id ops)" and len: "length ops \<le> 128"
    by (simp_all add: schedule_inputs_def)
  let ?order = "seeded_order h seed (map so_id ops)"
  obtain found truncated where
    run: "explore_loop (dependencies ops) ?order (length ?order) (nat limit) [([], {})] [] =
      Inr (found, truncated)"
    and s: "ss_schedules s = map (map (operation_by_id ops)) found" "ss_truncated s = truncated"
      "found \<noteq> []"
    using assms by (auto simp: explore_run [OF inputs] split: if_splits)
  have "distinct ?order" "length [] \<le> nat limit" using ids by simp_all
  then obtain new where new: "found = [] @ new" "distinct new" "length found \<le> nat limit"
      "\<forall>\<pi> \<in> set new. topological (dependencies ops) ?order \<pi> \<and> extends [([], {})] \<pi>"
      "\<not> truncated \<longrightarrow> (\<forall>\<pi>. topological (dependencies ops) ?order \<pi> \<and> extends [([], {})] \<pi> \<longrightarrow>
         \<pi> \<in> set new)"
    using explore_loop_Inr [OF run _ initial_entry(1,3)] by blast
  note new = new [unfolded append_Nil initial_entry simp_thms]
  have order: "set ?order = so_id ` set ops" by simp
  have "\<forall>row \<in> set (ss_schedules s). schedule_of ops row"
    using new(1,4) schedule_by_id [OF ids order] by (auto simp: s)
  moreover have "inj_on (map (operation_by_id ops)) (set new)"
  proof (rule inj_onI)
    fix p q assume pq: "p \<in> set new" "q \<in> set new" "map (operation_by_id ops) p = map (operation_by_id ops) q"
    then have "set p \<subseteq> so_id ` set ops" "set q \<subseteq> so_id ` set ops"
      using new(4) by (auto simp: topological_def)
    then show "p = q" using pq(3) by (metis by_id_inverse [OF ids])
  qed
  then have "distinct (ss_schedules s)"
    using new(1,2) by (simp add: s distinct_map)
  moreover have "row \<in> set (ss_schedules s)" if "\<not> ss_truncated s" "schedule_of ops row" for row
  proof -
    note p = id_of_schedule [OF ids order that(2)]
    then have "map so_id row \<in> set found"
      using new(1,5) that(1) s(2) initial_entry(4) by blast
    then have "map (operation_by_id ops) (map so_id row) \<in> set (ss_schedules s)"
      unfolding s(1) set_map by (rule imageI)
    then show ?thesis using p by simp
  qed
  moreover have "ss_truncated s \<longrightarrow> length (ss_schedules s) = nat limit"
  proof -
    obtain \<pi> where "topological (dependencies ops) ?order \<pi>"
      using new(1,4) s(3) by (cases new) auto
    then show ?thesis
      using explore_loop_returns [OF _ _ _ initial_entry(1,2), of "dependencies ops" ?order \<pi> "nat limit" "[]"]
        ids len run by (simp add: s)
  qed
  ultimately show ?thesis using new(3) s by simp
qed

section \<open>A sample\<close>

definition build_step :: scheduled_operation where
  "build_step = \<lparr>so_id = ''build'', so_actor = 0, so_kind = ''run'', so_after = []\<rparr>"

definition test_step :: scheduled_operation where
  "test_step = \<lparr>so_id = ''test'', so_actor = 1, so_kind = ''run'', so_after = [''build'']\<rparr>"

definition sample_schedules :: schedule_set where
  "sample_schedules = \<lparr>ss_schedules = [[build_step, test_step]], ss_truncated = False, ss_seed = 0,
     ss_input = operations_digest sample_env [test_step, build_step]\<rparr>"

lemma sample_exploration:
  "explore sample_env [test_step, build_step] 2 0 4 = Inr sample_schedules"
proof -
  have "seeded_order sample_env 0 [''test'', ''build''] = [''build'', ''test'']"
    by code_simp
  then show ?thesis
    by (simp add: explore_def explore_loop.simps available_def push_available_def stack_limit_def
        dependencies_def operation_by_id_def build_step_def test_step_def sample_schedules_def Let_def)
qed

section \<open>Properties\<close>

text \<open>Every explored schedule runs each operation exactly once and after all the operations it
  depends on, no schedule is listed twice, and there are at most \<open>limit\<close> of them.\<close>

theorem explored_schedules_sound:
  assumes "explore h ops agents seed limit = Inr s"
  shows "distinct (ss_schedules s) \<and> length (ss_schedules s) \<le> nat limit \<and>
    (\<forall>row \<in> set (ss_schedules s). mset row = mset ops \<and>
      (\<forall>i < length row. set (so_after (row ! i)) \<subseteq> so_id ` set (take i row)))"
  using explore_Inr [OF assms] by (simp add: schedule_of_def in_order_def)

lemma explored_schedules_sound_witness:
  "length (ss_schedules sample_schedules) \<le> nat 4"
  using explored_schedules_sound [OF sample_exploration] by blast

text \<open>C18: Exploration is exhaustive unless it says otherwise: a result that is not marked truncated
  lists exactly the orders that respect all dependencies, and a truncated one has reached the
  limit (the bound on the search stack never cuts a search short).\<close>

theorem explored_schedules_complete:
  assumes "explore h ops agents seed limit = Inr s"
  shows "if ss_truncated s then length (ss_schedules s) = nat limit
    else set (ss_schedules s) = {row. mset row = mset ops \<and>
      (\<forall>i < length row. set (so_after (row ! i)) \<subseteq> so_id ` set (take i row))}"
proof -
  have "row \<in> set (ss_schedules s) \<longleftrightarrow> schedule_of ops row" if "\<not> ss_truncated s" for row
    using explore_Inr [OF assms] that by blast
  moreover have "ss_truncated s \<longrightarrow> length (ss_schedules s) = nat limit"
    using explore_Inr [OF assms] by blast
  ultimately show ?thesis
    by (simp add: set_eq_iff schedule_of_def in_order_def)
qed

lemma explored_schedules_complete_witness:
  "set (ss_schedules sample_schedules) = {row. mset row = mset [test_step, build_step] \<and>
      (\<forall>i < length row. set (so_after (row ! i)) \<subseteq> so_id ` set (take i row))}"
  using explored_schedules_complete [OF sample_exploration]
  by (simp only: sample_schedules_def schedule_set.simps if_False)

text \<open>C31: Exploration always ends, and it decides whether the dependencies can be met: on valid
  inputs it returns schedules exactly if some order respects all dependencies, and raises the
  cycle error otherwise.\<close>

theorem exploration_decides:
  assumes "schedule_inputs ops agents seed limit"
  shows "if \<exists>row. mset row = mset ops \<and>
      (\<forall>i < length row. set (so_after (row ! i)) \<subseteq> so_id ` set (take i row))
    then \<exists>s. explore h ops agents seed limit = Inr s \<and> ss_schedules s \<noteq> []
    else explore h ops agents seed limit = Inl (ValueError ''cyclic schedule dependencies'')"
proof -
  have ids: "distinct (map so_id ops)" and len: "length ops \<le> 128" "ops \<noteq> []" "1 \<le> limit"
    using assms by (auto simp: schedule_inputs_def)
  let ?order = "seeded_order h seed (map so_id ops)"
  have order: "set ?order = so_id ` set ops" by simp
  show ?thesis
  proof (cases "\<exists>row. schedule_of ops row")
    case True
    then obtain \<pi> where \<pi>: "topological (dependencies ops) ?order \<pi>"
      using id_of_schedule [OF ids order] by blast
    then obtain found truncated where
      run: "explore_loop (dependencies ops) ?order (length ?order) (nat limit) [([], {})] [] =
        Inr (found, truncated)" "truncated \<longrightarrow> length found = nat limit"
      using explore_loop_returns [OF \<pi> _ _ initial_entry(1,2), of "nat limit" "[]"] ids len by auto
    then have "found \<noteq> []"
      using explore_loop_Inr [OF run(1) _ initial_entry(1,3)] ids len(3) \<pi>
      by (cases truncated) (auto simp: initial_entry)
    with run True show ?thesis
      by (simp add: explore_run [OF assms] schedule_of_def in_order_def)
  next
    case False
    then have "\<nexists>\<pi>. topological (dependencies ops) ?order \<pi>"
      using schedule_by_id [OF ids order] by blast
    then have "explore_loop (dependencies ops) ?order (length ?order) (nat limit) [([], {})] [] =
        Inl (ValueError ''cyclic schedule dependencies'')"
      using ids len by (intro explore_loop_cyclic) (simp_all add: initial_entry)
    with False show ?thesis
      by (auto simp: explore_run [OF assms] schedule_of_def in_order_def)
  qed
qed

lemma exploration_decides_witness:
  "\<exists>s. explore sample_env [test_step, build_step] 2 0 4 = Inr s \<and> ss_schedules s \<noteq> []"
proof -
  have "schedule_inputs [test_step, build_step] 2 0 4"
    by (simp add: schedule_inputs_def build_step_def test_step_def)
  from exploration_decides [OF this, of sample_env] show ?thesis
    by (auto simp: sample_exploration split: if_splits)
qed

end
