(* ===== verification/Swarm_Events.thy ===== *)
theory Swarm_Events
  imports Registry
begin

text \<open>
  \<^verbatim>\<open>ordin/swarm/labels.py\<close>, \<^verbatim>\<open>ordin/swarm/events.py\<close> and \<^verbatim>\<open>ordin/swarm/journal.py\<close>: the
  sensitivity lattice, the bounded event values with their JSON form and digest, and the
  append-only journal of accepted events.
\<close>

section \<open>Sensitivity labels\<close>

definition sensitive_labels :: "string list" where
  "sensitive_labels = [''secret'', ''pii'', ''private_code'']"

definition all_labels :: "string list" where
  "all_labels = sensitive_labels @ [''public'', ''unclassified'']"

text \<open>\<^verbatim>\<open>tuple(sorted(set(xs)))\<close>\<close>

record sensitivity =
  sn_labels :: "string list"

definition sensitivity_post_init :: "sensitivity \<Rightarrow> unit res" where
  "sensitivity_post_init s =
     (let ls = sn_labels s in
      if \<not> (1 \<le> length ls \<and> length ls \<le> length all_labels) \<or>
         list_ex (\<lambda>v. v \<notin> set all_labels) ls \<or> sorted_set ls \<noteq> ls \<or>
         ''public'' \<in> set ls \<and> length ls \<noteq> 1
      then Inl (ValueError ''invalid canonical sensitivity labels'') else Inr ())"

definition sensitive :: "sensitivity \<Rightarrow> bool" where
  "sensitive s = (set sensitive_labels \<inter> set (sn_labels s) \<noteq> {})"

definition known :: "sensitivity \<Rightarrow> bool" where
  "known s = (''unclassified'' \<notin> set (sn_labels s))"

fun join_labels :: "string list \<Rightarrow> sensitivity list \<Rightarrow> string list res" where
  "join_labels acc [] = Inr acc"
| "join_labels acc (s # ss) =
     res_bind (sensitivity_post_init s) (\<lambda>_. join_labels (acc @ sn_labels s) ss)"

definition join :: "sensitivity \<Rightarrow> sensitivity list \<Rightarrow> sensitivity res" where
  "join s others =
     (if length others > 64 then Inl (ValueError ''bounded typed sensitivity labels required'')
      else res_bind (join_labels (sn_labels s) others) (\<lambda>acc.
        let labels = (if length (remdups acc) > 1 then filter (\<lambda>l. l \<noteq> ''public'') acc else acc);
            r = \<lparr>sn_labels = sorted_set labels\<rparr>
        in res_bind (sensitivity_post_init r) (\<lambda>_. Inr r)))"

subsection \<open>Lemmas\<close>

lemma post_init_iff:
  "sensitivity_post_init s = Inr u \<longleftrightarrow>
     sn_labels s \<noteq> [] \<and> set (sn_labels s) \<subseteq> set all_labels \<and> sorted_set (sn_labels s) = sn_labels s \<and>
     (''public'' \<in> set (sn_labels s) \<longrightarrow> length (sn_labels s) = 1)"
proof -
  have "length xs \<le> length all_labels" if "set xs \<subseteq> set all_labels" "sorted_set xs = xs" for xs
  proof -
    have "length xs = card (set xs)" using that(2) sorted_set_simps(3) [of xs] by simp
    also have "\<dots> \<le> card (set all_labels)" using that(1) by (intro card_mono) auto
    also have "\<dots> \<le> length all_labels" by (rule card_length)
    finally show ?thesis .
  qed
  then show ?thesis
    by (auto simp: sensitivity_post_init_def Let_def list_ex_iff Suc_le_eq)
qed

lemma join_labels_Inr:
  "join_labels acc ss = Inr acc' \<longleftrightarrow>
     (\<forall>s \<in> set ss. sensitivity_post_init s = Inr ()) \<and> acc' = acc @ concat (map sn_labels ss)"
  by (induction ss arbitrary: acc) auto

text \<open>Discarding \<open>p\<close> from more than one value.\<close>

lemma several_values: "xs \<noteq> [] \<Longrightarrow> length (remdups xs) > 1 \<longleftrightarrow> (\<nexists>x. set xs = {x})"
proof -
  assume "xs \<noteq> []"
  then have "0 < card (set xs)" by (simp add: card_gt_0_iff)
  moreover have "card (set xs) = 1 \<longleftrightarrow> (\<exists>x. set xs = {x})"
    by (simp only: One_nat_def card_1_singleton_iff)
  ultimately show ?thesis
    by (cases "\<exists>x. set xs = {x}") (auto simp: length_remdups_card_conv)
qed

lemma set_discard:
  assumes "xs \<noteq> []"
  shows "set (if length (remdups xs) > 1 then filter (\<lambda>l. l \<noteq> p) xs else xs) =
    (if set xs = {p} then {p} else set xs - {p})"
  using several_values [OF assms] by (cases "length (remdups xs) > 1") auto

lemma join_valid:
  assumes "sensitivity_post_init s = Inr ()" "\<forall>v \<in> set others. sensitivity_post_init v = Inr ()"
    "length others \<le> 64"
  shows "\<exists>r. join s others = Inr r \<and> sensitivity_post_init r = Inr () \<and>
    set (sn_labels r) =
      (let ls = set (sn_labels s) \<union> (\<Union>v \<in> set others. set (sn_labels v))
       in if ls = {''public''} then ls else ls - {''public''})"
proof -
  define acc where "acc = sn_labels s @ concat (map sn_labels others)"
  define ls where "ls = (if length (remdups acc) > 1 then filter (\<lambda>l. l \<noteq> ''public'') acc else acc)"
  have run: "join_labels (sn_labels s) others = Inr acc"
    using assms(2) by (simp add: join_labels_Inr acc_def)
  have ne: "acc \<noteq> []" "set acc \<subseteq> set all_labels"
    using assms(1,2) by (auto simp: post_init_iff acc_def)
  have set_ls: "set ls = (if set acc = {''public''} then {''public''} else set acc - {''public''})"
    unfolding ls_def by (rule set_discard [OF ne(1)])
  have "set ls \<noteq> {}"
    using ne(1) unfolding set_ls by (cases acc) auto
  moreover have "set ls \<subseteq> set all_labels"
    using ne(2) unfolding set_ls by auto
  moreover have "card (set ls) = 1" if "''public'' \<in> set ls"
    using that unfolding set_ls by (simp split: if_splits)
  moreover from calculation(1) have "sorted_set ls \<noteq> []"
    by (metis sorted_set_simps(1) set_empty)
  ultimately have "sensitivity_post_init \<lparr>sn_labels = sorted_set ls\<rparr> = Inr ()"
    unfolding post_init_iff by simp
  moreover from this have "join s others = Inr \<lparr>sn_labels = sorted_set ls\<rparr>"
    using assms(3) unfolding join_def run res_bind.simps Let_def ls_def [symmetric] by simp
  moreover have "set acc = set (sn_labels s) \<union> (\<Union>v \<in> set others. set (sn_labels v))"
    by (simp add: acc_def)
  ultimately show ?thesis
    using set_ls by (simp add: Let_def)
qed

section \<open>Event references\<close>

definition event_kinds :: "string list" where
  "event_kinds = [''proposed'', ''reviewed'', ''reserved'', ''committed'', ''forwarded'', ''completed'',
     ''observed'', ''failed'', ''denied'', ''canceled'', ''delegated'', ''message_sent'',
     ''message_received'', ''artifact_read'', ''artifact_write'', ''revoked'']"

definition evidence_classes :: "string list" where
  "evidence_classes =
     [''caller_asserted'', ''host_authenticated'', ''backend_observed'', ''backend_enforced'']"

definition action_stages :: "string list" where
  "action_stages = [''proposed'', ''reviewed'', ''reserved'', ''committed'', ''forwarded'',
     ''completed'', ''observed'', ''failed'', ''denied'', ''canceled'']"

definition review_bound_stages :: "string list" where
  "review_bound_stages = filter (\<lambda>k. k \<notin> {''proposed'', ''reviewed''}) action_stages"

definition max_event_bytes :: nat where "max_event_bytes = 65536"

definition event_text :: "string \<Rightarrow> string \<Rightarrow> nat \<Rightarrow> string res" where
  "event_text v name maximum =
     (if \<not> (1 \<le> length v \<and> length v \<le> maximum) \<or> list_ex (\<lambda>c. cp c < 32) v
      then Inl (ValueError (''invalid bounded '' @ name)) else Inr v)"

definition hex_char :: "char \<Rightarrow> bool" where
  "hex_char c = (let n = cp c in 48 \<le> n \<and> n \<le> 57 \<or> 97 \<le> n \<and> n \<le> 102)"

definition event_hex :: "string \<Rightarrow> string \<Rightarrow> string res" where
  "event_hex v name =
     (if length v \<noteq> 64 \<or> \<not> list_all hex_char v then Inl (ValueError (''invalid '' @ name))
      else Inr v)"

text \<open>\<^verbatim>\<open>_keys\<close>: an object with exactly the expected members.\<close>

definition exact_keys :: "json \<Rightarrow> string list \<Rightarrow> payload res" where
  "exact_keys v expected =
     (case v of
        JObj p \<Rightarrow>
          if length p \<noteq> length expected then Inl (ValueError ''invalid swarm event object shape'')
          else if list_ex (\<lambda>k. length k > 128) (map fst p)
          then Inl (ValueError ''invalid swarm event keys'')
          else if set (map fst p) \<noteq> set expected
          then Inl (ValueError ''unknown or missing swarm event fields'') else Inr p
      | _ \<Rightarrow> Inl (ValueError ''invalid swarm event object shape''))"

record event_ref =
  er_tenant :: string
  er_swarm :: string
  er_event :: string

definition ref_post_init :: "event_ref \<Rightarrow> unit res" where
  "ref_post_init r =
     res_bind (host_identifier (er_tenant r) ''tenant_id'') (\<lambda>_.
     res_bind (host_identifier (er_swarm r) ''swarm_id'') (\<lambda>_.
     res_bind (host_identifier (er_event r) ''event_id'') (\<lambda>_. Inr ())))"

definition ref_as_dict :: "event_ref \<Rightarrow> payload" where
  "ref_as_dict r =
     [(''tenant_id'', JStr (er_tenant r)), (''swarm_id'', JStr (er_swarm r)),
      (''event_id'', JStr (er_event r))]"

text \<open>\<^verbatim>\<open>identifier(v, name)\<close> on a value that need not be a string.\<close>

definition json_identifier :: "json \<Rightarrow> string \<Rightarrow> string res" where
  "json_identifier v name =
     res_bind (as_string v (ValueError (name @ '' must be a bounded host identifier'')))
       (\<lambda>s. host_identifier s name)"

definition ref_from_dict :: "json \<Rightarrow> event_ref res" where
  "ref_from_dict v =
     res_bind (exact_keys v [''tenant_id'', ''swarm_id'', ''event_id'']) (\<lambda>p.
     res_bind (json_identifier (jget p ''tenant_id'') ''tenant_id'') (\<lambda>tenant.
     res_bind (json_identifier (jget p ''swarm_id'') ''swarm_id'') (\<lambda>swarm.
     res_bind (json_identifier (jget p ''event_id'') ''event_id'') (\<lambda>event.
     Inr \<lparr>er_tenant = tenant, er_swarm = swarm, er_event = event\<rparr>))))"

section \<open>Events\<close>

record swarm_event =
  ev_id :: string
  ev_kind :: string
  ev_registry :: string
  ev_identity :: swarm_identity
  ev_source :: string
  ev_sequence :: int
  ev_timestamp :: host_number
  ev_evidence :: string
  ev_confidence :: host_number
  ev_action :: "string option"
  ev_action_digest :: "string option"
  ev_review :: "string option"
  ev_parents :: "event_ref list"
  ev_resources :: "string list"
  ev_observation :: "string option"
  ev_outcome :: "string option"

text \<open>A host number as JSON: an int and a float print differently, a non-finite one is refused.\<close>

definition json_of_number :: "host_number \<Rightarrow> json" where
  "json_of_number v = (case v of HInt i \<Rightarrow> JInt i | HFloat x \<Rightarrow> JFloat x | _ \<Rightarrow> JNull)"

definition number_of_json :: "json \<Rightarrow> host_number" where
  "number_of_json j = (case j of JInt i \<Rightarrow> HInt i | JFloat x \<Rightarrow> HFloat x | _ \<Rightarrow> HOther)"

definition event_as_dict :: "swarm_event \<Rightarrow> payload" where
  "event_as_dict e =
     [(''schema_version'', JStr ''ordin.swarm_event.v1''), (''event_id'', JStr (ev_id e)),
      (''event_kind'', JStr (ev_kind e)), (''registry_id'', JStr (ev_registry e)),
      (''identity'', JObj (identity_as_dict (ev_identity e))), (''source_id'', JStr (ev_source e)),
      (''source_sequence'', JInt (ev_sequence e)), (''timestamp'', json_of_number (ev_timestamp e)),
      (''evidence_class'', JStr (ev_evidence e)),
      (''confidence'', json_of_number (ev_confidence e)),
      (''action_id'', option_json (ev_action e)),
      (''action_digest'', option_json (ev_action_digest e)),
      (''review_event_id'', option_json (ev_review e)),
      (''parent_event_ids'', JArr (map (\<lambda>r. JObj (ref_as_dict r)) (ev_parents e))),
      (''resource_digests'', JArr (map JStr (ev_resources e))),
      (''observation_digest'', option_json (ev_observation e)),
      (''observed_outcome'', option_json (ev_outcome e))]"

definition confidence_ok :: "host_number \<Rightarrow> bool" where
  "confidence_ok v =
     (case v of HInt i \<Rightarrow> 0 \<le> i \<and> i \<le> 1 | HFloat x \<Rightarrow> 0 \<le> float_value x \<and> float_value x \<le> 1 | _ \<Rightarrow> False)"

definition action_check :: "swarm_event \<Rightarrow> unit res" where
  "action_check e =
     (if (ev_action e = None) \<noteq> (ev_action_digest e = None)
      then Inl (ValueError ''action identity requires its exact digest'')
      else (case ev_action e of
        Some a \<Rightarrow>
          res_bind (event_text a ''action_id'' 128) (\<lambda>_.
          (case ev_action_digest e of
             None \<Rightarrow> Inl (ValueError ''action identity requires its exact digest'')
           | Some d \<Rightarrow> res_bind (event_hex d ''action_digest'') (\<lambda>_. Inr ())))
      | None \<Rightarrow>
          if ev_kind e \<in> set action_stages
          then Inl (ValueError ''action stage requires action identity'') else Inr ()))"

definition review_check :: "swarm_event \<Rightarrow> unit res" where
  "review_check e =
     res_bind (optional_identifier (ev_review e) ''review_event_id'') (\<lambda>_.
     if ev_kind e \<in> set review_bound_stages \<and> ev_review e = None
     then Inl (ValueError ''action stage requires an exact reviewed-event reference'')
     else if ev_kind e \<notin> set review_bound_stages \<and> ev_review e \<noteq> None
     then Inl (ValueError ''unexpected reviewed-event reference'') else Inr ())"

fun parents_seen :: "swarm_event \<Rightarrow> string list \<Rightarrow> event_ref list \<Rightarrow> string list res" where
  "parents_seen e seen [] = Inr seen"
| "parents_seen e seen (r # rs) =
     res_bind (ref_post_init r) (\<lambda>_.
     if (er_tenant r, er_swarm r) \<noteq> (id_tenant (ev_identity e), id_swarm (ev_identity e))
     then Inl (ValueError ''cross-tenant or cross-swarm parent reference'')
     else if er_event r = ev_id e \<or> er_event r \<in> set seen
     then Inl (ValueError ''self or duplicate parent event reference'')
     else parents_seen e (er_event r # seen) rs)"

fun check_resources :: "string list \<Rightarrow> unit res" where
  "check_resources [] = Inr ()"
| "check_resources (d # ds) = res_bind (event_hex d ''resource_digest'') (\<lambda>_. check_resources ds)"

definition observation_check :: "swarm_event \<Rightarrow> unit res" where
  "observation_check e =
     (if ev_evidence e \<in> {''backend_observed'', ''backend_enforced''} then
        (case ev_observation e of
           None \<Rightarrow> Inl (ValueError ''runtime event requires an exact observed-receipt digest'')
         | Some d \<Rightarrow>
             if ev_kind e \<noteq> ''observed''
             then Inl (ValueError ''runtime event requires an exact observed-receipt digest'')
             else res_bind (event_hex d ''observation_digest'') (\<lambda>_.
               if ev_outcome e \<notin>
                 Some ` {''allowed'', ''denied'', ''failed'', ''completed'', ''unknown''}
               then Inl (ValueError ''runtime event requires its exact reported outcome'')
               else Inr ()))
      else if ev_observation e \<noteq> None \<or> ev_outcome e \<noteq> None
      then Inl (ValueError ''unexpected runtime observation digest'') else Inr ())"

text \<open>\<^verbatim>\<open>_validated_bytes\<close>\<close>

definition event_bytes :: "host_env \<Rightarrow> swarm_event \<Rightarrow> nat list res" where
  "event_bytes h e =
     res_bind (host_identifier (ev_id e) ''event_id'') (\<lambda>_.
     res_bind (host_identifier (ev_registry e) ''registry_id'') (\<lambda>_.
     res_bind (host_identifier (ev_source e) ''source_id'') (\<lambda>_.
     if ev_kind e \<notin> set event_kinds then Inl (ValueError ''unknown swarm event kind'')
     else if ev_evidence e \<notin> set evidence_classes
     then Inl (ValueError ''unknown swarm evidence class'')
     else
     res_bind (identity_post_init (ev_identity e)) (\<lambda>_.
     res_bind (counter (ev_sequence e) ''source_sequence'') (\<lambda>_.
     if ev_sequence e = 0 then Inl (ValueError ''source sequence must be positive'')
     else
     res_bind (timestamp (ev_timestamp e)) (\<lambda>_.
     if \<not> confidence_ok (ev_confidence e)
     then Inl (ValueError ''invalid bounded event confidence'')
     else
     res_bind (action_check e) (\<lambda>_.
     res_bind (review_check e) (\<lambda>_.
     if length (ev_parents e) > 8 then Inl (ValueError ''invalid bounded parent event collection'')
     else
     res_bind (parents_seen e [] (ev_parents e)) (\<lambda>seen.
     if ev_review e \<noteq> None \<and> the (ev_review e) \<notin> set seen
     then Inl (ValueError ''review reference must be an explicit causal parent'')
     else if length (ev_resources e) > 64
     then Inl (ValueError ''invalid bounded resource digest collection'')
     else
     res_bind (check_resources (ev_resources e)) (\<lambda>_.
     if \<not> distinct (ev_resources e) then Inl (ValueError ''duplicate resource digest'')
     else
     res_bind (observation_check e) (\<lambda>_.
     let raw = utf8 (canonical_json h (JObj (event_as_dict e)))
     in if length raw > max_event_bytes
        then Inl (ValueError ''swarm event byte limit exceeded'') else Inr raw)))))))))))"

text \<open>The prefix is \<^verbatim>\<open>b"ordin.swarm_event.v1\0"\<close>.\<close>

definition event_digest :: "host_env \<Rightarrow> swarm_event \<Rightarrow> string res" where
  "event_digest h e =
     res_bind (event_bytes h e) (\<lambda>raw.
     Inr (sha256 h (utf8 ''ordin.swarm_event.v1'' @ [0] @ raw)))"

section \<open>Reading events\<close>

text \<open>
  The readers take the members of an object one by one. A payload with one fault is refused with
  the code's message; one with several may be refused with another of their messages.
\<close>

definition json_counter :: "json \<Rightarrow> string \<Rightarrow> int res" where
  "json_counter v name =
     res_bind (as_int v (ValueError (name @ '' must be a nonnegative bounded integer'')))
       (\<lambda>i. counter i name)"

definition json_option :: "(json \<Rightarrow> 'a res) \<Rightarrow> json \<Rightarrow> 'a option res" where
  "json_option f v = (case v of JNull \<Rightarrow> Inr None | _ \<Rightarrow> res_bind (f v) (\<lambda>x. Inr (Some x)))"

definition identity_fields :: "string list" where
  "identity_fields = [''tenant_id'', ''swarm_id'', ''agent_id'', ''runtime_id'', ''session_id'',
     ''generation'', ''policy_epoch'', ''parent_agent_id'', ''parent_generation'', ''task_id'',
     ''delegation_id'']"

definition identity_from_dict :: "json \<Rightarrow> swarm_identity res" where
  "identity_from_dict v =
     res_bind (exact_keys v identity_fields) (\<lambda>p.
     res_bind (json_identifier (jget p ''tenant_id'') ''tenant_id'') (\<lambda>tenant.
     res_bind (json_identifier (jget p ''swarm_id'') ''swarm_id'') (\<lambda>swarm.
     res_bind (json_identifier (jget p ''agent_id'') ''agent_id'') (\<lambda>agent.
     res_bind (json_identifier (jget p ''runtime_id'') ''runtime_id'') (\<lambda>runtime.
     res_bind (json_identifier (jget p ''session_id'') ''session_id'') (\<lambda>session.
     res_bind (json_option (\<lambda>j. json_identifier j ''parent_agent_id'') (jget p ''parent_agent_id''))
       (\<lambda>parent.
     res_bind (json_option (\<lambda>j. json_identifier j ''task_id'') (jget p ''task_id'')) (\<lambda>task.
     res_bind (json_option (\<lambda>j. json_identifier j ''delegation_id'') (jget p ''delegation_id''))
       (\<lambda>delegation.
     res_bind (json_counter (jget p ''generation'') ''generation'') (\<lambda>generation.
     res_bind (json_counter (jget p ''policy_epoch'') ''policy_epoch'') (\<lambda>epoch.
     res_bind (json_option (\<lambda>j. json_counter j ''parent_generation'') (jget p ''parent_generation''))
       (\<lambda>parent_generation.
     let i = \<lparr>id_tenant = tenant, id_swarm = swarm, id_agent = agent, id_runtime = runtime,
       id_session = session, id_generation = generation, id_epoch = epoch, id_parent = parent,
       id_parent_generation = parent_generation, id_task = task, id_delegation = delegation\<rparr>
     in res_bind (identity_post_init i) (\<lambda>_. Inr i)))))))))))))"

definition event_fields :: "string list" where
  "event_fields = [''event_id'', ''event_kind'', ''registry_id'', ''identity'', ''source_id'',
     ''source_sequence'', ''timestamp'', ''evidence_class'', ''confidence'', ''action_id'',
     ''action_digest'', ''review_event_id'', ''parent_event_ids'', ''resource_digests'',
     ''observation_digest'', ''observed_outcome'']"

definition json_text :: "json \<Rightarrow> string \<Rightarrow> string res" where
  "json_text v message = as_string v (ValueError message)"

definition event_from_dict :: "host_env \<Rightarrow> json \<Rightarrow> swarm_event res" where
  "event_from_dict h v =
     res_bind (exact_keys v (event_fields @ [''schema_version''])) (\<lambda>p.
     if jget p ''schema_version'' \<noteq> JStr ''ordin.swarm_event.v1''
     then Inl (ValueError ''unsupported swarm event version'')
     else
     res_bind (identity_from_dict (jget p ''identity'')) (\<lambda>identity.
     res_bind (as_list (jget p ''parent_event_ids'')
       (ValueError ''invalid bounded swarm event collections'')) (\<lambda>parents.
     res_bind (as_list (jget p ''resource_digests'')
       (ValueError ''invalid bounded swarm event collections'')) (\<lambda>resources.
     if length parents > 8 \<or> length resources > 64
     then Inl (ValueError ''invalid bounded swarm event collections'')
     else
     res_bind (res_mapM ref_from_dict parents) (\<lambda>refs.
     res_bind (json_identifier (jget p ''event_id'') ''event_id'') (\<lambda>event.
     res_bind (json_identifier (jget p ''registry_id'') ''registry_id'') (\<lambda>registry.
     res_bind (json_identifier (jget p ''source_id'') ''source_id'') (\<lambda>source.
     res_bind (json_text (jget p ''event_kind'') ''unknown swarm event kind'') (\<lambda>kind.
     res_bind (json_text (jget p ''evidence_class'') ''unknown swarm evidence class'') (\<lambda>evidence.
     res_bind (json_counter (jget p ''source_sequence'') ''source_sequence'') (\<lambda>sequence.
     res_bind (json_option (\<lambda>j. json_text j ''invalid bounded action_id'') (jget p ''action_id''))
       (\<lambda>action.
     res_bind (json_option (\<lambda>j. json_text j ''invalid action_digest'') (jget p ''action_digest''))
       (\<lambda>action_digest.
     res_bind (json_option (\<lambda>j. json_identifier j ''review_event_id'') (jget p ''review_event_id''))
       (\<lambda>review.
     res_bind (res_mapM (\<lambda>j. json_text j ''invalid resource_digest'') resources) (\<lambda>digests.
     res_bind (json_option (\<lambda>j. json_text j ''invalid observation_digest'')
       (jget p ''observation_digest'')) (\<lambda>observation.
     res_bind (json_option (\<lambda>j. json_text j ''runtime event requires its exact reported outcome'')
       (jget p ''observed_outcome'')) (\<lambda>outcome.
     let e = \<lparr>ev_id = event, ev_kind = kind, ev_registry = registry, ev_identity = identity,
       ev_source = source, ev_sequence = sequence,
       ev_timestamp = number_of_json (jget p ''timestamp''), ev_evidence = evidence,
       ev_confidence = number_of_json (jget p ''confidence''), ev_action = action,
       ev_action_digest = action_digest, ev_review = review, ev_parents = refs,
       ev_resources = digests, ev_observation = observation, ev_outcome = outcome\<rparr>
     in res_bind (event_bytes h e) (\<lambda>_. Inr e))))))))))))))))))"

lemma json_option_json [simp]:
  "(\<And>s. v = Some s \<Longrightarrow> f (JStr s) = Inr s) \<Longrightarrow> json_option f (option_json v) = Inr v"
  by (cases v) (simp_all add: json_option_def option_json_def)

lemma exact_keys_ok:
  assumes "map fst p = ks" "distinct ks" "set ks = set expected" "length ks = length expected"
    "\<forall>k \<in> set ks. length k \<le> 128"
  shows "exact_keys (JObj p) expected = Inr p"
  using assms unfolding exact_keys_def by (auto simp: list_ex_iff)

lemma json_readers_ok [simp]:
  "json_identifier (JStr s) name = host_identifier s name"
  "json_counter (JInt i) name = counter i name" "json_text (JStr s) message = Inr s"
  by (simp_all add: json_identifier_def json_counter_def json_text_def)

lemma number_roundtrip:
  "timestamp v = Inr t \<Longrightarrow> number_of_json (json_of_number v) = v"
  "confidence_ok v \<Longrightarrow> number_of_json (json_of_number v) = v"
  by (cases v; simp add: number_of_json_def json_of_number_def timestamp_def confidence_ok_def)+

lemma ref_roundtrip:
  assumes "ref_post_init r = Inr ()"
  shows "ref_from_dict (JObj (ref_as_dict r)) = Inr r"
proof -
  have "exact_keys (JObj (ref_as_dict r)) [''tenant_id'', ''swarm_id'', ''event_id''] = Inr (ref_as_dict r)"
    by (simp add: exact_keys_def ref_as_dict_def)
  then show ?thesis
    using assms by (simp add: ref_from_dict_def) (simp add: ref_as_dict_def ref_post_init_def)
qed

lemma identity_roundtrip:
  assumes "identity_post_init i = Inr ()"
  shows "identity_from_dict (JObj (identity_as_dict i)) = Inr i"
proof -
  have keys: "exact_keys (JObj (identity_as_dict i)) identity_fields = Inr (identity_as_dict i)"
    by (simp add: exact_keys_def identity_as_dict_def identity_fields_def insert_commute)
  have "id_match s" if "id_parent i = Some s \<or> id_task i = Some s \<or> id_delegation i = Some s" for s
    using that assms by (auto simp: identity_post_init_def optional_identifier_def)
  then have opt: "json_option (\<lambda>j. json_identifier j name) (option_json (id_parent i)) = Inr (id_parent i)"
      "json_option (\<lambda>j. json_identifier j name) (option_json (id_task i)) = Inr (id_task i)"
      "json_option (\<lambda>j. json_identifier j name) (option_json (id_delegation i)) = Inr (id_delegation i)"
    for name by simp_all
  have gen: "json_option (\<lambda>j. json_counter j name)
      (case id_parent_generation i of None \<Rightarrow> JNull | Some g \<Rightarrow> JInt g) = Inr (id_parent_generation i)" for name
    using assms by (cases "id_parent_generation i")
      (auto simp: identity_post_init_def json_option_def split: if_splits)
  show ?thesis
    using assms unfolding identity_from_dict_def keys
    by (simp add: identity_as_dict_def opt gen) (auto simp: identity_post_init_def split: if_splits)
qed

lemma event_bytes_Inr:
  assumes "event_bytes h e = Inr raw"
  shows "id_match (ev_id e)" "id_match (ev_registry e)" "id_match (ev_source e)"
    "ev_kind e \<in> set event_kinds" "ev_evidence e \<in> set evidence_classes"
    "identity_post_init (ev_identity e) = Inr ()" "0 < ev_sequence e" "ev_sequence e < 2 ^ 63"
    "\<exists>t. timestamp (ev_timestamp e) = Inr t" "confidence_ok (ev_confidence e)"
    "action_check e = Inr ()" "review_check e = Inr ()" "length (ev_parents e) \<le> 8"
    "\<exists>seen. parents_seen e [] (ev_parents e) = Inr seen \<and>
      (\<forall>r. ev_review e = Some r \<longrightarrow> r \<in> set seen)"
    "length (ev_resources e) \<le> 64" "check_resources (ev_resources e) = Inr ()"
    "distinct (ev_resources e)" "observation_check e = Inr ()" "length raw \<le> max_event_bytes"
    "raw = utf8 (canonical_json h (JObj (event_as_dict e)))"
  using assms unfolding event_bytes_def
  by (simp_all only: res_bind_Inr_iff if_Inl_Inr_iff Let_def host_identifier_Inr_iff counter_Inr_iff) force+

lemma parents_seen_Inr:
  assumes "parents_seen e seen rs = Inr seen'"
  shows "(\<forall>r \<in> set rs. ref_post_init r = Inr () \<and> er_tenant r = id_tenant (ev_identity e) \<and>
      er_swarm r = id_swarm (ev_identity e) \<and> er_event r \<noteq> ev_id e \<and> er_event r \<notin> set seen) \<and>
    distinct (map er_event rs) \<and> set seen' = set seen \<union> er_event ` set rs"
  using assms
proof (induction rs arbitrary: seen)
  case (Cons r rs)
  have "ref_post_init r = Inr ()" "er_tenant r = id_tenant (ev_identity e)"
      "er_swarm r = id_swarm (ev_identity e)" "er_event r \<noteq> ev_id e" "er_event r \<notin> set seen"
      and rest: "parents_seen e (er_event r # seen) rs = Inr seen'"
    using Cons.prems by (auto split: if_splits)
  with Cons.IH [OF rest] show ?case by auto
qed simp

lemma check_resources_Inr:
  "check_resources ds = Inr u \<longleftrightarrow> (\<forall>d \<in> set ds. event_hex d ''resource_digest'' = Inr d)"
  by (induction ds) (auto simp: event_hex_def split: if_splits)

lemma event_roundtrip:
  assumes "event_bytes h e = Inr raw"
  shows "event_from_dict h (JObj (event_as_dict e)) = Inr e"
proof -
  note v = event_bytes_Inr [OF assms]
  have keys: "exact_keys (JObj (event_as_dict e)) (event_fields @ [''schema_version'']) =
      Inr (event_as_dict e)"
    by (simp add: exact_keys_def event_as_dict_def event_fields_def insert_commute)
  have refs: "res_mapM ref_from_dict (map (\<lambda>r. JObj (ref_as_dict r)) (ev_parents e)) = Inr (ev_parents e)"
    using v(14) by (intro res_mapM_map_id) (auto dest!: parents_seen_Inr intro: ref_roundtrip)
  have digests: "res_mapM (\<lambda>j. json_text j m) (map JStr (ev_resources e)) = Inr (ev_resources e)" for m
    by (rule res_mapM_map_id) simp
  have review: "json_option (\<lambda>j. json_identifier j ''review_event_id'') (option_json (ev_review e)) =
      Inr (ev_review e)"
    using v(12) by (intro json_option_json) (auto simp: review_check_def optional_identifier_def)
  have texts: "json_option (\<lambda>j. json_text j m) (option_json x) = Inr x" for m x
    by simp
  have numbers: "number_of_json (json_of_number (ev_timestamp e)) = ev_timestamp e"
      "number_of_json (json_of_number (ev_confidence e)) = ev_confidence e"
    using v(9,10) number_roundtrip by auto
  have "jget (event_as_dict e) ''schema_version'' = JStr ''ordin.swarm_event.v1''"
      "jget (event_as_dict e) ''identity'' = JObj (identity_as_dict (ev_identity e))"
      "jget (event_as_dict e) ''parent_event_ids'' = JArr (map (\<lambda>r. JObj (ref_as_dict r)) (ev_parents e))"
      "jget (event_as_dict e) ''resource_digests'' = JArr (map JStr (ev_resources e))"
      "jget (event_as_dict e) ''event_id'' = JStr (ev_id e)"
      "jget (event_as_dict e) ''registry_id'' = JStr (ev_registry e)"
      "jget (event_as_dict e) ''source_id'' = JStr (ev_source e)"
      "jget (event_as_dict e) ''event_kind'' = JStr (ev_kind e)"
      "jget (event_as_dict e) ''evidence_class'' = JStr (ev_evidence e)"
      "jget (event_as_dict e) ''source_sequence'' = JInt (ev_sequence e)"
      "jget (event_as_dict e) ''action_id'' = option_json (ev_action e)"
      "jget (event_as_dict e) ''action_digest'' = option_json (ev_action_digest e)"
      "jget (event_as_dict e) ''review_event_id'' = option_json (ev_review e)"
      "jget (event_as_dict e) ''observation_digest'' = option_json (ev_observation e)"
      "jget (event_as_dict e) ''observed_outcome'' = option_json (ev_outcome e)"
      "jget (event_as_dict e) ''timestamp'' = json_of_number (ev_timestamp e)"
      "jget (event_as_dict e) ''confidence'' = json_of_number (ev_confidence e)"
    by (simp_all add: event_as_dict_def)
  note get = this
  have ids: "host_identifier (ev_id e) n = Inr (ev_id e)"
      "host_identifier (ev_registry e) n = Inr (ev_registry e)"
      "host_identifier (ev_source e) n = Inr (ev_source e)"
      "counter (ev_sequence e) n = Inr (ev_sequence e)" for n
    using v(1-3,7,8) by simp_all
  show ?thesis
    unfolding event_from_dict_def keys res_bind.simps get
    using v(13,15) assms
    by (simp add: identity_roundtrip [OF v(6)] refs digests review texts numbers ids Let_def)
      (use assms in \<open>cases e, simp\<close>)
qed

section \<open>The journal\<close>

record journal_record =
  jr_event :: swarm_event
  jr_digest :: string
  jr_index :: int
  jr_role :: string

record memory_journal =
  mj_limit :: nat
  mj_records :: "journal_record list"
  mj_ids :: "string set"

definition new_journal :: "nat \<Rightarrow> memory_journal" where
  "new_journal maximum = \<lparr>mj_limit = maximum, mj_records = [], mj_ids = {}\<rparr>"

definition journal_append :: "journal_record \<Rightarrow> int \<Rightarrow> (memory_journal, unit) op" where
  "journal_append r expected =
     op_bind (op_read (\<lambda>j. ensure (\<not> (int (length (mj_records j)) \<noteq> expected \<or>
         jr_index r \<noteq> expected + 1)) (ValueError ''swarm journal append conflict''))) (\<lambda>_.
     op_bind (op_read (\<lambda>j. ensure (\<not> length (mj_records j) \<ge> mj_limit j)
       (ValueError ''swarm journal capacity reached''))) (\<lambda>_.
     op_bind (op_read (\<lambda>j. ensure (ev_id (jr_event r) \<notin> mj_ids j)
       (ValueError ''duplicate swarm journal event''))) (\<lambda>_.
     op_modify (\<lambda>j. j\<lparr>mj_records := mj_records j @ [r],
       mj_ids := insert (ev_id (jr_event r)) (mj_ids j)\<rparr>))))"

definition journal_step :: "memory_journal \<Rightarrow> journal_record \<times> int \<Rightarrow> memory_journal" where
  "journal_step j c = fst (journal_append (fst c) (snd c) j)"

text \<open>Positions are gapless from one, events are recorded once, and the capacity holds.\<close>

definition journal_inv :: "memory_journal \<Rightarrow> bool" where
  "journal_inv j =
     (map jr_index (mj_records j) = map (\<lambda>i. int i + 1) [0..<length (mj_records j)] \<and>
      distinct (map (\<lambda>r. ev_id (jr_event r)) (mj_records j)) \<and>
      mj_ids j = (\<lambda>r. ev_id (jr_event r)) ` set (mj_records j) \<and>
      length (mj_records j) \<le> mj_limit j)"

lemma journal_step_cases:
  "journal_step j c = j \<or>
     (\<exists>r expected. c = (r, expected) \<and> jr_index r = int (length (mj_records j)) + 1 \<and>
        length (mj_records j) < mj_limit j \<and> ev_id (jr_event r) \<notin> mj_ids j \<and>
        journal_step j c = j\<lparr>mj_records := mj_records j @ [r],
          mj_ids := insert (ev_id (jr_event r)) (mj_ids j)\<rparr>)"
  by (cases c) (auto simp: journal_step_def journal_append_def op_bind_def op_defs ensure_def)

interpretation journal_runs:
  monotone_system journal_step journal_inv "\<lambda>j :: memory_journal. length (mj_records j)"
proof
  fix j c assume "journal_inv j"
  with journal_step_cases [of j c] show "journal_inv (journal_step j c)"
    by (auto simp: journal_inv_def)
  show "length (mj_records j) \<le> length (mj_records (journal_step j c))"
    using journal_step_cases [of j c] by auto
qed

lemma journal_step_prefix: "\<exists>rs. mj_records (journal_step j c) = mj_records j @ rs \<and> mj_limit (journal_step j c) = mj_limit j"
  using journal_step_cases [of j c] by auto

lemma journal_run_prefix:
  "\<exists>rs. mj_records (foldl journal_step j cs) = mj_records j @ rs \<and> mj_limit (foldl journal_step j cs) = mj_limit j"
proof (induction cs arbitrary: j)
  case (Cons c cs)
  show ?case
    using journal_step_prefix [of j c] Cons.IH [of "journal_step j c"] by auto
qed simp

section \<open>A sample event\<close>

definition sample_event :: swarm_event where
  "sample_event = \<lparr>ev_id = ''e2'', ev_kind = ''completed'', ev_registry = ''r1'',
     ev_identity = sc_identity sample_context, ev_source = ''host'', ev_sequence = 2,
     ev_timestamp = HInt 5, ev_evidence = ''host_authenticated'', ev_confidence = HInt 1,
     ev_action = Some ''x1'', ev_action_digest = Some (replicate 64 CHR ''a''),
     ev_review = Some ''e1'',
     ev_parents = [\<lparr>er_tenant = ''t1'', er_swarm = ''s1'', er_event = ''e1''\<rparr>],
     ev_resources = [], ev_observation = None, ev_outcome = None\<rparr>"

lemma sample_event_bytes:
  "event_bytes sample_env sample_event =
     Inr (utf8 (canonical_json sample_env (JObj (event_as_dict sample_event))))"
proof -
  let ?j = "JObj (event_as_dict sample_event)"
  have "text_bound sample_env ?j \<le> 12000"
    by (simp add: event_as_dict_def identity_as_dict_def ref_as_dict_def json_of_number_def
        option_json_def sample_event_def sample_context_def int_text_def decimal.simps)
  then have "length (utf8 (canonical_json sample_env ?j)) \<le> max_event_bytes"
    using length_utf8 [of "canonical_json sample_env ?j"] length_canonical [of sample_env ?j]
    unfolding max_event_bytes_def by linarith
  moreover have "host_identifier (ev_id sample_event) ''event_id'' = Inr ''e2''"
      "host_identifier (ev_registry sample_event) ''registry_id'' = Inr ''r1''"
      "host_identifier (ev_source sample_event) ''source_id'' = Inr ''host''"
      "ev_kind sample_event \<in> set event_kinds" "ev_evidence sample_event \<in> set evidence_classes"
      "identity_post_init (ev_identity sample_event) = Inr ()"
      "counter (ev_sequence sample_event) ''source_sequence'' = Inr 2" "ev_sequence sample_event \<noteq> 0"
      "timestamp (ev_timestamp sample_event) = Inr 5" "confidence_ok (ev_confidence sample_event)"
      "action_check sample_event = Inr ()" "review_check sample_event = Inr ()"
      "parents_seen sample_event [] (ev_parents sample_event) = Inr [''e1'']"
      "observation_check sample_event = Inr ()" "ev_review sample_event = Some ''e1''"
      "length (ev_parents sample_event) = 1" "ev_resources sample_event = []"
    by code_simp+
  ultimately show ?thesis
    by (simp add: event_bytes_def Let_def)
qed

section \<open>Properties\<close>

text \<open>Joining sensitivities is conservative: the join of valid labels always succeeds and is
  valid, it is sensitive exactly if one of them is, and known only if all of them are (an
  unclassified part keeps the whole unclassified, and public never hides another label).\<close>

theorem join_conservative:
  assumes "sensitivity_post_init s = Inr ()" and "\<forall>v \<in> set others. sensitivity_post_init v = Inr ()"
    and "length others \<le> 64"
  shows "\<exists>r. join s others = Inr r \<and> sensitivity_post_init r = Inr () \<and>
    (sensitive r \<longleftrightarrow> sensitive s \<or> (\<exists>v \<in> set others. sensitive v)) \<and>
    (known r \<longleftrightarrow> known s \<and> (\<forall>v \<in> set others. known v)) \<and>
    (''public'' \<in> set (sn_labels r) \<longleftrightarrow>
       (\<forall>v \<in> set (s # others). set (sn_labels v) = {''public''}))"
proof -
  obtain r where r: "join s others = Inr r" "sensitivity_post_init r = Inr ()"
      and labels: "set (sn_labels r) =
        (let ls = set (sn_labels s) \<union> (\<Union>v \<in> set others. set (sn_labels v))
         in if ls = {''public''} then ls else ls - {''public''})"
    using join_valid [OF assms] by blast
  have ne: "set (sn_labels v) \<noteq> {}" if "v \<in> set (s # others)" for v
    using that assms by (auto simp: post_init_iff)
  let ?ls = "set (sn_labels s) \<union> (\<Union>v \<in> set others. set (sn_labels v))"
  have "set (sn_labels v) = {''public''}" if "?ls = {''public''}" "v \<in> set (s # others)" for v
  proof -
    have "set (sn_labels v) \<subseteq> ?ls" using that(2) by auto
    then have "set (sn_labels v) \<subseteq> {''public''}" unfolding that(1) .
    then show ?thesis using ne [OF that(2)] by (metis subset_singletonD)
  qed
  then have "?ls = {''public''} \<longleftrightarrow> (\<forall>v \<in> set (s # others). set (sn_labels v) = {''public''})"
    by (intro iffI ballI) (blast, simp)
  then have pub: "''public'' \<in> set (sn_labels r) \<longleftrightarrow> (\<forall>v \<in> set (s # others). set (sn_labels v) = {''public''})"
    using labels by (auto simp: Let_def split: if_splits)
  have other: "l \<in> set (sn_labels r) \<longleftrightarrow> l \<in> ?ls" if "l \<noteq> ''public''" for l
    using that labels by (auto simp: Let_def split: if_splits)
  have "l \<in> set sensitive_labels \<Longrightarrow> l \<noteq> ''public''" for l
    by (auto simp: sensitive_labels_def)
  then have sens: "sensitive r \<longleftrightarrow> sensitive s \<or> (\<exists>v \<in> set others. sensitive v)"
    unfolding sensitive_def using other by blast
  have kn: "known r \<longleftrightarrow> known s \<and> (\<forall>v \<in> set others. known v)"
    unfolding known_def using other [of "''unclassified''"] by auto
  show ?thesis
    by (intro exI conjI) (rule r sens kn pub)+
qed

lemma join_conservative_witness:
  "\<exists>r. join \<lparr>sn_labels = [''public'']\<rparr> [\<lparr>sn_labels = [''secret'', ''unclassified'']\<rparr>] = Inr r \<and>
     sensitive r \<and> \<not> known r"
proof -
  have "sensitivity_post_init \<lparr>sn_labels = [''public'']\<rparr> = Inr ()"
      "sensitivity_post_init \<lparr>sn_labels = [''secret'', ''unclassified'']\<rparr> = Inr ()"
      "sensitive \<lparr>sn_labels = [''secret'', ''unclassified'']\<rparr>"
      "\<not> known \<lparr>sn_labels = [''secret'', ''unclassified'']\<rparr>"
    by code_simp+
  then show ?thesis
    using join_conservative [of "\<lparr>sn_labels = [''public'']\<rparr>"
        "[\<lparr>sn_labels = [''secret'', ''unclassified'']\<rparr>]"] by fastforce
qed

text \<open>Writing an accepted event and reading it back yields the same event.\<close>

theorem swarm_event_roundtrip:
  assumes "event_bytes h e = Inr raw"
  shows "event_from_dict h (JObj (event_as_dict e)) = Inr e"
  by (rule event_roundtrip [OF assms])

lemma swarm_event_roundtrip_witness:
  "event_from_dict sample_env (JObj (event_as_dict sample_event)) = Inr sample_event"
  by (rule swarm_event_roundtrip [OF sample_event_bytes])

text \<open>C34: An accepted event never reaches across its scope and never claims more than its evidence:
  its parents are at most eight distinct events of its own tenant and swarm and not itself, a
  stage after review names its review among its parents, only an observed event with a receipt
  digest and a reported outcome carries backend evidence, and its encoding is bounded.\<close>

theorem accepted_event_scope:
  assumes "event_bytes h e = Inr raw"
  shows "length (ev_parents e) \<le> 8 \<and> distinct (map er_event (ev_parents e)) \<and>
    (\<forall>r \<in> set (ev_parents e). er_tenant r = id_tenant (ev_identity e) \<and>
       er_swarm r = id_swarm (ev_identity e) \<and> er_event r \<noteq> ev_id e) \<and>
    (ev_kind e \<in> set review_bound_stages \<longrightarrow>
       (\<exists>r \<in> set (ev_parents e). ev_review e = Some (er_event r))) \<and>
    (ev_evidence e \<in> {''backend_observed'', ''backend_enforced''} \<longrightarrow>
       ev_kind e = ''observed'' \<and> ev_observation e \<noteq> None \<and> ev_outcome e \<noteq> None) \<and>
    length raw \<le> max_event_bytes"
proof -
  note v = event_bytes_Inr [OF assms]
  obtain seen where seen: "parents_seen e [] (ev_parents e) = Inr seen"
      "\<forall>r. ev_review e = Some r \<longrightarrow> r \<in> set seen"
    using v(14) by blast
  note p = parents_seen_Inr [OF seen(1)]
  have "ev_kind e \<in> set review_bound_stages \<Longrightarrow> ev_review e \<noteq> None"
    using v(12) by (auto simp: review_check_def split: if_splits)
  then have "ev_kind e \<in> set review_bound_stages \<longrightarrow>
      (\<exists>r \<in> set (ev_parents e). ev_review e = Some (er_event r))"
    using seen(2) p by fastforce
  moreover have "ev_evidence e \<in> {''backend_observed'', ''backend_enforced''} \<longrightarrow>
      ev_kind e = ''observed'' \<and> ev_observation e \<noteq> None \<and> ev_outcome e \<noteq> None"
    using v(18) by (simp only: observation_check_def) (auto split: option.splits if_splits)
  ultimately show ?thesis using p v(13,19) by blast
qed

lemma accepted_event_scope_witness:
  "\<exists>r \<in> set (ev_parents sample_event). ev_review sample_event = Some (er_event r)"
proof -
  have "ev_kind sample_event \<in> set review_bound_stages"
    by code_simp
  then show ?thesis
    using accepted_event_scope [OF sample_event_bytes] by blast
qed

text \<open>C19: Whatever is offered to a journal, accepted or refused, it stays append-only: what was
  recorded keeps its place, positions are gapless from one, no event is recorded twice and the
  capacity is never exceeded.\<close>

theorem journal_append_only:
  shows "\<exists>rs. mj_records (foldl journal_step (new_journal maximum) (cs @ ds)) =
      mj_records (foldl journal_step (new_journal maximum) cs) @ rs \<and>
    journal_inv (foldl journal_step (new_journal maximum) (cs @ ds)) \<and>
    length (mj_records (foldl journal_step (new_journal maximum) (cs @ ds))) \<le> maximum"
proof -
  have "journal_inv (new_journal maximum)"
    by (simp add: journal_inv_def new_journal_def)
  then have inv: "journal_inv (foldl journal_step (new_journal maximum) (cs @ ds))"
    by (rule journal_runs.run_inv)
  have "mj_limit (foldl journal_step (new_journal maximum) (cs @ ds)) = maximum"
    using journal_run_prefix [of "new_journal maximum" "cs @ ds"] by (auto simp: new_journal_def)
  with inv have "length (mj_records (foldl journal_step (new_journal maximum) (cs @ ds))) \<le> maximum"
    by (simp add: journal_inv_def)
  with inv show ?thesis
    using journal_run_prefix [of "foldl journal_step (new_journal maximum) cs" ds] by auto
qed

end
