(* ===== verification/Exec_Context.thy ===== *)
theory Exec_Context
  imports Json_Value "HOL-Library.Sublist"
begin

text \<open>
  \<^verbatim>\<open>ordin/context.py\<close> and \<^verbatim>\<open>ordin/trace.py\<close>: the execution context a caller describes, the bounded
  action trace and the review request, with their JSON forms; and the functions of Python's
  \<^verbatim>\<open>posixpath\<close> they use, against a reference semantics of paths as component stacks.
\<close>

section \<open>\<^verbatim>\<open>posixpath\<close>\<close>

definition posix_isabs :: "string \<Rightarrow> bool" where
  "posix_isabs p = startswith p ''/''"

definition leading_slashes :: "string \<Rightarrow> nat" where
  "leading_slashes p =
     (if \<not> startswith p ''/'' then 0
      else if startswith p ''//'' \<and> \<not> startswith p ''///'' then 2 else 1)"

definition norm_step :: "bool \<Rightarrow> string list \<Rightarrow> string \<Rightarrow> string list" where
  "norm_step rooted comps part =
     (if part \<in> {'''', ''.''} then comps
      else if part \<noteq> ''..'' \<or> \<not> rooted \<and> comps = [] \<or> comps \<noteq> [] \<and> last comps = ''..''
      then comps @ [part]
      else if comps \<noteq> [] then butlast comps else comps)"

definition norm_components :: "string \<Rightarrow> string list" where
  "norm_components p = foldl (norm_step (posix_isabs p)) [] (py_split CHR ''/'' p)"

definition posix_normpath :: "string \<Rightarrow> string" where
  "posix_normpath p =
     (if p = [] then ''.''
      else
        (let path = replicate (leading_slashes p) CHR ''/'' @ py_join CHR ''/'' (norm_components p)
         in if path = [] then ''.'' else path))"

definition posix_join :: "string \<Rightarrow> string \<Rightarrow> string" where
  "posix_join a b =
     (if startswith b ''/'' then b
      else if a = [] \<or> endswith a ''/'' then a @ b else a @ ''/'' @ b)"

fun common_components :: "string list \<Rightarrow> string list \<Rightarrow> string list" where
  "common_components (x # xs) (y # ys) = (if x = y then x # common_components xs ys else [])"
| "common_components xs ys = []"

definition path_components :: "string \<Rightarrow> string list" where
  "path_components p = filter (\<lambda>c. c \<noteq> [] \<and> c \<noteq> ''.'') (py_split CHR ''/'' p)"

definition posix_commonpath :: "string \<Rightarrow> string \<Rightarrow> string res" where
  "posix_commonpath a b =
     (if posix_isabs a \<noteq> posix_isabs b
      then Inl (ValueError ''Can't mix absolute and relative paths'')
      else Inr ((if posix_isabs a then ''/'' else '''') @
        py_join CHR ''/'' (common_components (path_components a) (path_components b))))"

section \<open>Execution contexts\<close>

text \<open>\<^verbatim>\<open>reject_unknown\<close> of \<^verbatim>\<open>ordin/_json_contracts.py\<close>.\<close>

definition reject_unknown_fields :: "json \<Rightarrow> string list \<Rightarrow> string \<Rightarrow> payload res" where
  "reject_unknown_fields v permitted label =
     (case v of
        JObj p \<Rightarrow>
          if unknown_keys p permitted \<noteq> [] then Inl (ValueError (label @ '' contains unknown fields''))
          else Inr p
      | _ \<Rightarrow> Inl (ValueError (label @ '' must be an object'')))"

record execution_context =
  ec_cwd :: "string option"
  ec_shell :: "string option"
  ec_euid :: "int option"
  ec_interactive :: "bool option"
  ec_repo_root :: "string option"
  ec_agent :: "string option"

definition execution_context_post_init :: "execution_context \<Rightarrow> unit res" where
  "execution_context_post_init c =
     (case ec_euid c of None \<Rightarrow> Inr ()
      | Some i \<Rightarrow> ensure (\<not> i < 0)
          (ValueError ''context.euid must be a non-negative integer or null''))"

definition int_option_json :: "int option \<Rightarrow> json" where
  "int_option_json v = (case v of None \<Rightarrow> JNull | Some i \<Rightarrow> JInt i)"

definition bool_option_json :: "bool option \<Rightarrow> json" where
  "bool_option_json v = (case v of None \<Rightarrow> JNull | Some b \<Rightarrow> JBool b)"

definition as_int_option :: "json \<Rightarrow> py_error \<Rightarrow> int option res" where
  "as_int_option j e = (case j of JNull \<Rightarrow> Inr None | JInt i \<Rightarrow> Inr (Some i) | _ \<Rightarrow> Inl e)"

definition as_bool_option :: "json \<Rightarrow> py_error \<Rightarrow> bool option res" where
  "as_bool_option j e = (case j of JNull \<Rightarrow> Inr None | JBool b \<Rightarrow> Inr (Some b) | _ \<Rightarrow> Inl e)"

definition execution_context_as_dict :: "execution_context \<Rightarrow> payload" where
  "execution_context_as_dict c =
     [(''cwd'', option_json (ec_cwd c)), (''shell'', option_json (ec_shell c)),
      (''euid'', int_option_json (ec_euid c)),
      (''interactive'', bool_option_json (ec_interactive c)),
      (''repo_root'', option_json (ec_repo_root c)), (''agent'', option_json (ec_agent c))]"

definition execution_context_from_dict :: "json \<Rightarrow> execution_context option res" where
  "execution_context_from_dict v =
     (case v of
        JNull \<Rightarrow> Inr None
      | JObj _ \<Rightarrow>
          res_bind (reject_unknown_fields v
            [''cwd'', ''shell'', ''euid'', ''interactive'', ''repo_root'', ''agent''] ''context'') (\<lambda>p.
          res_bind (as_int_option (jget p ''euid'')
            (ValueError ''context.euid must be an integer or null'')) (\<lambda>euid.
          res_bind (as_bool_option (jget p ''interactive'')
            (ValueError ''context.interactive must be a boolean or null'')) (\<lambda>interactive.
          res_bind (as_string_option (jget p ''cwd'')
            (ValueError ''context.cwd must be a string or null'')) (\<lambda>cwd.
          res_bind (as_string_option (jget p ''shell'')
            (ValueError ''context.shell must be a string or null'')) (\<lambda>shell.
          res_bind (as_string_option (jget p ''repo_root'')
            (ValueError ''context.repo_root must be a string or null'')) (\<lambda>repo_root.
          res_bind (as_string_option (jget p ''agent'')
            (ValueError ''context.agent must be a string or null'')) (\<lambda>agent.
          let c = \<lparr>ec_cwd = cwd, ec_shell = shell, ec_euid = euid, ec_interactive = interactive,
            ec_repo_root = repo_root, ec_agent = agent\<rparr>
          in res_bind (execution_context_post_init c) (\<lambda>_. Inr (Some c)))))))))
      | _ \<Rightarrow> Inl (ValueError ''context must be a JSON object''))"

definition is_elevated :: "execution_context \<Rightarrow> bool option" where
  "is_elevated c = map_option (\<lambda>i. i = 0) (ec_euid c)"

definition resolve_path :: "execution_context \<Rightarrow> string \<Rightarrow> string option" where
  "resolve_path c target =
     (if target = [] \<or> target \<in> {''filesystem.target'', ''<unknown>''} then None
      else if startswith target ''~'' then None
      else if posix_isabs target then Some (posix_normpath target)
      else (case ec_cwd c of
          None \<Rightarrow> None
        | Some cwd \<Rightarrow>
            if cwd = [] \<or> \<not> posix_isabs cwd then None
            else Some (posix_normpath (posix_join cwd target))))"

definition path_within_repo :: "execution_context \<Rightarrow> string \<Rightarrow> bool option" where
  "path_within_repo c path =
     (case ec_repo_root c of
        None \<Rightarrow> None
      | Some repo \<Rightarrow>
          if repo = [] \<or> \<not> posix_isabs repo \<or> \<not> posix_isabs path then None
          else (case posix_commonpath (posix_normpath path) (posix_normpath repo) of
              Inl e \<Rightarrow> Some False
            | Inr common \<Rightarrow> Some (common = posix_normpath repo)))"

section \<open>Traces\<close>

definition max_trace_actions :: nat where "max_trace_actions = 32"

text \<open>A trace action is its command text.\<close>

record trace_action =
  ta_command :: string

definition trace_action_post_init :: "trace_action \<Rightarrow> unit res" where
  "trace_action_post_init a =
     ensure (py_strip (ta_command a) \<noteq> []) (ValueError ''trace action requires non-empty command text'')"

definition trace_action_as_dict :: "trace_action \<Rightarrow> payload" where
  "trace_action_as_dict a = [(''command'', JStr (ta_command a))]"

definition trace_action_from_dict :: "json \<Rightarrow> trace_action res" where
  "trace_action_from_dict v =
     res_bind (as_object v (ValueError ''trace action must be a JSON object'')) (\<lambda>_.
     res_bind (reject_unknown_fields v [''command''] ''trace action'') (\<lambda>p.
     res_bind (as_string (jget p ''command'')
       (ValueError ''trace action requires non-empty command text'')) (\<lambda>command.
     let a = \<lparr>ta_command = command\<rparr>
     in res_bind (trace_action_post_init a) (\<lambda>_. Inr a))))"

record action_trace =
  at_actions :: "trace_action list"

definition action_trace_post_init :: "action_trace \<Rightarrow> unit res" where
  "action_trace_post_init t =
     ensure (\<not> length (at_actions t) > max_trace_actions) (ValueError ''trace maximum is 32 actions'')"

definition action_trace_as_dict :: "action_trace \<Rightarrow> payload" where
  "action_trace_as_dict t =
     [(''schema_version'', JStr ''ordin.action_trace.v1''),
      (''actions'', JArr (map (\<lambda>a. JObj (trace_action_as_dict a)) (at_actions t)))]"

definition action_trace_from_dict :: "json \<Rightarrow> action_trace option res" where
  "action_trace_from_dict v =
     (case v of
        JNull \<Rightarrow> Inr None
      | JObj _ \<Rightarrow>
          res_bind (reject_unknown_fields v [''schema_version'', ''actions''] ''action trace'') (\<lambda>p.
          if jget p ''schema_version'' \<notin> {JNull, JStr ''ordin.action_trace.v1''}
          then Inl (ValueError ''unsupported action trace schema'')
          else
          res_bind (as_list (jget p ''actions'') (ValueError ''trace.actions must be an array''))
            (\<lambda>raw.
          if length raw > max_trace_actions
          then Inl (ValueError ''trace contains actions; maximum is 32'')
          else
          res_bind (res_mapM trace_action_from_dict raw) (\<lambda>actions.
          let t = \<lparr>at_actions = actions\<rparr>
          in res_bind (action_trace_post_init t) (\<lambda>_. Inr (Some t)))))
      | _ \<Rightarrow> Inl (ValueError ''trace must be a JSON object''))"

section \<open>Review requests\<close>

record review_request =
  rr_command :: string
  rr_intent :: "string option"
  rr_context :: "execution_context option"
  rr_trace :: "action_trace option"

definition review_request_post_init :: "review_request \<Rightarrow> unit res" where
  "review_request_post_init r =
     ensure (py_strip (rr_command r) \<noteq> []) (ValueError ''review request requires non-empty command text'')"

definition review_request_as_dict :: "review_request \<Rightarrow> payload" where
  "review_request_as_dict r =
     [(''schema_version'', JStr ''ordin.review_request.v1''), (''command'', JStr (rr_command r)),
      (''intent'', option_json (rr_intent r)),
      (''context'', (case rr_context r of None \<Rightarrow> JNull | Some c \<Rightarrow> JObj (execution_context_as_dict c))),
      (''trace'', (case rr_trace r of None \<Rightarrow> JNull | Some t \<Rightarrow> JObj (action_trace_as_dict t)))]"

definition review_request_from_dict :: "json \<Rightarrow> review_request res" where
  "review_request_from_dict v =
     res_bind (as_object v (ValueError ''review request must be a JSON object'')) (\<lambda>_.
     res_bind (reject_unknown_fields v
       [''schema_version'', ''command'', ''intent'', ''context'', ''trace''] ''review request'') (\<lambda>p.
     if jget p ''schema_version'' \<notin> {JNull, JStr ''ordin.review_request.v1''}
     then Inl (ValueError ''unsupported review request schema'')
     else
     res_bind (as_string (jget p ''command'')
       (ValueError ''review request requires non-empty command text'')) (\<lambda>command.
     if py_strip command = [] then Inl (ValueError ''review request requires non-empty command text'')
     else
     res_bind (as_string_option (jget p ''intent'')
       (ValueError ''review request intent must be a string or null'')) (\<lambda>intent.
     res_bind (execution_context_from_dict (jget p ''context'')) (\<lambda>context.
     res_bind (action_trace_from_dict (jget p ''trace'')) (\<lambda>trace.
     let r = \<lparr>rr_command = command, rr_intent = intent, rr_context = context, rr_trace = trace\<rparr>
     in res_bind (review_request_post_init r) (\<lambda>_. Inr r)))))))"

section \<open>Lemmas: JSON forms\<close>

lemma option_readers [simp]:
  "as_int_option (int_option_json v) e = Inr v" "as_bool_option (bool_option_json b) e = Inr b"
  by (cases v; cases b; simp add: as_int_option_def int_option_json_def as_bool_option_def
      bool_option_json_def)+

lemma execution_context_roundtrip:
  assumes "execution_context_post_init c = Inr ()"
  shows "execution_context_from_dict (JObj (execution_context_as_dict c)) = Inr (Some c)"
  using assms
  by (cases c) (simp add: execution_context_from_dict_def reject_unknown_fields_def unknown_keys_def
      execution_context_as_dict_def Let_def)

lemma trace_action_roundtrip:
  assumes "trace_action_post_init a = Inr ()"
  shows "trace_action_from_dict (JObj (trace_action_as_dict a)) = Inr a"
  using assms
  by (cases a) (simp add: trace_action_from_dict_def reject_unknown_fields_def unknown_keys_def
      trace_action_as_dict_def Let_def)

lemma action_trace_roundtrip:
  assumes "action_trace_post_init t = Inr ()" "\<forall>a \<in> set (at_actions t). trace_action_post_init a = Inr ()"
  shows "action_trace_from_dict (JObj (action_trace_as_dict t)) = Inr (Some t)"
proof -
  have "res_mapM trace_action_from_dict (map (\<lambda>a. JObj (trace_action_as_dict a)) (at_actions t)) =
      Inr (at_actions t)"
    using assms(2) by (intro res_mapM_map_id) (simp add: trace_action_roundtrip)
  then show ?thesis
    using assms(1)
    by (simp add: action_trace_from_dict_def reject_unknown_fields_def unknown_keys_def
        action_trace_as_dict_def action_trace_post_init_def Let_def)
qed

definition review_request_ok :: "review_request \<Rightarrow> bool" where
  "review_request_ok r =
     (review_request_post_init r = Inr () \<and>
      (\<forall>c. rr_context r = Some c \<longrightarrow> execution_context_post_init c = Inr ()) \<and>
      (\<forall>t. rr_trace r = Some t \<longrightarrow> action_trace_post_init t = Inr () \<and>
         (\<forall>a \<in> set (at_actions t). trace_action_post_init a = Inr ())))"

lemma from_dict_null:
  "execution_context_from_dict JNull = Inr None" "action_trace_from_dict JNull = Inr None"
  by (simp_all add: execution_context_from_dict_def action_trace_from_dict_def)

lemma review_request_roundtrip:
  assumes "review_request_ok r"
  shows "review_request_from_dict (JObj (review_request_as_dict r)) = Inr r"
proof -
  have "execution_context_from_dict
      (case rr_context r of None \<Rightarrow> JNull | Some c \<Rightarrow> JObj (execution_context_as_dict c)) = Inr (rr_context r)"
    using assms by (cases "rr_context r")
      (simp_all add: from_dict_null execution_context_roundtrip review_request_ok_def)
  moreover have "action_trace_from_dict
      (case rr_trace r of None \<Rightarrow> JNull | Some t \<Rightarrow> JObj (action_trace_as_dict t)) = Inr (rr_trace r)"
    using assms by (cases "rr_trace r")
      (simp_all add: from_dict_null action_trace_roundtrip review_request_ok_def)
  ultimately show ?thesis
    using assms
    by (simp add: review_request_from_dict_def reject_unknown_fields_def unknown_keys_def
        review_request_as_dict_def review_request_post_init_def review_request_ok_def Let_def)
qed

section \<open>Lemmas: paths\<close>

text \<open>The reference semantics: what a path names from the root, as a stack of directory names.\<close>

definition resolve_step :: "string list \<Rightarrow> string \<Rightarrow> string list" where
  "resolve_step stack part =
     (if part \<in> {'''', ''.''} then stack
      else if part = ''..'' then butlast stack else stack @ [part])"

definition resolved_path :: "string \<Rightarrow> string list" where
  "resolved_path p = foldl resolve_step [] (py_split CHR ''/'' p)"

definition plain_components :: "string list \<Rightarrow> bool" where
  "plain_components cs = (\<forall>c \<in> set cs. c \<noteq> [] \<and> c \<noteq> ''.'' \<and> c \<noteq> ''..'' \<and> CHR ''/'' \<notin> set c)"

lemma norm_is_resolve:
  assumes "plain_components cs" "\<forall>w \<in> set parts. CHR ''/'' \<notin> set w"
  shows "foldl (norm_step True) cs parts = foldl resolve_step cs parts \<and>
    plain_components (foldl resolve_step cs parts)"
  using assms
proof (induction parts arbitrary: cs)
  case (Cons w parts)
  have "norm_step True cs w = resolve_step cs w"
    using Cons.prems(1) last_in_set [of cs]
    by (auto simp: norm_step_def resolve_step_def plain_components_def)
  moreover have "plain_components (resolve_step cs w)"
    using Cons.prems by (auto simp: resolve_step_def plain_components_def dest: in_set_butlastD)
  ultimately show ?case
    using Cons by simp
qed simp

lemma norm_components_abs:
  assumes "posix_isabs p"
  shows "norm_components p = resolved_path p \<and> plain_components (resolved_path p)"
  using norm_is_resolve [of "[]" "py_split CHR ''/'' p"] assms py_split_no_sep
  by (auto simp: norm_components_def resolved_path_def plain_components_def)

lemma components_of_join:
  assumes "plain_components cs"
  shows "path_components (py_join CHR ''/'' cs) = cs"
proof (cases "cs = []")
  case False
  have "py_split CHR ''/'' (py_join CHR ''/'' cs) = cs"
    using assms False by (intro py_split_join) (auto simp: plain_components_def)
  moreover have "filter (\<lambda>c. c \<noteq> [] \<and> c \<noteq> ''.'') cs = cs"
    using assms by (auto simp: plain_components_def intro: filter_True)
  ultimately show ?thesis by (simp add: path_components_def)
qed (simp add: path_components_def)

lemma components_slash: "path_components (CHR ''/'' # s) = path_components s"
  by (simp add: path_components_def)

lemma leading_slashes_abs: "posix_isabs p \<Longrightarrow> leading_slashes p = 1 \<or> leading_slashes p = 2"
  by (simp add: leading_slashes_def posix_isabs_def)

lemma normpath_abs:
  assumes "posix_isabs p"
  shows "posix_normpath p =
      replicate (leading_slashes p) CHR ''/'' @ py_join CHR ''/'' (resolved_path p)"
    and "posix_isabs (posix_normpath p)"
    and "path_components (posix_normpath p) = resolved_path p"
proof -
  have "p \<noteq> []" using assms by (auto simp: posix_isabs_def startswith_def)
  then show n: "posix_normpath p =
      replicate (leading_slashes p) CHR ''/'' @ py_join CHR ''/'' (resolved_path p)"
    using norm_components_abs [OF assms] leading_slashes_abs [OF assms]
    by (auto simp: posix_normpath_def Let_def)
  show "posix_isabs (posix_normpath p)"
    using leading_slashes_abs [OF assms]
    by (auto simp: n posix_isabs_def startswith_def numeral_2_eq_2)
  show "path_components (posix_normpath p) = resolved_path p"
    using leading_slashes_abs [OF assms] norm_components_abs [OF assms]
    by (auto simp: n numeral_2_eq_2 components_slash components_of_join)
qed

lemma common_components_prefix: "prefix (common_components xs ys) ys"
  by (induction xs ys rule: common_components.induct) auto

lemma common_components_iff: "common_components xs ys = ys \<longleftrightarrow> prefix ys xs"
  by (induction xs ys rule: common_components.induct) auto

lemma py_join_head: "cs \<noteq> [] \<Longrightarrow> \<exists>s. py_join c cs = hd cs @ s"
  by (cases "(c, cs)" rule: py_join.cases) auto

lemma join_plain_head:
  assumes "plain_components cs" "py_join CHR ''/'' cs = CHR ''/'' # s"
  shows False
proof -
  have "cs \<noteq> []" using assms(2) by auto
  then obtain t where "hd cs @ t = CHR ''/'' # s"
    using assms(2) py_join_head by metis
  moreover have "hd cs \<noteq> []" "CHR ''/'' \<notin> set (hd cs)"
    using assms(1) \<open>cs \<noteq> []\<close> by (auto simp: plain_components_def)
  ultimately show False
    by (cases "hd cs") auto
qed

text \<open>A directory test through \<^verbatim>\<open>commonpath\<close> is a test on resolved components.\<close>

lemma commonpath_within:
  assumes "posix_isabs v" "posix_isabs p"
  shows "\<exists>c. posix_commonpath (posix_normpath v) (posix_normpath p) = Inr c \<and>
    (c = posix_normpath p \<longleftrightarrow> leading_slashes p = 1 \<and> prefix (resolved_path p) (resolved_path v))"
proof -
  let ?common = "common_components (resolved_path v) (resolved_path p)"
  have "posix_commonpath (posix_normpath v) (posix_normpath p) =
      Inr (CHR ''/'' # py_join CHR ''/'' ?common)"
    using normpath_abs [OF assms(1)] normpath_abs [OF assms(2)] by (simp add: posix_commonpath_def)
  moreover have plain: "plain_components ?common" "plain_components (resolved_path p)"
  proof -
    show p: "plain_components (resolved_path p)"
      using norm_components_abs [OF assms(2)] by blast
    have "set ?common \<subseteq> set (resolved_path p)"
      by (rule set_mono_prefix) (rule common_components_prefix)
    with p show "plain_components ?common"
      unfolding plain_components_def by blast
  qed
  have "CHR ''/'' # py_join CHR ''/'' ?common = posix_normpath p \<longleftrightarrow>
      leading_slashes p = 1 \<and> ?common = resolved_path p"
  proof (cases "leading_slashes p = 1")
    case True
    have "py_join CHR ''/'' ?common = py_join CHR ''/'' (resolved_path p) \<longleftrightarrow> ?common = resolved_path p"
      using components_of_join [OF plain(1)] components_of_join [OF plain(2)] by metis
    then show ?thesis
      using True by (simp add: normpath_abs(1) [OF assms(2)])
  next
    case False
    then have "posix_normpath p = CHR ''/'' # CHR ''/'' # py_join CHR ''/'' (resolved_path p)"
      using leading_slashes_abs [OF assms(2)] by (auto simp: normpath_abs(1) [OF assms(2)] numeral_2_eq_2)
    then show ?thesis
      using False join_plain_head [OF plain(1)] by auto
  qed
  ultimately show ?thesis
    by (simp add: common_components_iff)
qed

section \<open>Properties\<close>

text \<open>Writing a valid review request, with its context and its trace, and reading it back yields
  the same request.\<close>

theorem review_request_json_roundtrip:
  assumes "review_request_ok r"
  shows "review_request_from_dict (JObj (review_request_as_dict r)) = Inr r"
  by (rule review_request_roundtrip [OF assms])

definition sample_review_request :: review_request where
  "sample_review_request = \<lparr>rr_command = ''rm -r build'', rr_intent = Some ''clean'',
     rr_context = Some \<lparr>ec_cwd = Some ''/work'', ec_shell = None, ec_euid = Some 1000,
       ec_interactive = Some False, ec_repo_root = Some ''/work'', ec_agent = None\<rparr>,
     rr_trace = Some \<lparr>at_actions = [\<lparr>ta_command = ''ls''\<rparr>]\<rparr>\<rparr>"

lemma review_request_json_roundtrip_witness:
  "review_request_from_dict (JObj (review_request_as_dict sample_review_request)) =
     Inr sample_review_request"
proof (rule review_request_json_roundtrip)
  have "review_request_post_init sample_review_request = Inr ()"
      "trace_action_post_init \<lparr>ta_command = ''ls''\<rparr> = Inr ()"
    by code_simp+
  then show "review_request_ok sample_review_request"
    by (simp add: review_request_ok_def sample_review_request_def execution_context_post_init_def
        action_trace_post_init_def max_trace_actions_def)
qed

text \<open>The repository test agrees with what the paths name: for a repository root with a single
  leading slash, an absolute path is inside exactly if the resolved components of the root (with
  empty, dot and dot-dot parts resolved) begin those of the path, so a sibling directory whose
  name merely starts with the root's name is outside.\<close>

theorem path_within_repo_by_components:
  assumes "ec_repo_root c = Some repo" and "posix_isabs repo" and "posix_isabs path"
    and "leading_slashes repo = 1"
  shows "path_within_repo c path = Some (prefix (resolved_path repo) (resolved_path path))"
proof -
  have "repo \<noteq> []" using assms(2) by (auto simp: posix_isabs_def startswith_def)
  then show ?thesis
    using assms commonpath_within [OF assms(3,2)] by (auto simp: path_within_repo_def)
qed

lemma path_within_repo_by_components_witness:
  "path_within_repo (the (rr_context sample_review_request)) ''/work/../work-evil'' = Some False"
proof -
  have "ec_repo_root (the (rr_context sample_review_request)) = Some ''/work''"
    by (simp add: sample_review_request_def)
  moreover have "posix_isabs ''/work''" "posix_isabs ''/work/../work-evil''"
      "leading_slashes ''/work'' = 1"
      "\<not> prefix (resolved_path ''/work'') (resolved_path ''/work/../work-evil'')"
    by (simp_all add: posix_isabs_def startswith_def leading_slashes_def resolved_path_def
        resolve_step_def)
  ultimately show ?thesis
    using path_within_repo_by_components by simp
qed

text \<open>A resolved target is absolute and lexically normal: it has no empty, dot or dot-dot part
  left, and it names the target from the root or from the absolute working directory.\<close>

theorem resolve_path_normal:
  assumes "resolve_path c target = Some p"
  shows "posix_isabs p \<and> plain_components (path_components p) \<and>
    (\<exists>base. posix_isabs base \<and> p = posix_normpath base \<and> path_components p = resolved_path base \<and>
      (base = target \<or> (\<exists>cwd. ec_cwd c = Some cwd \<and> base = posix_join cwd target)))"
proof -
  have join: "posix_isabs (posix_join cwd target)" if "posix_isabs cwd" for cwd
    using that by (auto simp: posix_join_def posix_isabs_def startswith_iff)
  obtain base where base: "posix_isabs base" "p = posix_normpath base"
      "base = target \<or> (\<exists>cwd. ec_cwd c = Some cwd \<and> base = posix_join cwd target)"
    using assms join by (auto simp: resolve_path_def split: if_splits option.splits)
  then show ?thesis
    using normpath_abs [OF base(1)] norm_components_abs [OF base(1)] by auto
qed

lemma resolve_path_normal_witness:
  "\<exists>p. resolve_path (the (rr_context sample_review_request)) ''../etc//./passwd'' = Some p \<and>
     plain_components (path_components p)"
proof -
  have "resolve_path (the (rr_context sample_review_request)) ''../etc//./passwd'' =
      Some (posix_normpath ''/work/../etc//./passwd'')"
    by (simp add: resolve_path_def sample_review_request_def posix_isabs_def startswith_def
        posix_join_def endswith_def)
  from resolve_path_normal [OF this] this show ?thesis by blast
qed

end
