(* ===== verification/Provenance.thy ===== *)
theory Provenance
  imports Policy Runtime_Json Exec_Context
begin

text \<open>
  \<^verbatim>\<open>ordin/provenance.py\<close>: the records that explain a decision, the bounded immutable value that
  holds them with the final decision and risk, and the redaction for audits.
\<close>

section \<open>Identifiers\<close>

definition kind_char :: "char \<Rightarrow> bool" where
  "kind_char c = (let n = cp c in 97 \<le> n \<and> n \<le> 122 \<or> 48 \<le> n \<and> n \<le> 57 \<or> c \<in> set ''_.-'')"

text \<open>\<^verbatim>\<open>fullmatch\<close> of \<^verbatim>\<open>^[a-z][a-z0-9_.-]*$\<close>.\<close>

definition kind_match :: "string \<Rightarrow> bool" where
  "kind_match s = (case s of [] \<Rightarrow> False
     | c # cs \<Rightarrow> 97 \<le> cp c \<and> cp c \<le> 122 \<and> list_all kind_char cs)"

definition int_list_json :: "int list \<Rightarrow> json" where
  "int_list_json xs = JArr (map JInt xs)"

section \<open>Resources\<close>

definition max_provenance_records :: nat where "max_provenance_records = 512"
definition max_provenance_text :: nat where "max_provenance_text = 32768"
definition max_provenance_code :: nat where "max_provenance_code = 256"
definition max_provenance_metadata :: nat where "max_provenance_metadata = 64"
definition max_provenance_indices :: nat where "max_provenance_indices = 32"

definition valid_risks :: "string list" where
  "valid_risks = [''unknown'', ''low'', ''medium'', ''high'', ''critical'']"

definition valid_provenance_sources :: "string list" where
  "valid_provenance_sources = [''adapter'', ''semantic'', ''risk_rule'', ''context'', ''intent'',
     ''observation'', ''temporal_policy'', ''action_policy'', ''decision'']"

definition valid_provenance_kinds :: "string list" where
  "valid_provenance_kinds = [''finding'', ''effect'', ''resource'', ''rule'', ''observation'',
     ''merge'']"

record provenance_resource =
  pv_type :: string
  pv_value :: string

definition provenance_resource_post_init :: "provenance_resource \<Rightarrow> unit res" where
  "provenance_resource_post_init r =
     (if pv_type r = [] \<or> length (pv_type r) > 64 \<or> \<not> kind_match (pv_type r)
      then Inl (ValueError ''provenance resource type must be a valid 1 to 64 character identifier'')
      else if pv_value r = []
      then Inl (ValueError ''provenance resource value must be non-empty text'')
      else if length (pv_value r) > max_provenance_text
      then Inl (ValueError ''provenance resource value is too long'')
      else Inr ())"

definition make_provenance_resource :: "string \<Rightarrow> string \<Rightarrow> provenance_resource res" where
  "make_provenance_resource t v =
     (let r = \<lparr>pv_type = t, pv_value = v\<rparr>
      in res_bind (provenance_resource_post_init r) (\<lambda>_. Inr r))"

definition provenance_resource_as_dict :: "provenance_resource \<Rightarrow> payload" where
  "provenance_resource_as_dict r = [(''type'', JStr (pv_type r)), (''value'', JStr (pv_value r))]"

definition provenance_resource_redacted :: "host_env \<Rightarrow> provenance_resource \<Rightarrow> provenance_resource res" where
  "provenance_resource_redacted h r =
     make_provenance_resource (pv_type r) (''sha256:'' @ sha256 h (utf8 (pv_value r)))"

section \<open>Records\<close>

record provenance_record =
  pr_source :: string
  pr_kind :: string
  pr_code :: string
  pr_summary :: "string option"
  pr_decision :: "string option"
  pr_risk :: "string option"
  pr_effect :: "string option"
  pr_resource :: "provenance_resource option"
  pr_rule_id :: "string option"
  pr_action_id :: "string option"
  pr_category :: "string option"
  pr_indices :: "int list"
  pr_metadata :: payload

text \<open>The keyword arguments a caller leaves out.\<close>

definition blank_record :: "string \<Rightarrow> string \<Rightarrow> string \<Rightarrow> provenance_record" where
  "blank_record source kind code =
     \<lparr>pr_source = source, pr_kind = kind, pr_code = code, pr_summary = None, pr_decision = None,
      pr_risk = None, pr_effect = None, pr_resource = None, pr_rule_id = None, pr_action_id = None,
      pr_category = None, pr_indices = [], pr_metadata = []\<rparr>"

definition bounded_text :: "string option \<Rightarrow> bool" where
  "bounded_text v = (case v of None \<Rightarrow> True | Some s \<Rightarrow> \<not> length s > max_provenance_text)"

fun check_metadata :: "payload \<Rightarrow> unit res" where
  "check_metadata [] = Inr ()"
| "check_metadata ((k, v) # p) =
     (if k = [] \<or> length k > 128
      then Inl (ValueError ''provenance metadata keys must contain 1 to 128 characters'')
      else (case v of
          JNull \<Rightarrow> check_metadata p
        | JBool b \<Rightarrow> check_metadata p
        | JInt i \<Rightarrow> check_metadata p
        | JStr s \<Rightarrow>
            if length s > max_provenance_text
            then Inl (ValueError ''provenance metadata string is too long'')
            else check_metadata p
        | _ \<Rightarrow> Inl (ValueError ''provenance metadata values must be JSON scalar values'')))"

definition provenance_record_post_init :: "provenance_record \<Rightarrow> unit res" where
  "provenance_record_post_init r =
     (if pr_source r \<notin> set valid_provenance_sources
      then Inl (ValueError ''unsupported provenance source'')
      else if pr_kind r \<notin> set valid_provenance_kinds
      then Inl (ValueError ''unsupported provenance kind'')
      else res_bind (case pr_decision r of None \<Rightarrow> Inr ()
        | Some d \<Rightarrow> res_bind (validate_decision d) (\<lambda>_. Inr ())) (\<lambda>_.
      if pr_code r = [] \<or> length (pr_code r) > max_provenance_code
      then Inl (ValueError ''provenance code must contain 1 to 256 characters'')
      else if \<not> list_all bounded_text
        [pr_summary r, pr_effect r, pr_rule_id r, pr_action_id r, pr_category r]
      then Inl (ValueError ''provenance text is invalid or too long'')
      else if (case pr_risk r of None \<Rightarrow> False | Some x \<Rightarrow> x \<notin> set valid_risks)
      then Inl (ValueError ''unsupported provenance risk'')
      else if length (pr_indices r) > max_provenance_indices
      then Inl (ValueError ''provenance matched_indices is too large'')
      else if list_ex (\<lambda>i. i < 0) (pr_indices r)
      then Inl (ValueError ''provenance matched_indices must contain non-negative integers'')
      else if length (pr_metadata r) > max_provenance_metadata
      then Inl (ValueError ''provenance metadata must be a bounded mapping'')
      else check_metadata (pr_metadata r)))"

definition make_record :: "provenance_record \<Rightarrow> provenance_record res" where
  "make_record r = res_bind (provenance_record_post_init r) (\<lambda>_. Inr r)"

definition provenance_record_as_dict :: "provenance_record \<Rightarrow> payload" where
  "provenance_record_as_dict r =
     [(''source'', JStr (pr_source r)), (''kind'', JStr (pr_kind r)), (''code'', JStr (pr_code r)),
      (''summary'', option_json (pr_summary r)), (''decision'', option_json (pr_decision r)),
      (''risk'', option_json (pr_risk r)), (''effect'', option_json (pr_effect r)),
      (''resource'', (case pr_resource r of None \<Rightarrow> JNull
         | Some x \<Rightarrow> JObj (provenance_resource_as_dict x))),
      (''rule_id'', option_json (pr_rule_id r)), (''action_id'', option_json (pr_action_id r)),
      (''category'', option_json (pr_category r)),
      (''matched_indices'', int_list_json (pr_indices r)), (''metadata'', JObj (pr_metadata r))]"

definition provenance_record_for_audit ::
  "host_env \<Rightarrow> bool \<Rightarrow> bool \<Rightarrow> bool \<Rightarrow> provenance_record \<Rightarrow> provenance_record res" where
  "provenance_record_for_audit h include_resource_values include_summaries include_action_ids r =
     res_bind
       (case pr_resource r of
          None \<Rightarrow> Inr None
        | Some x \<Rightarrow>
            if \<not> include_resource_values
            then res_bind (provenance_resource_redacted h x) (\<lambda>y. Inr (Some y))
            else Inr (Some x)) (\<lambda>resource.
     make_record (r\<lparr>pr_summary := if include_summaries then pr_summary r else None,
       pr_resource := resource,
       pr_action_id := if include_action_ids then pr_action_id r else None\<rparr>))"

section \<open>Decision provenance\<close>

definition provenance_schema_version :: string where
  "provenance_schema_version = ''ordin.provenance.v1''"

record decision_provenance =
  dp_records :: "provenance_record list"
  dp_decision :: string
  dp_risk :: string
  dp_schema :: string

definition decision_provenance_post_init :: "decision_provenance \<Rightarrow> unit res" where
  "decision_provenance_post_init p =
     (if dp_schema p \<noteq> provenance_schema_version
      then Inl (ValueError ''unsupported provenance schema'')
      else res_bind (validate_decision (dp_decision p)) (\<lambda>_.
      if dp_risk p \<notin> set valid_risks
      then Inl (ValueError ''unsupported provenance final_risk'')
      else if length (dp_records p) > max_provenance_records
      then Inl (ValueError ''provenance supports at most 512 records'')
      else Inr ()))"

definition make_provenance ::
  "provenance_record list \<Rightarrow> string \<Rightarrow> string \<Rightarrow> decision_provenance res" where
  "make_provenance records final_decision final_risk =
     (let p = \<lparr>dp_records = records, dp_decision = final_decision, dp_risk = final_risk,
              dp_schema = provenance_schema_version\<rparr>
      in res_bind (decision_provenance_post_init p) (\<lambda>_. Inr p))"

definition decision_provenance_as_dict :: "decision_provenance \<Rightarrow> payload" where
  "decision_provenance_as_dict p =
     [(''schema_version'', JStr (dp_schema p)),
      (''records'', JArr (map (\<lambda>r. JObj (provenance_record_as_dict r)) (dp_records p))),
      (''final_decision'', JStr (dp_decision p)), (''final_risk'', JStr (dp_risk p))]"

text \<open>\<^verbatim>\<open>value or default\<close> on an optional text: the empty text counts as missing.\<close>

definition text_or :: "string option \<Rightarrow> string \<Rightarrow> string" where
  "text_or v d = (case v of None \<Rightarrow> d | Some s \<Rightarrow> if s = [] then d else s)"

definition provenance_append ::
  "decision_provenance \<Rightarrow> provenance_record list \<Rightarrow> string option \<Rightarrow> string option
     \<Rightarrow> decision_provenance res" where
  "provenance_append p records final_decision final_risk =
     make_provenance (dp_records p @ records) (text_or final_decision (dp_decision p))
       (text_or final_risk (dp_risk p))"

definition provenance_for_audit ::
  "host_env \<Rightarrow> bool \<Rightarrow> bool \<Rightarrow> bool \<Rightarrow> decision_provenance \<Rightarrow> decision_provenance res" where
  "provenance_for_audit h include_resource_values include_summaries include_action_ids p =
     res_bind (res_mapM (provenance_record_for_audit h include_resource_values include_summaries
       include_action_ids) (dp_records p)) (\<lambda>records.
     make_provenance records (dp_decision p) (dp_risk p))"

text \<open>
  \<^verbatim>\<open>json.dumps(value, sort_keys=True, separators=(",", ":"))\<close>: the canonical text with every
  character outside the printable ASCII range escaped.
\<close>

definition ascii_text :: "string \<Rightarrow> string" where
  "ascii_text s = concat (map (\<lambda>c. let n = cp c in
     if n < 127 then [c]
     else char_of (92 :: nat) # ''u00'' @ [digit_char (n div 16), digit_char (n mod 16)]) s)"

definition ascii_digest :: "host_env \<Rightarrow> json \<Rightarrow> string" where
  "ascii_digest h j = sha256 h (utf8 (ascii_text (canonical_json h j)))"

definition provenance_digest :: "host_env \<Rightarrow> decision_provenance \<Rightarrow> string" where
  "provenance_digest h p = ascii_digest h (JObj (decision_provenance_as_dict p))"

section \<open>Lemmas\<close>

lemma make_record_Inr [simp]: "make_record r = Inr r' \<longleftrightarrow> provenance_record_post_init r = Inr () \<and> r' = r"
  by (auto simp: make_record_def ex_unit_iff)

definition resource_option_ok :: "provenance_resource option \<Rightarrow> bool" where
  "resource_option_ok v =
     (case v of None \<Rightarrow> True | Some x \<Rightarrow> provenance_resource_post_init x = Inr ())"

definition provenance_record_ok :: "provenance_record \<Rightarrow> bool" where
  "provenance_record_ok r =
     (provenance_record_post_init r = Inr () \<and> resource_option_ok (pr_resource r))"

text \<open>What the constructors guarantee of every value of the class.\<close>

definition provenance_ok :: "decision_provenance \<Rightarrow> bool" where
  "provenance_ok p =
     (decision_provenance_post_init p = Inr () \<and> list_all provenance_record_ok (dp_records p))"

lemma decision_provenance_post_init_Inr:
  "decision_provenance_post_init p = Inr u \<longleftrightarrow>
     dp_schema p = provenance_schema_version \<and> (\<exists>d. dp_decision p = decision_text d) \<and>
     dp_risk p \<in> set valid_risks \<and> length (dp_records p) \<le> max_provenance_records"
  by (auto simp: decision_provenance_post_init_def validate_decision_Inr)

lemma make_provenance_Inr:
  "make_provenance rs d k = Inr p \<longleftrightarrow>
     p = \<lparr>dp_records = rs, dp_decision = d, dp_risk = k, dp_schema = provenance_schema_version\<rparr> \<and>
     (\<exists>x. d = decision_text x) \<and> k \<in> set valid_risks \<and> length rs \<le> max_provenance_records"
  by (auto simp: make_provenance_def Let_def decision_provenance_post_init_Inr)

lemma text_or_decision [simp]: "text_or (Some (decision_text d)) s = decision_text d"
  by (cases d) (simp_all add: text_or_def)

lemma text_or_None [simp]: "text_or None s = s"
  by (simp add: text_or_def)

lemma text_or_nonempty [simp]: "s \<noteq> [] \<Longrightarrow> text_or (Some s) d = s"
  by (simp add: text_or_def)

lemma valid_risk_nonempty: "k \<in> set valid_risks \<Longrightarrow> k \<noteq> []"
  by (auto simp: valid_risks_def)

lemma append_decision_Inr:
  assumes "provenance_ok p" "k \<in> set valid_risks" "length (dp_records p) + length rs \<le> 512"
  shows "provenance_append p rs (Some (decision_text d)) (Some k) =
    Inr (p\<lparr>dp_records := dp_records p @ rs, dp_decision := decision_text d, dp_risk := k\<rparr>)"
  using assms
  by (cases p) (auto simp: provenance_append_def make_provenance_Inr provenance_ok_def
      decision_provenance_post_init_Inr valid_risk_nonempty max_provenance_records_def)

lemma append_plain_Inr:
  assumes "provenance_ok p" "length (dp_records p) + length rs \<le> 512"
  shows "provenance_append p rs None None = Inr (p\<lparr>dp_records := dp_records p @ rs\<rparr>)"
  using assms
  by (cases p) (auto simp: provenance_append_def make_provenance_Inr provenance_ok_def
      decision_provenance_post_init_Inr max_provenance_records_def)

lemma append_full:
  assumes "length (dp_records p) + length rs > 512"
  shows "\<exists>e. provenance_append p rs d k = Inl e"
proof (cases "provenance_append p rs d k")
  case (Inr q)
  then show ?thesis
    using assms by (simp add: provenance_append_def make_provenance_Inr max_provenance_records_def)
qed blast

lemma append_ok:
  assumes "provenance_append p rs d k = Inr q" "provenance_ok p" "list_all provenance_record_ok rs"
  shows "provenance_ok q"
  using assms by (auto simp: provenance_append_def make_provenance_Inr provenance_ok_def
      decision_provenance_post_init_Inr)

text \<open>The audit form of one record.\<close>

definition hashed_resource :: "host_env \<Rightarrow> provenance_resource \<Rightarrow> provenance_resource" where
  "hashed_resource h x = x\<lparr>pv_value := ''sha256:'' @ sha256 h (utf8 (pv_value x))\<rparr>"

definition hidden_record :: "host_env \<Rightarrow> provenance_record \<Rightarrow> provenance_record" where
  "hidden_record h r = r\<lparr>pr_summary := None,
     pr_resource := map_option (hashed_resource h) (pr_resource r), pr_action_id := None\<rparr>"

lemma redacted_Inr:
  assumes "provenance_resource_post_init x = Inr ()" "\<And>b. length (sha256 h b) \<le> 64"
  shows "provenance_resource_redacted h x = Inr (hashed_resource h x)"
proof -
  have "length (sha256 h (utf8 (pv_value x))) + 7 \<le> max_provenance_text"
    using assms(2) [of "utf8 (pv_value x)"] by (simp add: max_provenance_text_def)
  then show ?thesis
    using assms(1)
    by (cases x) (simp add: provenance_resource_redacted_def make_provenance_resource_def
        hashed_resource_def provenance_resource_post_init_def Let_def split: if_splits)
qed

lemma hidden_post_init:
  "provenance_record_post_init r = Inr () \<Longrightarrow> provenance_record_post_init (hidden_record h r) = Inr ()"
  by (simp add: provenance_record_post_init_def hidden_record_def bounded_text_def
      split: if_splits)

lemma record_for_audit_Inr:
  assumes "provenance_record_ok r" "\<And>b. length (sha256 h b) \<le> 64"
  shows "provenance_record_for_audit h False False False r = Inr (hidden_record h r)"
  using assms redacted_Inr [of _ h] hidden_post_init [of r h]
  by (cases "pr_resource r") (simp_all add: provenance_record_for_audit_def provenance_record_ok_def
      make_record_def hidden_record_def resource_option_ok_def)

lemma for_audit_Inr:
  assumes "provenance_ok p" "\<And>b. length (sha256 h b) \<le> 64"
  shows "provenance_for_audit h False False False p =
    Inr (p\<lparr>dp_records := map (hidden_record h) (dp_records p)\<rparr>)"
proof -
  have "res_mapM (provenance_record_for_audit h False False False) (dp_records p) =
      Inr (map (hidden_record h) (dp_records p))"
    using assms by (intro res_mapM_all record_for_audit_Inr) (auto simp: provenance_ok_def list_all_iff)
  then show ?thesis
    using assms(1)
    by (cases p) (auto simp: provenance_for_audit_def make_provenance_Inr provenance_ok_def
        decision_provenance_post_init_Inr)
qed

text \<open>Two records that an audit must not tell apart.\<close>

definition same_but_details :: "host_env \<Rightarrow> provenance_record \<Rightarrow> provenance_record \<Rightarrow> bool" where
  "same_but_details h r s =
     (pr_source s = pr_source r \<and> pr_kind s = pr_kind r \<and> pr_code s = pr_code r \<and>
      pr_decision s = pr_decision r \<and> pr_risk s = pr_risk r \<and> pr_effect s = pr_effect r \<and>
      pr_rule_id s = pr_rule_id r \<and> pr_category s = pr_category r \<and>
      pr_indices s = pr_indices r \<and> pr_metadata s = pr_metadata r \<and>
      rel_option (\<lambda>x y. pv_type x = pv_type y \<and>
        sha256 h (utf8 (pv_value x)) = sha256 h (utf8 (pv_value y))) (pr_resource r) (pr_resource s))"

lemma same_but_details_hidden:
  assumes "same_but_details h r s"
  shows "hidden_record h s = hidden_record h r"
proof -
  have "map_option (hashed_resource h) (pr_resource s) = map_option (hashed_resource h) (pr_resource r)"
    using assms by (cases "pr_resource r"; cases "pr_resource s")
      (simp_all add: same_but_details_def hashed_resource_def)
  with assms show ?thesis
    by (simp add: same_but_details_def hidden_record_def provenance_record.equality)
qed

lemma hidden_record_view:
  "pr_summary (hidden_record h r) = None" "pr_action_id (hidden_record h r) = None"
  "pr_resource (hidden_record h r) = Some x \<Longrightarrow> startswith (pv_value x) ''sha256:''"
  by (auto simp: hidden_record_def hashed_resource_def startswith_def)

section \<open>Properties\<close>

text \<open>C33: Redaction for an audit, with a hash of at most 64 characters: a valid provenance has an
  audit form with the same number of records and the same final decision and risk, none of whose
  records has a summary, an action id or a resource value in the clear; and the audit form does
  not depend on them: a provenance with other summaries, action ids and resource values of the same
  hashes has the same audit form.\<close>

theorem audit_form_hides_details:
  assumes "provenance_ok p" and "\<forall>b. length (sha256 h b) \<le> 64"
  shows "\<exists>a. provenance_for_audit h False False False p = Inr a \<and>
    length (dp_records a) = length (dp_records p) \<and>
    dp_decision a = dp_decision p \<and> dp_risk a = dp_risk p \<and>
    (\<forall>r \<in> set (dp_records a). pr_summary r = None \<and> pr_action_id r = None \<and>
       (\<forall>x. pr_resource r = Some x \<longrightarrow> startswith (pv_value x) ''sha256:'')) \<and>
    (\<forall>q. provenance_ok q \<and> dp_decision q = dp_decision p \<and> dp_risk q = dp_risk p \<and>
       list_all2 (same_but_details h) (dp_records p) (dp_records q) \<longrightarrow>
       provenance_for_audit h False False False q = Inr a)"
proof -
  let ?a = "p\<lparr>dp_records := map (hidden_record h) (dp_records p)\<rparr>"
  have bound: "\<And>b. length (sha256 h b) \<le> 64" using assms(2) by blast
  have same: "provenance_for_audit h False False False q = Inr ?a"
    if "provenance_ok q" "dp_decision q = dp_decision p" "dp_risk q = dp_risk p"
      "list_all2 (same_but_details h) (dp_records p) (dp_records q)" for q
  proof -
    have "map (hidden_record h) (dp_records q) = map (hidden_record h) (dp_records p)"
      using that(4) by (induction rule: list_all2_induct) (auto simp: same_but_details_hidden)
    moreover have "dp_schema q = dp_schema p"
      using that(1) assms(1) by (simp add: provenance_ok_def decision_provenance_post_init_Inr)
    ultimately have "q\<lparr>dp_records := map (hidden_record h) (dp_records q)\<rparr> = ?a"
      using that(2,3) by (simp add: decision_provenance.equality)
    then show ?thesis
      using for_audit_Inr [OF that(1) bound] by simp
  qed
  have view: "pr_summary r = None \<and> pr_action_id r = None \<and>
       (\<forall>x. pr_resource r = Some x \<longrightarrow> startswith (pv_value x) ''sha256:'')"
    if "r \<in> set (dp_records ?a)" for r
  proof -
    obtain r' where "r = hidden_record h r'"
      using \<open>r \<in> set (dp_records ?a)\<close> by force
    then show ?thesis
      using hidden_record_view [of h r'] by simp
  qed
  show ?thesis
  proof (intro exI [of _ ?a] conjI)
    show "\<forall>r \<in> set (dp_records ?a). pr_summary r = None \<and> pr_action_id r = None \<and>
       (\<forall>x. pr_resource r = Some x \<longrightarrow> startswith (pv_value x) ''sha256:'')"
      using view by blast
    show "\<forall>q. provenance_ok q \<and> dp_decision q = dp_decision p \<and> dp_risk q = dp_risk p \<and>
       list_all2 (same_but_details h) (dp_records p) (dp_records q) \<longrightarrow>
       provenance_for_audit h False False False q = Inr ?a"
      using same by blast
  qed (simp_all add: for_audit_Inr [OF assms(1) bound])
qed

definition sample_provenance :: decision_provenance where
  "sample_provenance = \<lparr>dp_records =
     [(blank_record ''adapter'' ''resource'' ''seen'')\<lparr>pr_summary := Some ''reads a key'',
        pr_resource := Some \<lparr>pv_type = ''path'', pv_value = ''/root/key''\<rparr>\<rparr>],
     dp_decision = ''warn'', dp_risk = ''medium'', dp_schema = provenance_schema_version\<rparr>"

lemmas provenance_bounds = max_provenance_records_def max_provenance_text_def
  max_provenance_code_def max_provenance_metadata_def max_provenance_indices_def valid_risks_def
  valid_provenance_sources_def valid_provenance_kinds_def

lemma kind_match_path: "kind_match ''path''"
  by (simp add: kind_match_def kind_char_def cp_def)

lemma sample_provenance_ok: "provenance_ok sample_provenance"
proof -
  have "decision_provenance_post_init sample_provenance = Inr ()"
    using validate_decision_text [of Warn]
    by (simp add: decision_provenance_post_init_def sample_provenance_def provenance_bounds)
  moreover have "provenance_record_ok (hd (dp_records sample_provenance))"
    by (simp add: provenance_record_ok_def sample_provenance_def blank_record_def
        provenance_record_post_init_def bounded_text_def resource_option_ok_def
        provenance_resource_post_init_def kind_match_path provenance_bounds)
  ultimately show ?thesis
    by (simp add: provenance_ok_def sample_provenance_def)
qed

lemma audit_form_hides_details_witness:
  "\<exists>a. provenance_for_audit \<lparr>float_repr = (\<lambda>_. []), sha256 = (\<lambda>_. ''ab'')\<rparr> False False False
      sample_provenance = Inr a \<and> (\<forall>r \<in> set (dp_records a). pr_summary r = None)"
  using audit_form_hides_details [OF sample_provenance_ok,
      of "\<lparr>float_repr = (\<lambda>_. []), sha256 = (\<lambda>_. ''ab'')\<rparr>"] by auto

text \<open>Appending to a provenance is all or nothing: with a valid decision and risk, the result has
  the old records followed by the new ones and the new decision and risk exactly if at most 512
  records result, and otherwise the append raises and no record is dropped to make room.\<close>

theorem append_keeps_history:
  assumes "provenance_ok p" and "k \<in> set valid_risks"
  shows "provenance_append p rs (Some (decision_text d)) (Some k) =
      Inr (p\<lparr>dp_records := dp_records p @ rs, dp_decision := decision_text d, dp_risk := k\<rparr>) \<and>
      length (dp_records p) + length rs \<le> 512 \<or>
    (\<exists>e. provenance_append p rs (Some (decision_text d)) (Some k) = Inl e) \<and>
      length (dp_records p) + length rs > 512"
  using append_decision_Inr [OF assms] append_full [of p rs] by (meson not_le)

lemma append_keeps_history_witness:
  "provenance_append sample_provenance [blank_record ''decision'' ''merge'' ''m''] (Some ''block'')
     (Some ''high'') = Inr (sample_provenance\<lparr>dp_records := dp_records sample_provenance @
       [blank_record ''decision'' ''merge'' ''m''], dp_decision := ''block'', dp_risk := ''high''\<rparr>)"
  using append_keeps_history [OF sample_provenance_ok, of "''high''"
      "[blank_record ''decision'' ''merge'' ''m'']" Block]
  by (simp add: valid_risks_def sample_provenance_def)

end
