(* ===== verification/Execution.thy ===== *)
theory Execution
  imports Provenance
begin

text \<open>
  \<^verbatim>\<open>ordin/execution.py\<close>: the capability profile a caller-owned sandbox is advised to grant, the
  observations a caller reports after an action ran, and the derivation of a profile from the
  effects and resources of an action.
\<close>

section \<open>Bounds and validators\<close>

definition exec_max_history_items :: nat where "exec_max_history_items = 32"
definition exec_max_effects :: nat where "exec_max_effects = 128"
definition exec_max_resources :: nat where "exec_max_resources = 128"
definition exec_max_id_length :: nat where "exec_max_id_length = 128"
definition max_metadata_depth :: nat where "max_metadata_depth = 8"
definition max_metadata_items :: nat where "max_metadata_items = 128"
definition max_metadata_string_length :: nat where "max_metadata_string_length = 32768"
definition max_effect_length :: nat where "max_effect_length = 256"

lemmas execution_bounds = exec_max_history_items_def exec_max_effects_def exec_max_resources_def
  exec_max_id_length_def max_metadata_depth_def max_metadata_items_def
  max_metadata_string_length_def max_effect_length_def

definition filesystem_read_only_effects :: "string list" where
  "filesystem_read_only_effects = [''filesystem.read'', ''filesystem.metadata_read'']"

definition network_read_only_effects :: "string list" where
  "network_read_only_effects = [''network.connect'', ''network.download'']"

definition filesystem_resource_types :: "string list" where
  "filesystem_resource_types = [''path'', ''file'', ''directory'']"

definition network_resource_types :: "string list" where
  "network_resource_types = [''url'', ''host'', ''network'', ''endpoint'']"

fun validate_metadata :: "nat \<Rightarrow> json \<Rightarrow> unit res" where
  "validate_metadata depth j =
     (if depth > max_metadata_depth
      then Inl (ValueError ''metadata exceeds maximum nesting depth 8'')
      else (case j of
        JStr s \<Rightarrow>
          ensure (\<not> length s > max_metadata_string_length)
            (ValueError ''metadata string must be at most 32768 characters'')
      | JArr xs \<Rightarrow>
          if length xs > max_metadata_items
          then Inl (ValueError ''metadata must contain at most 128 items'')
          else res_bind (res_mapM (validate_metadata (Suc depth)) xs) (\<lambda>_. Inr ())
      | JObj p \<Rightarrow>
          if length p > max_metadata_items
          then Inl (ValueError ''metadata must contain at most 128 properties'')
          else res_bind (res_mapM (\<lambda>m.
            if fst m = [] then Inl (ValueError ''metadata keys must be non-empty strings'')
            else if length (fst m) > exec_max_id_length
            then Inl (ValueError ''metadata key must be at most 128 characters'')
            else validate_metadata (Suc depth) (snd m)) p) (\<lambda>_. Inr ())
      | _ \<Rightarrow> Inr ()))"

declare validate_metadata.simps [simp del]

fun copy_metadata :: "json \<Rightarrow> json" where
  "copy_metadata j =
     (case j of
        JObj p \<Rightarrow> JObj (map (\<lambda>m. (fst m, copy_metadata (snd m))) p)
      | JArr xs \<Rightarrow> JArr (map copy_metadata xs)
      | v \<Rightarrow> v)"

declare copy_metadata.simps [simp del]

definition validate_scope :: "string \<Rightarrow> string \<Rightarrow> unit res" where
  "validate_scope scope name =
     (if scope = [] then Inl (ValueError (name @ '' must be non-empty text''))
      else if length scope > max_metadata_string_length
      then Inl (ValueError (name @ '' must be at most 32768 characters''))
      else Inr ())"

definition validate_effect :: "string \<Rightarrow> unit res" where
  "validate_effect effect =
     (if effect = [] then Inl (ValueError ''observation effects must be non-empty strings'')
      else if length effect > max_effect_length
      then Inl (ValueError ''observation effect must be at most 256 characters'')
      else if \<not> kind_match effect
      then Inl (ValueError ''unsupported observation effect identifier'')
      else Inr ())"

section \<open>Capability profiles\<close>

definition capability_access :: "string list" where
  "capability_access = [''none'', ''read'', ''write'', ''unknown'']"

record capability_profile =
  cp_filesystem :: string
  cp_filesystem_scopes :: "string list"
  cp_network :: string
  cp_network_scopes :: "string list"
  cp_privilege :: "bool option"
  cp_process :: "bool option"

definition profile_post_init :: "capability_profile \<Rightarrow> unit res" where
  "profile_post_init c =
     (if cp_filesystem c \<notin> set capability_access \<or> cp_network c \<notin> set capability_access
      then Inl (ValueError ''capability access must be none, read, write, or unknown'')
      else if length (cp_filesystem_scopes c) > exec_max_resources
      then Inl (ValueError ''too many filesystem capability scopes'')
      else if length (cp_network_scopes c) > exec_max_resources
      then Inl (ValueError ''too many network capability scopes'')
      else
        res_bind (res_mapM (\<lambda>s. validate_scope s ''filesystem capability scope'')
          (cp_filesystem_scopes c)) (\<lambda>_.
        res_bind (res_mapM (\<lambda>s. validate_scope s ''network capability scope'')
          (cp_network_scopes c)) (\<lambda>_. Inr ())))"

definition make_profile :: "capability_profile \<Rightarrow> capability_profile res" where
  "make_profile c = res_bind (profile_post_init c) (\<lambda>_. Inr c)"

definition execution_capabilities_schema_version :: string where
  "execution_capabilities_schema_version = ''ordin.execution_capabilities.v1''"

definition string_list_json :: "string list \<Rightarrow> json" where
  "string_list_json xs = JArr (map JStr xs)"

definition profile_as_dict :: "capability_profile \<Rightarrow> payload" where
  "profile_as_dict c =
     [(''schema_version'', JStr execution_capabilities_schema_version),
      (''filesystem'', JStr (cp_filesystem c)),
      (''filesystem_scopes'', string_list_json (cp_filesystem_scopes c)),
      (''network'', JStr (cp_network c)),
      (''network_scopes'', string_list_json (cp_network_scopes c)),
      (''privilege_escalation'', bool_option_json (cp_privilege c)),
      (''process_execution'', bool_option_json (cp_process c))]"

text \<open>
  \<^verbatim>\<open>value in {...}\<close> for a value read from JSON: an array or an object cannot be hashed, so the test
  itself raises \<^verbatim>\<open>TypeError\<close>.
\<close>

definition choice_of :: "json \<Rightarrow> string list \<Rightarrow> py_error \<Rightarrow> string res" where
  "choice_of j options e =
     (case j of
        JArr _ \<Rightarrow> Inl (TypeError ''unhashable type: list'')
      | JObj _ \<Rightarrow> Inl (TypeError ''unhashable type: dict'')
      | JStr s \<Rightarrow> if s \<in> set options then Inr s else Inl e
      | _ \<Rightarrow> Inl e)"

text \<open>A list all of whose items are strings.\<close>

definition as_strings :: "json \<Rightarrow> py_error \<Rightarrow> string list res" where
  "as_strings j e = res_bind (as_list j e) (res_mapM (\<lambda>x. as_string x e))"

definition profile_from_dict :: "json \<Rightarrow> capability_profile res" where
  "profile_from_dict v =
     res_bind (reject_unknown_fields v
       [''schema_version'', ''filesystem'', ''filesystem_scopes'', ''network'', ''network_scopes'',
        ''privilege_escalation'', ''process_execution''] ''execution capabilities'') (\<lambda>p.
     if jget p ''schema_version'' \<noteq> JStr execution_capabilities_schema_version
     then Inl (ValueError ''unsupported execution capability schema'')
     else
     res_bind (choice_of (jget p ''filesystem'') capability_access
       (ValueError ''invalid filesystem capability'')) (\<lambda>filesystem.
     res_bind (choice_of (jget p ''network'') capability_access
       (ValueError ''invalid network capability'')) (\<lambda>network.
     res_bind (as_strings (jget p ''filesystem_scopes'')
       (ValueError ''filesystem_scopes must be an array of strings'')) (\<lambda>filesystem_scopes.
     res_bind (as_strings (jget p ''network_scopes'')
       (ValueError ''network_scopes must be an array of strings'')) (\<lambda>network_scopes.
     res_bind (as_bool_option (jget p ''privilege_escalation'')
       (ValueError ''privilege_escalation must be boolean or null'')) (\<lambda>privilege.
     res_bind (as_bool_option (jget p ''process_execution'')
       (ValueError ''process_execution must be boolean or null'')) (\<lambda>process.
     make_profile \<lparr>cp_filesystem = filesystem, cp_filesystem_scopes = filesystem_scopes,
       cp_network = network, cp_network_scopes = network_scopes, cp_privilege = privilege,
       cp_process = process\<rparr>)))))))"

section \<open>Observations\<close>

record observed_resource =
  or_type :: string
  or_value :: string

definition observed_resource_post_init :: "observed_resource \<Rightarrow> unit res" where
  "observed_resource_post_init r =
     (if or_type r = [] \<or> length (or_type r) > 64 \<or> \<not> kind_match (or_type r)
      then Inl (ValueError ''observed resource type must be a valid 1 to 64 character identifier'')
      else validate_scope (or_value r) ''observed resource value'')"

definition observed_resource_as_dict :: "observed_resource \<Rightarrow> payload" where
  "observed_resource_as_dict r = [(''type'', JStr (or_type r)), (''value'', JStr (or_value r))]"

record action_observation =
  ao_action_id :: string
  ao_exit_code :: "int option"
  ao_effects :: "string list"
  ao_resources :: "observed_resource list"
  ao_metadata :: payload

text \<open>The constructor; the exit code arrives as the caller passed it.\<close>

definition make_observation ::
  "string \<Rightarrow> json \<Rightarrow> string list \<Rightarrow> observed_resource list \<Rightarrow> payload \<Rightarrow> action_observation res" where
  "make_observation action_id exit_raw effects resources metadata =
     (if py_strip action_id = []
      then Inl (ValueError ''observation action_id must be non-empty text'')
      else if length action_id > exec_max_id_length
      then Inl (ValueError ''observation action_id must be at most 128 characters'')
      else
      res_bind (as_int_option exit_raw
        (ValueError ''observation exit_code must be an integer or null'')) (\<lambda>exit_code.
      if length effects > exec_max_effects
      then Inl (ValueError ''observation supports at most 128 effects'')
      else
      res_bind (res_mapM validate_effect effects) (\<lambda>_.
      if length resources > exec_max_resources
      then Inl (ValueError ''observation supports at most 128 resources'')
      else
      res_bind (validate_metadata 0 (JObj metadata)) (\<lambda>_.
      Inr \<lparr>ao_action_id = action_id, ao_exit_code = exit_code, ao_effects = effects,
           ao_resources = resources,
           ao_metadata = map (\<lambda>m. (fst m, copy_metadata (snd m))) metadata\<rparr>))))"

definition action_observation_schema_version :: string where
  "action_observation_schema_version = ''ordin.action_observation.v1''"

definition observation_as_dict :: "action_observation \<Rightarrow> payload" where
  "observation_as_dict a =
     [(''schema_version'', JStr action_observation_schema_version),
      (''action_id'', JStr (ao_action_id a)), (''exit_code'', int_option_json (ao_exit_code a)),
      (''effects'', string_list_json (ao_effects a)),
      (''resources'', JArr (map (\<lambda>r. JObj (observed_resource_as_dict r)) (ao_resources a))),
      (''metadata'', copy_metadata (JObj (ao_metadata a)))]"

definition observed_resource_from_dict :: "json \<Rightarrow> observed_resource res" where
  "observed_resource_from_dict item =
     res_bind (as_object item (ValueError ''observation resources must be objects'')) (\<lambda>_.
     res_bind (reject_unknown_fields item [''type'', ''value''] ''observation resource'') (\<lambda>p.
     let texts = ValueError ''observation resource requires string type and value'' in
     res_bind (as_string (jget p ''type'') texts) (\<lambda>t.
     res_bind (as_string (jget p ''value'') texts) (\<lambda>v.
     let r = \<lparr>or_type = t, or_value = v\<rparr>
     in res_bind (observed_resource_post_init r) (\<lambda>_. Inr r)))))"

definition observation_from_dict :: "json \<Rightarrow> action_observation res" where
  "observation_from_dict v =
     res_bind (reject_unknown_fields v
       [''schema_version'', ''action_id'', ''exit_code'', ''effects'', ''resources'', ''metadata'']
       ''action observation'') (\<lambda>p.
     if jget p ''schema_version'' \<noteq> JStr action_observation_schema_version
     then Inl (ValueError ''unsupported action observation schema'')
     else
     res_bind (as_string (jget p ''action_id'')
       (ValueError ''observation requires string action_id'')) (\<lambda>action_id.
     res_bind (as_strings (jget_default p ''effects'' (JArr []))
       (ValueError ''observation effects must be an array of strings'')) (\<lambda>effects.
     res_bind (as_list (jget_default p ''resources'' (JArr []))
       (ValueError ''observation resources must be an array'')) (\<lambda>resources_raw.
     res_bind (as_object (jget_default p ''metadata'' (JObj []))
       (ValueError ''observation metadata must be an object'')) (\<lambda>metadata.
     res_bind (res_mapM observed_resource_from_dict resources_raw) (\<lambda>resources.
     make_observation action_id (jget p ''exit_code'') effects resources metadata))))))"

record observation_history =
  oh_observations :: "action_observation list"

definition observation_history_post_init :: "observation_history \<Rightarrow> unit res" where
  "observation_history_post_init s =
     (if length (oh_observations s) > exec_max_history_items
      then Inl (ValueError ''observation history maximum is 32'')
      else
        (let ids = map ao_action_id (oh_observations s)
         in ensure (length ids = card (set ids))
              (ValueError ''observation history action_id values must be unique'')))"

definition observation_history_schema_version :: string where
  "observation_history_schema_version = ''ordin.observation_history.v1''"

definition observation_history_as_dict :: "observation_history \<Rightarrow> payload" where
  "observation_history_as_dict s =
     [(''schema_version'', JStr observation_history_schema_version),
      (''observations'', JArr (map (\<lambda>a. JObj (observation_as_dict a)) (oh_observations s)))]"

definition observation_history_from_dict :: "json \<Rightarrow> observation_history res" where
  "observation_history_from_dict v =
     res_bind (reject_unknown_fields v [''schema_version'', ''observations''] ''observation history'')
       (\<lambda>p.
     if jget p ''schema_version'' \<noteq> JStr observation_history_schema_version
     then Inl (ValueError ''unsupported observation history schema'')
     else
     res_bind (as_list (jget p ''observations'')
       (ValueError ''observation history observations must be an array'')) (\<lambda>raw.
     if length raw > exec_max_history_items
     then Inl (ValueError ''observation history maximum is 32'')
     else
     res_bind (res_mapM (\<lambda>item.
         res_bind (as_object item (ValueError ''observation history entries must be objects''))
           (\<lambda>_. observation_from_dict item)) raw) (\<lambda>observations.
     let s = \<lparr>oh_observations = observations\<rparr>
     in res_bind (observation_history_post_init s) (\<lambda>_. Inr s))))"

definition by_action_id :: "observation_history \<Rightarrow> string \<Rightarrow> action_observation option" where
  "by_action_id s = map_of (map (\<lambda>a. (ao_action_id a, a)) (rev (oh_observations s)))"

section \<open>Derived capabilities\<close>

text \<open>\<^verbatim>\<open>sorted({...})\<close> of texts.\<close>

definition access_of :: "string list \<Rightarrow> string list \<Rightarrow> string" where
  "access_of effects read_only =
     (if effects \<noteq> [] then (if set effects \<subseteq> set read_only then ''read'' else ''write'') else ''none'')"

definition derive_capabilities ::
  "string \<Rightarrow> string list \<Rightarrow> (string \<times> string) list \<Rightarrow> capability_profile res" where
  "derive_capabilities action_kind effects resources =
     (if effects = [] \<and> action_kind \<noteq> ''shell''
      then make_profile \<lparr>cp_filesystem = ''unknown'', cp_filesystem_scopes = [],
        cp_network = ''unknown'', cp_network_scopes = [], cp_privilege = None, cp_process = None\<rparr>
      else
        make_profile
          \<lparr>cp_filesystem = access_of (filter (\<lambda>e. startswith e ''filesystem.'') effects)
             filesystem_read_only_effects,
           cp_filesystem_scopes =
             sorted_set (map snd (filter (\<lambda>r. fst r \<in> set filesystem_resource_types) resources)),
           cp_network = access_of (filter (\<lambda>e. startswith e ''network.'') effects)
             network_read_only_effects,
           cp_network_scopes =
             sorted_set (map snd (filter (\<lambda>r. fst r \<in> set network_resource_types) resources)),
           cp_privilege = Some (list_ex (\<lambda>e. startswith e ''privilege.'') effects),
           cp_process = Some (action_kind = ''shell'' \<or>
             list_ex (\<lambda>e. startswith e ''code.'' \<or> startswith e ''process.'') effects)\<rparr>)"

section \<open>Lemmas\<close>

lemma copy_metadata_id: "copy_metadata j = j"
proof (induction j)
  case (JArr xs)
  then show ?case by (subst copy_metadata.simps) (simp add: map_idI)
next
  case (JObj p)
  have "map (\<lambda>m. (fst m, copy_metadata (snd m))) p = p"
    by (rule map_idI) (use JObj in \<open>auto simp: prod_set_simps\<close>)
  then show ?case by (subst copy_metadata.simps) simp
qed (subst copy_metadata.simps, simp)+

lemma copy_members_id: "map (\<lambda>m. (fst m, copy_metadata (snd m))) p = p"
  by (simp add: copy_metadata_id map_idI)

lemma as_strings_json [simp]: "as_strings (string_list_json xs) e = Inr xs"
  by (simp add: as_strings_def string_list_json_def res_mapM_map_id)

lemma as_strings_Inr: "as_strings j e = Inr xs \<longleftrightarrow> j = string_list_json xs"
proof
  assume "as_strings j e = Inr xs"
  then obtain js where "j = JArr js" "res_mapM (\<lambda>x. as_string x e) js = Inr xs"
    by (auto simp: as_strings_def)
  then have "list_all2 (\<lambda>x y. x = JStr y) js xs"
    by (simp add: res_mapM_Inr_iff)
  then have "js = map JStr xs"
    by (induction rule: list_all2_induct) auto
  with \<open>j = JArr js\<close> show "j = string_list_json xs"
    by (simp add: string_list_json_def)
qed simp

lemma choice_of_Inr [simp]: "choice_of j options e = Inr s \<longleftrightarrow> j = JStr s \<and> s \<in> set options"
  by (cases j) (auto simp: choice_of_def)

lemma choice_of_JStr [simp]: "choice_of (JStr s) options e = (if s \<in> set options then Inr s else Inl e)"
  by (simp add: choice_of_def)

lemma make_profile_Inr [simp]: "make_profile c = Inr c' \<longleftrightarrow> profile_post_init c = Inr () \<and> c' = c"
  by (auto simp: make_profile_def ex_unit_iff)

lemma profile_roundtrip:
  assumes "profile_post_init c = Inr ()"
  shows "profile_from_dict (JObj (profile_as_dict c)) = Inr c"
proof -
  have "cp_filesystem c \<in> set capability_access" "cp_network c \<in> set capability_access"
    using assms by (auto simp: profile_post_init_def split: if_splits)
  with assms show ?thesis
    by (cases c) (simp add: profile_from_dict_def profile_as_dict_def reject_unknown_fields_def
        unknown_keys_def)
qed

text \<open>What the constructors guarantee of an observation and of a history.\<close>

definition observation_ok :: "action_observation \<Rightarrow> bool" where
  "observation_ok a =
     (make_observation (ao_action_id a) (int_option_json (ao_exit_code a)) (ao_effects a)
        (ao_resources a) (ao_metadata a) = Inr a \<and>
      list_all (\<lambda>r. observed_resource_post_init r = Inr ()) (ao_resources a))"

definition observation_history_ok :: "observation_history \<Rightarrow> bool" where
  "observation_history_ok s =
     (observation_history_post_init s = Inr () \<and> list_all observation_ok (oh_observations s))"

lemma observed_resource_roundtrip:
  assumes "observed_resource_post_init r = Inr ()"
  shows "observed_resource_from_dict (JObj (observed_resource_as_dict r)) = Inr r"
  using assms
  by (cases r) (simp add: observed_resource_from_dict_def observed_resource_as_dict_def
      reject_unknown_fields_def unknown_keys_def Let_def)

lemma observation_roundtrip:
  assumes "observation_ok a"
  shows "observation_from_dict (JObj (observation_as_dict a)) = Inr a"
proof -
  have "res_mapM observed_resource_from_dict
      (map (\<lambda>r. JObj (observed_resource_as_dict r)) (ao_resources a)) = Inr (ao_resources a)"
    using assms by (intro res_mapM_map_id observed_resource_roundtrip)
      (simp add: observation_ok_def list_all_iff)
  then show ?thesis
    using assms
    by (simp add: observation_from_dict_def observation_as_dict_def reject_unknown_fields_def
        unknown_keys_def copy_metadata_id observation_ok_def)
qed

lemma observation_history_roundtrip:
  assumes "observation_history_ok s"
  shows "observation_history_from_dict (JObj (observation_history_as_dict s)) = Inr s"
proof -
  have "res_mapM (\<lambda>item.
         res_bind (as_object item (ValueError ''observation history entries must be objects''))
           (\<lambda>_. observation_from_dict item))
      (map (\<lambda>a. JObj (observation_as_dict a)) (oh_observations s)) = Inr (oh_observations s)"
    using assms by (intro res_mapM_map_id)
      (simp add: observation_history_ok_def list_all_iff observation_roundtrip)
  then show ?thesis
    using assms
    by (cases s) (simp add: observation_history_from_dict_def observation_history_as_dict_def
        reject_unknown_fields_def unknown_keys_def observation_history_ok_def
        observation_history_post_init_def Let_def split: if_splits)
qed

lemma history_ids_distinct:
  "observation_history_post_init s = Inr () \<Longrightarrow> distinct (map ao_action_id (oh_observations s))"
  by (auto simp: observation_history_post_init_def Let_def card_distinct split: if_splits)

lemma by_action_id_Some:
  assumes "observation_history_post_init s = Inr ()"
  shows "by_action_id s i = Some a \<longleftrightarrow> a \<in> set (oh_observations s) \<and> ao_action_id a = i"
proof -
  let ?kv = "map (\<lambda>a. (ao_action_id a, a)) (rev (oh_observations s))"
  have "distinct (map fst ?kv)"
    using history_ids_distinct [OF assms] by (simp add: rev_map [symmetric] comp_def)
  then have "map_of ?kv i = Some a \<longleftrightarrow> (i, a) \<in> set ?kv"
    by (rule map_of_eq_Some_iff)
  then show ?thesis by (auto simp: by_action_id_def)
qed

text \<open>Access levels, from nothing to everything a profile may leave open.\<close>

definition access_rank :: "string \<Rightarrow> nat" where
  "access_rank a = (if a = ''none'' then 0 else if a = ''read'' then 1 else if a = ''write'' then 2 else 3)"

lemma access_of_mono:
  "set es \<subseteq> set es' \<Longrightarrow> access_rank (access_of es ro) \<le> access_rank (access_of es' ro)"
  by (auto simp: access_of_def access_rank_def)

lemma access_of_iff:
  "access_of es ro = ''none'' \<longleftrightarrow> es = []"
  "access_of es ro = ''read'' \<longleftrightarrow> es \<noteq> [] \<and> set es \<subseteq> set ro"
  "access_of es ro = ''write'' \<longleftrightarrow> \<not> set es \<subseteq> set ro"
  by (auto simp: access_of_def)

section \<open>Properties\<close>

text \<open>An advised capability profile is conservative. For an action with effects, or a shell
  action, read access stands for only read-only effects of that kind and no access for none; every
  path resource is in the scopes; adding effects or resources never lowers an access level, drops
  a scope, a privilege flag or a process flag. An action that is not a shell action and has no
  known effect leaves every capability unknown.\<close>

theorem derived_capabilities_conservative:
  assumes "derive_capabilities k es rs = Inr c" and "es \<noteq> [] \<or> k = ''shell''"
    and "derive_capabilities k es' rs' = Inr c'" and "set es \<subseteq> set es'" and "set rs \<subseteq> set rs'"
  shows "(cp_filesystem c = ''read'' \<longrightarrow>
      (\<forall>e \<in> set es. startswith e ''filesystem.'' \<longrightarrow> e \<in> set filesystem_read_only_effects)) \<and>
    (cp_filesystem c = ''none'' \<longleftrightarrow> (\<forall>e \<in> set es. \<not> startswith e ''filesystem.'')) \<and>
    (\<forall>r \<in> set rs. fst r = ''path'' \<longrightarrow> snd r \<in> set (cp_filesystem_scopes c)) \<and>
    access_rank (cp_filesystem c) \<le> access_rank (cp_filesystem c') \<and>
    access_rank (cp_network c) \<le> access_rank (cp_network c') \<and>
    set (cp_filesystem_scopes c) \<subseteq> set (cp_filesystem_scopes c') \<and>
    set (cp_network_scopes c) \<subseteq> set (cp_network_scopes c') \<and>
    (cp_privilege c = Some True \<longrightarrow> cp_privilege c' = Some True) \<and>
    (cp_process c = Some True \<longrightarrow> cp_process c' = Some True) \<and>
    (k \<noteq> ''shell'' \<longrightarrow> derive_capabilities k [] rs = Inr \<lparr>cp_filesystem = ''unknown'',
       cp_filesystem_scopes = [], cp_network = ''unknown'', cp_network_scopes = [],
       cp_privilege = None, cp_process = None\<rparr>)"
proof -
  let ?fs = "filter (\<lambda>e. startswith e ''filesystem.'')"
  let ?net = "filter (\<lambda>e. startswith e ''network.'')"
  let ?scopes = "\<lambda>types rs. sorted_set (map snd (filter (\<lambda>r. fst r \<in> set types) rs))"
  have nonempty: "es' \<noteq> [] \<or> k = ''shell''"
    using assms(2,4) by auto
  have c: "cp_filesystem c = access_of (?fs es) filesystem_read_only_effects"
      "cp_network c = access_of (?net es) network_read_only_effects"
      "cp_filesystem_scopes c = ?scopes filesystem_resource_types rs"
      "cp_network_scopes c = ?scopes network_resource_types rs"
      "cp_privilege c = Some (list_ex (\<lambda>e. startswith e ''privilege.'') es)"
      "cp_process c = Some (k = ''shell'' \<or>
         list_ex (\<lambda>e. startswith e ''code.'' \<or> startswith e ''process.'') es)"
    using assms(1,2) by (auto simp: derive_capabilities_def split: if_splits)
  have c': "cp_filesystem c' = access_of (?fs es') filesystem_read_only_effects"
      "cp_network c' = access_of (?net es') network_read_only_effects"
      "cp_filesystem_scopes c' = ?scopes filesystem_resource_types rs'"
      "cp_network_scopes c' = ?scopes network_resource_types rs'"
      "cp_privilege c' = Some (list_ex (\<lambda>e. startswith e ''privilege.'') es')"
      "cp_process c' = Some (k = ''shell'' \<or>
         list_ex (\<lambda>e. startswith e ''code.'' \<or> startswith e ''process.'') es')"
    using assms(3) nonempty by (auto simp: derive_capabilities_def split: if_splits)
  have more: "set (?fs es) \<subseteq> set (?fs es')" "set (?net es) \<subseteq> set (?net es')"
    using assms(4) by auto
  have scopes: "set (?scopes types rs) \<subseteq> set (?scopes types rs')" for types
    using assms(5) by (auto simp: sorted_set_simps)
  have "''path'' \<in> set filesystem_resource_types"
    by (simp add: filesystem_resource_types_def)
  then have paths: "\<forall>r \<in> set rs. fst r = ''path'' \<longrightarrow> snd r \<in> set (?scopes filesystem_resource_types rs)"
    by (force simp: sorted_set_simps)
  have unknown: "derive_capabilities k [] rs = Inr \<lparr>cp_filesystem = ''unknown'',
       cp_filesystem_scopes = [], cp_network = ''unknown'', cp_network_scopes = [],
       cp_privilege = None, cp_process = None\<rparr>" if "k \<noteq> ''shell''"
    using that by (simp add: derive_capabilities_def profile_post_init_def capability_access_def)
  have flags: "list_ex P es \<Longrightarrow> list_ex P es'" for P :: "string \<Rightarrow> bool"
    using assms(4) by (auto simp: list_ex_iff)
  show ?thesis
  proof (intro conjI)
    show "cp_filesystem c = ''read'' \<longrightarrow>
      (\<forall>e \<in> set es. startswith e ''filesystem.'' \<longrightarrow> e \<in> set filesystem_read_only_effects)"
      unfolding c access_of_iff by auto
    show "cp_filesystem c = ''none'' \<longleftrightarrow> (\<forall>e \<in> set es. \<not> startswith e ''filesystem.'')"
      unfolding c access_of_iff by (auto simp: filter_empty_conv)
    show "\<forall>r \<in> set rs. fst r = ''path'' \<longrightarrow> snd r \<in> set (cp_filesystem_scopes c)"
      using paths unfolding c .
    show "access_rank (cp_filesystem c) \<le> access_rank (cp_filesystem c')"
      unfolding c c' using more(1) by (rule access_of_mono)
    show "access_rank (cp_network c) \<le> access_rank (cp_network c')"
      unfolding c c' using more(2) by (rule access_of_mono)
    show "set (cp_filesystem_scopes c) \<subseteq> set (cp_filesystem_scopes c')"
      "set (cp_network_scopes c) \<subseteq> set (cp_network_scopes c')"
      unfolding c c' by (rule scopes)+
    show "cp_privilege c = Some True \<longrightarrow> cp_privilege c' = Some True"
      "cp_process c = Some True \<longrightarrow> cp_process c' = Some True"
      unfolding c c' using flags by blast+
    show "k \<noteq> ''shell'' \<longrightarrow> derive_capabilities k [] rs = Inr \<lparr>cp_filesystem = ''unknown'',
       cp_filesystem_scopes = [], cp_network = ''unknown'', cp_network_scopes = [],
       cp_privilege = None, cp_process = None\<rparr>"
      using unknown by blast
  qed
qed

lemma derived_capabilities_conservative_witness:
  "\<exists>c c'. derive_capabilities ''file'' [''filesystem.read''] [(''path'', ''/a'')] = Inr c \<and>
     derive_capabilities ''file'' [''filesystem.read'', ''network.upload''] [(''path'', ''/a'')] = Inr c' \<and>
     access_rank (cp_network c) \<le> access_rank (cp_network c')"
proof -
  have a: "derive_capabilities ''file'' [''filesystem.read''] [(''path'', ''/a'')] =
      Inr \<lparr>cp_filesystem = ''read'', cp_filesystem_scopes = [''/a''], cp_network = ''none'',
        cp_network_scopes = [], cp_privilege = Some False, cp_process = Some False\<rparr>"
    by (simp add: derive_capabilities_def profile_post_init_def capability_access_def
        validate_scope_def sorted_set_def access_of_def startswith_def execution_bounds
        filesystem_read_only_effects_def network_read_only_effects_def
        filesystem_resource_types_def network_resource_types_def)
  have b: "derive_capabilities ''file'' [''filesystem.read'', ''network.upload''] [(''path'', ''/a'')] =
      Inr \<lparr>cp_filesystem = ''read'', cp_filesystem_scopes = [''/a''], cp_network = ''write'',
        cp_network_scopes = [], cp_privilege = Some False, cp_process = Some False\<rparr>"
    by (simp add: derive_capabilities_def profile_post_init_def capability_access_def
        validate_scope_def sorted_set_def access_of_def startswith_def execution_bounds
        filesystem_read_only_effects_def network_read_only_effects_def
        filesystem_resource_types_def network_resource_types_def)
  show ?thesis
    using derived_capabilities_conservative [OF a _ b] a b by simp
qed

end
