(* ===== verification/Actions.thy ===== *)
theory Actions
  imports Execution
begin

text \<open>
  \<^verbatim>\<open>ordin/action.py\<close>: the action a caller describes, with its validation and JSON form, the bounded
  history of prior actions, and the review of one action.
\<close>

section \<open>Bounds and validators\<close>

definition max_action_kind_length :: nat where "max_action_kind_length = 64"
definition max_operation_length :: nat where "max_operation_length = 128"
definition max_action_id_length :: nat where "max_action_id_length = 128"
definition max_action_history :: nat where "max_action_history = 32"
definition max_parameter_depth :: nat where "max_parameter_depth = 8"
definition max_parameter_items :: nat where "max_parameter_items = 128"
definition max_parameter_string_length :: nat where "max_parameter_string_length = 32768"

lemmas action_bounds = max_action_kind_length_def max_operation_length_def max_action_id_length_def
  max_action_history_def max_parameter_depth_def max_parameter_items_def
  max_parameter_string_length_def

text \<open>\<^verbatim>\<open>_validate_identifier\<close>, with the one pattern the module passes.\<close>

definition action_identifier :: "string \<Rightarrow> string \<Rightarrow> nat \<Rightarrow> unit res" where
  "action_identifier v name maximum =
     (if v = [] then Inl (ValueError (name @ '' must be non-empty text''))
      else if length v > maximum then Inl (ValueError (name @ '' must be at most characters''))
      else if \<not> kind_match v then Inl (ValueError (name @ '' contains unsupported characters''))
      else Inr ())"

fun validate_parameters :: "nat \<Rightarrow> json \<Rightarrow> unit res" where
  "validate_parameters depth j =
     (if depth > max_parameter_depth
      then Inl (ValueError ''parameters exceeds maximum nesting depth 8'')
      else (case j of
        JStr s \<Rightarrow>
          ensure (\<not> length s > max_parameter_string_length)
            (ValueError ''parameters string must be at most 32768 characters'')
      | JArr xs \<Rightarrow>
          if length xs > max_parameter_items
          then Inl (ValueError ''parameters must contain at most 128 items'')
          else res_bind (res_mapM (validate_parameters (Suc depth)) xs) (\<lambda>_. Inr ())
      | JObj p \<Rightarrow>
          if length p > max_parameter_items
          then Inl (ValueError ''parameters must contain at most 128 properties'')
          else res_bind (res_mapM (\<lambda>m.
            if fst m = [] then Inl (ValueError ''parameters keys must be non-empty strings'')
            else if length (fst m) > max_operation_length
            then Inl (ValueError ''parameters key must be at most 128 characters'')
            else validate_parameters (Suc depth) (snd m)) p) (\<lambda>_. Inr ())
      | _ \<Rightarrow> Inr ()))"

declare validate_parameters.simps [simp del]

fun clone_json :: "json \<Rightarrow> json" where
  "clone_json j =
     (case j of
        JObj p \<Rightarrow> JObj (map (\<lambda>m. (fst m, clone_json (snd m))) p)
      | JArr xs \<Rightarrow> JArr (map clone_json xs)
      | v \<Rightarrow> v)"

declare clone_json.simps [simp del]

definition copy_json_mapping :: "payload \<Rightarrow> payload" where
  "copy_json_mapping p = map (\<lambda>m. (fst m, clone_json (snd m))) p"

section \<open>Resources and actions\<close>

record action_resource =
  ar_type :: string
  ar_value :: string

definition action_resource_post_init :: "action_resource \<Rightarrow> unit res" where
  "action_resource_post_init r =
     res_bind (action_identifier (ar_type r) ''resource type'' max_action_kind_length) (\<lambda>_.
     if ar_value r = [] then Inl (ValueError ''resource value must be non-empty text'')
     else if length (ar_value r) > max_parameter_string_length
     then Inl (ValueError ''resource value must be at most 32768 characters'')
     else Inr ())"

definition action_resource_as_dict :: "action_resource \<Rightarrow> payload" where
  "action_resource_as_dict r = [(''type'', JStr (ar_type r)), (''value'', JStr (ar_value r))]"

record action_envelope =
  ae_kind :: string
  ae_operation :: string
  ae_parameters :: payload
  ae_intent :: "string option"
  ae_context :: "execution_context option"
  ae_action_id :: "string option"

definition make_envelope :: "action_envelope \<Rightarrow> action_envelope res" where
  "make_envelope a =
     res_bind (action_identifier (ae_kind a) ''action kind'' max_action_kind_length) (\<lambda>_.
     res_bind (action_identifier (ae_operation a) ''action operation'' max_operation_length) (\<lambda>_.
     res_bind (case ae_action_id a of
         None \<Rightarrow> Inr ()
       | Some i \<Rightarrow>
           if py_strip i = [] then Inl (ValueError ''action_id must be non-empty text or null'')
           else ensure (\<not> length i > max_action_id_length)
             (ValueError ''action_id must be at most 128 characters'')) (\<lambda>_.
     res_bind (validate_parameters 0 (JObj (ae_parameters a))) (\<lambda>_.
     Inr (a\<lparr>ae_parameters := copy_json_mapping (ae_parameters a)\<rparr>)))))"

definition envelope_shell ::
  "string \<Rightarrow> string option \<Rightarrow> execution_context option \<Rightarrow> string option \<Rightarrow> action_envelope res" where
  "envelope_shell command intent context action_id =
     (if py_strip command = []
      then Inl (ValueError ''shell action requires non-empty command text'')
      else make_envelope \<lparr>ae_kind = ''shell'', ae_operation = ''execute'',
        ae_parameters = [(''command'', JStr command)], ae_intent = intent, ae_context = context,
        ae_action_id = action_id\<rparr>)"

definition action_envelope_schema_version :: string where
  "action_envelope_schema_version = ''ordin.action_envelope.v1''"

definition envelope_as_dict :: "action_envelope \<Rightarrow> payload" where
  "envelope_as_dict a =
     [(''schema_version'', JStr action_envelope_schema_version),
      (''action_id'', option_json (ae_action_id a)), (''kind'', JStr (ae_kind a)),
      (''operation'', JStr (ae_operation a)),
      (''parameters'', JObj (copy_json_mapping (ae_parameters a))),
      (''intent'', option_json (ae_intent a)),
      (''context'', (case ae_context a of None \<Rightarrow> JNull | Some c \<Rightarrow> JObj (execution_context_as_dict c)))]"

definition envelope_from_dict :: "json \<Rightarrow> action_envelope res" where
  "envelope_from_dict v =
     res_bind (as_object v (ValueError ''action envelope must be a JSON object'')) (\<lambda>_.
     res_bind (reject_unknown_fields v
       [''schema_version'', ''action_id'', ''kind'', ''operation'', ''parameters'', ''intent'',
        ''context''] ''action envelope'') (\<lambda>p.
     if jget p ''schema_version'' \<notin> {JNull, JStr action_envelope_schema_version}
     then Inl (ValueError ''unsupported action envelope schema'')
     else
     res_bind (as_string (jget p ''kind'')
       (ValueError ''action envelope requires string kind'')) (\<lambda>kind.
     res_bind (as_string (jget p ''operation'')
       (ValueError ''action envelope requires string operation'')) (\<lambda>operation.
     res_bind (as_object (jget_default p ''parameters'' (JObj []))
       (ValueError ''action envelope parameters must be a JSON object'')) (\<lambda>parameters.
     res_bind (as_string_option (jget p ''intent'')
       (ValueError ''action envelope intent must be a string or null'')) (\<lambda>intent.
     res_bind (as_string_option (jget p ''action_id'')
       (ValueError ''action envelope action_id must be a string or null'')) (\<lambda>action_id.
     res_bind (execution_context_from_dict (jget p ''context'')) (\<lambda>context.
     make_envelope \<lparr>ae_kind = kind, ae_operation = operation, ae_parameters = parameters,
       ae_intent = intent, ae_context = context, ae_action_id = action_id\<rparr>))))))))"

section \<open>Histories\<close>

record action_history =
  ah_actions :: "action_envelope list"

definition action_history_post_init :: "action_history \<Rightarrow> unit res" where
  "action_history_post_init s =
     ensure (\<not> length (ah_actions s) > max_action_history)
       (ValueError ''action history maximum is 32'')"

definition action_history_schema_version :: string where
  "action_history_schema_version = ''ordin.action_history.v1''"

definition action_history_as_dict :: "action_history \<Rightarrow> payload" where
  "action_history_as_dict s =
     [(''schema_version'', JStr action_history_schema_version),
      (''actions'', JArr (map (\<lambda>a. JObj (envelope_as_dict a)) (ah_actions s)))]"

definition action_history_from_dict :: "json \<Rightarrow> action_history res" where
  "action_history_from_dict v =
     res_bind (as_object v (ValueError ''action history must be a JSON object'')) (\<lambda>_.
     res_bind (reject_unknown_fields v [''schema_version'', ''actions''] ''action history'') (\<lambda>p.
     if jget p ''schema_version'' \<noteq> JStr action_history_schema_version
     then Inl (ValueError ''unsupported action history schema'')
     else
     res_bind (as_list (jget p ''actions'')
       (ValueError ''action history actions must be an array'')) (\<lambda>actions_raw.
     if length actions_raw > max_action_history
     then Inl (ValueError ''action history maximum is 32'')
     else
     res_bind (res_mapM (\<lambda>item.
         res_bind (as_object item (ValueError ''action history entries must be JSON objects''))
           (\<lambda>_. envelope_from_dict item)) actions_raw) (\<lambda>actions.
     let s = \<lparr>ah_actions = actions\<rparr>
     in res_bind (action_history_post_init s) (\<lambda>_. Inr s)))))"

section \<open>Reviews\<close>

record action_review =
  rv_action :: action_envelope
  rv_decision :: decision
  rv_risk :: string
  rv_reasons :: "string list"
  rv_safer :: "string option"
  rv_effects :: "string list"
  rv_resources :: "action_resource list"
  rv_adapter :: "string option"
  rv_capabilities :: "capability_profile option"
  rv_provenance :: "decision_provenance option"
  rv_intent_alignment :: string
  rv_trajectory :: "string list"
  rv_policy :: "payload option"
  rv_policy_matches :: "payload list"

definition action_review_schema_version :: string where
  "action_review_schema_version = ''ordin.action_review.v1''"

definition review_as_dict :: "action_review \<Rightarrow> payload" where
  "review_as_dict r =
     [(''schema_version'', JStr action_review_schema_version),
      (''action'', JObj (envelope_as_dict (rv_action r))),
      (''decision'', JStr (decision_text (rv_decision r))), (''risk'', JStr (rv_risk r)),
      (''reasons'', string_list_json (rv_reasons r)),
      (''safer_next_step'', option_json (rv_safer r)),
      (''effects'', string_list_json (rv_effects r)),
      (''resources'', JArr (map (\<lambda>x. JObj (action_resource_as_dict x)) (rv_resources r))),
      (''adapter'', option_json (rv_adapter r)),
      (''capabilities'', (case rv_capabilities r of None \<Rightarrow> JNull | Some c \<Rightarrow> JObj (profile_as_dict c))),
      (''provenance'', (case rv_provenance r of None \<Rightarrow> JNull
         | Some p \<Rightarrow> JObj (decision_provenance_as_dict p))),
      (''intent_alignment'', JStr (rv_intent_alignment r)),
      (''trajectory_categories'', string_list_json (rv_trajectory r))] @
     (case rv_policy r of None \<Rightarrow> [] | Some p \<Rightarrow> [(''policy'', JObj p)]) @
     (if rv_policy_matches r \<noteq> []
      then [(''policy_matches'', JArr (map JObj (rv_policy_matches r)))] else [])"

section \<open>Lemmas\<close>

lemma clone_json_id: "clone_json j = j"
proof (induction j)
  case (JArr xs)
  then show ?case by (subst clone_json.simps) (simp add: map_idI)
next
  case (JObj p)
  have "map (\<lambda>m. (fst m, clone_json (snd m))) p = p"
    by (rule map_idI) (use JObj in \<open>auto simp: prod_set_simps\<close>)
  then show ?case by (subst clone_json.simps) simp
qed (subst clone_json.simps, simp)+

lemma copy_json_mapping_id [simp]: "copy_json_mapping p = p"
  by (simp add: copy_json_mapping_def clone_json_id map_idI)

text \<open>What the constructor guarantees of an action, its context included.\<close>

definition envelope_ok :: "action_envelope \<Rightarrow> bool" where
  "envelope_ok a =
     (make_envelope a = Inr a \<and>
      (case ae_context a of None \<Rightarrow> True | Some c \<Rightarrow> execution_context_post_init c = Inr ()))"

lemma make_envelope_same: "make_envelope a = Inr b \<Longrightarrow> b = a"
  by (auto simp: make_envelope_def)

lemma context_dict_roundtrip:
  assumes "case v of None \<Rightarrow> True | Some c \<Rightarrow> execution_context_post_init c = Inr ()"
  shows "execution_context_from_dict
     (case v of None \<Rightarrow> JNull | Some c \<Rightarrow> JObj (execution_context_as_dict c)) = Inr v"
  using assms by (cases v) (simp_all add: from_dict_null execution_context_roundtrip)

lemma envelope_roundtrip:
  assumes "envelope_ok a"
  shows "envelope_from_dict (JObj (envelope_as_dict a)) = Inr a"
  using assms
  by (cases a) (simp add: envelope_from_dict_def envelope_as_dict_def reject_unknown_fields_def
      unknown_keys_def envelope_ok_def context_dict_roundtrip)

lemma context_from_dict_ok:
  assumes "execution_context_from_dict j = Inr (Some c)"
  shows "execution_context_post_init c = Inr ()"
proof (cases j)
  case (JObj p)
  with assms show ?thesis
    by (auto simp: execution_context_from_dict_def Let_def)
qed (use assms in \<open>simp_all add: execution_context_from_dict_def\<close>)

lemma envelope_from_dict_ok:
  assumes "envelope_from_dict j = Inr a"
  shows "envelope_ok a"
proof -
  obtain b k where b: "make_envelope b = Inr a" "execution_context_from_dict k = Inr (ae_context b)"
    using assms by (auto simp: envelope_from_dict_def split: if_splits)
  have "a = b" by (rule make_envelope_same [OF b(1)])
  with b show ?thesis
    by (auto simp: envelope_ok_def dest: context_from_dict_ok split: option.split)
qed

lemma action_history_roundtrip:
  assumes "action_history_post_init s = Inr ()" "list_all envelope_ok (ah_actions s)"
  shows "action_history_from_dict (JObj (action_history_as_dict s)) = Inr s"
proof -
  have "res_mapM (\<lambda>item.
         res_bind (as_object item (ValueError ''action history entries must be JSON objects''))
           (\<lambda>_. envelope_from_dict item))
      (map (\<lambda>a. JObj (envelope_as_dict a)) (ah_actions s)) = Inr (ah_actions s)"
    using assms(2) by (intro res_mapM_map_id) (simp add: list_all_iff envelope_roundtrip)
  then show ?thesis
    using assms(1)
    by (simp add: action_history_from_dict_def action_history_as_dict_def reject_unknown_fields_def
        unknown_keys_def action_history_post_init_def Let_def)
qed

text \<open>An accepted parameter tree is bounded in depth.\<close>

lemma validate_parameters_depth:
  "validate_parameters depth j = Inr u \<Longrightarrow> depth + json_depth j \<le> max_parameter_depth"
proof (induction depth j arbitrary: u rule: validate_parameters.induct)
  case (1 depth j)
  have top: "\<not> depth > max_parameter_depth"
    using 1(3) by (subst (asm) validate_parameters.simps) (auto split: if_splits)
  show ?case
  proof (cases j)
    case (JArr xs)
    with 1(3) top obtain us where xs: "\<not> length xs > max_parameter_items"
        "res_mapM (validate_parameters (Suc depth)) xs = Inr us"
      by (subst (asm) validate_parameters.simps) (auto split: if_splits)
    have "Suc depth + json_depth x \<le> max_parameter_depth" if "x \<in> set xs" for x
      using res_mapM_Inr_mem [OF xs(2) that] 1(1) [OF top JArr xs(1) that] by blast
    with top JArr show ?thesis
      by (intro le_diff_depth [of depth]) (fastforce simp: Max_insert_le)+
  next
    case (JObj p)
    with 1(3) top obtain us where p: "\<not> length p > max_parameter_items"
        "res_mapM (\<lambda>m.
            if fst m = [] then Inl (ValueError ''parameters keys must be non-empty strings'')
            else if length (fst m) > max_operation_length
            then Inl (ValueError ''parameters key must be at most 128 characters'')
            else validate_parameters (Suc depth) (snd m)) p = Inr us"
      by (subst (asm) validate_parameters.simps) (auto split: if_splits)
    have "Suc depth + json_depth (snd m) \<le> max_parameter_depth" if "m \<in> set p" for m
      using res_mapM_Inr_mem [OF p(2) that] 1(2) [OF top JObj p(1) that]
      by (auto split: if_splits)
    with top JObj show ?thesis
      by (intro le_diff_depth [of depth]) (fastforce simp: Max_insert_le)+
  qed (use top in auto)
qed

section \<open>Properties\<close>

text \<open>Action loading: what the loader accepts is a valid action, and writing a valid action with its
  context and parameters as JSON and reading it back yields the same action, whose parameters nest
  at most 8 levels deep.\<close>

theorem action_envelope_json_roundtrip:
  assumes "envelope_from_dict j = Inr a"
  shows "envelope_ok a \<and> envelope_from_dict (JObj (envelope_as_dict a)) = Inr a \<and>
    json_depth (JObj (ae_parameters a)) \<le> 8"
proof -
  have ok: "envelope_ok a"
    using assms by (rule envelope_from_dict_ok)
  then have "validate_parameters 0 (JObj (ae_parameters a)) = Inr ()"
    by (auto simp: envelope_ok_def make_envelope_def ex_unit_iff)
  then show ?thesis
    using ok envelope_roundtrip [OF ok] validate_parameters_depth
    by (fastforce simp: max_parameter_depth_def)
qed

definition sample_envelope_json :: json where
  "sample_envelope_json = JObj [(''kind'', JStr ''file''), (''operation'', JStr ''write''),
     (''parameters'', JObj [(''path'', JStr ''/tmp/x''), (''lines'', JArr [JInt 1, JNull])]),
     (''context'', JObj [(''euid'', JInt 0)])]"

lemma action_envelope_json_roundtrip_witness:
  "\<exists>a. envelope_from_dict sample_envelope_json = Inr a \<and>
     envelope_from_dict (JObj (envelope_as_dict a)) = Inr a"
proof -
  have "kind_match ''file''" "kind_match ''write''"
    by (simp_all add: kind_match_def kind_char_def cp_def)
  moreover have "validate_parameters 0
      (JObj [(''path'', JStr ''/tmp/x''), (''lines'', JArr [JInt 1, JNull])]) = Inr ()"
    by (simp add: validate_parameters.simps action_bounds)
  ultimately have "\<exists>a. envelope_from_dict sample_envelope_json = Inr a"
    by (simp add: sample_envelope_json_def envelope_from_dict_def reject_unknown_fields_def
        unknown_keys_def execution_context_from_dict_def execution_context_post_init_def
        as_int_option_def as_bool_option_def Let_def make_envelope_def action_identifier_def
        action_bounds)
  then show ?thesis
    using action_envelope_json_roundtrip by blast
qed

end
