(* ===== verification/Action_Policy.thy ===== *)
theory Action_Policy
  imports Actions Temporal
begin

text \<open>
  \<^verbatim>\<open>ordin/action_policy.py\<close>: repository policies over action reviews: their data with validation
  and JSON forms, the matching of a rule's condition, the evaluation of a policy set and its
  application to a review.
\<close>

section \<open>Bounds and validators\<close>

definition policy_schema_version :: string where
  "policy_schema_version = ''ordin.policy_set.v1''"

definition max_policy_rules :: nat where "max_policy_rules = 256"
definition max_policy_id_length :: nat where "max_policy_id_length = 128"
definition max_policy_version_length :: nat where "max_policy_version_length = 64"
definition max_rule_id_length :: nat where "max_rule_id_length = 128"
definition max_match_values :: nat where "max_match_values = 128"
definition max_match_value_length :: nat where "max_match_value_length = 32768"

lemmas policy_bounds = policy_schema_version_def max_policy_rules_def max_policy_id_length_def
  max_policy_version_length_def max_rule_id_length_def max_match_values_def max_match_value_length_def

definition policy_text :: "string \<Rightarrow> string \<Rightarrow> nat \<Rightarrow> unit res" where
  "policy_text v name maximum =
     (if v = [] then Inl (ValueError (name @ '' must be non-empty text''))
      else if length v > maximum then Inl (ValueError (name @ '' must be at most characters''))
      else Inr ())"

text \<open>\<^verbatim>\<open>fullmatch\<close> of \<^verbatim>\<open>^[A-Za-z0-9][A-Za-z0-9_.:@/-]*$\<close>.\<close>

definition policy_id_head :: "char \<Rightarrow> bool" where
  "policy_id_head c = (let n = cp c in
     65 \<le> n \<and> n \<le> 90 \<or> 97 \<le> n \<and> n \<le> 122 \<or> 48 \<le> n \<and> n \<le> 57)"

definition policy_id_match :: "string \<Rightarrow> bool" where
  "policy_id_match s = (case s of [] \<Rightarrow> False
     | c # cs \<Rightarrow> policy_id_head c \<and> list_all (\<lambda>d. policy_id_head d \<or> d \<in> set ''_.:@/-'') cs)"

definition policy_identifier :: "string \<Rightarrow> string \<Rightarrow> nat \<Rightarrow> unit res" where
  "policy_identifier v name maximum =
     res_bind (policy_text v name maximum) (\<lambda>_.
     ensure (policy_id_match v) (ValueError (name @ '' contains unsupported characters'')))"

definition reject_unknown_keys :: "payload \<Rightarrow> string list \<Rightarrow> string \<Rightarrow> unit res" where
  "reject_unknown_keys p permitted name =
     ensure (unknown_keys p permitted = []) (ValueError (name @ '' contains unsupported fields''))"

fun match_values :: "string list \<Rightarrow> json list \<Rightarrow> string list res" where
  "match_values acc [] = Inr acc"
| "match_values acc (j # js) =
     (case j of
        JStr s \<Rightarrow>
          res_bind (policy_text s ''policy condition item'' max_match_value_length) (\<lambda>_.
          match_values (if s \<in> set acc then acc else acc @ [s]) js)
      | _ \<Rightarrow> Inl (ValueError ''policy condition items must be strings''))"

definition policy_string_list :: "payload \<Rightarrow> string \<Rightarrow> string list res" where
  "policy_string_list p key =
     res_bind (as_list (jget_default p key (JArr []))
       (ValueError ''policy condition must be an array'')) (\<lambda>value.
     if length value > max_match_values
     then Inl (ValueError ''policy condition must contain at most 128 items'')
     else match_values [] value)"

section \<open>Resource matchers\<close>

record resource_matcher =
  pm_type :: string
  pm_value :: "string option"
  pm_match :: string

definition make_matcher :: "resource_matcher \<Rightarrow> resource_matcher res" where
  "make_matcher m =
     res_bind (policy_text (pm_type m) ''resource matcher type'' max_match_value_length) (\<lambda>_.
     res_bind (case pm_value m of None \<Rightarrow> Inr ()
       | Some v \<Rightarrow> policy_text v ''resource matcher value'' max_match_value_length) (\<lambda>_.
     if pm_match m \<notin> {''exact'', ''prefix''}
     then Inl (ValueError ''unsupported resource match mode'')
     else if pm_value m = None \<and> pm_match m \<noteq> ''exact''
     then Inl (ValueError ''resource matcher without a value must use exact mode'')
     else Inr m))"

definition matcher_from_dict :: "payload \<Rightarrow> resource_matcher res" where
  "matcher_from_dict p =
     res_bind (reject_unknown_keys p [''type'', ''value'', ''match''] ''resource matcher'') (\<lambda>_.
     res_bind (as_string (jget p ''type'')
       (ValueError ''resource matcher requires string type'')) (\<lambda>t.
     res_bind (as_string_option (jget p ''value'')
       (ValueError ''resource matcher value must be a string or null'')) (\<lambda>v.
     res_bind (as_string (jget_default p ''match'' (JStr ''exact''))
       (ValueError ''resource matcher match must be a string'')) (\<lambda>m.
     make_matcher \<lparr>pm_type = t, pm_value = v, pm_match = m\<rparr>))))"

definition matcher_as_dict :: "resource_matcher \<Rightarrow> payload" where
  "matcher_as_dict m =
     [(''type'', JStr (pm_type m))] @
     (case pm_value m of None \<Rightarrow> [] | Some v \<Rightarrow> [(''value'', JStr v)]) @
     (if pm_match m \<noteq> ''exact'' then [(''match'', JStr (pm_match m))] else [])"

definition matcher_matches :: "resource_matcher \<Rightarrow> action_resource \<Rightarrow> bool" where
  "matcher_matches m r =
     (if ar_type r \<noteq> pm_type m then False
      else (case pm_value m of
          None \<Rightarrow> True
        | Some v \<Rightarrow> if pm_match m = ''exact'' then ar_value r = v else startswith (ar_value r) v))"

section \<open>Conditions\<close>

record policy_condition =
  pc_kinds :: "string list"
  pc_operations :: "string list"
  pc_effects_any :: "string list"
  pc_effects_all :: "string list"
  pc_resources :: "resource_matcher list"
  pc_risks :: "string list"
  pc_decisions :: "decision list"
  pc_agents :: "string list"
  pc_cwd_prefixes :: "string list"
  pc_repo_scope :: "string option"
  pc_privileged :: "bool option"
  pc_intent :: "string option"
  pc_trajectory :: "string list"

definition repo_scopes :: "string list" where
  "repo_scopes = [''inside'', ''outside'', ''unknown'']"

definition intent_states :: "string list" where
  "intent_states = [''present'', ''absent'', ''aligned'', ''mismatch'', ''not_applicable'']"

definition condition_post_init :: "policy_condition \<Rightarrow> unit res" where
  "condition_post_init c =
     res_bind (res_mapM (\<lambda>v. policy_string_list [(''key'', string_list_json v)] ''key'')
       [pc_kinds c, pc_operations c, pc_effects_any c, pc_effects_all c, pc_risks c,
        map decision_text (pc_decisions c), pc_agents c, pc_cwd_prefixes c, pc_trajectory c]) (\<lambda>_.
     if length (pc_resources c) > max_match_values
     then Inl (ValueError ''policy condition resources must be bounded resource matchers'')
     else
     res_bind (res_mapM (\<lambda>d. validate_decision (decision_text d)) (pc_decisions c)) (\<lambda>_.
     if list_ex (\<lambda>k. k \<notin> set valid_risks) (pc_risks c)
     then Inl (ValueError ''invalid policy condition risk'')
     else if \<not> (case pc_repo_scope c of None \<Rightarrow> True | Some s \<Rightarrow> s \<in> set repo_scopes)
     then Inl (ValueError ''invalid policy repository scope'')
     else if \<not> (case pc_intent c of None \<Rightarrow> True | Some s \<Rightarrow> s \<in> set intent_states)
     then Inl (ValueError ''invalid policy intent selector'')
     else
     res_bind (res_mapM (\<lambda>x.
         res_bind (policy_text x ''policy cwd prefix'' max_match_value_length) (\<lambda>_.
         ensure (posix_isabs x) (ValueError ''policy cwd prefixes require absolute POSIX paths'')))
       (pc_cwd_prefixes c)) (\<lambda>_. Inr ())))"

text \<open>\<^verbatim>\<open>value is not None and value not in {...}\<close>.\<close>

definition choice_option :: "json \<Rightarrow> string list \<Rightarrow> py_error \<Rightarrow> string option res" where
  "choice_option j options e =
     (case j of JNull \<Rightarrow> Inr None | _ \<Rightarrow> res_bind (choice_of j options e) (\<lambda>s. Inr (Some s)))"

definition condition_from_dict :: "payload \<Rightarrow> policy_condition res" where
  "condition_from_dict p =
     res_bind (reject_unknown_keys p
       [''kinds'', ''operations'', ''effects_any'', ''effects_all'', ''resources_any'', ''risks'',
        ''decisions'', ''agents'', ''cwd_prefixes'', ''repo_scope'', ''privileged'', ''intent'',
        ''trajectory_any''] ''policy condition'') (\<lambda>_.
     res_bind (policy_string_list p ''decisions'') (\<lambda>decision_texts.
     res_bind (res_mapM validate_decision decision_texts) (\<lambda>decisions.
     res_bind (as_list (jget_default p ''resources_any'' (JArr []))
       (ValueError ''policy condition resources_any must be an array'')) (\<lambda>resources_raw.
     if length resources_raw > max_match_values
     then Inl (ValueError ''policy condition resources_any must contain at most 128 items'')
     else
     res_bind (res_mapM (\<lambda>item. res_bind (as_object item
         (ValueError ''policy resource matchers must be JSON objects'')) matcher_from_dict)
       resources_raw) (\<lambda>resources.
     res_bind (choice_option (jget p ''repo_scope'') repo_scopes
       (ValueError ''unsupported repo_scope'')) (\<lambda>scope.
     res_bind (as_bool_option (jget p ''privileged'')
       (ValueError ''policy condition privileged must be a boolean or null'')) (\<lambda>privileged.
     res_bind (choice_option (jget p ''intent'') intent_states
       (ValueError ''unsupported intent condition'')) (\<lambda>intent.
     res_bind (policy_string_list p ''risks'') (\<lambda>risks.
     if list_ex (\<lambda>k. k \<notin> set valid_risks) risks
     then Inl (ValueError ''unsupported risk in policy condition'')
     else
     res_bind (policy_string_list p ''kinds'') (\<lambda>kinds.
     res_bind (policy_string_list p ''operations'') (\<lambda>operations.
     res_bind (policy_string_list p ''effects_any'') (\<lambda>effects_any.
     res_bind (policy_string_list p ''effects_all'') (\<lambda>effects_all.
     res_bind (policy_string_list p ''agents'') (\<lambda>agents.
     res_bind (policy_string_list p ''cwd_prefixes'') (\<lambda>cwd_prefixes.
     res_bind (policy_string_list p ''trajectory_any'') (\<lambda>trajectory.
     let c = \<lparr>pc_kinds = kinds, pc_operations = operations, pc_effects_any = effects_any,
       pc_effects_all = effects_all, pc_resources = resources, pc_risks = risks,
       pc_decisions = decisions, pc_agents = agents, pc_cwd_prefixes = cwd_prefixes,
       pc_repo_scope = scope, pc_privileged = privileged, pc_intent = intent,
       pc_trajectory = trajectory\<rparr>
     in res_bind (condition_post_init c) (\<lambda>_. Inr c)))))))))))))))))"

definition list_field :: "string \<Rightarrow> string list \<Rightarrow> payload" where
  "list_field key v = (if v \<noteq> [] then [(key, string_list_json v)] else [])"

definition text_field :: "string \<Rightarrow> string option \<Rightarrow> payload" where
  "text_field key v = (case v of None \<Rightarrow> [] | Some s \<Rightarrow> [(key, JStr s)])"

definition condition_as_dict :: "policy_condition \<Rightarrow> payload" where
  "condition_as_dict c =
     list_field ''kinds'' (pc_kinds c) @ list_field ''operations'' (pc_operations c) @
     list_field ''effects_any'' (pc_effects_any c) @ list_field ''effects_all'' (pc_effects_all c) @
     list_field ''risks'' (pc_risks c) @
     list_field ''decisions'' (map decision_text (pc_decisions c)) @
     list_field ''agents'' (pc_agents c) @ list_field ''cwd_prefixes'' (pc_cwd_prefixes c) @
     list_field ''trajectory_any'' (pc_trajectory c) @
     (if pc_resources c \<noteq> []
      then [(''resources_any'', JArr (map (\<lambda>m. JObj (matcher_as_dict m)) (pc_resources c)))] else []) @
     text_field ''repo_scope'' (pc_repo_scope c) @
     (case pc_privileged c of None \<Rightarrow> [] | Some b \<Rightarrow> [(''privileged'', JBool b)]) @
     text_field ''intent'' (pc_intent c)"

section \<open>Rules and policy sets\<close>

record policy_rule =
  ap_id :: string
  ap_decision :: decision
  ap_when :: policy_condition
  ap_reason :: "string option"
  ap_safer :: "string option"
  ap_enabled :: bool

definition optional_policy_text :: "string option \<Rightarrow> string \<Rightarrow> unit res" where
  "optional_policy_text v name =
     (case v of None \<Rightarrow> Inr () | Some s \<Rightarrow> policy_text s name max_match_value_length)"

definition policy_rule_post_init :: "policy_rule \<Rightarrow> unit res" where
  "policy_rule_post_init r =
     res_bind (policy_identifier (ap_id r) ''policy rule id'' max_rule_id_length) (\<lambda>_.
     res_bind (validate_decision (decision_text (ap_decision r))) (\<lambda>_.
     res_bind (optional_policy_text (ap_reason r) ''policy rule reason'') (\<lambda>_.
     optional_policy_text (ap_safer r) ''policy rule safer_next_step'')))"

definition policy_rule_from_dict :: "payload \<Rightarrow> policy_rule res" where
  "policy_rule_from_dict p =
     res_bind (reject_unknown_keys p
       [''id'', ''decision'', ''when'', ''reason'', ''safer_next_step'', ''enabled'']
       ''policy rule'') (\<lambda>_.
     res_bind (as_string (jget p ''id'') (ValueError ''policy rule requires string id'')) (\<lambda>rule_id.
     res_bind (as_string (jget p ''decision'')
       (ValueError ''policy rule requires string decision'')) (\<lambda>decision.
     res_bind (as_object (jget_default p ''when'' (JObj []))
       (ValueError ''policy rule when must be a JSON object'')) (\<lambda>condition.
     res_bind (as_string_option (jget p ''reason'')
       (ValueError ''policy rule reason must be a string or null'')) (\<lambda>reason.
     res_bind (as_string_option (jget p ''safer_next_step'')
       (ValueError ''policy rule safer_next_step must be a string or null'')) (\<lambda>safer.
     res_bind (as_bool (jget_default p ''enabled'' (JBool True))
       (ValueError ''policy rule enabled must be a boolean'')) (\<lambda>enabled.
     res_bind (validate_decision decision) (\<lambda>d.
     res_bind (condition_from_dict condition) (\<lambda>c.
     let r = \<lparr>ap_id = rule_id, ap_decision = d, ap_when = c, ap_reason = reason, ap_safer = safer,
       ap_enabled = enabled\<rparr>
     in res_bind (policy_rule_post_init r) (\<lambda>_. Inr r))))))))))"

definition policy_rule_as_dict :: "policy_rule \<Rightarrow> payload" where
  "policy_rule_as_dict r =
     [(''id'', JStr (ap_id r)), (''decision'', JStr (decision_text (ap_decision r))),
      (''when'', JObj (condition_as_dict (ap_when r)))] @
     text_field ''reason'' (ap_reason r) @ text_field ''safer_next_step'' (ap_safer r) @
     (if \<not> ap_enabled r then [(''enabled'', JBool False)] else [])"

record policy_set =
  ps_id :: string
  ps_version :: string
  ps_rules :: "policy_rule list"
  ps_schema :: string

definition policy_set_post_init :: "policy_set \<Rightarrow> unit res" where
  "policy_set_post_init s =
     (if ps_schema s \<noteq> policy_schema_version
      then Inl (ValueError ''unsupported policy schema'')
      else
      res_bind (policy_identifier (ps_id s) ''policy_id'' max_policy_id_length) (\<lambda>_.
      res_bind (policy_identifier (ps_version s) ''policy version'' max_policy_version_length) (\<lambda>_.
      if length (ps_rules s) > max_policy_rules
      then Inl (ValueError ''policy set must contain at most 256 rules'')
      else if duplicate_ids [] [] (map ap_id (ps_rules s)) \<noteq> []
      then Inl (ValueError ''duplicate policy rule ids'')
      else Inr ())))"

definition policy_set_from_dict :: "payload \<Rightarrow> policy_set res" where
  "policy_set_from_dict p =
     res_bind (reject_unknown_keys p [''schema_version'', ''policy_id'', ''version'', ''rules'']
       ''policy set'') (\<lambda>_.
     if jget p ''schema_version'' \<noteq> JStr policy_schema_version
     then Inl (ValueError ''unsupported policy schema'')
     else
     res_bind (as_string (jget p ''policy_id'')
       (ValueError ''policy set requires string policy_id'')) (\<lambda>policy_id.
     res_bind (as_string (jget p ''version'')
       (ValueError ''policy set requires string version'')) (\<lambda>version.
     res_bind (as_list (jget p ''rules'')
       (ValueError ''policy set rules must be an array'')) (\<lambda>rules_raw.
     if length rules_raw > max_policy_rules
     then Inl (ValueError ''policy set must contain at most 256 rules'')
     else
     res_bind (res_mapM (\<lambda>item. res_bind (as_object item
         (ValueError ''policy rules must be JSON objects'')) policy_rule_from_dict) rules_raw) (\<lambda>rules.
     let s = \<lparr>ps_id = policy_id, ps_version = version, ps_rules = rules,
       ps_schema = policy_schema_version\<rparr>
     in res_bind (policy_set_post_init s) (\<lambda>_. Inr s))))))"

definition policy_set_as_dict :: "policy_set \<Rightarrow> payload" where
  "policy_set_as_dict s =
     [(''schema_version'', JStr (ps_schema s)), (''policy_id'', JStr (ps_id s)),
      (''version'', JStr (ps_version s)),
      (''rules'', JArr (map (\<lambda>r. JObj (policy_rule_as_dict r)) (ps_rules s)))]"

definition policy_set_digest :: "host_env \<Rightarrow> policy_set \<Rightarrow> string" where
  "policy_set_digest h s = ascii_digest h (JObj (policy_set_as_dict s))"

section \<open>Matching\<close>

definition path_within_prefix :: "string \<Rightarrow> string \<Rightarrow> bool res" where
  "path_within_prefix v p =
     (if \<not> posix_isabs v \<or> \<not> posix_isabs p then Inr False
      else
      res_bind (posix_commonpath (posix_normpath v) (posix_normpath p)) (\<lambda>common.
      Inr (common = posix_normpath p)))"

text \<open>\<^verbatim>\<open>any(...)\<close> over a test that may raise: it stops at the first success.\<close>

fun res_any :: "('a \<Rightarrow> bool res) \<Rightarrow> 'a list \<Rightarrow> bool res" where
  "res_any f [] = Inr False"
| "res_any f (x # xs) = res_bind (f x) (\<lambda>b. if b then Inr True else res_any f xs)"

definition intent_matches :: "string \<Rightarrow> action_review \<Rightarrow> bool" where
  "intent_matches expected r =
     (let present = (case ae_intent (rv_action r) of None \<Rightarrow> False | Some s \<Rightarrow> py_strip s \<noteq> [])
      in if expected = ''present'' then present
         else if expected = ''absent'' then \<not> present
         else if \<not> present then False
         else rv_intent_alignment r = expected)"

definition missing_text :: "string option \<Rightarrow> bool" where
  "missing_text v = (case v of None \<Rightarrow> True | Some s \<Rightarrow> s = [])"

definition review_repo_scope :: "action_review \<Rightarrow> string" where
  "review_repo_scope r =
     (case ae_context (rv_action r) of
        None \<Rightarrow> ''unknown''
      | Some c \<Rightarrow>
          if missing_text (ec_cwd c) \<or> missing_text (ec_repo_root c) then ''unknown''
          else (case path_within_repo c (the (ec_cwd c)) of
              None \<Rightarrow> ''unknown''
            | Some inside \<Rightarrow> if inside then ''inside'' else ''outside''))"

definition context_agent :: "action_review \<Rightarrow> string option" where
  "context_agent r = (case ae_context (rv_action r) of None \<Rightarrow> None | Some c \<Rightarrow> ec_agent c)"

definition context_cwd :: "action_review \<Rightarrow> string option" where
  "context_cwd r = (case ae_context (rv_action r) of None \<Rightarrow> None | Some c \<Rightarrow> ec_cwd c)"

definition context_euid :: "action_review \<Rightarrow> int option" where
  "context_euid r = (case ae_context (rv_action r) of None \<Rightarrow> None | Some c \<Rightarrow> ec_euid c)"

definition condition_matches :: "policy_condition \<Rightarrow> action_review \<Rightarrow> bool res" where
  "condition_matches c r =
     (if pc_kinds c \<noteq> [] \<and> ae_kind (rv_action r) \<notin> set (pc_kinds c) then Inr False
      else if pc_operations c \<noteq> [] \<and> ae_operation (rv_action r) \<notin> set (pc_operations c) then Inr False
      else if pc_effects_any c \<noteq> [] \<and> set (rv_effects r) \<inter> set (pc_effects_any c) = {} then Inr False
      else if pc_effects_all c \<noteq> [] \<and> \<not> set (pc_effects_all c) \<subseteq> set (rv_effects r) then Inr False
      else if pc_resources c \<noteq> [] \<and>
        \<not> list_ex (\<lambda>m. list_ex (matcher_matches m) (rv_resources r)) (pc_resources c) then Inr False
      else if pc_risks c \<noteq> [] \<and> rv_risk r \<notin> set (pc_risks c) then Inr False
      else if pc_decisions c \<noteq> [] \<and> rv_decision r \<notin> set (pc_decisions c) then Inr False
      else if pc_agents c \<noteq> [] \<and>
        (case context_agent r of None \<Rightarrow> True | Some a \<Rightarrow> a \<notin> set (pc_agents c)) then Inr False
      else
      res_bind
        (if pc_cwd_prefixes c \<noteq> [] then
           (case context_cwd r of
              None \<Rightarrow> Inr False
            | Some cwd \<Rightarrow> res_any (path_within_prefix cwd) (pc_cwd_prefixes c))
         else Inr True) (\<lambda>in_prefix.
      if \<not> in_prefix then Inr False
      else if (case pc_repo_scope c of None \<Rightarrow> False | Some s \<Rightarrow> review_repo_scope r \<noteq> s) then Inr False
      else if (case pc_privileged c of None \<Rightarrow> False
          | Some b \<Rightarrow> (case context_euid r of None \<Rightarrow> True | Some u \<Rightarrow> (u = 0) \<noteq> b)) then Inr False
      else if (case pc_intent c of None \<Rightarrow> False | Some s \<Rightarrow> \<not> intent_matches s r) then Inr False
      else if pc_trajectory c \<noteq> [] \<and> set (rv_trajectory r) \<inter> set (pc_trajectory c) = {} then Inr False
      else Inr True))"

section \<open>Evaluation\<close>

record policy_match =
  am_rule_id :: string
  am_decision :: decision
  am_reason :: string
  am_safer :: "string option"

definition policy_match_as_dict :: "policy_match \<Rightarrow> payload" where
  "policy_match_as_dict m =
     [(''rule_id'', JStr (am_rule_id m)), (''decision'', JStr (decision_text (am_decision m))),
      (''reason'', JStr (am_reason m)), (''safer_next_step'', option_json (am_safer m))]"

definition match_from_rule :: "policy_rule \<Rightarrow> policy_match" where
  "match_from_rule r =
     \<lparr>am_rule_id = ap_id r, am_decision = ap_decision r,
      am_reason = text_or (ap_reason r) (''rule requires decision '' @ decision_text (ap_decision r)),
      am_safer = ap_safer r\<rparr>"

record policy_evaluation =
  pe_policy_id :: string
  pe_policy_version :: string
  pe_policy_digest :: string
  pe_matches :: "policy_match list"
  pe_decision :: "decision option"

definition policy_evaluation_as_dict :: "policy_evaluation \<Rightarrow> payload" where
  "policy_evaluation_as_dict e =
     [(''policy_id'', JStr (pe_policy_id e)), (''policy_version'', JStr (pe_policy_version e)),
      (''policy_digest'', JStr (pe_policy_digest e)),
      (''decision'', (case pe_decision e of None \<Rightarrow> JNull | Some d \<Rightarrow> JStr (decision_text d))),
      (''matches'', JArr (map (\<lambda>m. JObj (policy_match_as_dict m)) (pe_matches e)))]"

record compiled_policy =
  cs_policy :: policy_set
  cs_active :: "policy_rule list"

definition compile_action_policy :: "policy_set \<Rightarrow> compiled_policy" where
  "compile_action_policy s = \<lparr>cs_policy = s, cs_active = filter ap_enabled (ps_rules s)\<rparr>"

fun matching_rules :: "policy_rule list \<Rightarrow> action_review \<Rightarrow> policy_match list res" where
  "matching_rules [] r = Inr []"
| "matching_rules (x # xs) r =
     res_bind (condition_matches (ap_when x) r) (\<lambda>b.
     res_bind (matching_rules xs r) (\<lambda>ms. Inr (if b then match_from_rule x # ms else ms)))"

definition dominant_decision :: "decision option \<Rightarrow> policy_match \<Rightarrow> decision option" where
  "dominant_decision acc m =
     (case acc of
        None \<Rightarrow> Some (am_decision m)
      | Some d \<Rightarrow>
          if enforcement_order (am_decision m) > enforcement_order d then Some (am_decision m)
          else Some d)"

definition evaluate_action_policy ::
  "host_env \<Rightarrow> compiled_policy \<Rightarrow> action_review \<Rightarrow> policy_evaluation res" where
  "evaluate_action_policy h c r =
     res_bind (matching_rules (cs_active c) r) (\<lambda>ms.
     Inr \<lparr>pe_policy_id = ps_id (cs_policy c), pe_policy_version = ps_version (cs_policy c),
          pe_policy_digest = policy_set_digest h (cs_policy c), pe_matches = ms,
          pe_decision = foldl dominant_decision None ms\<rparr>)"

section \<open>Application\<close>

definition policy_metadata :: "policy_evaluation \<Rightarrow> payload" where
  "policy_metadata e =
     [(''policy_id'', JStr (pe_policy_id e)), (''policy_version'', JStr (pe_policy_version e)),
      (''policy_digest'', JStr (pe_policy_digest e))]"

definition review_policy_entry :: "policy_evaluation \<Rightarrow> payload" where
  "review_policy_entry e =
     [(''policy_id'', JStr (pe_policy_id e)), (''version'', JStr (pe_policy_version e)),
      (''digest'', JStr (pe_policy_digest e))]"

definition policy_match_record :: "policy_evaluation \<Rightarrow> policy_match \<Rightarrow> provenance_record" where
  "policy_match_record e m =
     (blank_record ''action_policy'' ''rule'' ''policy.match'')
       \<lparr>pr_summary := Some (am_reason m), pr_decision := Some (decision_text (am_decision m)),
        pr_rule_id := Some (am_rule_id m), pr_metadata := policy_metadata e\<rparr>"

definition policy_merge_record :: "policy_evaluation \<Rightarrow> action_review \<Rightarrow> decision \<Rightarrow> provenance_record" where
  "policy_merge_record e r d =
     (blank_record ''decision'' ''merge'' ''decision.policy-merge'')
       \<lparr>pr_decision := Some (decision_text d), pr_risk := Some (rv_risk r),
        pr_metadata := (''previous_decision'', JStr (decision_text (rv_decision r))) # policy_metadata e\<rparr>"

text \<open>\<^verbatim>\<open>f"policy {match.rule_id}: {match.reason}"\<close>.\<close>

definition match_reason_text :: "policy_match \<Rightarrow> string" where
  "match_reason_text m = ''policy '' @ am_rule_id m @ '': '' @ am_reason m"

definition merged_decision :: "policy_evaluation \<Rightarrow> action_review \<Rightarrow> decision" where
  "merged_decision e r =
     (case pe_decision e of
        None \<Rightarrow> rv_decision r
      | Some d \<Rightarrow> if enforcement_order d > enforcement_order (rv_decision r) then d else rv_decision r)"

definition merged_safer_step :: "policy_evaluation \<Rightarrow> action_review \<Rightarrow> string option" where
  "merged_safer_step e r =
     (if merged_decision e r \<noteq> rv_decision r \<and> pe_decision e \<noteq> None then
        (case filter (\<lambda>m. Some (am_decision m) = pe_decision e \<and> \<not> missing_text (am_safer m))
            (pe_matches e) of
           [] \<Rightarrow> rv_safer r
         | m # _ \<Rightarrow> am_safer m)
      else rv_safer r)"

definition apply_action_policy ::
  "host_env \<Rightarrow> compiled_policy \<Rightarrow> action_review \<Rightarrow> action_review res" where
  "apply_action_policy h c r =
     res_bind (evaluate_action_policy h c r) (\<lambda>e.
     if pe_matches e = [] then
       res_bind (case rv_provenance r of
           None \<Rightarrow> Inr None
         | Some p \<Rightarrow>
             res_bind (make_record ((blank_record ''action_policy'' ''finding'' ''policy.no-match'')
                 \<lparr>pr_metadata := policy_metadata e\<rparr>)) (\<lambda>x.
             res_bind (provenance_append p [x] None None) (\<lambda>q. Inr (Some q)))) (\<lambda>provenance.
       Inr (r\<lparr>rv_policy := Some (review_policy_entry e), rv_policy_matches := [],
              rv_provenance := provenance\<rparr>))
     else
       (let final_decision = merged_decision e r in
       res_bind (case rv_provenance r of
           None \<Rightarrow> Inr None
         | Some p \<Rightarrow>
             res_bind (res_mapM (\<lambda>m. make_record (policy_match_record e m)) (pe_matches e)) (\<lambda>xs.
             res_bind (make_record (policy_merge_record e r final_decision)) (\<lambda>x.
             res_bind (provenance_append p (xs @ [x]) (Some (decision_text final_decision))
               (Some (rv_risk r))) (\<lambda>q. Inr (Some q))))) (\<lambda>provenance.
       Inr (r\<lparr>rv_decision := final_decision,
              rv_reasons := rv_reasons r @ map match_reason_text (pe_matches e),
              rv_safer := merged_safer_step e r,
              rv_policy := Some (review_policy_entry e),
              rv_policy_matches := map policy_match_as_dict (pe_matches e),
              rv_provenance := provenance\<rparr>))))"

section \<open>Lemmas: loading\<close>

definition good_values :: "string list \<Rightarrow> bool" where
  "good_values xs = (distinct xs \<and> length xs \<le> max_match_values \<and>
     (\<forall>x \<in> set xs. x \<noteq> [] \<and> length x \<le> max_match_value_length))"

lemma policy_text_Inr [simp]: "policy_text v name m = Inr u \<longleftrightarrow> v \<noteq> [] \<and> length v \<le> m"
  by (auto simp: policy_text_def)

lemma policy_text_ok: "v \<noteq> [] \<Longrightarrow> length v \<le> m \<Longrightarrow> policy_text v name m = Inr ()"
  by simp

lemma match_values_Inr:
  assumes "match_values acc js = Inr xs" "distinct acc"
    "\<forall>x \<in> set acc. x \<noteq> [] \<and> length x \<le> max_match_value_length"
  shows "distinct xs \<and> length xs \<le> length acc + length js \<and>
    (\<forall>x \<in> set xs. x \<noteq> [] \<and> length x \<le> max_match_value_length)"
  using assms
proof (induction js arbitrary: acc)
  case (Cons j js)
  show ?case
  proof (cases j)
    case (JStr s)
    with Cons.prems(1) have s: "s \<noteq> []" "length s \<le> max_match_value_length"
        "match_values (if s \<in> set acc then acc else acc @ [s]) js = Inr xs"
      by simp_all
    let ?acc = "if s \<in> set acc then acc else acc @ [s]"
    have "distinct ?acc"
      using Cons.prems(2) by simp
    moreover have "\<forall>x \<in> set ?acc. x \<noteq> [] \<and> length x \<le> max_match_value_length"
      using Cons.prems(3) s(1,2) by simp
    moreover have "length ?acc + length js \<le> length acc + length (j # js)"
      by simp
    ultimately show ?thesis
      using Cons.IH [OF s(3)] by linarith
  qed (use Cons.prems(1) in simp_all)
qed simp

lemma match_values_same:
  assumes "distinct (acc @ xs)" "\<forall>x \<in> set xs. x \<noteq> [] \<and> length x \<le> max_match_value_length"
  shows "match_values acc (map JStr xs) = Inr (acc @ xs)"
  using assms by (induction xs arbitrary: acc) (auto simp: policy_text_ok)

lemma policy_string_list_good: "policy_string_list p k = Inr xs \<Longrightarrow> good_values xs"
  by (fastforce simp: policy_string_list_def good_values_def dest: match_values_Inr
      split: if_splits)

lemma policy_string_list_field:
  assumes "good_values v"
    "jget_default p k (JArr []) = string_list_json v"
  shows "policy_string_list p k = Inr v"
  using assms match_values_same [of "[]" v]
  by (simp add: policy_string_list_def string_list_json_def good_values_def)

lemma field_readers:
  "jget ((if b then [(k, j)] else []) @ p) k' = (if k' = k \<and> b then j else jget p k')"
  "jget_default ((if b then [(k, j)] else []) @ p) k' d =
     (if k' = k \<and> b then j else jget_default p k' d)"
  "jget ((case w of None \<Rightarrow> [] | Some x \<Rightarrow> [(k, JBool x)]) @ p) k' =
     (if k' = k \<and> w \<noteq> None then JBool (the w) else jget p k')"
  "jget_default ((case w of None \<Rightarrow> [] | Some x \<Rightarrow> [(k, JBool x)]) @ p) k' d =
     (if k' = k \<and> w \<noteq> None then JBool (the w) else jget_default p k' d)"
  "jget_default (list_field k v @ p) k' d =
     (if k' = k \<and> v \<noteq> [] then string_list_json v else jget_default p k' d)"
  "jget (list_field k v @ p) k' = (if k' = k \<and> v \<noteq> [] then string_list_json v else jget p k')"
  "jget (text_field k t @ p) k' = (if k' = k \<and> t \<noteq> None then JStr (the t) else jget p k')"
  "jget_default (text_field k t @ p) k' d =
     (if k' = k \<and> t \<noteq> None then JStr (the t) else jget_default p k' d)"
  "jget (text_field k t) k' = (if k' = k \<and> t \<noteq> None then JStr (the t) else JNull)"
  "jget_default (text_field k t) k' d = (if k' = k \<and> t \<noteq> None then JStr (the t) else d)"
  by (simp_all add: list_field_def text_field_def split: option.split)

lemma unknown_keys_fields:
  "unknown_keys (p @ q) ks = unknown_keys p ks @ unknown_keys q ks"
  "k \<in> set ks \<Longrightarrow> unknown_keys (list_field k v) ks = []"
  "k \<in> set ks \<Longrightarrow> unknown_keys (text_field k t) ks = []"
  by (auto simp: unknown_keys_def list_field_def text_field_def split: option.split)

lemma matcher_roundtrip:
  assumes "make_matcher m = Inr m"
  shows "matcher_from_dict (matcher_as_dict m) = Inr m"
  using assms
  by (cases m; cases "pm_value m") (auto simp: matcher_from_dict_def matcher_as_dict_def
      reject_unknown_keys_def unknown_keys_def)

lemma make_matcher_same: "make_matcher m = Inr m' \<Longrightarrow> m' = m"
  by (auto simp: make_matcher_def split: if_splits)

lemma matcher_from_dict_ok: "matcher_from_dict p = Inr m \<Longrightarrow> make_matcher m = Inr m"
  unfolding matcher_from_dict_def by (auto dest: make_matcher_same)

lemma choice_option_field:
  assumes "case v of None \<Rightarrow> True | Some s \<Rightarrow> s \<in> set options"
  shows "choice_option (if v \<noteq> None then JStr (the v) else JNull) options e = Inr v"
  using assms by (cases v) (simp_all add: choice_option_def)

definition condition_ok :: "policy_condition \<Rightarrow> bool" where
  "condition_ok c = (condition_post_init c = Inr () \<and>
     list_all (\<lambda>m. make_matcher m = Inr m) (pc_resources c) \<and>
     good_values (pc_kinds c) \<and> good_values (pc_operations c) \<and> good_values (pc_effects_any c) \<and>
     good_values (pc_effects_all c) \<and> good_values (pc_risks c) \<and>
     good_values (map decision_text (pc_decisions c)) \<and> good_values (pc_agents c) \<and>
     good_values (pc_cwd_prefixes c) \<and> good_values (pc_trajectory c))"

lemma post_init_choices:
  assumes "condition_post_init c = Inr ()"
  shows "case pc_repo_scope c of None \<Rightarrow> True | Some s \<Rightarrow> s \<in> set repo_scopes"
    and "case pc_intent c of None \<Rightarrow> True | Some s \<Rightarrow> s \<in> set intent_states"
    and "\<not> list_ex (\<lambda>k. k \<notin> set valid_risks) (pc_risks c)"
    and "length (pc_resources c) \<le> max_match_values"
  using assms by (auto simp: condition_post_init_def simp del: res_mapM.simps split: if_splits)

lemma condition_reads:
  fixes c :: policy_condition
  defines "p \<equiv> condition_as_dict c"
  shows "jget_default p ''kinds'' (JArr []) = string_list_json (pc_kinds c)"
    "jget_default p ''operations'' (JArr []) = string_list_json (pc_operations c)"
    "jget_default p ''effects_any'' (JArr []) = string_list_json (pc_effects_any c)"
    "jget_default p ''effects_all'' (JArr []) = string_list_json (pc_effects_all c)"
    "jget_default p ''risks'' (JArr []) = string_list_json (pc_risks c)"
    "jget_default p ''decisions'' (JArr []) = string_list_json (map decision_text (pc_decisions c))"
    "jget_default p ''agents'' (JArr []) = string_list_json (pc_agents c)"
    "jget_default p ''cwd_prefixes'' (JArr []) = string_list_json (pc_cwd_prefixes c)"
    "jget_default p ''trajectory_any'' (JArr []) = string_list_json (pc_trajectory c)"
    "jget_default p ''resources_any'' (JArr []) =
       JArr (map (\<lambda>m. JObj (matcher_as_dict m)) (pc_resources c))"
    "jget p ''repo_scope'' = (if pc_repo_scope c \<noteq> None then JStr (the (pc_repo_scope c)) else JNull)"
    "jget p ''privileged'' = bool_option_json (pc_privileged c)"
    "jget p ''intent'' = (if pc_intent c \<noteq> None then JStr (the (pc_intent c)) else JNull)"
  unfolding p_def condition_as_dict_def append_assoc
  by (simp_all add: field_readers string_list_json_def bool_option_json_def
      del: jget_append jget_default_append split: option.split)

end

