(* ===== verification/Policy_Application.thy ===== *)
theory Policy_Application
  imports Action_Policy
begin

text \<open>
  The facts of \<^verbatim>\<open>ordin/action_policy.py\<close>: round trips of its loaders, the declarative reading of
  conditions, and what evaluating a policy set and applying it to a review guarantee.
\<close>

section \<open>Lemmas: round trips\<close>

lemma unknown_keys_Cons:
  "unknown_keys ((k, v) # p) ks = (if k \<in> set ks then unknown_keys p ks else k # unknown_keys p ks)"
  "unknown_keys [] ks = []"
  by (simp_all add: unknown_keys_def)

lemma condition_unknown:
  "unknown_keys (condition_as_dict c)
     [''kinds'', ''operations'', ''effects_any'', ''effects_all'', ''resources_any'', ''risks'',
      ''decisions'', ''agents'', ''cwd_prefixes'', ''repo_scope'', ''privileged'', ''intent'',
      ''trajectory_any''] = []"
  unfolding condition_as_dict_def unknown_keys_fields(1)
  by (cases "pc_privileged c") (simp_all add: unknown_keys_fields(2,3) unknown_keys_Cons)

lemma condition_roundtrip:
  assumes "condition_ok c"
  shows "condition_from_dict (condition_as_dict c) = Inr c"
proof -
  let ?p = "condition_as_dict c"
  note ok = assms [unfolded condition_ok_def]
  have post: "condition_post_init c = Inr ()" using ok by blast
  have lists: "policy_string_list ?p ''kinds'' = Inr (pc_kinds c)"
      "policy_string_list ?p ''operations'' = Inr (pc_operations c)"
      "policy_string_list ?p ''effects_any'' = Inr (pc_effects_any c)"
      "policy_string_list ?p ''effects_all'' = Inr (pc_effects_all c)"
      "policy_string_list ?p ''risks'' = Inr (pc_risks c)"
      "policy_string_list ?p ''decisions'' = Inr (map decision_text (pc_decisions c))"
      "policy_string_list ?p ''agents'' = Inr (pc_agents c)"
      "policy_string_list ?p ''cwd_prefixes'' = Inr (pc_cwd_prefixes c)"
      "policy_string_list ?p ''trajectory_any'' = Inr (pc_trajectory c)"
    using ok by (intro policy_string_list_field condition_reads; blast)+
  have decisions: "res_mapM validate_decision (map decision_text (pc_decisions c)) = Inr (pc_decisions c)"
    by (rule res_mapM_map_id) simp
  have resources: "res_mapM (\<lambda>item. res_bind (as_object item
         (ValueError ''policy resource matchers must be JSON objects'')) matcher_from_dict)
       (map (\<lambda>m. JObj (matcher_as_dict m)) (pc_resources c)) = Inr (pc_resources c)"
    using ok by (intro res_mapM_map_id) (simp add: list_all_iff matcher_roundtrip)
  have privileged: "as_bool_option (jget ?p ''privileged'') e = Inr (pc_privileged c)" for e
    by (simp add: condition_reads)
  have scope: "choice_option (jget ?p ''repo_scope'') repo_scopes e = Inr (pc_repo_scope c)" for e
    unfolding condition_reads by (rule choice_option_field) (rule post_init_choices(1) [OF post])
  have intent: "choice_option (jget ?p ''intent'') intent_states e = Inr (pc_intent c)" for e
    unfolding condition_reads by (rule choice_option_field) (rule post_init_choices(2) [OF post])
  have "\<not> length (map (\<lambda>m. JObj (matcher_as_dict m)) (pc_resources c)) > max_match_values"
    using post_init_choices(4) [OF post] by simp
  then show ?thesis
    unfolding condition_from_dict_def Let_def reject_unknown_keys_def condition_unknown lists
      res_bind.simps decisions condition_reads(10) as_readers_apply resources scope privileged intent
    using post post_init_choices(3) [OF post]
    by (simp only: resources res_bind.simps if_False refl simp_thms ensure_True)
      (cases c, simp)
qed

lemma res_mapM_results:
  "res_mapM f xs = Inr ys \<Longrightarrow> y \<in> set ys \<Longrightarrow> (\<And>x y. f x = Inr y \<Longrightarrow> P y) \<Longrightarrow> P y"
  by (induction xs arbitrary: ys) auto

lemma res_mapM_decisions: "res_mapM validate_decision ts = Inr ds \<Longrightarrow> map decision_text ds = ts"
  by (induction ts arbitrary: ds) (auto simp: validate_decision_Inr)

lemma condition_from_dict_ok:
  assumes "condition_from_dict p = Inr c"
  shows "condition_ok c"
proof -
  from assms obtain ts where c: "condition_post_init c = Inr ()"
      "policy_string_list p ''kinds'' = Inr (pc_kinds c)"
      "policy_string_list p ''operations'' = Inr (pc_operations c)"
      "policy_string_list p ''effects_any'' = Inr (pc_effects_any c)"
      "policy_string_list p ''effects_all'' = Inr (pc_effects_all c)"
      "policy_string_list p ''risks'' = Inr (pc_risks c)"
      "policy_string_list p ''decisions'' = Inr ts" "res_mapM validate_decision ts = Inr (pc_decisions c)"
      "policy_string_list p ''agents'' = Inr (pc_agents c)"
      "policy_string_list p ''cwd_prefixes'' = Inr (pc_cwd_prefixes c)"
      "policy_string_list p ''trajectory_any'' = Inr (pc_trajectory c)"
      "\<exists>raw. res_mapM (\<lambda>item. res_bind (as_object item
         (ValueError ''policy resource matchers must be JSON objects'')) matcher_from_dict) raw =
       Inr (pc_resources c)"
    unfolding condition_from_dict_def Let_def res_bind_Inr_iff if_Inl_Inr_iff ex_unit_iff
    apply -
    apply (elim exE conjE)
    apply (drule sum.inject(2) [THEN iffD1])
    apply (drule sym [of _ c])
    apply (rule that; (assumption | (simp only: policy_condition.select_convs, rule exI, assumption)
      | simp only: policy_condition.select_convs))
    done
  have "make_matcher m = Inr m" if "m \<in> set (pc_resources c)" for m
  proof -
    from c(12) show ?thesis
      using that by (auto elim!: res_mapM_results dest: matcher_from_dict_ok)
  qed
  with c show ?thesis
    using res_mapM_decisions [OF c(8)] by (auto simp: condition_ok_def list_all_iff
        intro: policy_string_list_good)
qed

definition policy_rule_ok :: "policy_rule \<Rightarrow> bool" where
  "policy_rule_ok r = (policy_rule_post_init r = Inr () \<and> condition_ok (ap_when r))"

definition policy_set_ok :: "policy_set \<Rightarrow> bool" where
  "policy_set_ok s = (policy_set_post_init s = Inr () \<and> list_all policy_rule_ok (ps_rules s))"

lemma policy_rule_roundtrip:
  assumes "policy_rule_ok r"
  shows "policy_rule_from_dict (policy_rule_as_dict r) = Inr r"
proof -
  let ?p = "policy_rule_as_dict r"
  have reads: "jget ?p ''id'' = JStr (ap_id r)" "jget ?p ''decision'' = JStr (decision_text (ap_decision r))"
      "jget_default ?p ''when'' (JObj []) = JObj (condition_as_dict (ap_when r))"
      "jget ?p ''reason'' = option_json (ap_reason r)"
      "jget ?p ''safer_next_step'' = option_json (ap_safer r)"
      "jget_default ?p ''enabled'' (JBool True) = JBool (ap_enabled r)"
    unfolding policy_rule_as_dict_def
    by (simp_all add: field_readers option_json_def del: jget_append jget_default_append
        split: option.split)
  have "unknown_keys ?p [''id'', ''decision'', ''when'', ''reason'', ''safer_next_step'', ''enabled''] = []"
    unfolding policy_rule_as_dict_def unknown_keys_fields(1)
    by (simp add: unknown_keys_fields(2,3) unknown_keys_Cons)
  then show ?thesis
    using assms unfolding policy_rule_from_dict_def reads reject_unknown_keys_def Let_def
    by (cases r) (simp add: condition_roundtrip policy_rule_ok_def)
qed

lemma policy_rule_from_dict_ok:
  assumes "policy_rule_from_dict p = Inr r"
  shows "policy_rule_ok r"
  using assms unfolding policy_rule_from_dict_def Let_def
  by (auto simp: policy_rule_ok_def dest: condition_from_dict_ok)

lemma policy_set_roundtrip:
  assumes "policy_set_ok s"
  shows "policy_set_from_dict (policy_set_as_dict s) = Inr s"
proof -
  have "res_mapM (\<lambda>item. res_bind (as_object item
         (ValueError ''policy rules must be JSON objects'')) policy_rule_from_dict)
      (map (\<lambda>r. JObj (policy_rule_as_dict r)) (ps_rules s)) = Inr (ps_rules s)"
    using assms by (intro res_mapM_map_id)
      (simp add: policy_set_ok_def list_all_iff policy_rule_roundtrip)
  moreover have "ps_schema s = policy_schema_version" "length (ps_rules s) \<le> max_policy_rules"
    using assms by (auto simp: policy_set_ok_def policy_set_post_init_def split: if_splits)
  ultimately show ?thesis
    using assms
    by (cases s) (simp add: policy_set_from_dict_def policy_set_as_dict_def reject_unknown_keys_def
        unknown_keys_Cons policy_set_ok_def)
qed

lemma policy_set_from_dict_ok:
  assumes "policy_set_from_dict p = Inr s"
  shows "policy_set_ok s"
proof -
  from assms obtain raw where s: "policy_set_post_init s = Inr ()"
      "res_mapM (\<lambda>item. res_bind (as_object item
         (ValueError ''policy rules must be JSON objects'')) policy_rule_from_dict) raw = Inr (ps_rules s)"
    unfolding policy_set_from_dict_def Let_def res_bind_Inr_iff if_Inl_Inr_iff ex_unit_iff
    apply -
    apply (elim exE conjE)
    apply (drule sum.inject(2) [THEN iffD1])
    apply (drule sym [of _ s])
    apply (rule that)
     apply (simp only: policy_set.select_convs)
    apply (simp only: policy_set.select_convs)
    done
  have "policy_rule_ok r" if "r \<in> set (ps_rules s)" for r
  proof -
    from s(2) show ?thesis
      using that by (auto elim!: res_mapM_results dest: policy_rule_from_dict_ok)
  qed
  with s show ?thesis
    by (simp add: policy_set_ok_def list_all_iff)
qed

section \<open>Lemmas: matching\<close>

text \<open>
  What a condition asks of a review, as a plain conjunction: an empty selector asks nothing, and a
  path prefix is compared by the components the two paths resolve to.
\<close>

definition path_below :: "string \<Rightarrow> string \<Rightarrow> bool" where
  "path_below v p = (posix_isabs v \<and> posix_isabs p \<and> leading_slashes p = 1 \<and>
     prefix (resolved_path p) (resolved_path v))"

definition condition_holds :: "policy_condition \<Rightarrow> action_review \<Rightarrow> bool" where
  "condition_holds c r =
     ((pc_kinds c = [] \<or> ae_kind (rv_action r) \<in> set (pc_kinds c)) \<and>
      (pc_operations c = [] \<or> ae_operation (rv_action r) \<in> set (pc_operations c)) \<and>
      (pc_effects_any c = [] \<or> (\<exists>e \<in> set (rv_effects r). e \<in> set (pc_effects_any c))) \<and>
      set (pc_effects_all c) \<subseteq> set (rv_effects r) \<and>
      (pc_resources c = [] \<or>
        (\<exists>m \<in> set (pc_resources c). \<exists>x \<in> set (rv_resources r). matcher_matches m x)) \<and>
      (pc_risks c = [] \<or> rv_risk r \<in> set (pc_risks c)) \<and>
      (pc_decisions c = [] \<or> rv_decision r \<in> set (pc_decisions c)) \<and>
      (pc_agents c = [] \<or> (\<exists>a. context_agent r = Some a \<and> a \<in> set (pc_agents c))) \<and>
      (pc_cwd_prefixes c = [] \<or>
        (\<exists>cwd. context_cwd r = Some cwd \<and> (\<exists>p \<in> set (pc_cwd_prefixes c). path_below cwd p))) \<and>
      (pc_repo_scope c = None \<or> pc_repo_scope c = Some (review_repo_scope r)) \<and>
      (\<forall>b. pc_privileged c = Some b \<longrightarrow> (\<exists>u. context_euid r = Some u \<and> (u = 0) = b)) \<and>
      (\<forall>s. pc_intent c = Some s \<longrightarrow> intent_matches s r) \<and>
      (pc_trajectory c = [] \<or> (\<exists>t \<in> set (rv_trajectory r). t \<in> set (pc_trajectory c))))"

lemma path_within_prefix_eq: "path_within_prefix v p = Inr (path_below v p)"
  using commonpath_within [of v p] by (auto simp: path_within_prefix_def path_below_def)

lemma res_any_total: "(\<And>x. f x = Inr (g x)) \<Longrightarrow> res_any f xs = Inr (\<exists>x \<in> set xs. g x)"
  by (induction xs) auto

lemma prefixes_eq:
  "(if ps \<noteq> [] then
      (case cwd of None \<Rightarrow> Inr False | Some v \<Rightarrow> res_any (path_within_prefix v) ps)
    else Inr True) =
   (Inr (ps = [] \<or> (\<exists>v. cwd = Some v \<and> (\<exists>p \<in> set ps. path_below v p))) :: bool res)"
  by (cases cwd) (simp_all add: res_any_total path_within_prefix_eq)

lemma if_else_chain: "(if b then Inr False else Inr x) = (Inr (\<not> b \<and> x) :: bool res)"
  by simp

lemma condition_matches_eq: "condition_matches c r = Inr (condition_holds c r)"
proof -
  have not_in: "\<not> (case v of None \<Rightarrow> True | Some a \<Rightarrow> a \<notin> A) \<longleftrightarrow> (\<exists>a. v = Some a \<and> a \<in> A)"
    for v :: "string option" and A
    by (cases v) auto
  have scope: "\<not> (case v of None \<Rightarrow> False | Some s \<Rightarrow> k \<noteq> s) \<longleftrightarrow> v = None \<or> v = Some k"
    for v and k :: string
    by (cases v) auto
  have privileged: "\<not> (case v of None \<Rightarrow> False
      | Some b \<Rightarrow> (case w of None \<Rightarrow> True | Some u \<Rightarrow> (u = 0) \<noteq> b)) \<longleftrightarrow>
      (\<forall>b. v = Some b \<longrightarrow> (\<exists>u. w = Some u \<and> (u = 0) = b))" for v and w :: "int option"
    by (cases v; cases w) auto
  have intent: "\<not> (case v of None \<Rightarrow> False | Some s \<Rightarrow> \<not> intent_matches s r) \<longleftrightarrow>
      (\<forall>s. v = Some s \<longrightarrow> intent_matches s r)" for v
    by (cases v) auto
  have meets: "\<not> (xs \<noteq> [] \<and> A \<inter> set xs = {}) \<longleftrightarrow> xs = [] \<or> (\<exists>e \<in> A. e \<in> set xs)"
    for A :: "string set" and xs
    by blast
  have subset: "\<not> (xs \<noteq> [] \<and> \<not> set xs \<subseteq> A) \<longleftrightarrow> set xs \<subseteq> A" for A :: "string set" and xs
    by auto
  have member: "\<not> (xs \<noteq> [] \<and> x \<notin> set xs) \<longleftrightarrow> xs = [] \<or> x \<in> set xs" for x :: 'a and xs
    by blast
  have guarded: "\<not> (xs \<noteq> [] \<and> b) \<longleftrightarrow> xs = [] \<or> \<not> b" for xs :: "'b list" and b
    by blast
  show ?thesis
    unfolding condition_matches_def prefixes_eq res_bind.simps if_else_chain
    unfolding condition_holds_def member meets subset
    unfolding guarded not_in scope privileged intent not_not list_ex_iff
    by (simp only: simp_thms)
qed

lemma matching_rules_eq:
  "matching_rules xs r = Inr (map match_from_rule (filter (\<lambda>x. condition_holds (ap_when x) r) xs))"
  by (induction xs) (simp_all add: condition_matches_eq)

definition policy_matches :: "policy_set \<Rightarrow> action_review \<Rightarrow> policy_match list" where
  "policy_matches s r =
     map match_from_rule (filter (\<lambda>x. ap_enabled x \<and> condition_holds (ap_when x) r) (ps_rules s))"

lemma dominant_fold:
  "foldl dominant_decision (Some d) ms = Some (foldl stricter_decision d (map am_decision ms))"
  by (induction ms arbitrary: d) (simp_all add: dominant_decision_def stricter_decision_def)

lemma dominant_None: "dominant_decision None m = Some (am_decision m)"
  by (simp add: dominant_decision_def)

lemma dominant_cases:
  "foldl dominant_decision None ms =
     (case ms of [] \<Rightarrow> None | m # ms \<Rightarrow> Some (foldl stricter_decision (am_decision m) (map am_decision ms)))"
  by (cases ms) (simp_all add: dominant_decision_def dominant_fold)

lemma evaluate_eq:
  "evaluate_action_policy h (compile_action_policy s) r =
     Inr \<lparr>pe_policy_id = ps_id s, pe_policy_version = ps_version s,
       pe_policy_digest = policy_set_digest h s, pe_matches = policy_matches s r,
       pe_decision = foldl dominant_decision None (policy_matches s r)\<rparr>"
  by (simp add: evaluate_action_policy_def compile_action_policy_def matching_rules_eq
      policy_matches_def conj_commute)

section \<open>Lemmas: application\<close>

lemma stricter_fold: "stricter_decision d (foldl stricter_decision x xs) =
    foldl stricter_decision (stricter_decision d x) xs"
  by (induction xs arbitrary: x) (simp_all add: enforcement_choice.pick_assoc)

definition applied_decision :: "policy_set \<Rightarrow> action_review \<Rightarrow> decision" where
  "applied_decision s r =
     foldl stricter_decision (rv_decision r) (map am_decision (policy_matches s r))"

definition policy_outcome :: "host_env \<Rightarrow> policy_set \<Rightarrow> action_review \<Rightarrow> policy_evaluation" where
  "policy_outcome h s r =
     \<lparr>pe_policy_id = ps_id s, pe_policy_version = ps_version s,
      pe_policy_digest = policy_set_digest h s, pe_matches = policy_matches s r,
      pe_decision = foldl dominant_decision None (policy_matches s r)\<rparr>"

lemma policy_outcome_matches [simp]: "pe_matches (policy_outcome h s r) = policy_matches s r"
  by (simp add: policy_outcome_def)

lemma merged_decision_eq: "merged_decision (policy_outcome h s r) r = applied_decision s r"
proof (cases "policy_matches s r")
  case (Cons m ms)
  let ?d = "foldl stricter_decision (am_decision m) (map am_decision ms)"
  have "merged_decision (policy_outcome h s r) r = stricter_decision (rv_decision r) ?d"
    using Cons by (simp add: merged_decision_def policy_outcome_def dominant_None dominant_fold
        stricter_decision_def)
  also have "\<dots> = applied_decision s r"
    unfolding stricter_fold using Cons by (simp add: applied_decision_def)
  finally show ?thesis .
qed (simp add: merged_decision_def policy_outcome_def applied_decision_def)

text \<open>The records an application adds to the provenance.\<close>

definition no_match_record :: "policy_evaluation \<Rightarrow> provenance_record" where
  "no_match_record e = (blank_record ''action_policy'' ''finding'' ''policy.no-match'')
     \<lparr>pr_metadata := policy_metadata e\<rparr>"

definition added_records :: "host_env \<Rightarrow> policy_set \<Rightarrow> action_review \<Rightarrow> provenance_record list" where
  "added_records h s r =
     (let e = policy_outcome h s r in
      if policy_matches s r = [] then [no_match_record e]
      else map (policy_match_record e) (policy_matches s r) @ [policy_merge_record e r (applied_decision s r)])"

lemma evaluate_outcome:
  "evaluate_action_policy h (compile_action_policy s) r = Inr (policy_outcome h s r)"
  by (simp add: evaluate_eq policy_outcome_def)

lemma res_mapM_make: "res_mapM (\<lambda>m. make_record (f m)) ms = Inr xs \<longleftrightarrow>
    (\<forall>m \<in> set ms. provenance_record_post_init (f m) = Inr ()) \<and> xs = map f ms"
  by (induction ms arbitrary: xs) auto

text \<open>The provenance step of an application, on a review that carries one.\<close>

definition applied_provenance :: "host_env \<Rightarrow> policy_set \<Rightarrow> action_review \<Rightarrow> decision_provenance \<Rightarrow> decision_provenance res" where
  "applied_provenance h s r p =
     (if policy_matches s r = [] then provenance_append p (added_records h s r) None None
      else provenance_append p (added_records h s r) (Some (decision_text (applied_decision s r)))
        (Some (rv_risk r)))"

definition records_valid :: "host_env \<Rightarrow> policy_set \<Rightarrow> action_review \<Rightarrow> bool" where
  "records_valid h s r = (\<forall>x \<in> set (added_records h s r). provenance_record_post_init x = Inr ())"

definition applied_review ::
  "host_env \<Rightarrow> policy_set \<Rightarrow> action_review \<Rightarrow> decision_provenance option \<Rightarrow> action_review" where
  "applied_review h s r q =
     (let e = policy_outcome h s r in
      if policy_matches s r = []
      then r\<lparr>rv_policy := Some (review_policy_entry e), rv_policy_matches := [], rv_provenance := q\<rparr>
      else r\<lparr>rv_decision := applied_decision s r,
             rv_reasons := rv_reasons r @ map match_reason_text (policy_matches s r),
             rv_safer := merged_safer_step e r,
             rv_policy := Some (review_policy_entry e),
             rv_policy_matches := map policy_match_as_dict (policy_matches s r),
             rv_provenance := q\<rparr>)"

lemma apply_Inr_iff:
  "apply_action_policy h (compile_action_policy s) r = Inr r' \<longleftrightarrow>
     (case rv_provenance r of
        None \<Rightarrow> r' = applied_review h s r None
      | Some p \<Rightarrow> records_valid h s r \<and>
          (\<exists>q. applied_provenance h s r p = Inr q \<and> r' = applied_review h s r (Some q)))"
proof (cases "policy_matches s r = []")
  case True
  then show ?thesis
    by (cases "rv_provenance r") (auto simp: apply_action_policy_def evaluate_outcome
        applied_review_def applied_provenance_def added_records_def records_valid_def
        no_match_record_def Let_def)
next
  case False
  then show ?thesis
    by (cases "rv_provenance r") (auto simp: apply_action_policy_def evaluate_outcome
        applied_review_def applied_provenance_def added_records_def records_valid_def
        merged_decision_eq res_mapM_make Let_def)
qed

lemma applied_decision_upper:
  "enforcement_order (rv_decision r) \<le> enforcement_order (applied_decision s r)"
  "m \<in> set (policy_matches s r) \<Longrightarrow> enforcement_order (am_decision m) \<le> enforcement_order (applied_decision s r)"
  by (auto simp: applied_decision_def intro: enforcement_choice.fold_upper)

lemma applied_decision_Max:
  "applied_decision s r = Max (insert (rv_decision r) (am_decision ` set (policy_matches s r)))"
  by (simp add: applied_decision_def merge_is_Max)

lemma applied_review_fields:
  "rv_decision (applied_review h s r q) = applied_decision s r"
  "rv_reasons (applied_review h s r q) = rv_reasons r @ map match_reason_text (policy_matches s r)"
  "rv_action (applied_review h s r q) = rv_action r" "rv_risk (applied_review h s r q) = rv_risk r"
  "rv_effects (applied_review h s r q) = rv_effects r"
  "rv_resources (applied_review h s r q) = rv_resources r"
  "rv_capabilities (applied_review h s r q) = rv_capabilities r"
  "rv_provenance (applied_review h s r q) = q"
  by (simp_all add: applied_review_def Let_def applied_decision_def)

lemma append_prefix: "provenance_append p rs d k = Inr q \<Longrightarrow> dp_records q = dp_records p @ rs"
  by (auto simp: provenance_append_def make_provenance_Inr)

section \<open>A sample policy and review\<close>

definition sample_action_policy :: payload where
  "sample_action_policy =
     [(''schema_version'', JStr ''ordin.policy_set.v1''), (''policy_id'', JStr ''repo''),
      (''version'', JStr ''1''),
      (''rules'', JArr [JObj [(''id'', JStr ''no-upload''), (''decision'', JStr ''block''),
         (''when'', JObj [(''effects_any'', JArr [JStr ''network.upload''])])]])]"

definition upload_condition :: policy_condition where
  "upload_condition = \<lparr>pc_kinds = [], pc_operations = [], pc_effects_any = [''network.upload''],
     pc_effects_all = [], pc_resources = [], pc_risks = [], pc_decisions = [], pc_agents = [],
     pc_cwd_prefixes = [], pc_repo_scope = None, pc_privileged = None, pc_intent = None,
     pc_trajectory = []\<rparr>"

definition sample_policy_value :: policy_set where
  "sample_policy_value = \<lparr>ps_id = ''repo'', ps_version = ''1'',
     ps_rules = [\<lparr>ap_id = ''no-upload'', ap_decision = Block, ap_when = upload_condition,
       ap_reason = None, ap_safer = None, ap_enabled = True\<rparr>],
     ps_schema = ''ordin.policy_set.v1''\<rparr>"

definition sample_action_review :: action_review where
  "sample_action_review =
     \<lparr>rv_action = \<lparr>ae_kind = ''network'', ae_operation = ''http.request'', ae_parameters = [],
        ae_intent = None, ae_context = None, ae_action_id = None\<rparr>,
      rv_decision = Warn, rv_risk = ''medium'', rv_reasons = [''writes data''], rv_safer = None,
      rv_effects = [''network.upload''], rv_resources = [], rv_adapter = None,
      rv_capabilities = None, rv_provenance = Some sample_provenance,
      rv_intent_alignment = ''not_applicable'', rv_trajectory = [], rv_policy = None,
      rv_policy_matches = []\<rparr>"

lemma upload_condition_loads:
  "condition_from_dict [(''effects_any'', JArr [JStr ''network.upload''])] = Inr upload_condition"
  by (simp add: condition_from_dict_def reject_unknown_keys_def unknown_keys_Cons
      policy_string_list_def choice_option_def as_bool_option_def Let_def upload_condition_def
      condition_post_init_def string_list_json_def policy_bounds policy_text_ok
      del: policy_text_Inr)

lemma sample_action_policy_loads: "policy_set_from_dict sample_action_policy = Inr sample_policy_value"
proof -
  have ids: "policy_id_match ''no-upload''" "policy_id_match ''repo''" "policy_id_match ''1''"
    by (simp_all add: policy_id_match_def policy_id_head_def cp_def)
  have block: "validate_decision ''block'' = Inr Block"
    using validate_decision_text [of Block] by simp
  have rule: "policy_rule_from_dict [(''id'', JStr ''no-upload''), (''decision'', JStr ''block''),
         (''when'', JObj [(''effects_any'', JArr [JStr ''network.upload''])])] =
      Inr (hd (ps_rules sample_policy_value))"
    by (simp add: policy_rule_from_dict_def reject_unknown_keys_def unknown_keys_Cons block
        upload_condition_loads Let_def policy_rule_post_init_def policy_identifier_def ids
        policy_text_ok policy_bounds optional_policy_text_def sample_policy_value_def
        del: policy_text_Inr)
  show ?thesis
    by (simp add: policy_set_from_dict_def sample_action_policy_def reject_unknown_keys_def
        unknown_keys_Cons rule Let_def policy_set_post_init_def policy_identifier_def ids
        policy_text_ok policy_bounds sample_policy_value_def del: policy_text_Inr)
qed

lemma sample_policy_matches:
  "policy_matches sample_policy_value sample_action_review =
     [match_from_rule (hd (ps_rules sample_policy_value))]"
  by (simp add: policy_matches_def sample_policy_value_def sample_action_review_def
      condition_holds_def upload_condition_def)

definition short_env :: host_env where
  "short_env = \<lparr>float_repr = (\<lambda>_. []), sha256 = (\<lambda>_. ''ab'')\<rparr>"

section \<open>Properties\<close>

text \<open>C12: The evaluation of a policy set matches exactly the enabled rules whose condition holds of the
  review, in the order of the set and whatever the order the conditions are tested in, and its
  decision is the strictest one among the matched rules (none if nothing matched). In a condition an
  empty selector asks nothing, and a working directory is below a prefix by resolved components.\<close>

theorem policy_evaluation_exact:
  "\<exists>e. evaluate_action_policy h (compile_action_policy s) r = Inr e \<and>
    pe_matches e = map match_from_rule
      (filter (\<lambda>x. ap_enabled x \<and> condition_holds (ap_when x) r) (ps_rules s)) \<and>
    (pe_decision e = None \<longleftrightarrow> pe_matches e = []) \<and>
    (\<forall>d. pe_decision e = Some d \<longrightarrow> d \<in> am_decision ` set (pe_matches e) \<and>
      (\<forall>m \<in> set (pe_matches e). enforcement_order (am_decision m) \<le> enforcement_order d))"
proof (intro exI [of _ "policy_outcome h s r"] conjI)
  show "pe_decision (policy_outcome h s r) = None \<longleftrightarrow> pe_matches (policy_outcome h s r) = []"
    by (simp add: policy_outcome_def dominant_cases split: list.split)
  show "\<forall>d. pe_decision (policy_outcome h s r) = Some d \<longrightarrow>
      d \<in> am_decision ` set (pe_matches (policy_outcome h s r)) \<and>
      (\<forall>m \<in> set (pe_matches (policy_outcome h s r)). enforcement_order (am_decision m) \<le> enforcement_order d)"
  proof (cases "policy_matches s r")
    case (Cons m ms)
    let ?d = "foldl stricter_decision (am_decision m) (map am_decision ms)"
    have "?d \<in> insert (am_decision m) (set (map am_decision ms))"
      by (rule enforcement_choice.fold_mem)
    moreover have "enforcement_order (am_decision x) \<le> enforcement_order ?d" if "x \<in> set (m # ms)" for x
      using that by (intro enforcement_choice.fold_upper) auto
    ultimately show ?thesis
      using Cons by (auto simp: policy_outcome_def dominant_None dominant_fold)
  qed (simp add: policy_outcome_def)
qed (simp_all add: evaluate_outcome policy_matches_def)

lemma policy_evaluation_exact_witness:
  "\<exists>e. evaluate_action_policy short_env (compile_action_policy sample_policy_value) sample_action_review =
      Inr e \<and> map am_rule_id (pe_matches e) = [''no-upload''] \<and> pe_decision e \<noteq> None"
proof -
  have "filter (\<lambda>x. ap_enabled x \<and> condition_holds (ap_when x) sample_action_review)
      (ps_rules sample_policy_value) = ps_rules sample_policy_value"
    by (simp add: sample_policy_value_def sample_action_review_def condition_holds_def
        upload_condition_def)
  then show ?thesis
    using policy_evaluation_exact [of short_env sample_policy_value sample_action_review]
    by (fastforce simp: sample_policy_value_def match_from_rule_def)
qed

text \<open>C9: Applying a policy set can only restrict: the decision becomes the strictest of the review's
  own and those of the matched rules, so it is never weaker than either, and the action, the risk,
  the effects, the resources and the advised capabilities are kept, the reasons and the provenance
  records so far stay in front of the added ones.\<close>

theorem policy_application_only_restricts:
  assumes "apply_action_policy h (compile_action_policy s) r = Inr r'"
  shows "rv_decision r' = Max (insert (rv_decision r) (am_decision ` set (policy_matches s r))) \<and>
    enforcement_order (rv_decision r) \<le> enforcement_order (rv_decision r') \<and>
    (\<forall>m \<in> set (policy_matches s r). enforcement_order (am_decision m) \<le> enforcement_order (rv_decision r')) \<and>
    rv_action r' = rv_action r \<and> rv_risk r' = rv_risk r \<and> rv_effects r' = rv_effects r \<and>
    rv_resources r' = rv_resources r \<and> rv_capabilities r' = rv_capabilities r \<and>
    prefix (rv_reasons r) (rv_reasons r') \<and>
    (\<forall>p. rv_provenance r = Some p \<longrightarrow>
       (\<exists>q. rv_provenance r' = Some q \<and> strict_prefix (dp_records p) (dp_records q)))"
proof -
  obtain q where q: "r' = applied_review h s r q"
      "\<forall>p. rv_provenance r = Some p \<longrightarrow> (\<exists>t. q = Some t \<and> applied_provenance h s r p = Inr t)"
    using assms unfolding apply_Inr_iff by (cases "rv_provenance r") auto
  have "\<exists>t. q = Some t \<and> strict_prefix (dp_records p) (dp_records t)" if p: "rv_provenance r = Some p" for p
  proof -
    obtain t where t: "q = Some t" "applied_provenance h s r p = Inr t"
      using p q(2) by blast
    then have "dp_records t = dp_records p @ added_records h s r"
      by (auto simp: applied_provenance_def dest: append_prefix split: if_splits)
    moreover have "added_records h s r \<noteq> []"
      by (simp add: added_records_def Let_def)
    ultimately show ?thesis
      using t(1) by (auto simp: strict_prefix_def)
  qed
  then show ?thesis
    using applied_decision_upper(1) [of r s] applied_decision_upper(2) [of _ s r]
    by (simp add: q(1) applied_review_fields applied_decision_Max)
qed

lemma policy_text_facts:
  assumes "policy_set_post_init s = Inr ()"
  shows "ps_id s \<noteq> []" "length (ps_id s) \<le> 128" "ps_version s \<noteq> []" "length (ps_version s) \<le> 64"
  using assms by (auto simp: policy_set_post_init_def policy_identifier_def policy_bounds
      split: if_splits)

lemma policy_metadata_ok:
  assumes "policy_set_post_init s = Inr ()" "length (policy_set_digest h s) \<le> 32768"
  shows "check_metadata (policy_metadata (policy_outcome h s r)) = Inr ()"
    "length (policy_metadata (policy_outcome h s r)) = 3"
  using assms(2) policy_text_facts [OF assms(1)]
  by (simp_all add: policy_metadata_def policy_outcome_def max_provenance_text_def)

lemma decision_text_length: "length (decision_text d) \<le> 5"
  by (cases d) simp_all

lemma match_text_ok:
  assumes "policy_set_ok s" "m \<in> set (policy_matches s r)"
  shows "length (am_reason m) \<le> 32768" "length (am_rule_id m) \<le> 128"
proof -
  obtain x where x: "x \<in> set (ps_rules s)" "m = match_from_rule x"
    using assms(2) by (auto simp: policy_matches_def)
  then have "policy_rule_post_init x = Inr ()"
    using assms(1) by (simp add: policy_set_ok_def policy_rule_ok_def list_all_iff)
  then have ok: "length (ap_id x) \<le> 128" "\<forall>t. ap_reason x = Some t \<longrightarrow> length t \<le> 32768"
    by (auto simp: policy_rule_post_init_def policy_identifier_def optional_policy_text_def
        policy_bounds)
  show "length (am_rule_id m) \<le> 128"
    using ok(1) x(2) by (simp add: match_from_rule_def)
  show "length (am_reason m) \<le> 32768"
    using ok(2) x(2) decision_text_length [of "ap_decision x"]
    by (cases "ap_reason x") (simp_all add: match_from_rule_def text_or_def)
qed

lemma no_match_record_ok:
  assumes "policy_set_post_init s = Inr ()" "length (policy_set_digest h s) \<le> 32768"
  shows "provenance_record_post_init (no_match_record (policy_outcome h s r)) = Inr ()"
  using policy_metadata_ok [OF assms]
  by (simp add: provenance_record_post_init_def no_match_record_def blank_record_def
      bounded_text_def provenance_bounds)

lemma match_record_ok:
  assumes "policy_set_ok s" "length (policy_set_digest h s) \<le> 32768" "m \<in> set (policy_matches s r)"
  shows "provenance_record_post_init (policy_match_record (policy_outcome h s r) m) = Inr ()"
proof -
  have "policy_set_post_init s = Inr ()"
    using assms(1) by (simp add: policy_set_ok_def)
  then show ?thesis
    using policy_metadata_ok [OF _ assms(2)] match_text_ok [OF assms(1,3)]
    by (simp add: provenance_record_post_init_def policy_match_record_def blank_record_def
        bounded_text_def provenance_bounds)
qed

lemma merge_record_ok:
  assumes "policy_set_post_init s = Inr ()" "length (policy_set_digest h s) \<le> 32768"
    "rv_risk r \<in> set valid_risks"
  shows "provenance_record_post_init (policy_merge_record (policy_outcome h s r) r d) = Inr ()"
  using policy_metadata_ok [OF assms(1,2)] assms(3) decision_text_length [of "rv_decision r"]
  by (simp add: provenance_record_post_init_def policy_merge_record_def blank_record_def
      bounded_text_def provenance_bounds)

lemma records_valid_ok:
  assumes "policy_set_ok s" "length (policy_set_digest h s) \<le> 32768" "rv_risk r \<in> set valid_risks"
  shows "records_valid h s r"
  using no_match_record_ok match_record_ok merge_record_ok assms
  by (auto simp: records_valid_def added_records_def Let_def policy_set_ok_def)

text \<open>C32: When applying a loaded policy set fails: on a review with a valid risk and a valid provenance,
  and a digest of at most 32768 characters, the application yields a review if the provenance has
  room for one record per matched rule and the merge record (one record if nothing matched), and
  raises if it does not; a review without a provenance never fails.\<close>

theorem policy_application_total:
  assumes "policy_set_from_dict j = Inr s" and "rv_risk r \<in> set valid_risks"
    and "\<forall>b. length (sha256 h b) \<le> 32768"
    and "\<forall>p. rv_provenance r = Some p \<longrightarrow> provenance_ok p"
  shows "is_ok (apply_action_policy h (compile_action_policy s) r) \<longleftrightarrow>
    (\<forall>p. rv_provenance r = Some p \<longrightarrow>
       length (dp_records p) + length (policy_matches s r) + 1 \<le> 512)"
proof -
  have ok: "policy_set_ok s"
    using assms(1) by (rule policy_set_from_dict_ok)
  have valid: "records_valid h s r"
    using assms(2,3) ok by (intro records_valid_ok) (auto simp: policy_set_digest_def ascii_digest_def)
  have count: "length (added_records h s r) = length (policy_matches s r) + 1"
    by (simp add: added_records_def Let_def)
  have room: "(\<exists>q. applied_provenance h s r p = Inr q) \<longleftrightarrow>
      length (dp_records p) + length (policy_matches s r) + 1 \<le> 512" if p: "rv_provenance r = Some p" for p
  proof (cases "length (dp_records p) + length (added_records h s r) \<le> 512")
    case True
    then show ?thesis
      using assms(2,4) p count append_decision_Inr append_plain_Inr
      by (auto simp: applied_provenance_def)
  next
    case False
    then have "\<nexists>q. applied_provenance h s r p = Inr q"
      using append_full [of p "added_records h s r"]
      by (metis Inl_Inr_False applied_provenance_def linorder_not_le)
    with False count show ?thesis by simp
  qed
  have "is_ok (apply_action_policy h (compile_action_policy s) r) \<longleftrightarrow>
      (\<exists>r'. apply_action_policy h (compile_action_policy s) r = Inr r')"
    by (cases "apply_action_policy h (compile_action_policy s) r") simp_all
  also have "\<dots> \<longleftrightarrow> (\<forall>p. rv_provenance r = Some p \<longrightarrow> (\<exists>q. applied_provenance h s r p = Inr q))"
    using valid by (cases "rv_provenance r") (auto simp: apply_Inr_iff)
  finally show ?thesis
    using room by blast
qed

lemma policy_application_total_witness:
  "is_ok (apply_action_policy short_env (compile_action_policy sample_policy_value) sample_action_review)"
proof -
  have "rv_risk sample_action_review \<in> set valid_risks"
      "\<forall>b. length (sha256 short_env b) \<le> 32768"
      "\<forall>p. rv_provenance sample_action_review = Some p \<longrightarrow> provenance_ok p"
    by (simp_all add: sample_action_review_def valid_risks_def short_env_def sample_provenance_ok)
  from policy_application_total [OF sample_action_policy_loads this] show ?thesis
    by (simp add: sample_policy_matches) (simp add: sample_action_review_def sample_provenance_def)
qed

lemma policy_application_only_restricts_witness:
  "\<exists>r'. apply_action_policy short_env (compile_action_policy sample_policy_value)
      (sample_action_review\<lparr>rv_provenance := None\<rparr>) = Inr r' \<and> rv_decision r' = Block"
proof -
  have "\<exists>r'. apply_action_policy short_env (compile_action_policy sample_policy_value)
      (sample_action_review\<lparr>rv_provenance := None\<rparr>) = Inr r'"
    by (simp add: apply_Inr_iff)
  moreover have "policy_matches sample_policy_value (sample_action_review\<lparr>rv_provenance := None\<rparr>) =
      [match_from_rule (hd (ps_rules sample_policy_value))]"
    by (simp add: policy_matches_def sample_policy_value_def sample_action_review_def
        condition_holds_def upload_condition_def)
  ultimately show ?thesis
    using policy_application_only_restricts
    by (fastforce simp: match_from_rule_def sample_policy_value_def sample_action_review_def
        max_def less_eq_decision_def)
qed

text \<open>C36: Loading a policy set: what the loader accepts, written as JSON and read again, is the same
  policy set, and it has at most 256 rules with distinct ids.\<close>

theorem action_policy_json_roundtrip:
  assumes "policy_set_from_dict j = Inr s"
  shows "policy_set_from_dict (policy_set_as_dict s) = Inr s \<and>
    length (ps_rules s) \<le> 256 \<and> distinct (map ap_id (ps_rules s))"
proof -
  have ok: "policy_set_ok s"
    using assms by (rule policy_set_from_dict_ok)
  then have "duplicate_ids [] [] (map ap_id (ps_rules s)) = []" "length (ps_rules s) \<le> max_policy_rules"
    by (auto simp: policy_set_ok_def policy_set_post_init_def split: if_splits)
  then show ?thesis
    using policy_set_roundtrip [OF ok] by (auto simp: duplicate_ids_Nil_iff max_policy_rules_def)
qed

text \<open>C40: A directory prefix written with exactly two leading slashes never matches, not even the
  directory itself: normalisation keeps both slashes, the common path has one, so a rule with such a
  prefix alone is inert although the loader accepts it.\<close>

theorem double_slash_prefix_inert:
  assumes "startswith p ''//''" and "\<not> startswith p ''///''"
  shows "path_within_prefix v p = Inr False"
  using assms by (simp add: path_within_prefix_eq path_below_def leading_slashes_def)

lemma action_policy_json_roundtrip_witness:
  "policy_set_from_dict (policy_set_as_dict sample_policy_value) = Inr sample_policy_value"
  using action_policy_json_roundtrip [OF sample_action_policy_loads] by blast

lemma double_slash_prefix_inert_witness:
  "path_within_prefix ''//srv/app'' ''//srv'' = Inr False"
  using double_slash_prefix_inert [of "''//srv''" "''//srv/app''"] by (simp add: startswith_def)

end
