(* ===== verification/Quota.thy ===== *)
theory Quota
  imports Ordin_Prelude
begin

text \<open>
  What the budget ledger promises, without tables: tickets that carry a bill (bucket, metric and
  amount of each charge) and move through five phases, and what has been spent of each bucket.
  A grant must fit every bucket it is billed to under a cap of this bucket for the billed metric; nothing
  else may raise the demand on a bucket, except an accounting that exceeds its bill, which marks
  its ticket. \<open>Quota_Refinement\<close> shows that the ledger implements this machine.
\<close>

section \<open>The machine\<close>

datatype quota_phase = Holding | InFlight | Paid | Exceeded | Dropped

record quota_ticket =
  qk_id :: string
  qk_phase :: quota_phase
  qk_bill :: "(string \<times> string \<times> int) list"

record quota =
  qt_spent :: "string \<Rightarrow> int"
  qt_tickets :: "quota_ticket list"

definition billed :: "quota_ticket \<Rightarrow> string \<Rightarrow> int" where
  "billed t k = sum_list (map (snd \<circ> snd) (filter (\<lambda>c. fst c = k) (qk_bill t)))"

definition open_phase :: "quota_phase \<Rightarrow> bool" where
  "open_phase p = (p = Holding \<or> p = InFlight)"

definition promised :: "quota \<Rightarrow> string \<Rightarrow> int" where
  "promised q k = sum_list (map (\<lambda>t. if open_phase (qk_phase t) then billed t k else 0) (qt_tickets q))"

definition demand :: "quota \<Rightarrow> string \<Rightarrow> int" where
  "demand q k = promised q k + qt_spent q k"

definition rephase :: "string \<Rightarrow> quota_phase \<Rightarrow> quota_ticket \<Rightarrow> quota_ticket" where
  "rephase i p t = (if qk_id t = i then t\<lparr>qk_phase := p\<rparr> else t)"

definition set_phase :: "string \<Rightarrow> quota_phase \<Rightarrow> quota \<Rightarrow> quota" where
  "set_phase i p q =
     q\<lparr>qt_tickets := map (rephase i p) (qt_tickets q)\<rparr>"

definition pay :: "(string \<Rightarrow> int) \<Rightarrow> quota \<Rightarrow> quota" where
  "pay paid q = q\<lparr>qt_spent := (\<lambda>k. qt_spent q k + paid k)\<rparr>"

inductive quota_step :: "(string \<times> string \<times> int) set \<Rightarrow> quota \<Rightarrow> quota \<Rightarrow> bool" for limits where
  grant: "i \<notin> qk_id ` set (qt_tickets q) \<Longrightarrow> distinct (map fst bill) \<Longrightarrow>
    (\<And>k m a. (k, m, a) \<in> set bill \<Longrightarrow>
       0 \<le> a \<and> (\<exists>x. (k, m, x) \<in> limits \<and> demand q k + a \<le> x)) \<Longrightarrow>
    quota_step limits q
      (q\<lparr>qt_tickets := qt_tickets q @ [\<lparr>qk_id = i, qk_phase = Holding, qk_bill = bill\<rparr>]\<rparr>)"
| launch: "t \<in> set (qt_tickets q) \<Longrightarrow> qk_phase t = Holding \<Longrightarrow>
    quota_step limits q (set_phase (qk_id t) InFlight q)"
| drop_ticket: "t \<in> set (qt_tickets q) \<Longrightarrow> qk_phase t = Holding \<Longrightarrow>
    quota_step limits q (set_phase (qk_id t) Dropped q)"
| account: "t \<in> set (qt_tickets q) \<Longrightarrow> qk_phase t = InFlight \<or> qk_phase t = Paid \<Longrightarrow>
    (\<And>k. k \<notin> fst ` set (qk_bill t) \<Longrightarrow> paid k = 0) \<Longrightarrow> (\<And>k. 0 \<le> qt_spent q k + paid k) \<Longrightarrow>
    p = Exceeded \<or>
      p = Paid \<and> (\<forall>k. paid k \<le> (if qk_phase t = InFlight then billed t k else 0)) \<Longrightarrow>
    quota_step limits q (set_phase (qk_id t) p (pay paid q))"

section \<open>Its invariant\<close>

text \<open>
  The demand on a bucket (promised by open tickets, or spent) is zero or under a cap of the bucket for a metric
  it was billed for, unless a ticket that exceeded its bill was billed to it.
\<close>

definition quota_wf :: "quota \<Rightarrow> bool" where
  "quota_wf q = (distinct (map qk_id (qt_tickets q)) \<and> (\<forall>k. 0 \<le> qt_spent q k) \<and>
     (\<forall>t \<in> set (qt_tickets q). \<forall>c \<in> set (qk_bill t). 0 \<le> snd (snd c)))"

definition excused :: "quota \<Rightarrow> string \<Rightarrow> bool" where
  "excused q k = (\<exists>t \<in> set (qt_tickets q). qk_phase t = Exceeded \<and> k \<in> fst ` set (qk_bill t))"

definition capped :: "(string \<times> string \<times> int) set \<Rightarrow> quota \<Rightarrow> string \<Rightarrow> bool" where
  "capped limits q k = (demand q k = 0 \<or>
     (\<exists>t \<in> set (qt_tickets q). \<exists>m a x.
        (k, m, a) \<in> set (qk_bill t) \<and> (k, m, x) \<in> limits \<and> demand q k \<le> x))"

definition quota_ok :: "(string \<times> string \<times> int) set \<Rightarrow> quota \<Rightarrow> bool" where
  "quota_ok limits q = (quota_wf q \<and> (\<forall>k. excused q k \<or> capped limits q k))"

section \<open>Lemmas\<close>

lemma billed_nonneg: "\<forall>c \<in> set (qk_bill t). 0 \<le> snd (snd c) \<Longrightarrow> 0 \<le> billed t k"
  unfolding billed_def by (intro sum_list_nonneg) auto

lemma billed_absent: "k \<notin> fst ` set (qk_bill t) \<Longrightarrow> billed t k = 0"
  unfolding billed_def by (subst filter_False) auto

lemma rephase_simps [simp]:
  "qk_id (rephase i p t) = qk_id t" "qk_bill (rephase i p t) = qk_bill t"
  "qk_phase (rephase i p t) = (if qk_id t = i then p else qk_phase t)"
  "billed (rephase i p t) k = billed t k"
  by (simp_all add: rephase_def billed_def)

lemma set_phase_simps [simp]:
  "map qk_id (qt_tickets (set_phase i p q)) = map qk_id (qt_tickets q)"
  "qt_spent (set_phase i p q) = qt_spent q"
  "qt_spent (pay paid q) k = qt_spent q k + paid k"
  "qt_tickets (pay paid q) = qt_tickets q"
  "promised (pay paid q) k = promised q k"
  by (simp_all add: set_phase_def pay_def promised_def comp_def)

lemma promised_nonneg: "quota_wf q \<Longrightarrow> 0 \<le> promised q k"
  unfolding promised_def quota_wf_def by (intro sum_list_nonneg) (auto intro: billed_nonneg)

lemma promised_set_phase:
  assumes "distinct (map qk_id (qt_tickets q))" "t \<in> set (qt_tickets q)"
  shows "promised (set_phase (qk_id t) p q) k = promised q k
    + (if open_phase p then billed t k else 0) - (if open_phase (qk_phase t) then billed t k else 0)"
proof -
  let ?h = "\<lambda>u. if open_phase (qk_phase u) then billed u k else 0"
  obtain xs ys where q: "qt_tickets q = xs @ t # ys"
    using assms(2) by (auto simp: in_set_conv_decomp)
  have "sum_list (map (?h \<circ> rephase (qk_id t) p) zs) = sum_list (map ?h zs)"
    if "qk_id t \<notin> qk_id ` set zs" for zs
    by (rule arg_cong [of _ _ sum_list], rule map_cong) (use that in \<open>auto simp: image_iff\<close>)
  from this [of xs] this [of ys] show ?thesis
    using assms(1) by (simp add: promised_def set_phase_def q)
qed

lemma bills_set_phase:
  "(\<forall>t \<in> set (qt_tickets (set_phase i p q)). P (qk_bill t)) = (\<forall>t \<in> set (qt_tickets q). P (qk_bill t))"
  by (simp add: set_phase_def)

lemma quota_wf_set_phase [simp]: "quota_wf (set_phase i p q) = quota_wf q"
  unfolding quota_wf_def bills_set_phase [where P = "\<lambda>b. \<forall>c \<in> set b. 0 \<le> snd (snd c)"] by simp

text \<open>Changing the phase of a ticket without raising the demand of a bucket keeps it in its limits.\<close>

lemma quota_ok_transfer:
  assumes ok: "excused q k \<or> capped limits q k" and wf: "quota_wf q'"
    and bills: "\<And>t. t \<in> set (qt_tickets q) \<Longrightarrow>
      \<exists>t' \<in> set (qt_tickets q'). qk_bill t' = qk_bill t \<and> (qk_phase t = Exceeded \<longrightarrow> qk_phase t' = Exceeded)"
    and demand: "excused q k \<or> excused q' k \<or> demand q' k \<le> demand q k"
  shows "excused q' k \<or> capped limits q' k"
proof (cases "excused q k \<or> excused q' k")
  case True
  then show ?thesis using bills by (fastforce simp: excused_def)
next
  case False
  then have "capped limits q k" "demand q' k \<le> demand q k"
    using ok demand by auto
  moreover have "0 \<le> demand q' k"
    using wf promised_nonneg [OF wf] by (simp add: demand_def quota_wf_def)
  ultimately show ?thesis
    using bills unfolding capped_def by (fastforce intro: order_trans)
qed

lemma filter_key_unique:
  assumes "distinct (map fst xs)" "(k, v) \<in> set xs"
  shows "filter (\<lambda>c. fst c = k) xs = [(k, v)]"
  using assms
proof (induction xs)
  case (Cons x xs)
  show ?case
  proof (cases "x = (k, v)")
    case True
    have "filter (\<lambda>c. fst c = k) xs = []"
      using Cons.prems(1) True by (auto simp: filter_empty_conv image_iff)
    with True show ?thesis by simp
  next
    case False
    then have mem: "(k, v) \<in> set xs" using Cons.prems(2) by simp
    then have "k \<in> fst ` set xs" by (rule image_eqI [rotated]) simp
    then have "fst x \<noteq> k" using Cons.prems(1) by auto
    with Cons.IH [OF _ mem] Cons.prems(1) show ?thesis by simp
  qed
qed simp

lemma quota_okD: "quota_ok limits q \<Longrightarrow> quota_wf q" "quota_ok limits q \<Longrightarrow> excused q k \<or> capped limits q k"
  by (simp_all add: quota_ok_def)

lemma phase_step_ok:
  assumes ok: "quota_ok limits q" and t: "t \<in> set (qt_tickets q)" and ph: "qk_phase t \<noteq> Exceeded"
    and wf: "quota_wf (pay paid q)"
    and demand: "\<And>k. p = Exceeded \<and> (k \<in> fst ` set (qk_bill t) \<or> paid k = 0 \<and> billed t k = 0) \<or>
      paid k + (if open_phase p then billed t k else 0) \<le> (if open_phase (qk_phase t) then billed t k else 0)"
  shows "quota_ok limits (set_phase (qk_id t) p (pay paid q))"
  unfolding quota_ok_def
proof (intro conjI allI)
  let ?q = "set_phase (qk_id t) p (pay paid q)"
  show wf': "quota_wf ?q" using wf by simp
  have ids: "distinct (map qk_id (qt_tickets q))"
    using quota_okD(1) [OF ok] by (simp add: quota_wf_def)
  then have prom: "promised ?q k = promised q k
      + (if open_phase p then billed t k else 0) - (if open_phase (qk_phase t) then billed t k else 0)" for k
    using promised_set_phase [of "pay paid q" t p k] t by simp
  have same: "u = t" if "u \<in> set (qt_tickets q)" "qk_id u = qk_id t" for u
    using that t ids by (metis distinct_map inj_onD)
  fix k
  show "excused ?q k \<or> capped limits ?q k"
  proof (rule quota_ok_transfer [OF quota_okD(2) [OF ok] wf'])
    fix u assume "u \<in> set (qt_tickets q)"
    then show "\<exists>t' \<in> set (qt_tickets ?q). qk_bill t' = qk_bill u \<and> (qk_phase u = Exceeded \<longrightarrow> qk_phase t' = Exceeded)"
      using same ph by (intro bexI [of _ "rephase (qk_id t) p u"]) (auto simp: set_phase_def)
  next
    have "rephase (qk_id t) p t \<in> set (qt_tickets ?q)"
      using t by (simp add: set_phase_def)
    then have "p = Exceeded \<Longrightarrow> k \<in> fst ` set (qk_bill t) \<Longrightarrow> excused ?q k"
      unfolding excused_def by (intro bexI [of _ "rephase (qk_id t) p t"]) simp_all
    then show "excused q k \<or> excused ?q k \<or> demand ?q k \<le> demand q k"
      using demand [of k] by (auto simp: demand_def prom open_phase_def)
  qed
qed

lemma quota_step_ok: "quota_step limits q q' \<Longrightarrow> quota_ok limits q \<Longrightarrow> quota_ok limits q'"
proof (induction rule: quota_step.induct)
  case (grant i q bill)
  let ?t = "\<lparr>qk_id = i, qk_phase = Holding, qk_bill = bill\<rparr>"
  let ?q = "q\<lparr>qt_tickets := qt_tickets q @ [?t]\<rparr>"
  have wf: "quota_wf ?q"
    using grant quota_okD(1) [OF grant(4)] by (fastforce simp: quota_wf_def)
  have prom: "promised ?q k = promised q k + billed ?t k" for k
    by (simp add: promised_def open_phase_def)
  have "excused ?q k \<or> capped limits ?q k" for k
  proof (cases "k \<in> fst ` set bill")
    case True
    then obtain m a where c: "(k, m, a) \<in> set bill" by auto
    obtain x where x: "(k, m, x) \<in> limits" "demand q k + a \<le> x"
      using grant(3) [OF c] by blast
    have "filter (\<lambda>c. fst c = k) bill = [(k, m, a)]"
      by (rule filter_key_unique [OF grant(2) c])
    then have "billed ?t k = a" by (simp add: billed_def)
    with x have "demand ?q k \<le> x" by (simp add: demand_def prom)
    with x(1) c have "capped limits ?q k"
      unfolding capped_def by (intro disjI2 bexI [of _ ?t] exI [of _ m] exI [of _ a] exI [of _ x]) simp_all
    then show ?thesis ..
  next
    case False
    then have "demand ?q k = demand q k"
      using billed_absent [of k ?t] by (simp add: demand_def prom)
    then show ?thesis
      by (intro quota_ok_transfer [OF quota_okD(2) [OF grant(4)] wf]) auto
  qed
  with wf show ?case by (simp add: quota_ok_def)
next
  case (launch t q)
  have "pay (\<lambda>_. 0) q = q" by (simp add: pay_def)
  with phase_step_ok [OF launch(3,1), of "\<lambda>_. 0" InFlight] launch quota_okD(1) [OF launch(3)]
  show ?case by (simp add: open_phase_def)
next
  case (drop_ticket t q)
  have "pay (\<lambda>_. 0) q = q" by (simp add: pay_def)
  moreover have "0 \<le> billed t k" for k
    using quota_okD(1) [OF drop_ticket(3)] drop_ticket(1) by (auto simp: quota_wf_def intro: billed_nonneg)
  ultimately show ?case
    using phase_step_ok [OF drop_ticket(3,1), of "\<lambda>_. 0" Dropped] drop_ticket quota_okD(1) [OF drop_ticket(3)]
    by (simp add: open_phase_def)
next
  case (account t q paid p)
  have wf: "quota_wf (pay paid q)"
    using quota_okD(1) [OF account(6)] account(4) by (simp add: quota_wf_def)
  show ?case
  proof (rule phase_step_ok [OF account(6,1) _ wf])
    show "qk_phase t \<noteq> Exceeded" using account(2) by auto
    fix k
    show "p = Exceeded \<and> (k \<in> fst ` set (qk_bill t) \<or> paid k = 0 \<and> billed t k = 0) \<or>
      paid k + (if open_phase p then billed t k else 0) \<le> (if open_phase (qk_phase t) then billed t k else 0)"
      using account(2,3,5) billed_absent [of k t] by (auto simp: open_phase_def)
  qed
qed

lemma quota_steps_ok: "(quota_step limits)\<^sup>*\<^sup>* q q' \<Longrightarrow> quota_ok limits q \<Longrightarrow> quota_ok limits q'"
  by (induction rule: rtranclp_induct) (auto intro: quota_step_ok)

end
