(* ===== verification/Quota_Refinement.thy ===== *)
theory Quota_Refinement
  imports Quota Budget_Admission
begin

text \<open>
  The tables of the budget ledger read as a \<^typ>\<open>quota\<close> machine, and the proof that every update
  of the tables, hence every call of the ledger and every restart of its coordinator, is a
  sequence of steps of that machine.
\<close>

section \<open>The tables as a machine state\<close>

definition phase_of :: "reservation_status \<Rightarrow> quota_phase" where
  "phase_of s = (case s of Reserved \<Rightarrow> Holding | Forwarding \<Rightarrow> InFlight | Uncertain \<Rightarrow> InFlight
     | Committed \<Rightarrow> Paid | Released \<Rightarrow> Paid | Overrun \<Rightarrow> Exceeded | Canceled \<Rightarrow> Dropped
     | Expired \<Rightarrow> Dropped)"

definition charge_of :: "item_row \<Rightarrow> string \<times> string \<times> int" where
  "charge_of it = (it_bucket it, it_metric it, it_amount it)"

definition ticket_of :: "budget_db \<Rightarrow> reservation_row \<Rightarrow> quota_ticket" where
  "ticket_of db r = \<lparr>qk_id = rs_id r, qk_phase = phase_of (rs_status r),
     qk_bill = map charge_of (items_of db (rs_id r))\<rparr>"

definition quota_of :: "budget_db \<Rightarrow> quota" where
  "quota_of db = \<lparr>qt_spent = consumed_of db,
     qt_tickets = map (ticket_of db) (db_reservations db)\<rparr>"

definition quota_limits :: "host_env \<Rightarrow> budget_policy \<Rightarrow> (string \<times> string \<times> int) set" where
  "quota_limits h p = {(k, m, x). owner_limits h p k m x}"

lemma charge_of_simps [simp]:
  "fst (charge_of it) = it_bucket it" "snd (snd (charge_of it)) = it_amount it"
  by (simp_all add: charge_of_def)

lemma ticket_of_simps [simp]:
  "qk_id (ticket_of db r) = rs_id r" "qk_phase (ticket_of db r) = phase_of (rs_status r)"
  "qk_bill (ticket_of db r) = map charge_of (items_of db (rs_id r))"
  by (simp_all add: ticket_of_def)

lemma billed_ticket:
  "billed (ticket_of db r) k =
     sum_list (map it_amount (filter (\<lambda>it. it_bucket it = k) (items_of db (rs_id r))))"
  by (simp add: billed_def filter_map comp_def)

lemma open_phase_of [simp]: "open_phase (phase_of s) = active_status s"
  by (cases s) (simp_all add: open_phase_def phase_of_def active_status_def)

lemma sum_list_unique:
  assumes "distinct (map k rows)" "\<And>r. P r \<Longrightarrow> k r = i"
  shows "sum_list (map (\<lambda>r. if P r then c else 0) rows) =
    (if \<exists>r \<in> set rows. P r then c else (0 :: int))"
  using assms(1)
proof (induction rows)
  case (Cons r rows)
  show ?case
  proof (cases "P r")
    case True
    then have "\<not> (\<exists>q \<in> set rows. P q)"
      using Cons.prems assms(2) by (metis distinct.simps(2) image_eqI list.map(2) list.set_map)
    with Cons True show ?thesis by simp
  qed (use Cons in simp)
qed simp

lemma promised_of:
  assumes "db_inv db"
  shows "promised (quota_of db) k = hold_sum db k"
proof -
  have ids: "distinct (map rs_id (db_reservations db))"
    using assms by (simp add: db_inv_def)
  have act: "item_active db it \<longleftrightarrow>
      (\<exists>r \<in> set (db_reservations db). rs_id r = it_reservation it \<and> active_status (rs_status r))" for it
  proof (cases "find_reservation db (it_reservation it)")
    case None
    then have "it_reservation it \<notin> rs_id ` set (db_reservations db)"
      by (simp add: find_reservation_def find_None_key)
    with None show ?thesis by (simp add: item_active_def image_iff) metis
  next
    case (Some r)
    then have "r \<in> set (db_reservations db)" "rs_id r = it_reservation it"
      using ids by (simp_all add: find_reservation_def find_key_iff)
    with Some ids show ?thesis by (simp add: item_active_def distinct_map) (metis inj_onD)
  qed
  have "sum_list (map (\<lambda>r. if active_status (rs_status r)
        then sum_list (map it_amount (filter (\<lambda>it. it_reservation it = rs_id r \<and> it_bucket it = k) xs)) else 0)
        (db_reservations db)) =
      sum_list (map it_amount (filter (\<lambda>it. it_bucket it = k \<and> item_active db it) xs))" (is "?l xs = ?r xs") for xs
  proof (induction xs)
    case Nil
    then show ?case by (simp cong: if_cong)
  next
    case (Cons it xs)
    let ?P = "\<lambda>r. rs_id r = it_reservation it \<and> active_status (rs_status r) \<and> it_bucket it = k"
    have "?l (it # xs) = sum_list (map (\<lambda>r. (if ?P r then it_amount it else 0) +
        (if active_status (rs_status r)
         then sum_list (map it_amount (filter (\<lambda>it. it_reservation it = rs_id r \<and> it_bucket it = k) xs)) else 0))
        (db_reservations db))"
      by (intro arg_cong [of _ _ sum_list] map_cong) auto
    also have "\<dots> = sum_list (map (\<lambda>r. if ?P r then it_amount it else 0) (db_reservations db)) + ?l xs"
      by (rule sum_list_addf)
    also have "sum_list (map (\<lambda>r. if ?P r then it_amount it else 0) (db_reservations db)) =
        (if \<exists>r \<in> set (db_reservations db). ?P r then it_amount it else 0)"
      by (rule sum_list_unique [OF ids]) simp
    finally show ?case using Cons.IH by (auto simp: act)
  qed
  from this [of "db_items db"] show ?thesis
    by (simp add: promised_def quota_of_def comp_def billed_ticket items_of_def filter_filter conj_commute
        hold_sum_def cong: if_cong)
qed

text \<open>Charging the items of a reservation and moving its row is a payment and a change of phase.\<close>

lemma charged_consumed:
  assumes "\<And>it b. bk_key (g it b) = bk_key b" "\<And>it b. bk_consumed (g it b) = bk_consumed b + d it"
  shows "bk_consumed (charged g items b) =
    bk_consumed b + sum_list (map d (filter (\<lambda>it. it_bucket it = bk_key b) items))"
  unfolding charged_def by (induction items arbitrary: b) (simp_all add: assms)

definition paid_of :: "(item_row \<Rightarrow> int) \<Rightarrow> item_row list \<Rightarrow> string \<Rightarrow> int" where
  "paid_of d items k = sum_list (map d (filter (\<lambda>it. it_bucket it = k) items))"

lemma quota_charge:
  assumes inv: "db_inv db" and ch: "charge_items g db items = Inr db1" and items: "set items \<subseteq> set (db_items db)"
    and key: "\<And>it b. bk_key (g it b) = bk_key b"
    and spent: "\<And>it b. bk_consumed (g it b) = bk_consumed b + d it"
    and f: "\<And>r. rs_id (f r) = rs_id r" "\<And>r. phase_of (rs_status (f r)) = p"
  shows "quota_of (update_reservation i f db1) = set_phase i p (pay (paid_of d items) (quota_of db))"
proof -
  have db1: "db1 = db\<lparr>db_buckets := map (charged g items) (db_buckets db)\<rparr>"
    by (rule charge_items_Inr [OF ch key])
  let ?db = "update_reservation i f db1"
  have "find_bucket ?db k = map_option (charged g items) (find_bucket db k)" for k
    by (simp add: find_bucket_def db1 update_reservation_def find_map_key [where k = bk_key] key)
  moreover have "paid_of d items k = 0" if "find_bucket db k = None" for k
    unfolding paid_of_def
    by (subst filter_False) (use that inv items in \<open>fastforce simp: db_inv_def\<close>)+
  ultimately have "consumed_of ?db k = consumed_of db k + paid_of d items k" for k
    using charged_consumed [of g d items, OF key spent]
    by (auto simp: consumed_of_def paid_of_def dest: find_bucket_key split: option.splits)
  moreover have "map (ticket_of ?db) (db_reservations ?db) =
      map (rephase i p) (map (ticket_of db) (db_reservations db))"
    by (auto simp: update_reservation_def db1 ticket_of_def items_of_def rephase_def f)
  ultimately show ?thesis
    by (simp add: quota_of_def set_phase_def pay_def fun_eq_iff)
qed

lemma pay_nothing [simp]: "pay (paid_of (\<lambda>it. 0) items) q = q"
  by (simp add: pay_def paid_of_def)

lemma set_phase_same:
  assumes "distinct (map qk_id (qt_tickets q))" "t \<in> set (qt_tickets q)"
  shows "set_phase (qk_id t) (qk_phase t) q = q"
proof -
  have "rephase (qk_id t) (qk_phase t) u = u" if "u \<in> set (qt_tickets q)" for u
  proof (cases "qk_id u = qk_id t")
    case True
    then have "u = t"
      using that assms by (metis distinct_map inj_onD)
    then show ?thesis by (simp add: rephase_def)
  qed (simp add: rephase_def)
  then show ?thesis by (simp add: set_phase_def map_idI)
qed

lemma ticket_mem:
  "find_reservation db i = Some r \<Longrightarrow> ticket_of db r \<in> set (qt_tickets (quota_of db)) \<and> qk_id (ticket_of db r) = i"
  by (auto simp: quota_of_def find_reservation_def find_Some_iff)

lemma set_items_of: "set (items_of db i) \<subseteq> set (db_items db)"
  by (auto simp: items_of_def)

lemma quota_release:
  assumes "release i st db = Inr db'" "db_inv db"
  shows "quota_of db' = set_phase i (phase_of st) (quota_of db)"
proof -
  obtain db1 where ch: "charge_items (\<lambda>it b. b\<lparr>bk_held := bk_held b - it_amount it\<rparr>) db (items_of db i) = Inr db1"
      and db': "db' = update_reservation i (\<lambda>r. r\<lparr>rs_status := st\<rparr>) db1"
    using assms(1) by (auto simp: release_def)
  show ?thesis
    unfolding db'
    using quota_charge [OF assms(2) ch set_items_of, where d = "\<lambda>it. 0" and p = "phase_of st"] by simp
qed

lemma quota_set_status:
  assumes "set_status i st db = Inr db'" "db_inv db"
  shows "quota_of db' = set_phase i (phase_of st) (quota_of db)"
proof -
  have "charge_items (\<lambda>it b. b) db [] = Inr db"
    by (simp add: charge_items_def)
  from quota_charge [OF assms(2) this, where d = "\<lambda>it. 0" and p = "phase_of st" and i = i
      and f = "\<lambda>r. r\<lparr>rs_status := st\<rparr>"] assms(1)
  show ?thesis by (simp add: set_status_def)
qed

lemma release_refines:
  assumes "release i st db = Inr db'" "db_inv db" "find_reservation db i = Some r"
    "rs_status r = Reserved" "phase_of st = Dropped"
  shows "quota_step L (quota_of db) (quota_of db')"
  using quota_step.drop_ticket [of "ticket_of db r" "quota_of db" L] ticket_mem [OF assms(3)] assms(4,5)
  by (simp add: quota_release [OF assms(1,2)] phase_of_def)

lemma release_loop_refines:
  assumes "res_foldM (\<lambda>d r. release (rs_id r) st d) db rows = Inr db'" "db_inv db"
    "distinct (map rs_id rows)" "\<forall>r \<in> set rows. find_reservation db (rs_id r) = Some r"
    "\<forall>r \<in> set rows. rs_status r = Reserved" "phase_of st = Dropped" "\<not> active_status st"
  shows "(quota_step L)\<^sup>*\<^sup>* (quota_of db) (quota_of db')"
  using assms
proof (induction rows arbitrary: db)
  case (Cons r rows)
  obtain d where d: "release (rs_id r) st db = Inr d"
      and run: "res_foldM (\<lambda>d r. release (rs_id r) st d) d rows = Inr db'"
    using Cons.prems(1) by auto
  have r: "find_reservation db (rs_id r) = Some r" "rs_status r = Reserved"
    using Cons.prems by auto
  have "db_inv d"
    by (rule release_inv [OF d Cons.prems(2) r(1) _ Cons.prems(7)]) (simp add: r(2) active_status_def)
  moreover have "\<forall>q \<in> set rows. find_reservation d (rs_id q) = Some q"
    using release_others [OF d] Cons.prems(3,4) by (auto simp: image_iff)
  ultimately have "(quota_step L)\<^sup>*\<^sup>* (quota_of d) (quota_of db')"
    using Cons.IH [OF run] Cons.prems(3,5,6,7) by simp
  with release_refines [OF d Cons.prems(2) r Cons.prems(6)] show ?case
    by (meson converse_rtranclp_into_rtranclp)
qed simp

section \<open>Settling\<close>

definition settled_delta :: "bool \<Rightarrow> bool \<Rightarrow> (string \<times> int option) list \<Rightarrow> item_row \<Rightarrow> int" where
  "settled_delta late no_effect observed it =
     (let fixed = (it_metric it = ''concurrency'');
          charge = (if fixed \<or> no_effect then 0
            else (case known_cost observed (it_metric it) of None \<Rightarrow> it_amount it | Some v \<Rightarrow> v))
      in if late then charge - (if fixed then 0 else it_amount it) else charge)"

lemma settle_item_consumed:
  "bk_consumed (settle_item epoch late no_effect observed it b) =
     bk_consumed b + settled_delta late no_effect observed it"
  by (auto simp: settle_item_def settled_delta_def Let_def split: option.splits)

lemma settled_delta_le:
  assumes "settle_status ne observed items \<noteq> Overrun" "it \<in> set items" "0 \<le> it_amount it"
  shows "settled_delta late ne observed it \<le> (if late then 0 else it_amount it)"
  using assms
  by (auto simp: settle_status_def settled_delta_def Let_def list_ex_iff split: option.splits if_splits)

lemma spent_nonneg: "db_inv db \<Longrightarrow> 0 \<le> consumed_of db k"
  by (auto simp: consumed_of_def db_inv_def bucket_checks_def find_bucket_def find_Some_iff split: option.splits)

lemma settle_refines:
  assumes run: "settle_rows epoch row late ne observed settlement db = Inr db'"
    and inv: "db_inv db" and row: "find_reservation db (rs_id row) = Some row"
    and st: "late \<and> rs_status row = Committed \<or> \<not> late \<and> rs_status row \<in> {Forwarding, Uncertain}"
  shows "quota_step L (quota_of db) (quota_of db')"
proof -
  let ?items = "items_of db (rs_id row)" and ?t = "ticket_of db row"
  let ?st = "settle_status ne observed ?items" and ?d = "settled_delta late ne observed"
  let ?u = "\<lambda>r. r\<lparr>rs_status := ?st, rs_settlement := settlement\<rparr>"
  obtain db1 where ch: "charge_items (settle_item epoch late ne observed) db ?items = Inr db1"
      and db': "db' = update_reservation (rs_id row) ?u db1"
    using run by (auto simp: settle_rows_def)
  have q': "quota_of db' = set_phase (qk_id ?t) (phase_of ?st) (pay (paid_of ?d ?items) (quota_of db))"
    unfolding db' using quota_charge [OF inv ch set_items_of, where d = ?d and p = "phase_of ?st" and f = ?u]
    by (simp add: settle_item_consumed)
  have "active_status (rs_status row) = (\<not> late)"
    using st by (auto simp: active_status_def)
  then have "0 \<le> qt_spent (quota_of db') k" for k
    using settle_rows_inv [OF run inv row] by (simp add: quota_of_def spent_nonneg)
  then have spent: "0 \<le> qt_spent (quota_of db) k + paid_of ?d ?items k" for k
    by (simp add: q')
  have phase: "qk_phase ?t = InFlight \<or> qk_phase ?t = Paid" "(qk_phase ?t = InFlight) = (\<not> late)"
    using st by (auto simp: phase_of_def)
  show ?thesis
    unfolding q'
  proof (rule quota_step.account [OF _ phase(1) _ spent])
    show "?t \<in> set (qt_tickets (quota_of db))"
      using ticket_mem [OF row] ..
    show "paid_of ?d ?items k = 0" if "k \<notin> fst ` set (qk_bill ?t)" for k
      unfolding paid_of_def by (subst filter_False) (use that in \<open>auto simp: image_iff\<close>)
    have "phase_of ?st = Exceeded \<or> phase_of ?st = Paid \<and> ?st \<noteq> Overrun"
      by (auto simp: settle_status_def phase_of_def)
    moreover have "paid_of ?d ?items k \<le> (if \<not> late then billed ?t k else 0)" if "?st \<noteq> Overrun" for k
    proof -
      have "0 \<le> it_amount it" if "it \<in> set ?items" for it
        using inv that set_items_of [of db] by (auto simp: db_inv_def)
      then have "paid_of ?d ?items k \<le> paid_of (\<lambda>it. if late then 0 else it_amount it) ?items k"
        unfolding paid_of_def by (intro sum_list_mono settled_delta_le [OF that]) auto
      then show ?thesis by (auto simp: billed_ticket paid_of_def)
    qed
    ultimately show "phase_of ?st = Exceeded \<or> phase_of ?st = Paid \<and>
        (\<forall>k. paid_of ?d ?items k \<le> (if qk_phase ?t = InFlight then billed ?t k else 0))"
      unfolding phase(2) by blast
  qed
qed

section \<open>Admitting\<close>

definition item_for :: "string \<Rightarrow> string \<times> string \<times> int \<Rightarrow> item_row" where
  "item_for i c = \<lparr>it_reservation = i, it_bucket = fst c, it_metric = fst (snd c), it_amount = snd (snd c)\<rparr>"

lemma item_for_simps [simp]:
  "it_reservation (item_for i c) = i" "it_bucket (item_for i c) = fst c"
  "it_amount (item_for i c) = snd (snd c)" "charge_of (item_for i c) = c"
  by (simp_all add: item_for_def charge_of_def)

lemma charge_insert_refines:
  assumes "charge_insert i db c = Inr db'"
  shows "db_items db' = db_items db @ [item_for i c] \<and> db_reservations db' = db_reservations db \<and>
    0 \<le> snd (snd c) \<and> (\<forall>it \<in> set (db_items db). it_reservation it = i \<longrightarrow> it_bucket it \<noteq> fst c) \<and>
    consumed_of db' = consumed_of db"
proof -
  obtain k m a where c: "c = (k, m, a)" by (cases c)
  let ?db0 = "insert_bucket k m db"
  obtain db1 where up: "update_bucket k (\<lambda>b. b\<lparr>bk_held := bk_held b + a\<rparr>) ?db0 = Inr db1"
      and ins: "insert_item (item_for i c) db1 = Inr db'"
    using assms by (auto simp: charge_insert_def c item_for_def)
  note db1 = update_bucket_Inr [OF up]
  have same: "db_reservations ?db0 = db_reservations db" "db_items ?db0 = db_items db"
    by (simp_all add: insert_bucket_def)
  have db': "db' = db1\<lparr>db_items := db_items db1 @ [item_for i c]\<rparr>" and ok: "0 \<le> a"
      "\<forall>it \<in> set (db_items db). it_reservation it = i \<longrightarrow> it_bucket it \<noteq> k"
    using ins by (auto simp: insert_item_def c item_for_def list_ex_iff db1 same split: if_splits)
  have "consumed_of ?db0 j = consumed_of db j" for j
    by (simp add: consumed_of_def find_insert_bucket)
  moreover have "consumed_of db' j = consumed_of ?db0 j" for j
    by (auto simp: consumed_of_def db' db1 find_bucket_def find_map_key [where k = bk_key] split: option.splits)
  ultimately show ?thesis
    using ok by (simp add: db' db1 same c fun_eq_iff)
qed

lemma charge_loop_refines:
  assumes "res_foldM (charge_insert i) db cs = Inr db'"
  shows "db_items db' = db_items db @ map (item_for i) cs \<and> db_reservations db' = db_reservations db \<and>
    (\<forall>c \<in> set cs. 0 \<le> snd (snd c)) \<and> distinct (map fst cs) \<and>
    (\<forall>c \<in> set cs. \<forall>it \<in> set (db_items db). it_reservation it = i \<longrightarrow> it_bucket it \<noteq> fst c) \<and>
    consumed_of db' = consumed_of db"
  using assms
proof (induction cs arbitrary: db)
  case (Cons c cs)
  obtain d where d: "charge_insert i db c = Inr d" and run: "res_foldM (charge_insert i) d cs = Inr db'"
    using Cons.prems by auto
  from charge_insert_refines [OF d] Cons.IH [OF run] show ?case by auto
qed simp

lemma held_of_hold_sum: "db_inv db \<Longrightarrow> held_of db k = hold_sum db k"
proof (cases "find_bucket db k")
  case None
  assume inv: "db_inv db"
  then have "\<forall>it \<in> set (db_items db). it_bucket it \<noteq> k"
    using None by (auto simp: db_inv_def)
  then have "filter (\<lambda>it. it_bucket it = k \<and> item_active db it) (db_items db) = []"
    by (simp add: filter_empty_conv)
  with None show ?thesis by (simp add: held_of_def hold_sum_def)
next
  case (Some b)
  assume "db_inv db"
  moreover have "b \<in> set (db_buckets db)" "bk_key b = k"
    using Some by (auto simp: find_bucket_def find_Some_iff)
  ultimately show ?thesis using Some by (auto simp: held_of_def db_inv_def)
qed

lemma compute_charge_fits:
  assumes "res_mapM (compute_charge p db resolved) buckets = Inr charges" "(k, m, a) \<in> set charges"
    and limits: "\<forall>b \<in> set buckets. owner_limits h p (bu_key b) (bucket_metric b) (bucket_maximum b)"
  shows "\<exists>x. (k, m, x) \<in> quota_limits h p \<and> held_of db k + consumed_of db k + a \<le> x"
proof -
  obtain b where b: "b \<in> set buckets" "compute_charge p db resolved b = Inr (k, m, a)"
    using res_mapM_Inr_mem2 [OF assms(1,2)] by blast
  from compute_charge_Inr [OF b(2)] have k: "k = bu_key b" "m = bucket_metric b"
      and fit: "held_of db k + consumed_of db k + a \<le> bucket_maximum b"
    by auto
  with limits b(1) show ?thesis by (auto simp: quota_limits_def)
qed

lemma admit_refines:
  assumes run: "admit row charges db = Inr db'" and inv: "db_inv db" and st: "rs_status row = Reserved"
    and charges: "res_mapM (compute_charge p db resolved) buckets = Inr charges"
    and limits: "\<forall>b \<in> set buckets. owner_limits h p (bu_key b) (bucket_metric b) (bucket_maximum b)"
  shows "quota_step (quota_limits h p) (quota_of db) (quota_of db')"
proof -
  let ?i = "rs_id row"
  obtain db1 where ins: "insert_reservation row db = Inr db1"
      and loop: "res_foldM (charge_insert ?i) db1 charges = Inr db'"
    using run by (auto simp: admit_def)
  note i = insert_reservation_inv [OF ins inv]
  note l = charge_loop_refines [OF loop]
  have fresh: "?i \<notin> rs_id ` set (db_reservations db)"
    using ins by (auto simp: insert_reservation_def list_ex_iff split: if_splits)
  have "it_reservation it \<noteq> ?i" if "it \<in> set (db_items db)" for it
    using inv that fresh by (auto simp: db_inv_def find_reservation_def find_None_key [symmetric])
  then have none: "items_of db ?i = []"
    by (simp add: items_of_def filter_empty_conv)
  have items: "items_of db' ?i = map (item_for ?i) charges"
    using none l i by (simp add: items_of_def filter_map comp_def)
  have others: "items_of db' j = items_of db j" if "j \<noteq> ?i" for j
    using that l i by (auto simp: items_of_def filter_empty_conv)
  have "map (ticket_of db') (db_reservations db) = map (ticket_of db) (db_reservations db)"
  proof (rule map_cong)
    fix r assume "r \<in> set (db_reservations db)"
    then have "rs_id r \<noteq> ?i" using fresh by (metis imageI)
    then show "ticket_of db' r = ticket_of db r" by (simp add: ticket_of_def others)
  qed simp
  moreover have "ticket_of db' row = \<lparr>qk_id = ?i, qk_phase = Holding, qk_bill = charges\<rparr>"
    by (simp add: ticket_of_def items st phase_of_def comp_def)
  moreover have "consumed_of db' = consumed_of db"
    using l i by (simp add: consumed_of_def find_bucket_def fun_eq_iff)
  ultimately have q': "quota_of db' = (quota_of db)\<lparr>qt_tickets := qt_tickets (quota_of db) @
      [\<lparr>qk_id = ?i, qk_phase = Holding, qk_bill = charges\<rparr>]\<rparr>"
    using l i by (simp add: quota_of_def)
  show ?thesis
    unfolding q'
  proof (rule quota_step.grant)
    show "?i \<notin> qk_id ` set (qt_tickets (quota_of db))"
      using fresh by (simp add: quota_of_def image_image)
    show "distinct (map fst charges)"
      using l by simp
    fix k m a assume c: "(k, m, a) \<in> set charges"
    have "demand (quota_of db) k = held_of db k + consumed_of db k"
      by (simp add: demand_def promised_of [OF inv] held_of_hold_sum [OF inv]) (simp add: quota_of_def)
    then show "0 \<le> a \<and> (\<exists>x. (k, m, x) \<in> quota_limits h p \<and> demand (quota_of db) k + a \<le> x)"
      using compute_charge_fits [OF charges c limits] l c by auto
  qed
qed

section \<open>The ledger implements the machine\<close>

lemma db_prim_refines:
  "db_prim h p g db db' \<Longrightarrow> db_inv db \<Longrightarrow> (quota_step (quota_limits h p))\<^sup>*\<^sup>* (quota_of db) (quota_of db')"
proof (induction rule: db_prim.induct)
  case (seen db now)
  have "quota_of (db\<lparr>db_meta := m\<rparr>) = quota_of db" for m
    by (simp add: quota_of_def ticket_of_def items_of_def consumed_of_def find_bucket_def fun_eq_iff)
  then show ?case by simp
next
  case (expired now db db' n)
  then show ?case
    using selected_rows [OF expired(2)]
    by (intro release_loop_refines [where st = Expired
        and rows = "filter (\<lambda>r. rs_status r = Reserved \<and> rs_expires r \<le> now) (db_reservations db)"])
      (auto simp: expire_rows_def Let_def active_status_def phase_of_def)
next
  case (admitted buckets db resolved charges row db')
  then show ?case by (blast intro: admit_refines)
next
  case (forwarded db i row db')
  then show ?case
    using quota_step.launch [of "ticket_of db row" "quota_of db" "quota_limits h p"] ticket_mem [OF forwarded(1)]
    by (simp add: quota_set_status [OF forwarded(4,5)] phase_of_def r_into_rtranclp)
next
  case (doubted db i row db')
  have "distinct (map qk_id (qt_tickets (quota_of db)))"
    using doubted(4) by (simp add: quota_of_def db_inv_def comp_def)
  then have "set_phase i InFlight (quota_of db) = quota_of db"
    using set_phase_same [of "quota_of db" "ticket_of db row"] ticket_mem [OF doubted(1)]
    by (simp add: doubted(2) phase_of_def)
  then show ?case
    by (simp add: quota_set_status [OF doubted(3,4)] phase_of_def)
next
  case (canceled db i row db')
  then show ?case
    using release_refines [OF canceled(3,4,1,2)] by (simp add: phase_of_def r_into_rtranclp)
next
  case (settled db row late epoch no_effect observed settlement db')
  then show ?case by (intro r_into_rtranclp settle_refines) auto
qed

lemma led_refines:
  assumes "(led_prim h)\<^sup>*\<^sup>* s s'" "db_inv (ld_db s)"
  shows "(quota_step (quota_limits h (ld_policy s)))\<^sup>*\<^sup>* (quota_of (ld_db s)) (quota_of (ld_db s'))"
  using assms(1)
proof (induction rule: rtranclp_induct)
  case (step y z)
  have "db_inv (ld_db y)" "ld_policy y = ld_policy s"
    using led_inv [OF step(1) assms(2)] led_prims_same [OF step(1)] by (simp_all add: same_ledger_def)
  with step(2) have "(quota_step (quota_limits h (ld_policy s)))\<^sup>*\<^sup>* (quota_of (ld_db y)) (quota_of (ld_db z))"
    by cases (auto dest: db_prim_refines)
  with step(3) show ?case by (rule rtranclp_trans)
qed simp

lemma quota_of_meta [simp]: "quota_of (db\<lparr>db_meta := m\<rparr>) = quota_of db"
  by (simp add: quota_of_def ticket_of_def items_of_def consumed_of_def find_bucket_def fun_eq_iff)

lemma recover_refines:
  assumes "recover db = Inr db'" "db_inv db"
  shows "(quota_step L)\<^sup>*\<^sup>* (quota_of db) (quota_of db')"
proof -
  let ?rows = "filter (\<lambda>r. rs_status r = Reserved) (db_reservations db)"
  obtain db1 where loop: "res_foldM (\<lambda>d r. release (rs_id r) Canceled d) db ?rows = Inr db1"
      and db': "db' = db1\<lparr>db_reservations := map doubt_forwarding (db_reservations db1)\<rparr>"
    using assms(1) by (auto simp: recover_def doubt_forwarding_def [abs_def])
  have "ticket_of db' (doubt_forwarding r) = ticket_of db1 r" for r
    by (simp add: ticket_of_def db' items_of_def) (simp add: doubt_forwarding_def phase_of_def)
  then have "quota_of db' = quota_of db1"
    by (simp add: quota_of_def) (simp add: db' consumed_of_def find_bucket_def fun_eq_iff)
  moreover have "(quota_step L)\<^sup>*\<^sup>* (quota_of db) (quota_of db1)"
    using selected_rows [OF assms(2)]
    by (intro release_loop_refines [OF loop assms(2)]) (auto simp: active_status_def phase_of_def)
  ultimately show ?thesis by simp
qed

lemma restart_refines:
  assumes "start_ledger h v reading nonce s = (s', Inr u)" "db_inv (ld_db s)"
  shows "(quota_step L)\<^sup>*\<^sup>* (quota_of (ld_db s)) (quota_of (ld_db s'))" "db_inv (ld_db s')"
  using start_ledger_Inr [OF assms(1)] assms(2) recover_refines recover_Inr
  by (fastforce split: option.splits)+

text \<open>The invariant of the machine, read off the tables.\<close>

definition within_limits :: "host_env \<Rightarrow> budget_policy \<Rightarrow> budget_db \<Rightarrow> bool" where
  "within_limits h p db = (\<forall>b \<in> set (db_buckets db).
     bk_held b + bk_consumed b = 0 \<or>
     (\<exists>it \<in> set (db_items db). it_bucket it = bk_key b \<and>
        (\<exists>r. find_reservation db (it_reservation it) = Some r \<and> rs_status r = Overrun)) \<or>
     (\<exists>it \<in> set (db_items db). it_bucket it = bk_key b \<and>
        owner_limits h p (bk_key b) (it_metric it) (bk_held b + bk_consumed b)))"

lemma tickets_of [simp]: "qt_tickets (quota_of db) = map (ticket_of db) (db_reservations db)"
  by (simp add: quota_of_def)

lemma quota_wf_of: "db_inv db \<Longrightarrow> quota_wf (quota_of db)"
  using set_items_of [of db]
  by (auto simp: quota_wf_def quota_of_def comp_def consumed_of_def db_inv_def bucket_checks_def
      find_bucket_def find_Some_iff subset_iff split: option.splits)

lemma demand_of:
  assumes "db_inv db"
  shows "demand (quota_of db) k = held_of db k + consumed_of db k"
  by (simp add: demand_def promised_of [OF assms] held_of_hold_sum [OF assms]) (simp add: quota_of_def)

lemma excused_of:
  assumes "db_inv db"
  shows "excused (quota_of db) k = (\<exists>it \<in> set (db_items db). it_bucket it = k \<and>
    (\<exists>r. find_reservation db (it_reservation it) = Some r \<and> rs_status r = Overrun))"
proof -
  have "phase_of st = Exceeded \<longleftrightarrow> st = Overrun" for st
    by (cases st) (simp_all add: phase_of_def)
  moreover have "k \<in> it_bucket ` {it \<in> set (db_items db). it_reservation it = rs_id r} \<longleftrightarrow>
      (\<exists>it \<in> set (db_items db). rs_id r = it_reservation it \<and> it_bucket it = k)" for r
    by (simp add: image_iff) metis
  ultimately have tickets: "excused (quota_of db) k = (\<exists>r \<in> set (db_reservations db). rs_status r = Overrun \<and>
      (\<exists>it \<in> set (db_items db). rs_id r = it_reservation it \<and> it_bucket it = k))"
    by (simp add: excused_def items_of_def image_image) blast
  have found: "find_reservation db i = Some r \<longleftrightarrow> r \<in> set (db_reservations db) \<and> rs_id r = i" for i r
    using assms by (simp add: db_inv_def find_reservation_def find_key_iff)
  show ?thesis unfolding tickets found by blast
qed

lemma bill_of:
  "(\<exists>m a x. (k, m, a) \<in> set (qk_bill (ticket_of db r)) \<and> P m x) \<longleftrightarrow>
     (\<exists>it \<in> set (db_items db). it_reservation it = rs_id r \<and> it_bucket it = k \<and> (\<exists>x. P (it_metric it) x))"
  by (auto simp: items_of_def charge_of_def image_iff)

lemma capped_of:
  assumes "db_inv db"
  shows "capped (quota_limits h p) (quota_of db) k = (held_of db k + consumed_of db k = 0 \<or>
    (\<exists>it \<in> set (db_items db). it_bucket it = k \<and>
       owner_limits h p k (it_metric it) (held_of db k + consumed_of db k)))"
proof -
  have "it_reservation it \<in> rs_id ` set (db_reservations db)" if "it \<in> set (db_items db)" for it
    using assms that by (simp add: db_inv_def find_reservation_def find_None_key)
  then have known: "\<exists>r \<in> set (db_reservations db). it_reservation it = rs_id r"
    if "it \<in> set (db_items db)" for it
    using that by auto
  have lim: "(\<exists>x. (k, m, x) \<in> quota_limits h p \<and> d \<le> x) \<longleftrightarrow> owner_limits h p k m d" for m d
    by (auto simp: quota_limits_def intro: owner_limits_mono)
  show ?thesis
    unfolding capped_def demand_of [OF assms] tickets_of set_map bex_simps bill_of lim
    using known by blast
qed

lemma quota_ok_of:
  assumes "db_inv db"
  shows "quota_ok (quota_limits h p) (quota_of db) = within_limits h p db"
proof -
  have "find_bucket db (bk_key b) = Some b" if "b \<in> set (db_buckets db)" for b
    using assms that by (auto simp: db_inv_def find_bucket_def find_key_iff)
  then have at: "held_of db (bk_key b) = bk_held b" "consumed_of db (bk_key b) = bk_consumed b"
    if "b \<in> set (db_buckets db)" for b
    using that by (simp_all add: held_of_def consumed_of_def)
  have none: "held_of db k + consumed_of db k = 0" if "k \<notin> bk_key ` set (db_buckets db)" for k
    using that by (simp add: held_of_def consumed_of_def find_bucket_def find_None_key [THEN iffD2])
  have "(\<forall>k. Q k \<or> (held_of db k + consumed_of db k = 0 \<or> R k)) \<longleftrightarrow>
      (\<forall>b \<in> set (db_buckets db). Q (bk_key b) \<or>
         (held_of db (bk_key b) + consumed_of db (bk_key b) = 0 \<or> R (bk_key b)))" for Q R
  proof (intro iffI allI)
    fix k assume all: "\<forall>b \<in> set (db_buckets db). Q (bk_key b) \<or>
      (held_of db (bk_key b) + consumed_of db (bk_key b) = 0 \<or> R (bk_key b))"
    show "Q k \<or> (held_of db k + consumed_of db k = 0 \<or> R k)"
    proof (cases "k \<in> bk_key ` set (db_buckets db)")
      case True
      with all show ?thesis by auto
    qed (use none in simp)
  qed simp
  then show ?thesis
    unfolding quota_ok_def excused_of [OF assms] capped_of [OF assms] within_limits_def
    using quota_wf_of [OF assms] at by (simp cong: ball_cong) (simp add: disj_left_commute)
qed

section \<open>Properties\<close>

text \<open>C8: The ledger implements the quota machine: read as tickets with bills, whatever sequence of
  calls is made on a ledger with consistent tables, and any restart of its coordinator, is a
  sequence of the machine's steps: a grant that fits its limits, a launch, a drop, or an
  accounting that charges only what the ticket was billed for and at most its bill unless it
  is marked.\<close>

theorem ledger_refines_quota:
  assumes "db_inv (ld_db s)"
  shows "(quota_step (quota_limits h (ld_policy s)))\<^sup>*\<^sup>*
      (quota_of (ld_db s)) (quota_of (ld_db (foldl (ledger_step h) s calls))) \<and>
    (\<forall>v reading nonce s'. start_ledger h v reading nonce s = (s', Inr ()) \<longrightarrow>
      (quota_step (quota_limits h (ld_policy s)))\<^sup>*\<^sup>* (quota_of (ld_db s)) (quota_of (ld_db s')))"
  using led_refines [OF ledger_run_prims assms] restart_refines(1) assms by blast

text \<open>C21: No run of the ledger spends more of a bucket than the limits of its owner allow, unless a trusted
  observation exceeded its reservation: if the held and consumed units of every bucket are within
  every limit of its own scope, metric and subject, they stay so, except on a bucket billed by a
  reservation that was settled as overrun. A restart of the coordinator keeps this too.\<close>

theorem overspending_only_by_overrun:
  assumes "db_inv (ld_db s)" and "within_limits h (ld_policy s) (ld_db s)"
  shows "within_limits h (ld_policy s) (ld_db (foldl (ledger_step h) s calls)) \<and>
    (\<forall>v reading nonce s'. start_ledger h v reading nonce s = (s', Inr ()) \<longrightarrow>
       within_limits h (ld_policy s) (ld_db s'))"
proof (intro conjI allI impI)
  note ok = assms(2) [folded quota_ok_of [OF assms(1)]]
  show "within_limits h (ld_policy s) (ld_db (foldl (ledger_step h) s calls))"
    using quota_steps_ok [OF led_refines [OF ledger_run_prims assms(1)] ok]
      led_inv [OF ledger_run_prims assms(1)] by (simp add: quota_ok_of)
  fix v reading nonce s' assume start: "start_ledger h v reading nonce s = (s', Inr ())"
  show "within_limits h (ld_policy s) (ld_db s')"
    using quota_steps_ok [OF restart_refines(1) [OF start assms(1)] ok]
      restart_refines(2) [OF start assms(1)] by (simp add: quota_ok_of)
qed

section \<open>Witnesses\<close>

lemma ledger_refines_quota_witness:
  "(quota_step (quota_limits budget_env sample_budget))\<^sup>*\<^sup>* (quota_of sample_db) (quota_of expired_db)"
  using ledger_refines_quota [of sample_ledger budget_env "[ForgeTicket ''r'', ExpireAll (HFloat (Float 70))]"]
    sample_db_inv by (simp only: sample_expiry) (simp add: sample_ledger_def)

text \<open>A ledger with empty tables, and the bucket its first reservation charges.\<close>

definition opened_ledger :: ledger where
  "opened_ledger = budget_ledger\<lparr>ld_db := sample_db\<lparr>db_buckets := [], db_reservations := [], db_items := []\<rparr>\<rparr>"

lemma opened_reservation:
  "ld_db (ledger_step budget_env opened_ledger (Reserve sample_request (HFloat (Float 1)) (HFloat (Float 2)) ''u'')) =
     \<lparr>db_meta = Some \<lparr>me_digest = ''d'', me_epoch = 0, me_generation = 1, me_nonce = ''n'', me_last = 2\<rparr>,
      db_buckets = [\<lparr>bk_key = ''d'', bk_metric = ''tokens'', bk_held = 2, bk_consumed = 0, bk_observed = 0,
         bk_observations = 0, bk_blocked = -1\<rparr>],
      db_reservations = [\<lparr>rs_id = ''u'', rs_key = ''d'', rs_context = ''d'', rs_action = ''d'',
         rs_costs = ''d'', rs_epoch = 0, rs_generation = 1, rs_status = Reserved, rs_expires = 62,
         rs_settlement = None\<rparr>],
      db_items = [\<lparr>it_reservation = ''u'', it_bucket = ''d'', it_metric = ''tokens'', it_amount = 2\<rparr>]\<rparr>"
  by (simp add: ledger_step_def reserve_sample opened_ledger_def budget_ledger_def sample_ledger_def admission_def
      admission_eval admission_tables op_ignore_def)
    (simp add: sample_budget_def sample_limit_def number_value_def op_defs publish_def)

lemma overspending_only_by_overrun_witness:
  "\<exists>b \<in> set (db_buckets (ld_db (ledger_step budget_env opened_ledger
       (Reserve sample_request (HFloat (Float 1)) (HFloat (Float 2)) ''u'')))). bk_held b = 2 \<and>
     owner_limits budget_env sample_budget (bk_key b) (bk_metric b) (bk_held b + bk_consumed b)"
proof -
  have "db_inv (ld_db opened_ledger)" "within_limits budget_env (ld_policy opened_ledger) (ld_db opened_ledger)"
    by (simp_all add: opened_ledger_def budget_ledger_def sample_ledger_def sample_db_def db_inv_def
        within_limits_def)
  from overspending_only_by_overrun [OF this, of "[Reserve sample_request (HFloat (Float 1)) (HFloat (Float 2)) ''u'']"]
  have "within_limits budget_env sample_budget (ld_db (ledger_step budget_env opened_ledger
      (Reserve sample_request (HFloat (Float 1)) (HFloat (Float 2)) ''u'')))"
    by (simp add: opened_ledger_def budget_ledger_def sample_ledger_def)
  then show ?thesis
    unfolding opened_reservation
    by (simp add: within_limits_def find_reservation_def)
qed

end
