(* ===== verification/Schema.thy ===== *)
theory Schema
  imports Runtime_Json
begin

text \<open>
  The schema checks of the runtime contracts: \<^verbatim>\<open>validate_instance\<close> of \<^verbatim>\<open>ordin/schema.py\<close>, the
  shapes of \<^verbatim>\<open>ordin/_runtime_schemas.py\<close> the capability models are checked against, and
  \<^verbatim>\<open>validate\<close> of \<^verbatim>\<open>ordin/_runtime_json.py\<close>.

  A schema is the list of the keywords of the JSON object; a \<^verbatim>\<open>pattern\<close> is the set of strings
  \<^verbatim>\<open>re.search\<close> accepts it on. The callers modelled here only ask whether the list of errors is
  empty, so the model says which instances conform and leaves out the messages.
\<close>

section \<open>Schemas\<close>

datatype schema = Schema "keyword list"
and keyword =
    Types "string list"
  | Const json
  | Enum "json list"
  | MinLength nat
  | MaxLength nat
  | Pattern "string \<Rightarrow> bool"
  | Minimum int
  | Maximum int
  | UniqueItems
  | MinItems nat
  | MaxItems nat
  | Items schema
  | MaxProperties nat
  | Required "string list"
  | Properties "(string \<times> schema) list"
  | NoAdditional
  | Additional schema
  | AnyOf "schema list"
  | OneOf "schema list"

definition property_names :: "keyword list \<Rightarrow> string list" where
  "property_names ks = concat (map (\<lambda>k. case k of Properties qs \<Rightarrow> map fst qs | _ \<Rightarrow> []) ks)"

definition type_matches :: "json \<Rightarrow> string \<Rightarrow> bool" where
  "type_matches j t =
     (if t = ''null'' then j = JNull
      else if t = ''boolean'' then (case j of JBool _ \<Rightarrow> True | _ \<Rightarrow> False)
      else if t = ''integer'' then (case j of JInt _ \<Rightarrow> True | _ \<Rightarrow> False)
      else if t = ''number'' then (case j of JInt _ \<Rightarrow> True | JFloat _ \<Rightarrow> True | _ \<Rightarrow> False)
      else if t = ''string'' then (case j of JStr _ \<Rightarrow> True | _ \<Rightarrow> False)
      else if t = ''array'' then (case j of JArr _ \<Rightarrow> True | _ \<Rightarrow> False)
      else if t = ''object'' then (case j of JObj _ \<Rightarrow> True | _ \<Rightarrow> False)
      else True)"

text \<open>Python's \<^verbatim>\<open>==\<close>: a boolean is the integer it stands for, an integer equals the float.\<close>

definition json_number :: "json \<Rightarrow> rat option" where
  "json_number j = (case j of JBool b \<Rightarrow> Some (if b then 1 else 0) | JInt i \<Rightarrow> Some (of_int i)
     | JFloat x \<Rightarrow> Some (float_value x) | _ \<Rightarrow> None)"

fun py_equal :: "json \<Rightarrow> json \<Rightarrow> bool" where
  "py_equal (JArr xs) j = (case j of JArr ys \<Rightarrow> list_all2 py_equal xs ys | _ \<Rightarrow> False)"
| "py_equal (JObj p) j = (case j of JObj q \<Rightarrow> length p = length q \<and>
     (\<forall>m \<in> set p. \<exists>n \<in> set q. fst n = fst m \<and> py_equal (snd m) (snd n)) | _ \<Rightarrow> False)"
| "py_equal i j = (i = j \<or> json_number i \<noteq> None \<and> json_number i = json_number j)"

text \<open>Equality of the items of \<^verbatim>\<open>uniqueItems\<close>: booleans are not numbers there.\<close>

fun json_same :: "json \<Rightarrow> json \<Rightarrow> bool" where
  "json_same (JArr xs) j = (case j of JArr ys \<Rightarrow> list_all2 json_same xs ys | _ \<Rightarrow> False)"
| "json_same (JObj p) j = (case j of JObj q \<Rightarrow> length p = length q \<and>
     (\<forall>m \<in> set p. \<exists>n \<in> set q. fst n = fst m \<and> json_same (snd m) (snd n)) | _ \<Rightarrow> False)"
| "json_same (JInt i) j = (case j of JInt k \<Rightarrow> i = k | JFloat x \<Rightarrow> of_int i = float_value x | _ \<Rightarrow> False)"
| "json_same (JFloat x) j = (case j of JInt k \<Rightarrow> float_value x = of_int k | JFloat y \<Rightarrow> float_value x = float_value y | _ \<Rightarrow> False)"
| "json_same i j = (i = j)"

fun all_unique :: "json list \<Rightarrow> bool" where
  "all_unique [] = True"
| "all_unique (x # xs) = (\<not> list_ex (json_same x) xs \<and> all_unique xs)"

fun conforms :: "schema \<Rightarrow> json \<Rightarrow> bool"
and satisfies :: "string list \<Rightarrow> json \<Rightarrow> keyword \<Rightarrow> bool" where
  "conforms (Schema ks) j = (\<forall>k \<in> set ks. satisfies (property_names ks) j k)"
| "satisfies ps j (Types ts) = list_ex (type_matches j) ts"
| "satisfies ps j (Const c) = py_equal j c"
| "satisfies ps j (Enum cs) = list_ex (py_equal j) cs"
| "satisfies ps j (MinLength n) = (case j of JStr s \<Rightarrow> n \<le> length s | _ \<Rightarrow> True)"
| "satisfies ps j (MaxLength n) = (case j of JStr s \<Rightarrow> length s \<le> n | _ \<Rightarrow> True)"
| "satisfies ps j (Pattern p) = (case j of JStr s \<Rightarrow> p s | _ \<Rightarrow> True)"
| "satisfies ps j (Minimum n) =
     (case j of JInt i \<Rightarrow> n \<le> i | JFloat x \<Rightarrow> of_int n \<le> float_value x | _ \<Rightarrow> True)"
| "satisfies ps j (Maximum n) =
     (case j of JInt i \<Rightarrow> i \<le> n | JFloat x \<Rightarrow> float_value x \<le> of_int n | _ \<Rightarrow> True)"
| "satisfies ps j UniqueItems = (case j of JArr xs \<Rightarrow> all_unique xs | _ \<Rightarrow> True)"
| "satisfies ps j (MinItems n) = (case j of JArr xs \<Rightarrow> n \<le> length xs | _ \<Rightarrow> True)"
| "satisfies ps j (MaxItems n) = (case j of JArr xs \<Rightarrow> length xs \<le> n | _ \<Rightarrow> True)"
| "satisfies ps j (Items s) = (case j of JArr xs \<Rightarrow> (\<forall>x \<in> set xs. conforms s x) | _ \<Rightarrow> True)"
| "satisfies ps j (MaxProperties n) = (case j of JObj p \<Rightarrow> length p \<le> n | _ \<Rightarrow> True)"
| "satisfies ps j (Required ks) = (case j of JObj p \<Rightarrow> set ks \<subseteq> fst ` set p | _ \<Rightarrow> True)"
| "satisfies ps j (Properties qs) = (case j of JObj p \<Rightarrow>
     (\<forall>m \<in> set p. \<forall>q \<in> set qs. fst q = fst m \<longrightarrow> conforms (snd q) (snd m)) | _ \<Rightarrow> True)"
| "satisfies ps j NoAdditional = (case j of JObj p \<Rightarrow> fst ` set p \<subseteq> set ps | _ \<Rightarrow> True)"
| "satisfies ps j (Additional s) = (case j of JObj p \<Rightarrow>
     (\<forall>m \<in> set p. fst m \<in> set ps \<or> conforms s (snd m)) | _ \<Rightarrow> True)"
| "satisfies ps j (AnyOf ss) = (ss = [] \<or> (\<exists>s \<in> set ss. conforms s j))"
| "satisfies ps j (OneOf ss) =
     (length (filter (\<lambda>s. conforms s j) ss) = 1)"

section \<open>Patterns\<close>

text \<open>
  Every pattern is \<^verbatim>\<open>^...$\<close> under \<^verbatim>\<open>re.search\<close>, where \<^verbatim>\<open>$\<close> also matches before a final newline.
\<close>

definition anchored :: "(string \<Rightarrow> bool) \<Rightarrow> string \<Rightarrow> bool" where
  "anchored p s = (p s \<or> s \<noteq> [] \<and> cp (last s) = 10 \<and> p (butlast s))"

definition lead_rest :: "(char \<Rightarrow> bool) \<Rightarrow> (char \<Rightarrow> bool) \<Rightarrow> string \<Rightarrow> bool" where
  "lead_rest p q s = (case s of [] \<Rightarrow> False | c # cs \<Rightarrow> p c \<and> list_all q cs)"

definition lower_hex :: "char \<Rightarrow> bool" where
  "lower_hex c = (let n = cp c in 48 \<le> n \<and> n \<le> 57 \<or> 97 \<le> n \<and> n \<le> 102)"

definition digest_text :: "string \<Rightarrow> bool" where
  "digest_text s = (length s = 64 \<and> list_all lower_hex s)"

definition identifier_text :: "string \<Rightarrow> bool" where
  "identifier_text = lead_rest ascii_alnum (\<lambda>c. ascii_alnum c \<or> c \<in> set ''_.:/@-'')"

definition host_text :: "string \<Rightarrow> bool" where
  "host_text = lead_rest ascii_alnum (\<lambda>c. ascii_alnum c \<or> c \<in> set ''.:-'')"

definition effect_text :: "string \<Rightarrow> bool" where
  "effect_text = lead_rest (\<lambda>c. 97 \<le> cp c \<and> cp c \<le> 122)
     (\<lambda>c. 97 \<le> cp c \<and> cp c \<le> 122 \<or> 48 \<le> cp c \<and> cp c \<le> 57 \<or> c \<in> set ''_.-'')"

definition contract_id_text :: "string \<Rightarrow> string \<Rightarrow> bool" where
  "contract_id_text prefix s = (startswith s prefix \<and> digest_text (drop (length prefix) s))"

section \<open>Shapes of the runtime contracts\<close>

definition text_shape :: "nat \<Rightarrow> schema" where
  "text_shape maximum = Schema [Types [''string''], MinLength 1, MaxLength maximum]"

definition nullable_text :: "nat \<Rightarrow> schema" where
  "nullable_text maximum = Schema [Types [''string'', ''null''], MinLength 1, MaxLength maximum]"

definition pattern_shape :: "nat \<Rightarrow> (string \<Rightarrow> bool) \<Rightarrow> schema" where
  "pattern_shape maximum p =
     Schema [Types [''string''], MinLength 1, MaxLength maximum, Pattern (anchored p)]"

definition nullable_pattern :: "nat \<Rightarrow> (string \<Rightarrow> bool) \<Rightarrow> schema" where
  "nullable_pattern maximum p =
     Schema [Types [''string'', ''null''], MinLength 1, MaxLength maximum, Pattern (anchored p)]"

definition array_shape :: "nat \<Rightarrow> schema \<Rightarrow> schema" where
  "array_shape maximum item = Schema [Types [''array''], MaxItems maximum, Items item]"

definition obj_shape :: "(string \<times> schema) list \<Rightarrow> schema" where
  "obj_shape ps = Schema [Types [''object''], Properties ps, Required (map fst ps), NoAdditional]"

definition enum_shape :: "string list \<Rightarrow> schema" where
  "enum_shape vs = Schema [Types [''string''], Enum (map JStr vs)]"

definition digest_shape :: schema where "digest_shape = pattern_shape 64 digest_text"
definition nullable_digest :: schema where "nullable_digest = nullable_pattern 64 digest_text"
definition identifier_shape :: schema where "identifier_shape = pattern_shape 128 identifier_text"
definition nullable_host :: schema where "nullable_host = nullable_pattern 253 host_text"
definition host_shape :: schema where "host_shape = pattern_shape 253 host_text"

definition nullable_port :: schema where
  "nullable_port = Schema [Types [''integer'', ''null''], Minimum 1, Maximum 65535]"

definition port_shape :: schema where
  "port_shape = Schema [Types [''integer''], Minimum 1, Maximum 65535]"

definition nullable_bool :: schema where "nullable_bool = Schema [Types [''boolean'', ''null'']]"
definition bool_shape :: schema where "bool_shape = Schema [Types [''boolean'']]"

definition http_methods :: "string list" where
  "http_methods = [''GET'', ''HEAD'', ''POST'', ''PUT'', ''PATCH'', ''DELETE'', ''OPTIONS'',
     ''CONNECT'', ''TRACE'']"

definition filesystem_shape :: schema where
  "filesystem_shape = obj_shape [
     (''access'', enum_shape [''read'', ''write'', ''delete'', ''metadata'', ''execute'', ''unknown'']),
     (''path'', nullable_text 4096), (''scope'', enum_shape [''exact'', ''prefix'', ''unknown''])]"

definition network_shape :: schema where
  "network_shape = obj_shape [
     (''host'', nullable_host), (''port'', nullable_port),
     (''protocol'', enum_shape [''rest'', ''mcp'', ''json-rpc'', ''graphql'', ''websocket'', ''tcp'',
        ''unknown'']),
     (''access'', enum_shape [''read'', ''write'', ''unknown'']),
     (''methods'', array_shape 32 (enum_shape http_methods)),
     (''paths'', array_shape 128 (text_shape 4096)), (''tool_identity'', nullable_text 256)]"

definition tool_shape :: schema where
  "tool_shape = obj_shape [
     (''runtime'', text_shape 128), (''server'', nullable_text 256), (''tool'', text_shape 256),
     (''operation'', Schema [Const (JStr ''call''), Types [''string'']])]"

definition process_shape :: schema where
  "process_shape = obj_shape [
     (''execution'', nullable_bool), (''executables'', array_shape 128 (text_shape 4096)),
     (''spawn_children'', nullable_bool)]"

definition privilege_shape :: schema where
  "privilege_shape = obj_shape [
     (''escalation'', nullable_bool),
     (''required_euid'', Schema [Types [''integer'', ''null''], Minimum 0])]"

definition credential_shape :: schema where
  "credential_shape = obj_shape [
     (''binding'', identifier_shape), (''host'', host_shape), (''port'', port_shape)]"

definition unknown_shape :: schema where
  "unknown_shape = obj_shape [
     (''domain'', enum_shape [''filesystem'', ''network'', ''process'', ''privilege'', ''credential'',
        ''tool'', ''semantics'']),
     (''reason_code'', identifier_shape), (''reason'', text_shape 4096)]"

definition source_shape :: schema where
  "source_shape = obj_shape [
     (''kind'', text_shape 64), (''operation'', text_shape 128), (''adapter'', nullable_text 128),
     (''effects'', array_shape 128 (pattern_shape 256 effect_text)),
     (''provenance_digest'', nullable_digest)]"


definition capability_shape :: schema where
  "capability_shape = Schema [Types [''object''], NoAdditional,
     Required [''schema_version'', ''contract_id'', ''action_id'', ''action_digest'', ''decision'',
       ''risk'', ''grant_state'', ''filesystem'', ''network'', ''tools'', ''process'', ''privilege'',
       ''credentials'', ''unknowns'', ''source''],
     Properties [
     (''schema_version'', Schema [Const (JStr ''ordin.runtime_capability.v1'')]),
     (''contract_id'', pattern_shape 67 (contract_id_text ''rc:'')),
     (''action_id'', nullable_text 128), (''action_digest'', digest_shape),
     (''decision'', enum_shape [''allow'', ''warn'', ''ask'', ''block'']),
     (''risk'', enum_shape [''low'', ''medium'', ''high'', ''critical'', ''unknown'']),
     (''grant_state'', enum_shape [''eligible'', ''requires_approval'', ''diagnostic'']),
     (''filesystem'', array_shape 128 filesystem_shape), (''network'', array_shape 128 network_shape),
     (''tools'', array_shape 128 tool_shape), (''process'', process_shape),
     (''privilege'', privilege_shape), (''credentials'', array_shape 128 credential_shape),
     (''unknowns'', array_shape 128 unknown_shape), (''source'', source_shape),
     (''approval_execution_lease_digest'', digest_shape)]]"

definition boundary_shape :: schema where
  "boundary_shape = obj_shape [
     (''schema_version'', Schema [Const (JStr ''ordin.runtime_capability_boundary.v1'')]),
     (''boundary_id'', identifier_shape),
     (''filesystem'', array_shape 128 filesystem_shape), (''network'', array_shape 128 network_shape),
     (''tools'', array_shape 128 tool_shape), (''process'', process_shape),
     (''privilege'', privilege_shape), (''credentials'', array_shape 128 credential_shape),
     (''filesystem_semantics'', enum_shape [''exact'', ''lexical_prefix'']),
     (''runtime_filesystem_guarantees'', bool_shape), (''allow_any_executable'', bool_shape)]"

section \<open>\<^verbatim>\<open>validate\<close>\<close>

definition max_runtime_bytes :: nat where "max_runtime_bytes = 1048576"

definition validate_shape :: "host_env \<Rightarrow> nat \<Rightarrow> string \<Rightarrow> schema \<Rightarrow> json \<Rightarrow> unit res" where
  "validate_shape h max_items name shape payload =
     res_bind (freeze 0 max_runtime_depth max_items payload) (\<lambda>detached.
     if length (utf8 (canonical_json h detached)) > max_runtime_bytes
     then Inl (ValueError ''runtime JSON byte limit exceeded'')
     else if \<not> conforms shape detached
     then Inl (ValueError (''invalid '' @ name @ '': schema validation failed''))
     else Inr ())"

text \<open>\<^verbatim>\<open>text_tuple\<close> and the length check of \<^verbatim>\<open>model_tuple\<close>, for values of the right types.\<close>

definition text_tuple :: "string list \<Rightarrow> string list res" where
  "text_tuple xs =
     (if length xs > max_runtime_items
      then Inl (ValueError ''runtime text values require a bounded array'')
      else res_bind (freeze 0 max_runtime_depth max_runtime_items (JArr (map JStr xs))) (\<lambda>_. Inr xs))"

definition model_tuple :: "'a list \<Rightarrow> 'a list res" where
  "model_tuple xs =
     (if length xs > max_runtime_items
      then Inl (ValueError ''runtime capabilities require a bounded collection'') else Inr xs)"

section \<open>Lemmas\<close>

lemma validate_shape_ok:
  "validate_shape h n name shape j = Inr u \<longleftrightarrow>
     freeze 0 max_runtime_depth n j = Inr j \<and>
     length (utf8 (canonical_json h j)) \<le> max_runtime_bytes \<and> conforms shape j"
  by (auto simp: validate_shape_def not_less dest: freeze_id split: if_splits)

lemma text_tuple_ok: "text_tuple xs = Inr ys \<Longrightarrow> ys = xs \<and> length xs \<le> 128"
  by (auto simp: text_tuple_def max_runtime_items_def split: if_splits)

lemma model_tuple_ok [simp]: "model_tuple xs = Inr ys \<longleftrightarrow> ys = xs \<and> length xs \<le> 128"
  by (auto simp: model_tuple_def max_runtime_items_def)

text \<open>An object that conforms to an object shape has exactly its members, each conforming.\<close>

lemma conforms_obj:
  assumes "conforms (obj_shape ps) (JObj p)"
  shows "fst ` set p = fst ` set ps"
    "(k, s) \<in> set ps \<Longrightarrow> (k, v) \<in> set p \<Longrightarrow> conforms s v"
  using assms by (auto simp: obj_shape_def property_names_def) force

lemma conforms_object: "conforms (obj_shape ps) j \<Longrightarrow> \<exists>p. j = JObj p"
  by (cases j) (auto simp: obj_shape_def type_matches_def)

lemma conforms_enum: "conforms (enum_shape vs) (JStr s) \<longleftrightarrow> s \<in> set vs"
  by (auto simp: enum_shape_def type_matches_def list_ex_iff json_number_def)

lemma conforms_array: "conforms (array_shape n s) (JArr xs) \<longleftrightarrow> length xs \<le> n \<and> (\<forall>x \<in> set xs. conforms s x)"
  by (auto simp: array_shape_def type_matches_def)

lemma conforms_text: "conforms (text_shape n) (JStr s) \<longleftrightarrow> s \<noteq> [] \<and> length s \<le> n"
  by (cases s) (auto simp: text_shape_def type_matches_def)

lemma conforms_nullable_text:
  "conforms (nullable_text n) (option_json v) \<longleftrightarrow> (\<forall>s. v = Some s \<longrightarrow> s \<noteq> [] \<and> length s \<le> n)"
  by (cases v) (auto simp: nullable_text_def type_matches_def option_json_def Suc_le_eq)

lemmas shape_defs = obj_shape_def pattern_shape_def text_shape_def nullable_text_def digest_shape_def
  enum_shape_def array_shape_def filesystem_shape_def network_shape_def tool_shape_def
  process_shape_def privilege_shape_def credential_shape_def unknown_shape_def source_shape_def
  capability_shape_def boundary_shape_def identifier_shape_def bool_shape_def host_shape_def
  port_shape_def nullable_port_def nullable_bool_def nullable_host_def nullable_pattern_def
  nullable_digest_def type_matches_def property_names_def

lemmas pattern_defs = anchored_def lead_rest_def lower_hex_def digest_text_def contract_id_text_def
  identifier_text_def host_text_def effect_text_def

end
