(* ===== verification/Capability.thy ===== *)
theory Capability
  imports Schema
begin

text \<open>
  The capability models of \<^verbatim>\<open>ordin/runtime_contract.py\<close>: what an action needs of the file system,
  the network, tools, processes, privileges and credentials, and the contract that binds such
  needs to an action. Contracts are modelled without an approval lease
  (\<^verbatim>\<open>_approval_lease\<close> is \<^verbatim>\<open>None\<close>, as in every contract built here).
\<close>

section \<open>Models\<close>

record filesystem_capability =
  fs_access :: string
  fs_path :: "string option"
  fs_scope :: string

record network_capability =
  nt_host :: "string option"
  nt_port :: "int option"
  nt_protocol :: string
  nt_access :: string
  nt_methods :: "string list"
  nt_paths :: "string list"
  nt_identity :: "string option"

record tool_capability =
  tl_runtime :: string
  tl_server :: "string option"
  tl_tool :: string
  tl_operation :: string

record process_capability =
  pc_execution :: "bool option"
  pc_executables :: "string list"
  pc_children :: "bool option"

record privilege_capability =
  pv_escalation :: "bool option"
  pv_euid :: "int option"

record credential_binding =
  cb_binding :: string
  cb_host :: string
  cb_port :: int

record capability_unknown =
  cu_domain :: string
  cu_code :: string
  cu_reason :: string

record capability_contract =
  cc_action :: "string option"
  cc_action_digest :: string
  cc_decision :: string
  cc_risk :: string
  cc_filesystem :: "filesystem_capability list"
  cc_network :: "network_capability list"
  cc_tools :: "tool_capability list"
  cc_process :: process_capability
  cc_privilege :: privilege_capability
  cc_credentials :: "credential_binding list"
  cc_unknowns :: "capability_unknown list"
  cc_source :: payload
  cc_id :: string

section \<open>As JSON\<close>

definition int_json :: "int option \<Rightarrow> json" where
  "int_json v = (case v of None \<Rightarrow> JNull | Some i \<Rightarrow> JInt i)"

definition bool_json :: "bool option \<Rightarrow> json" where
  "bool_json v = (case v of None \<Rightarrow> JNull | Some b \<Rightarrow> JBool b)"

definition strings_json :: "string list \<Rightarrow> json" where
  "strings_json xs = JArr (map JStr xs)"

definition filesystem_json :: "filesystem_capability \<Rightarrow> json" where
  "filesystem_json c = JObj [(''access'', JStr (fs_access c)), (''path'', option_json (fs_path c)),
     (''scope'', JStr (fs_scope c))]"

definition network_json :: "network_capability \<Rightarrow> json" where
  "network_json c = JObj [(''host'', option_json (nt_host c)), (''port'', int_json (nt_port c)),
     (''protocol'', JStr (nt_protocol c)), (''access'', JStr (nt_access c)),
     (''methods'', strings_json (nt_methods c)), (''paths'', strings_json (nt_paths c)),
     (''tool_identity'', option_json (nt_identity c))]"

definition tool_json :: "tool_capability \<Rightarrow> json" where
  "tool_json c = JObj [(''runtime'', JStr (tl_runtime c)), (''server'', option_json (tl_server c)),
     (''tool'', JStr (tl_tool c)), (''operation'', JStr (tl_operation c))]"

definition process_json :: "process_capability \<Rightarrow> json" where
  "process_json c = JObj [(''execution'', bool_json (pc_execution c)),
     (''executables'', strings_json (pc_executables c)),
     (''spawn_children'', bool_json (pc_children c))]"

definition privilege_json :: "privilege_capability \<Rightarrow> json" where
  "privilege_json c = JObj [(''escalation'', bool_json (pv_escalation c)),
     (''required_euid'', int_json (pv_euid c))]"

definition credential_json :: "credential_binding \<Rightarrow> json" where
  "credential_json c = JObj [(''binding'', JStr (cb_binding c)), (''host'', JStr (cb_host c)),
     (''port'', JInt (cb_port c))]"

definition unknown_json :: "capability_unknown \<Rightarrow> json" where
  "unknown_json c = JObj [(''domain'', JStr (cu_domain c)), (''reason_code'', JStr (cu_code c)),
     (''reason'', JStr (cu_reason c))]"

section \<open>Construction\<close>

text \<open>The constructors: what \<^verbatim>\<open>__post_init__\<close> accepts.\<close>

definition make_filesystem :: "host_env \<Rightarrow> filesystem_capability \<Rightarrow> filesystem_capability res" where
  "make_filesystem h c =
     res_bind (validate_shape h 128 ''filesystem'' filesystem_shape (filesystem_json c)) (\<lambda>_. Inr c)"

definition make_network :: "host_env \<Rightarrow> network_capability \<Rightarrow> network_capability res" where
  "make_network h c =
     res_bind (text_tuple (nt_methods c)) (\<lambda>_.
     res_bind (text_tuple (nt_paths c)) (\<lambda>_.
     res_bind (validate_shape h 128 ''network'' network_shape (network_json c)) (\<lambda>_. Inr c)))"

definition make_tool :: "host_env \<Rightarrow> tool_capability \<Rightarrow> tool_capability res" where
  "make_tool h c = res_bind (validate_shape h 128 ''tool'' tool_shape (tool_json c)) (\<lambda>_. Inr c)"

definition make_process :: "host_env \<Rightarrow> process_capability \<Rightarrow> process_capability res" where
  "make_process h c =
     res_bind (text_tuple (pc_executables c)) (\<lambda>_.
     res_bind (validate_shape h 128 ''process'' process_shape (process_json c)) (\<lambda>_. Inr c))"

definition make_privilege :: "host_env \<Rightarrow> privilege_capability \<Rightarrow> privilege_capability res" where
  "make_privilege h c =
     res_bind (validate_shape h 128 ''privilege'' privilege_shape (privilege_json c)) (\<lambda>_. Inr c)"

definition make_credential :: "host_env \<Rightarrow> credential_binding \<Rightarrow> credential_binding res" where
  "make_credential h c =
     res_bind (validate_shape h 128 ''credential'' credential_shape (credential_json c)) (\<lambda>_. Inr c)"

definition make_unknown :: "host_env \<Rightarrow> capability_unknown \<Rightarrow> capability_unknown res" where
  "make_unknown h c =
     res_bind (validate_shape h 128 ''unknown'' unknown_shape (unknown_json c)) (\<lambda>_. Inr c)"

section \<open>Contracts\<close>

definition grant_state :: "capability_contract \<Rightarrow> string" where
  "grant_state c =
     (if cc_decision c = ''block'' \<or> cc_unknowns c \<noteq> [] then ''diagnostic''
      else if cc_decision c \<in> {''ask'', ''warn''} then ''requires_approval''
      else ''eligible'')"

definition contract_material :: "capability_contract \<Rightarrow> payload" where
  "contract_material c =
     [(''schema_version'', JStr ''ordin.runtime_capability.v1''),
      (''action_id'', option_json (cc_action c)), (''action_digest'', JStr (cc_action_digest c)),
      (''decision'', JStr (cc_decision c)), (''risk'', JStr (cc_risk c)),
      (''grant_state'', JStr (grant_state c)),
      (''filesystem'', JArr (map filesystem_json (cc_filesystem c))),
      (''network'', JArr (map network_json (cc_network c))),
      (''tools'', JArr (map tool_json (cc_tools c))),
      (''process'', process_json (cc_process c)), (''privilege'', privilege_json (cc_privilege c)),
      (''credentials'', JArr (map credential_json (cc_credentials c))),
      (''unknowns'', JArr (map unknown_json (cc_unknowns c))),
      (''source'', JObj (cc_source c))]"

definition contract_json :: "capability_contract \<Rightarrow> json" where
  "contract_json c = JObj (contract_material c @ [(''contract_id'', JStr (cc_id c))])"

definition contract_digest :: "host_env \<Rightarrow> capability_contract \<Rightarrow> string" where
  "contract_digest h c = digest h (contract_json c)"

text \<open>A contract is given an identifier to check, or none (\<^verbatim>\<open>""\<close>).\<close>

definition make_contract :: "host_env \<Rightarrow> capability_contract \<Rightarrow> capability_contract res" where
  "make_contract h c =
     res_bind (model_tuple (cc_filesystem c)) (\<lambda>_.
     res_bind (model_tuple (cc_network c)) (\<lambda>_.
     res_bind (model_tuple (cc_tools c)) (\<lambda>_.
     res_bind (model_tuple (cc_credentials c)) (\<lambda>_.
     res_bind (model_tuple (cc_unknowns c)) (\<lambda>_.
     res_bind (freeze 0 max_runtime_depth 128 (JObj (cc_source c))) (\<lambda>_.
       let expected = ''rc:'' @ digest h (JObj (contract_material c));
           c' = c\<lparr>cc_id := expected\<rparr>
       in if cc_id c \<noteq> [] \<and> cc_id c \<noteq> expected
          then Inl (ValueError ''runtime contract identity does not match its content'')
          else res_bind (validate_shape h 128 ''runtime_capability'' capability_shape (contract_json c'))
                 (\<lambda>_. Inr c')))))))"

section \<open>Paths\<close>

definition safe_path :: "string \<Rightarrow> bool" where
  "safe_path p =
     (startswith p ''/'' \<and> \<not> startswith p ''//'' \<and>
      (\<forall>part \<in> set (py_split CHR ''/'' p). part \<notin> {''.'', ''..''}) \<and>
      (\<forall>c \<in> set p. 32 \<le> cp c \<and> cp c \<notin> {42, 63, 36, 96, 92}))"

section \<open>Reading JSON\<close>

text \<open>
  The readers below are applied to members of a value that has passed its schema, so the types
  are known; a value of another type stands for a case that cannot occur.
\<close>

definition the_string :: "json \<Rightarrow> string" where
  "the_string j = (case j of JStr s \<Rightarrow> s | _ \<Rightarrow> [])"

definition the_string_option :: "json \<Rightarrow> string option" where
  "the_string_option j = (case j of JStr s \<Rightarrow> Some s | _ \<Rightarrow> None)"

definition the_int_option :: "json \<Rightarrow> int option" where
  "the_int_option j = (case j of JInt i \<Rightarrow> Some i | _ \<Rightarrow> None)"

definition the_int :: "json \<Rightarrow> int" where
  "the_int j = (case j of JInt i \<Rightarrow> i | _ \<Rightarrow> 0)"

definition the_bool_option :: "json \<Rightarrow> bool option" where
  "the_bool_option j = (case j of JBool b \<Rightarrow> Some b | _ \<Rightarrow> None)"

definition the_bool :: "json \<Rightarrow> bool" where
  "the_bool j = (case j of JBool b \<Rightarrow> b | _ \<Rightarrow> False)"

definition the_list :: "json \<Rightarrow> json list" where
  "the_list j = (case j of JArr xs \<Rightarrow> xs | _ \<Rightarrow> [])"

definition the_object :: "json \<Rightarrow> payload" where
  "the_object j = (case j of JObj p \<Rightarrow> p | _ \<Rightarrow> [])"

lemma json_reader_simps [simp]:
  "the_string (JStr s) = s" "the_string_option (option_json v) = v"
  "the_int_option (int_json i) = i" "the_int (JInt k) = k" "the_bool_option (bool_json b) = b"
  "the_bool (JBool c) = c" "the_list (JArr xs) = xs" "the_object (JObj p) = p"
  "map the_string (the_list (strings_json ss)) = ss"
  by (simp_all add: the_string_def the_string_option_def option_json_def the_int_option_def int_json_def
      the_int_def the_bool_option_def bool_json_def the_bool_def the_list_def the_object_def
      strings_json_def comp_def split: option.splits)

definition filesystem_from_json :: "host_env \<Rightarrow> json \<Rightarrow> filesystem_capability res" where
  "filesystem_from_json h j = (let p = the_object j in
     make_filesystem h \<lparr>fs_access = the_string (jget p ''access''),
       fs_path = the_string_option (jget p ''path''), fs_scope = the_string (jget p ''scope'')\<rparr>)"

definition network_from_json :: "host_env \<Rightarrow> json \<Rightarrow> network_capability res" where
  "network_from_json h j = (let p = the_object j in
     make_network h \<lparr>nt_host = the_string_option (jget p ''host''),
       nt_port = the_int_option (jget p ''port''), nt_protocol = the_string (jget p ''protocol''),
       nt_access = the_string (jget p ''access''),
       nt_methods = map the_string (the_list (jget p ''methods'')),
       nt_paths = map the_string (the_list (jget p ''paths'')),
       nt_identity = the_string_option (jget p ''tool_identity'')\<rparr>)"

definition tool_from_json :: "host_env \<Rightarrow> json \<Rightarrow> tool_capability res" where
  "tool_from_json h j = (let p = the_object j in
     make_tool h \<lparr>tl_runtime = the_string (jget p ''runtime''),
       tl_server = the_string_option (jget p ''server''), tl_tool = the_string (jget p ''tool''),
       tl_operation = the_string (jget p ''operation'')\<rparr>)"

definition process_from_json :: "host_env \<Rightarrow> json \<Rightarrow> process_capability res" where
  "process_from_json h j = (let p = the_object j in
     make_process h \<lparr>pc_execution = the_bool_option (jget p ''execution''),
       pc_executables = map the_string (the_list (jget p ''executables'')),
       pc_children = the_bool_option (jget p ''spawn_children'')\<rparr>)"

definition privilege_from_json :: "host_env \<Rightarrow> json \<Rightarrow> privilege_capability res" where
  "privilege_from_json h j = (let p = the_object j in
     make_privilege h \<lparr>pv_escalation = the_bool_option (jget p ''escalation''),
       pv_euid = the_int_option (jget p ''required_euid'')\<rparr>)"

definition credential_from_json :: "host_env \<Rightarrow> json \<Rightarrow> credential_binding res" where
  "credential_from_json h j = (let p = the_object j in
     make_credential h \<lparr>cb_binding = the_string (jget p ''binding''),
       cb_host = the_string (jget p ''host''), cb_port = the_int (jget p ''port'')\<rparr>)"

definition unknown_from_json :: "host_env \<Rightarrow> json \<Rightarrow> capability_unknown res" where
  "unknown_from_json h j = (let p = the_object j in
     make_unknown h \<lparr>cu_domain = the_string (jget p ''domain''),
       cu_code = the_string (jget p ''reason_code''), cu_reason = the_string (jget p ''reason'')\<rparr>)"

definition contract_from_dict :: "host_env \<Rightarrow> json \<Rightarrow> capability_contract res" where
  "contract_from_dict h j =
     res_bind (validate_shape h 128 ''runtime_capability'' capability_shape j) (\<lambda>_.
     let p = the_object j in
     if ''approval_execution_lease_digest'' \<in> fst ` set p
     then Inl (ValueError ''JSON cannot restore the original approval execution lease'')
     else
     res_bind (res_mapM (filesystem_from_json h) (the_list (jget p ''filesystem''))) (\<lambda>filesystem.
     res_bind (res_mapM (network_from_json h) (the_list (jget p ''network''))) (\<lambda>network.
     res_bind (res_mapM (tool_from_json h) (the_list (jget p ''tools''))) (\<lambda>tools.
     res_bind (process_from_json h (jget p ''process'')) (\<lambda>process.
     res_bind (privilege_from_json h (jget p ''privilege'')) (\<lambda>privilege.
     res_bind (res_mapM (credential_from_json h) (the_list (jget p ''credentials''))) (\<lambda>credentials.
     res_bind (res_mapM (unknown_from_json h) (the_list (jget p ''unknowns''))) (\<lambda>unknowns.
     res_bind (make_contract h \<lparr>cc_action = the_string_option (jget p ''action_id''),
       cc_action_digest = the_string (jget p ''action_digest''),
       cc_decision = the_string (jget p ''decision''), cc_risk = the_string (jget p ''risk''),
       cc_filesystem = filesystem, cc_network = network, cc_tools = tools, cc_process = process,
       cc_privilege = privilege, cc_credentials = credentials, cc_unknowns = unknowns,
       cc_source = the_object (jget p ''source''), cc_id = the_string (jget p ''contract_id'')\<rparr>) (\<lambda>c.
     if grant_state c \<noteq> the_string (jget p ''grant_state'')
     then Inl (ValueError ''runtime contract grant state disagrees with decision/unknowns'')
     else Inr c)))))))))"

section \<open>Lemmas\<close>

lemmas make_defs = make_filesystem_def make_network_def make_tool_def make_process_def
  make_privilege_def make_credential_def make_unknown_def

lemma make_same:
  "make_filesystem h f = Inr f' \<Longrightarrow> f' = f" "make_network h n = Inr n' \<Longrightarrow> n' = n"
  "make_tool h t = Inr t' \<Longrightarrow> t' = t" "make_process h p = Inr p' \<Longrightarrow> p' = p"
  "make_privilege h v = Inr v' \<Longrightarrow> v' = v" "make_credential h k = Inr k' \<Longrightarrow> k' = k"
  "make_unknown h u = Inr u' \<Longrightarrow> u' = u"
  by (auto simp: make_defs)

text \<open>Reading back what was written is constructing the same model again.\<close>

lemma from_json_of:
  "filesystem_from_json h (filesystem_json f) = make_filesystem h f"
  "network_from_json h (network_json n) = make_network h n"
  "tool_from_json h (tool_json t) = make_tool h t"
  "process_from_json h (process_json p) = make_process h p"
  "privilege_from_json h (privilege_json v) = make_privilege h v"
  "credential_from_json h (credential_json k) = make_credential h k"
  "unknown_from_json h (unknown_json u) = make_unknown h u"
proof -
  show "filesystem_from_json h (filesystem_json f) = make_filesystem h f"
    by (cases f) (simp add: filesystem_from_json_def filesystem_json_def)
  show "network_from_json h (network_json n) = make_network h n"
    by (cases n) (simp add: network_from_json_def network_json_def)
  show "tool_from_json h (tool_json t) = make_tool h t"
    by (cases t) (simp add: tool_from_json_def tool_json_def)
  show "process_from_json h (process_json p) = make_process h p"
    by (cases p) (simp add: process_from_json_def process_json_def)
  show "privilege_from_json h (privilege_json v) = make_privilege h v"
    by (cases v) (simp add: privilege_from_json_def privilege_json_def)
  show "credential_from_json h (credential_json k) = make_credential h k"
    by (cases k) (simp add: credential_from_json_def credential_json_def)
  show "unknown_from_json h (unknown_json u) = make_unknown h u"
    by (cases u) (simp add: unknown_from_json_def unknown_json_def)
qed

lemma from_json_made:
  "filesystem_from_json h j = Inr f \<Longrightarrow> make_filesystem h f = Inr f"
  "network_from_json h j = Inr n \<Longrightarrow> make_network h n = Inr n"
  "tool_from_json h j = Inr t \<Longrightarrow> make_tool h t = Inr t"
  "process_from_json h j = Inr p \<Longrightarrow> make_process h p = Inr p"
  "privilege_from_json h j = Inr v \<Longrightarrow> make_privilege h v = Inr v"
  "credential_from_json h j = Inr k \<Longrightarrow> make_credential h k = Inr k"
  "unknown_from_json h j = Inr u \<Longrightarrow> make_unknown h u = Inr u"
  unfolding filesystem_from_json_def network_from_json_def tool_from_json_def process_from_json_def
    privilege_from_json_def credential_from_json_def unknown_from_json_def Let_def
  by (frule make_same; simp)+

lemma res_mapM_again:
  assumes "res_mapM f js = Inr xs" "\<And>j x. f j = Inr x \<Longrightarrow> f (g x) = Inr x"
  shows "res_mapM f (map g xs) = Inr xs"
  using assms(1) by (intro res_mapM_map_id) (auto dest: res_mapM_Inr_mem2 intro: assms(2))

lemma models_again:
  "res_mapM (filesystem_from_json h) js = Inr fs \<Longrightarrow>
     res_mapM (filesystem_from_json h) (map filesystem_json fs) = Inr fs"
  "res_mapM (network_from_json h) js = Inr ns \<Longrightarrow>
     res_mapM (network_from_json h) (map network_json ns) = Inr ns"
  "res_mapM (tool_from_json h) js = Inr ts \<Longrightarrow>
     res_mapM (tool_from_json h) (map tool_json ts) = Inr ts"
  "res_mapM (credential_from_json h) js = Inr ks \<Longrightarrow>
     res_mapM (credential_from_json h) (map credential_json ks) = Inr ks"
  "res_mapM (unknown_from_json h) js = Inr us \<Longrightarrow>
     res_mapM (unknown_from_json h) (map unknown_json us) = Inr us"
  by (erule res_mapM_again; simp add: from_json_of from_json_made)+

lemma material_id [simp]: "contract_material (c\<lparr>cc_id := i\<rparr>) = contract_material c"
  by (simp add: contract_material_def grant_state_def)

text \<open>A constructed contract carries the identifier of its content and can be constructed again.\<close>

lemma make_contract_ok:
  assumes "make_contract h c = Inr c'"
  shows "c' = c\<lparr>cc_id := ''rc:'' @ digest h (JObj (contract_material c))\<rparr>"
    "make_contract h c' = Inr c'"
    "validate_shape h 128 ''runtime_capability'' capability_shape (contract_json c') = Inr ()"
  using assms by (auto simp: make_contract_def Let_def split: if_splits)

text \<open>Writing a contract whose parts and whole can be constructed, and reading it back.\<close>

lemma contract_reads:
  assumes "make_contract h c = Inr c"
    "res_mapM (filesystem_from_json h) (map filesystem_json (cc_filesystem c)) = Inr (cc_filesystem c)"
    "res_mapM (network_from_json h) (map network_json (cc_network c)) = Inr (cc_network c)"
    "res_mapM (tool_from_json h) (map tool_json (cc_tools c)) = Inr (cc_tools c)"
    "res_mapM (credential_from_json h) (map credential_json (cc_credentials c)) = Inr (cc_credentials c)"
    "res_mapM (unknown_from_json h) (map unknown_json (cc_unknowns c)) = Inr (cc_unknowns c)"
    "make_process h (cc_process c) = Inr (cc_process c)"
    "make_privilege h (cc_privilege c) = Inr (cc_privilege c)"
  shows "contract_from_dict h (contract_json c) = Inr c"
proof -
  let ?q = "contract_material c @ [(''contract_id'', JStr (cc_id c))]"
  have obj: "the_object (contract_json c) = ?q" by (simp add: contract_json_def)
  have get: "jget ?q ''action_id'' = option_json (cc_action c)"
      "jget ?q ''action_digest'' = JStr (cc_action_digest c)" "jget ?q ''decision'' = JStr (cc_decision c)"
      "jget ?q ''risk'' = JStr (cc_risk c)" "jget ?q ''grant_state'' = JStr (grant_state c)"
      "jget ?q ''filesystem'' = JArr (map filesystem_json (cc_filesystem c))"
      "jget ?q ''network'' = JArr (map network_json (cc_network c))" "jget ?q ''tools'' = JArr (map tool_json (cc_tools c))"
      "jget ?q ''process'' = process_json (cc_process c)" "jget ?q ''privilege'' = privilege_json (cc_privilege c)"
      "jget ?q ''credentials'' = JArr (map credential_json (cc_credentials c))"
      "jget ?q ''unknowns'' = JArr (map unknown_json (cc_unknowns c))" "jget ?q ''source'' = JObj (cc_source c)"
      "jget ?q ''contract_id'' = JStr (cc_id c)"
      "''approval_execution_lease_digest'' \<notin> fst ` set ?q"
    by (simp_all add: contract_material_def)
  have eta: "\<lparr>cc_action = cc_action c, cc_action_digest = cc_action_digest c,
      cc_decision = cc_decision c, cc_risk = cc_risk c, cc_filesystem = cc_filesystem c,
      cc_network = cc_network c, cc_tools = cc_tools c, cc_process = cc_process c,
      cc_privilege = cc_privilege c, cc_credentials = cc_credentials c, cc_unknowns = cc_unknowns c,
      cc_source = cc_source c, cc_id = cc_id c\<rparr> = c"
    by (cases c) simp
  show ?thesis
    unfolding contract_from_dict_def Let_def obj get make_contract_ok(3) [OF assms(1)]
    using get(15) assms by (simp add: from_json_of eta)
qed

text \<open>C37: A capability contract read from JSON, written out and read again is the same contract,
  and its identifier is the digest of its content.\<close>

theorem capability_contract_roundtrip:
  assumes "contract_from_dict h j = Inr c"
  shows "contract_from_dict h (contract_json c) = Inr c \<and>
    cc_id c = ''rc:'' @ digest h (JObj (contract_material c))"
proof -
  let ?p = "the_object j"
  obtain filesystem network tools process privilege credentials unknowns c0 where
    fs: "res_mapM (filesystem_from_json h) (the_list (jget ?p ''filesystem'')) = Inr filesystem" and
    nt: "res_mapM (network_from_json h) (the_list (jget ?p ''network'')) = Inr network" and
    tl: "res_mapM (tool_from_json h) (the_list (jget ?p ''tools'')) = Inr tools" and
    pc: "process_from_json h (jget ?p ''process'') = Inr process" and
    pv: "privilege_from_json h (jget ?p ''privilege'') = Inr privilege" and
    cr: "res_mapM (credential_from_json h) (the_list (jget ?p ''credentials'')) = Inr credentials" and
    un: "res_mapM (unknown_from_json h) (the_list (jget ?p ''unknowns'')) = Inr unknowns" and
    mk: "make_contract h c0 = Inr c" and
    c0: "cc_filesystem c0 = filesystem" "cc_network c0 = network" "cc_tools c0 = tools"
      "cc_process c0 = process" "cc_privilege c0 = privilege" "cc_credentials c0 = credentials"
      "cc_unknowns c0 = unknowns"
  proof -
    note run = assms [unfolded contract_from_dict_def Let_def]
    from run show ?thesis
      apply (simp only: res_bind_Inr_iff if_Inl_Inr_iff)
      apply (elim exE conjE)
      by (rule that; (assumption | simp)?)
  qed
  note c = make_contract_ok [OF mk]
  have parts: "cc_filesystem c = filesystem" "cc_network c = network" "cc_tools c = tools"
      "cc_process c = process" "cc_privilege c = privilege" "cc_credentials c = credentials"
      "cc_unknowns c = unknowns"
    by (simp_all add: c(1) c0)
  note made = models_again(1) [OF fs] models_again(2) [OF nt] models_again(3) [OF tl]
    models_again(4) [OF cr] models_again(5) [OF un] from_json_made(4) [OF pc] from_json_made(5) [OF pv]
  have "contract_from_dict h (contract_json c) = Inr c"
    by (rule contract_reads) (simp_all add: parts made c(2))
  then show ?thesis by (simp add: c(1))
qed

section \<open>An example\<close>

lemmas capability_json_defs = contract_json_def contract_material_def grant_state_def
  filesystem_json_def network_json_def tool_json_def process_json_def privilege_json_def
  credential_json_def unknown_json_def option_json_def bool_json_def strings_json_def int_json_def

definition digest_env :: host_env where
  "digest_env = \<lparr>float_repr = (\<lambda>_. ''1.0''), sha256 = (\<lambda>_. replicate 64 CHR ''a'')\<rparr>"

definition sample_read :: filesystem_capability where
  "sample_read = \<lparr>fs_access = ''read'', fs_path = Some ''/srv/data'', fs_scope = ''exact''\<rparr>"

definition sample_contract :: capability_contract where
  "sample_contract = \<lparr>cc_action = None, cc_action_digest = replicate 64 CHR ''b'',
     cc_decision = ''allow'', cc_risk = ''low'', cc_filesystem = [sample_read], cc_network = [],
     cc_tools = [], cc_process = \<lparr>pc_execution = Some False, pc_executables = [], pc_children = Some False\<rparr>,
     cc_privilege = \<lparr>pv_escalation = Some False, pv_euid = None\<rparr>, cc_credentials = [],
     cc_unknowns = [],
     cc_source = [(''kind'', JStr ''file''), (''operation'', JStr ''read''), (''adapter'', JNull),
       (''effects'', JArr []), (''provenance_digest'', JNull)],
     cc_id = ''rc:'' @ replicate 64 CHR ''a''\<rparr>"

text \<open>What is short enough is within the byte limit.\<close>

lemma validate_shape_small:
  assumes "freeze 0 max_runtime_depth n j = Inr j" "text_bound h j \<le> 524288" "conforms shape j"
  shows "validate_shape h n name shape j = Inr ()"
proof -
  have "length (utf8 (canonical_json h j)) \<le> 1048576"
    using length_utf8 [of "canonical_json h j"] length_canonical [of h j] assms(2) by linarith
  with assms show ?thesis by (simp add: validate_shape_ok max_runtime_bytes_def)
qed

lemma sample_read_made: "make_filesystem digest_env sample_read = Inr sample_read"
  unfolding make_filesystem_def
  by (subst validate_shape_small; simp add: sample_read_def capability_json_defs freeze.simps
      max_runtime_depth_def max_runtime_text_def cp_def shape_defs)

lemma sample_process_made:
  "make_process digest_env (cc_process sample_contract) = Inr (cc_process sample_contract)"
  unfolding make_process_def
  by (subst validate_shape_small; simp add: sample_contract_def capability_json_defs freeze.simps
      max_runtime_depth_def max_runtime_text_def cp_def shape_defs text_tuple_def max_runtime_items_def)

lemma sample_privilege_made:
  "make_privilege digest_env (cc_privilege sample_contract) = Inr (cc_privilege sample_contract)"
  unfolding make_privilege_def
  by (subst validate_shape_small; simp add: sample_contract_def capability_json_defs freeze.simps
      max_runtime_depth_def max_runtime_text_def cp_def shape_defs)

lemma sample_contract_frozen:
  "freeze 0 max_runtime_depth 128 (contract_json sample_contract) = Inr (contract_json sample_contract)"
  by (simp add: freeze.simps capability_json_defs sample_contract_def sample_read_def
      max_runtime_depth_def max_runtime_text_def cp_def list_ex_iff)

lemma sample_contract_conforms: "conforms capability_shape (contract_json sample_contract)"
  by (simp add: capability_json_defs sample_contract_def sample_read_def shape_defs pattern_defs
      list_all_iff startswith_def cp_def)

lemma sample_contract_small: "text_bound digest_env (contract_json sample_contract) \<le> 524288"
  by (simp add: capability_json_defs sample_contract_def sample_read_def)

lemma sample_source_frozen:
  "freeze 0 max_runtime_depth 128 (JObj (cc_source sample_contract)) = Inr (JObj (cc_source sample_contract))"
  by (simp add: freeze.simps sample_contract_def max_runtime_depth_def max_runtime_text_def cp_def)

lemma sample_contract_made: "make_contract digest_env sample_contract = Inr sample_contract"
proof -
  have id: "digest digest_env j = replicate 64 CHR ''a''" for j by (simp add: digest_def digest_env_def)
  have same: "sample_contract\<lparr>cc_id := ''rc:'' @ replicate 64 CHR ''a''\<rparr> = sample_contract"
    by (simp add: sample_contract_def)
  note valid = validate_shape_small [OF sample_contract_frozen sample_contract_small sample_contract_conforms]
  show ?thesis
    unfolding make_contract_def Let_def sample_source_frozen id same valid
    by (simp add: sample_contract_def model_tuple_def max_runtime_items_def)
qed

lemma sample_contract_read:
  "contract_from_dict digest_env (contract_json sample_contract) = Inr sample_contract"
proof (rule contract_reads [OF sample_contract_made])
  show "res_mapM (filesystem_from_json digest_env) (map filesystem_json (cc_filesystem sample_contract)) =
      Inr (cc_filesystem sample_contract)"
    using sample_read_made by (simp add: sample_contract_def from_json_of)
qed (simp_all only: sample_process_made sample_privilege_made, simp_all add: sample_contract_def)

text \<open>A concrete contract is read back.\<close>

theorem capability_contract_roundtrip_witness:
  "contract_from_dict digest_env (contract_json sample_contract) = Inr sample_contract \<and>
    cc_id sample_contract = ''rc:'' @ digest digest_env (JObj (contract_material sample_contract))"
  by (rule capability_contract_roundtrip [OF sample_contract_read])

end
