(* ===== verification/Boundary.thy ===== *)
theory Boundary
  imports Capability
begin

text \<open>
  \<^verbatim>\<open>ordin/runtime_boundary.py\<close>: operator boundaries and the check that the capabilities of a
  contract stay inside one, with a semantics of both in terms of concrete operations that the
  check is sound for.

  The check walks Python sets while it counts comparisons against a limit, so the order of that
  walk matters when the limit is reached; the order is the parameter \<open>so\<close>.
\<close>

section \<open>Boundaries\<close>

record capability_boundary =
  bd_id :: string
  bd_filesystem :: "filesystem_capability list"
  bd_network :: "network_capability list"
  bd_tools :: "tool_capability list"
  bd_process :: process_capability
  bd_privilege :: privilege_capability
  bd_credentials :: "credential_binding list"
  bd_semantics :: string
  bd_guarantees :: bool
  bd_any_executable :: bool

definition boundary_json :: "capability_boundary \<Rightarrow> json" where
  "boundary_json b = JObj
     [(''schema_version'', JStr ''ordin.runtime_capability_boundary.v1''),
      (''boundary_id'', JStr (bd_id b)),
      (''filesystem'', JArr (map filesystem_json (bd_filesystem b))),
      (''network'', JArr (map network_json (bd_network b))),
      (''tools'', JArr (map tool_json (bd_tools b))),
      (''process'', process_json (bd_process b)), (''privilege'', privilege_json (bd_privilege b)),
      (''credentials'', JArr (map credential_json (bd_credentials b))),
      (''filesystem_semantics'', JStr (bd_semantics b)),
      (''runtime_filesystem_guarantees'', JBool (bd_guarantees b)),
      (''allow_any_executable'', JBool (bd_any_executable b))]"

definition make_boundary :: "host_env \<Rightarrow> capability_boundary \<Rightarrow> capability_boundary res" where
  "make_boundary h b =
     res_bind (model_tuple (bd_filesystem b)) (\<lambda>_.
     res_bind (model_tuple (bd_network b)) (\<lambda>_.
     res_bind (model_tuple (bd_tools b)) (\<lambda>_.
     res_bind (model_tuple (bd_credentials b)) (\<lambda>_.
     res_bind (validate_shape h 128 ''runtime_capability_boundary'' boundary_shape (boundary_json b))
       (\<lambda>_. Inr b)))))"

definition boundary_digest :: "host_env \<Rightarrow> capability_boundary \<Rightarrow> string" where
  "boundary_digest h b = digest h (boundary_json b)"

definition boundary_from_dict :: "host_env \<Rightarrow> json \<Rightarrow> capability_boundary res" where
  "boundary_from_dict h j =
     res_bind (validate_shape h 128 ''runtime_capability_boundary'' boundary_shape j) (\<lambda>_.
     let p = the_object j in
     res_bind (res_mapM (filesystem_from_json h) (the_list (jget p ''filesystem''))) (\<lambda>filesystem.
     res_bind (res_mapM (network_from_json h) (the_list (jget p ''network''))) (\<lambda>network.
     res_bind (res_mapM (tool_from_json h) (the_list (jget p ''tools''))) (\<lambda>tools.
     res_bind (process_from_json h (jget p ''process'')) (\<lambda>process.
     res_bind (privilege_from_json h (jget p ''privilege'')) (\<lambda>privilege.
     res_bind (res_mapM (credential_from_json h) (the_list (jget p ''credentials''))) (\<lambda>credentials.
     make_boundary h \<lparr>bd_id = the_string (jget p ''boundary_id''), bd_filesystem = filesystem,
       bd_network = network, bd_tools = tools, bd_process = process, bd_privilege = privilege,
       bd_credentials = credentials, bd_semantics = the_string (jget p ''filesystem_semantics''),
       bd_guarantees = the_bool (jget p ''runtime_filesystem_guarantees''),
       bd_any_executable = the_bool (jget p ''allow_any_executable'')\<rparr>)))))))"

section \<open>Rights\<close>

definition filesystem_rights :: "string \<Rightarrow> string list option" where
  "filesystem_rights access = map_of
     [(''read'', [''read'', ''metadata'']), (''metadata'', [''metadata'']), (''write'', [''write'']),
      (''delete'', [''delete'']), (''execute'', [''execute''])] access"

definition network_rights :: "string \<Rightarrow> string list option" where
  "network_rights access = map_of
     [(''read'', [''read'']), (''write'', [''read'', ''write''])] access"

definition rights_within :: "string list option \<Rightarrow> string list option \<Rightarrow> bool" where
  "rights_within r s = (case (r, s) of (Some a, Some b) \<Rightarrow> set a \<subseteq> set b | _ \<Rightarrow> False)"

definition rstrip_slashes :: "string \<Rightarrow> string" where
  "rstrip_slashes p = rev (dropWhile (\<lambda>c. c = CHR ''/'') (rev p))"

text \<open>\<^verbatim>\<open>path.startswith(maximum.rstrip("/") + "/")\<close>.\<close>

definition below :: "string \<Rightarrow> string \<Rightarrow> bool" where
  "below path dir = startswith path (rstrip_slashes dir @ ''/'')"

definition has_sub :: "string \<Rightarrow> string \<Rightarrow> bool" where
  "has_sub s w = (\<exists>i \<in> set [0..<Suc (length s)]. startswith (drop i s) w)"

text \<open>\<^verbatim>\<open>path.replace("/**", "/placeholder")\<close>.\<close>

fun replace_wild :: "string \<Rightarrow> string" where
  "replace_wild (a # b # c # s) =
     (if [a, b, c] = ''/**'' then ''/placeholder'' @ replace_wild s else a # replace_wild (b # c # s))"
| "replace_wild s = s"

definition unsafe_authority :: "string \<Rightarrow> bool" where
  "unsafe_authority s = (\<exists>c \<in> set s. cp c \<le> 32 \<or> cp c = 127)"

definition request_path :: "bool \<Rightarrow> string \<Rightarrow> bool" where
  "request_path pattern p =
     (if unsafe_authority p then False
      else if \<not> safe_path (if pattern then replace_wild p else p) then False
      else if CHR ''%'' \<in> set p \<or> CHR ''#'' \<in> set p \<or> CHR ''?'' \<in> set p \<or> has_sub p ''//'' then False
      else CHR ''*'' \<notin> set p \<or>
        pattern \<and> endswith p ''/**'' \<and> length (filter (\<lambda>c. c = CHR ''*'') p) = 2)"

definition rest_path_within :: "string \<Rightarrow> string \<Rightarrow> bool" where
  "rest_path_within candidate bound =
     (candidate = bound \<or>
      endswith bound ''/**'' \<and> startswith candidate (take (length bound - 2) bound))"

section \<open>The findings of each domain\<close>

text \<open>A finding is a state, a reason code, a domain and a value.\<close>

type_synonym finding = "string \<times> string \<times> string \<times> json"

definition filesystem_known :: "filesystem_capability \<Rightarrow> bool" where
  "filesystem_known c =
     (filesystem_rights (fs_access c) \<noteq> None \<and>
      (case fs_path c of None \<Rightarrow> False | Some p \<Rightarrow> safe_path p) \<and> fs_scope c \<noteq> ''unknown'')"

text \<open>What one maximum says of a known capability: it matches, or it leaves the question open.\<close>

definition filesystem_step ::
  "capability_boundary \<Rightarrow> filesystem_capability \<Rightarrow> filesystem_capability \<Rightarrow> bool \<times> bool" where
  "filesystem_step b c m =
     (if \<not> filesystem_known m then (False, True)
      else if \<not> rights_within (filesystem_rights (fs_access c)) (filesystem_rights (fs_access m))
      then (False, False)
      else if fs_path m = fs_path c \<and> (fs_scope m = ''prefix'' \<or> fs_scope c = ''exact'')
      then (True, False)
      else if fs_scope m = ''prefix'' \<and> below (the (fs_path c)) (the (fs_path m))
      then (if bd_semantics b = ''lexical_prefix'' \<and> bd_guarantees b then (True, False)
            else (False, True))
      else (False, False))"

definition filesystem_findings ::
  "capability_boundary \<Rightarrow> filesystem_capability \<Rightarrow> finding list" where
  "filesystem_findings b c =
     (if \<not> filesystem_known c
      then [(''unsupported'', ''runtime_boundary_filesystem_scope_unsupported'', ''filesystem'', JNull)]
      else if list_ex (\<lambda>m. fst (filesystem_step b c m)) (bd_filesystem b) then []
      else if list_ex (\<lambda>m. snd (filesystem_step b c m)) (bd_filesystem b)
      then [(''unsupported'', ''runtime_boundary_filesystem_prefix_unproven'', ''filesystem'',
             filesystem_json c)]
      else [(''exceeds_boundary'', ''filesystem_access_exceeds_boundary'', ''filesystem'',
             filesystem_json c)])"

text \<open>The counted comparison: covered, exhausted, comparisons so far.\<close>

definition comparison_limit :: nat where "comparison_limit = 50000"

fun scan_allowed :: "string \<Rightarrow> string list \<Rightarrow> nat \<Rightarrow> bool \<times> bool \<times> nat" where
  "scan_allowed path [] n = (False, False, n)"
| "scan_allowed path (a # rest) n =
     (if Suc n > comparison_limit then (False, True, Suc n)
      else if rest_path_within path a then (True, False, Suc n)
      else scan_allowed path rest (Suc n))"

fun scan_maxima ::
  "(string list \<Rightarrow> string list) \<Rightarrow> string \<Rightarrow> string \<Rightarrow> network_capability list \<Rightarrow> nat
     \<Rightarrow> bool \<times> bool \<times> nat" where
  "scan_maxima so verb path [] n = (False, False, n)"
| "scan_maxima so verb path (m # ms) n =
     (if verb \<notin> set (nt_methods m) then scan_maxima so verb path ms n
      else (case scan_allowed path (so (nt_paths m)) n of (covered, exhausted, n') \<Rightarrow>
        if covered \<or> exhausted then (covered, exhausted, n')
        else scan_maxima so verb path ms n'))"

text \<open>All pairs covered, exhausted.\<close>

fun scan_pairs ::
  "(string list \<Rightarrow> string list) \<Rightarrow> network_capability list \<Rightarrow> (string \<times> string) list \<Rightarrow> bool \<Rightarrow> nat
     \<Rightarrow> bool \<times> bool" where
  "scan_pairs so maxima [] covered_all n = (covered_all, False)"
| "scan_pairs so maxima ((verb, path) # pairs) covered_all n =
     (case scan_maxima so verb path maxima n of (covered, exhausted, n') \<Rightarrow>
        if exhausted then (covered_all \<and> covered, True)
        else scan_pairs so maxima pairs (covered_all \<and> covered) n')"

text \<open>What one maximum of the endpoint adds: matched, unmodeled, request maxima.\<close>

definition network_step ::
  "network_capability \<Rightarrow> bool \<times> bool \<times> network_capability list \<Rightarrow> network_capability
     \<Rightarrow> bool \<times> bool \<times> network_capability list" where
  "network_step c acc m = (case acc of (matched, unmodeled, maxima) \<Rightarrow>
     if network_rights (nt_access m) = None \<or> nt_protocol m = ''unknown''
     then (matched, True, maxima)
     else if \<not> rights_within (network_rights (nt_access c)) (network_rights (nt_access m)) then acc
     else if nt_identity c \<noteq> nt_identity m then acc
     else if nt_protocol m = ''tcp''
     then (if nt_methods m = [] \<and> nt_paths m = [] then (True, unmodeled, maxima) else acc)
     else if nt_protocol c = ''rest'' \<and> nt_protocol m = ''rest''
     then (if list_ex (\<lambda>p. \<not> request_path True p) (nt_paths m) then (matched, True, maxima)
           else (matched, unmodeled, maxima @ [m]))
     else acc)"

text \<open>Capabilities the comparison does not model.\<close>

definition network_unmodelled :: "network_capability \<Rightarrow> finding list" where
  "network_unmodelled c =
     (if nt_host c = None \<or> nt_port c = None \<or> nt_protocol c = ''unknown'' \<or>
         network_rights (nt_access c) = None
      then [(''inconclusive'', ''runtime_boundary_network_unknown'', ''network'', JNull)]
      else if nt_protocol c \<notin> {''rest'', ''tcp''}
      then [(''unsupported'', ''runtime_boundary_protocol_unsupported'', ''network'', JStr (nt_protocol c))]
      else if nt_protocol c = ''tcp'' \<and>
         (nt_methods c \<noteq> [] \<or> nt_paths c \<noteq> [] \<or> nt_identity c \<notin> {None, Some ''''})
      then [(''unsupported'', ''runtime_boundary_tcp_request_restriction'', ''network'', JNull)]
      else if nt_protocol c = ''rest'' \<and>
         (nt_methods c = [] \<or> nt_paths c = [] \<or> list_ex (\<lambda>p. \<not> request_path False p) (nt_paths c))
      then [(''unsupported'', ''runtime_boundary_request_scope_unsupported'', ''network'', JNull)]
      else [])"

definition network_compared ::
  "(string list \<Rightarrow> string list) \<Rightarrow> network_capability list \<Rightarrow> network_capability \<Rightarrow> finding list" where
  "network_compared so maxima c = (case foldl (network_step c) (False, False, []) maxima of
     (matched, unmodeled, rest_maxima) \<Rightarrow>
       (case (if \<not> matched \<and> nt_protocol c = ''rest''
              then scan_pairs so rest_maxima (List.product (so (nt_methods c)) (so (nt_paths c))) True 0
              else (matched, False)) of
         (matched', exhausted) \<Rightarrow>
           if exhausted
           then [(''inconclusive'', ''runtime_boundary_resource_limit'', ''network'', JNull)]
           else if matched' then []
           else if unmodeled
           then [(''unsupported'', ''runtime_boundary_network_scope_unsupported'', ''network'',
                  network_json c)]
           else [(''exceeds_boundary'', ''network_request_exceeds_boundary'', ''network'',
                  network_json c)]))"

definition network_findings ::
  "(string list \<Rightarrow> string list) \<Rightarrow> network_capability list \<Rightarrow> network_capability \<Rightarrow> finding list" where
  "network_findings so bounds c =
     (if network_unmodelled c \<noteq> [] then network_unmodelled c
      else
        (let maxima = filter (\<lambda>m. nt_host m = nt_host c \<and> nt_port m = nt_port c) bounds
         in if maxima = []
            then [(''exceeds_boundary'', ''network_endpoint_exceeds_boundary'', ''network'', network_json c)]
            else network_compared so maxima c))"

definition process_findings ::
  "capability_boundary \<Rightarrow> process_capability \<Rightarrow> finding list" where
  "process_findings b p = (let m = bd_process b in case pc_execution p of
     None \<Rightarrow> [(''inconclusive'', ''runtime_boundary_process_unknown'', ''process'', JNull)]
   | Some False \<Rightarrow> []
   | Some True \<Rightarrow>
       (if pc_execution m = Some False
        then [(''exceeds_boundary'', ''process_execution_exceeds_boundary'', ''process'', JNull)]
        else if pc_execution m = None
        then [(''inconclusive'', ''runtime_boundary_process_unknown'', ''process'', JNull)] else []) @
       (if pc_executables p = [] \<or> list_ex (\<lambda>e. \<not> safe_path e) (pc_executables p)
        then [(''unsupported'', ''runtime_boundary_binary_identity_missing'', ''process'', JNull)]
        else if \<not> bd_any_executable b \<and> \<not> set (pc_executables p) \<subseteq> set (pc_executables m)
        then [(''exceeds_boundary'', ''process_binary_exceeds_boundary'', ''process'',
               strings_json (pc_executables p))] else []) @
       (if pc_children p = None \<and> pc_children m \<noteq> Some True
        then [(''inconclusive'', ''runtime_boundary_child_process_unknown'', ''process'', JNull)]
        else if pc_children p = Some True \<and> pc_children m \<noteq> Some True
        then [(''exceeds_boundary'', ''process_children_exceeds_boundary'', ''process'', JNull)]
        else []))"

definition privilege_findings ::
  "privilege_capability \<Rightarrow> privilege_capability \<Rightarrow> finding list" where
  "privilege_findings m p =
     (if pv_escalation p = None
      then [(''inconclusive'', ''runtime_boundary_privilege_unknown'', ''privilege'', JNull)]
      else if pv_escalation p = Some True \<and> pv_escalation m \<noteq> Some True
      then [(''exceeds_boundary'', ''privilege_escalation_exceeds_boundary'', ''privilege'', JNull)]
      else []) @
     (if pv_euid m \<noteq> None \<and> pv_euid p \<noteq> pv_euid m
      then [(if pv_euid p = None then ''inconclusive'' else ''exceeds_boundary'',
             ''runtime_boundary_uid_unproven'', ''privilege'', JNull)]
      else [])"

definition boundary_domains :: "string list" where
  "boundary_domains =
     [''filesystem'', ''network'', ''tools'', ''process'', ''privilege'', ''credentials'']"

definition unknown_findings :: "capability_unknown \<Rightarrow> finding list" where
  "unknown_findings u =
     map (\<lambda>d. (''unsupported'', cu_code u, d, JNull))
       (if cu_domain u = ''semantics'' then boundary_domains
        else if cu_domain u = ''credential'' then [''credentials'']
        else if cu_domain u = ''tool'' then [''tools'']
        else [cu_domain u])"

definition boundary_findings ::
  "(string list \<Rightarrow> string list) \<Rightarrow> capability_contract \<Rightarrow> capability_boundary \<Rightarrow> finding list" where
  "boundary_findings so c b =
     (if cc_decision c = ''block''
      then [(''exceeds_boundary'', ''runtime_boundary_blocked_decision'', ''process'', JNull)] else []) @
     concat (map unknown_findings (cc_unknowns c)) @
     concat (map (filesystem_findings b) (cc_filesystem c)) @
     concat (map (network_findings so (bd_network b)) (cc_network c)) @
     concat (map (\<lambda>t. if t \<in> set (bd_tools b) then []
       else [(''exceeds_boundary'', ''tool_identity_exceeds_boundary'', ''tools'', tool_json t)]) (cc_tools c)) @
     process_findings b (cc_process c) @
     privilege_findings (bd_privilege b) (cc_privilege c) @
     concat (map (\<lambda>k. if k \<in> set (bd_credentials b) then []
       else [(''exceeds_boundary'', ''credential_binding_exceeds_boundary'', ''credentials'',
              credential_json k)]) (cc_credentials c))"

section \<open>The result\<close>

record verification_result =
  vr_result :: string
  vr_reason :: string
  vr_contract :: string
  vr_boundary :: string
  vr_coverage :: "(string \<times> bool) list"
  vr_counterexample :: "json option"
  vr_unsupported :: "string list"

definition finding_priority :: "finding \<Rightarrow> nat" where
  "finding_priority f =
     (if fst f = ''exceeds_boundary'' then 3 else if fst f = ''unsupported'' then 2 else 1)"

text \<open>\<^verbatim>\<open>max(findings, key=...)\<close>: the first finding of the highest priority.\<close>

fun worst_finding :: "finding \<Rightarrow> finding list \<Rightarrow> finding" where
  "worst_finding f [] = f"
| "worst_finding f (g # gs) = worst_finding (if finding_priority g > finding_priority f then g else f) gs"

definition open_finding :: "finding \<Rightarrow> bool" where
  "open_finding f = (fst f = ''unsupported'' \<or> fst f = ''inconclusive'')"

definition verify_runtime_capability ::
  "host_env \<Rightarrow> (string list \<Rightarrow> string list) \<Rightarrow> capability_contract \<Rightarrow> capability_boundary
     \<Rightarrow> verification_result res" where
  "verify_runtime_capability h so c b =
     (let findings = boundary_findings so c b;
          open_ones = filter open_finding findings;
          unsupported = sorted_set (map (\<lambda>f. fst (snd f)) open_ones);
          coverage = map (\<lambda>d. (d, d \<notin> set (map (\<lambda>f. fst (snd (snd f))) open_ones))) boundary_domains;
          (state, code, counterexample) = (case findings of
              [] \<Rightarrow> (''within_boundary'', ''runtime_boundary_within'', None)
            | f # fs \<Rightarrow> (case worst_finding f fs of (state, code, domain, value) \<Rightarrow>
                (state, code, Some (JObj [(''domain'', JStr domain), (''value'', value)]))))
      in res_bind (case counterexample of None \<Rightarrow> Inr ()
           | Some j \<Rightarrow> res_bind (freeze 0 max_runtime_depth 128 j) (\<lambda>_. Inr ())) (\<lambda>_.
         res_bind (text_tuple unsupported) (\<lambda>_.
         Inr \<lparr>vr_result = state, vr_reason = code, vr_contract = contract_digest h c,
              vr_boundary = boundary_digest h b, vr_coverage = coverage,
              vr_counterexample = counterexample, vr_unsupported = unsupported\<rparr>)))"

definition verified_ok :: "verification_result \<Rightarrow> bool" where
  "verified_ok r = (vr_result r = ''within_boundary'')"

section \<open>What contracts need and boundaries permit\<close>

datatype operation =
    FileOp string string
  | NetRequest string int string string string "string option"
  | NetConnect string int string "string option"
  | CallTool tool_capability
  | RunExecutable string
  | SpawnChild
  | Escalate
  | RunAs "int option"
  | UseCredential credential_binding

definition right_in :: "string list option \<Rightarrow> string \<Rightarrow> bool" where
  "right_in r a = (case r of None \<Rightarrow> False | Some rs \<Rightarrow> a \<in> set rs)"

text \<open>A right on a path: the path itself, and what is below it when the scope is a prefix.\<close>

definition allows_file :: "filesystem_capability list \<Rightarrow> string \<Rightarrow> string \<Rightarrow> bool" where
  "allows_file cs r path = (\<exists>c \<in> set cs. filesystem_known c \<and> right_in (filesystem_rights (fs_access c)) r \<and>
     (path = the (fs_path c) \<or> fs_scope c = ''prefix'' \<and> below path (the (fs_path c))))"

definition raw_connection :: "network_capability \<Rightarrow> bool" where
  "raw_connection n = (nt_protocol n = ''tcp'' \<and> nt_methods n = [] \<and> nt_paths n = [])"

definition serves :: "network_capability \<Rightarrow> string \<Rightarrow> string \<Rightarrow> bool" where
  "serves n verb path = (nt_protocol n = ''rest'' \<and> verb \<in> set (nt_methods n) \<and>
     (\<exists>a \<in> set (nt_paths n). rest_path_within path a))"

definition at_endpoint ::
  "network_capability \<Rightarrow> string \<Rightarrow> int \<Rightarrow> string \<Rightarrow> string option \<Rightarrow> bool" where
  "at_endpoint n host port r identity = (nt_host n = Some host \<and> nt_port n = Some port \<and>
     right_in (network_rights (nt_access n)) r \<and> nt_identity n = identity)"

definition allows_request ::
  "network_capability list \<Rightarrow> string \<Rightarrow> int \<Rightarrow> string \<Rightarrow> string \<Rightarrow> string \<Rightarrow> string option \<Rightarrow> bool" where
  "allows_request ns host port verb path r identity =
     (\<exists>n \<in> set ns. at_endpoint n host port r identity \<and> (raw_connection n \<or> serves n verb path))"

definition allows_connect ::
  "network_capability list \<Rightarrow> string \<Rightarrow> int \<Rightarrow> string \<Rightarrow> string option \<Rightarrow> bool" where
  "allows_connect ns host port r identity =
     (\<exists>n \<in> set ns. at_endpoint n host port r identity \<and> raw_connection n)"

text \<open>An unknown need counts as a need; an unknown permission does not permit.\<close>

fun requires :: "capability_contract \<Rightarrow> operation \<Rightarrow> bool" where
  "requires c (FileOp r path) = allows_file (cc_filesystem c) r path"
| "requires c (NetRequest host port verb path r i) = allows_request (cc_network c) host port verb path r i"
| "requires c (NetConnect host port r i) = allows_connect (cc_network c) host port r i"
| "requires c (CallTool t) = (t \<in> set (cc_tools c))"
| "requires c (RunExecutable e) =
     (pc_execution (cc_process c) \<noteq> Some False \<and> e \<in> set (pc_executables (cc_process c)))"
| "requires c SpawnChild =
     (pc_execution (cc_process c) \<noteq> Some False \<and> pc_children (cc_process c) \<noteq> Some False)"
| "requires c Escalate = (pv_escalation (cc_privilege c) \<noteq> Some False)"
| "requires c (RunAs u) = (u = pv_euid (cc_privilege c))"
| "requires c (UseCredential k) = (k \<in> set (cc_credentials c))"

fun permits :: "capability_boundary \<Rightarrow> operation \<Rightarrow> bool" where
  "permits b (FileOp r path) = allows_file (bd_filesystem b) r path"
| "permits b (NetRequest host port verb path r i) = allows_request (bd_network b) host port verb path r i"
| "permits b (NetConnect host port r i) = allows_connect (bd_network b) host port r i"
| "permits b (CallTool t) = (t \<in> set (bd_tools b))"
| "permits b (RunExecutable e) = (pc_execution (bd_process b) = Some True \<and>
     (bd_any_executable b \<or> e \<in> set (pc_executables (bd_process b))))"
| "permits b SpawnChild =
     (pc_execution (bd_process b) = Some True \<and> pc_children (bd_process b) = Some True)"
| "permits b Escalate = (pv_escalation (bd_privilege b) = Some True)"
| "permits b (RunAs u) = (pv_euid (bd_privilege b) = None \<or> u = pv_euid (bd_privilege b))"
| "permits b (UseCredential k) = (k \<in> set (bd_credentials b))"

section \<open>Lemmas\<close>

lemma rstrip_append:
  "rstrip_slashes (xs @ ys) =
     (if \<forall>c \<in> set ys. c = CHR ''/'' then rstrip_slashes xs else xs @ rstrip_slashes ys)"
proof (cases "\<forall>c \<in> set ys. c = CHR ''/''")
  case True
  then have "dropWhile (\<lambda>c. c = CHR ''/'') (rev ys @ rev xs) = dropWhile (\<lambda>c. c = CHR ''/'') (rev xs)"
    by (intro dropWhile_append2) simp
  then show ?thesis by (simp only: rstrip_slashes_def rev_append if_P [OF True])
next
  case False
  then obtain c where "c \<in> set (rev ys)" "c \<noteq> CHR ''/''" by auto
  then have "dropWhile (\<lambda>c. c = CHR ''/'') (rev ys @ rev xs) = dropWhile (\<lambda>c. c = CHR ''/'') (rev ys) @ rev xs"
    by (rule dropWhile_append1)
  with False show ?thesis by (simp only: rstrip_slashes_def rev_append rev_rev_ident if_False)
qed

lemma rstrip_idem [simp]: "rstrip_slashes (rstrip_slashes p) = rstrip_slashes p"
  by (simp add: rstrip_slashes_def dropWhile_idem)

lemma below_trans:
  assumes "below p q" "below q r"
  shows "below p r"
proof -
  obtain rest where q: "q = rstrip_slashes r @ ''/'' @ rest"
    using assms(2) by (auto simp: below_def startswith_iff)
  have "startswith (rstrip_slashes q @ ''/'') (rstrip_slashes r @ ''/'')"
  proof (cases "\<forall>c \<in> set (''/'' @ rest). c = CHR ''/''")
    case True
    then show ?thesis by (simp only: q rstrip_append [of _ "''/'' @ rest"]) (simp add: startswith_def)
  next
    case False
    then have "\<exists>c \<in> set rest. c \<noteq> CHR ''/''" by auto
    then have "rstrip_slashes (''/'' @ rest) = ''/'' @ rstrip_slashes rest"
      by (simp only: rstrip_append) auto
    with False show ?thesis
      by (simp only: q rstrip_append [of _ "''/'' @ rest"]) (auto simp: startswith_iff)
  qed
  with assms(1) show ?thesis by (auto simp: below_def intro: startswith_trans)
qed

text \<open>Each domain: no finding means every right is matched.\<close>

lemma right_in_within: "rights_within r s \<Longrightarrow> right_in r a \<Longrightarrow> right_in s a"
  by (auto simp: rights_within_def right_in_def split: option.splits)

lemma filesystem_step_covers:
  assumes "fst (filesystem_step b c m)" "filesystem_known c"
    "path = the (fs_path c) \<or> fs_scope c = ''prefix'' \<and> below path (the (fs_path c))"
  shows "filesystem_known m \<and> rights_within (filesystem_rights (fs_access c)) (filesystem_rights (fs_access m)) \<and>
    (path = the (fs_path m) \<or> fs_scope m = ''prefix'' \<and> below path (the (fs_path m)))"
  using assms by (auto simp: filesystem_step_def split: if_splits intro: below_trans)

lemma filesystem_sound:
  assumes "\<forall>c \<in> set cs. filesystem_findings b c = []" "allows_file cs r path"
  shows "allows_file (bd_filesystem b) r path"
proof -
  obtain c where c: "c \<in> set cs" "filesystem_known c" "right_in (filesystem_rights (fs_access c)) r"
      "path = the (fs_path c) \<or> fs_scope c = ''prefix'' \<and> below path (the (fs_path c))"
    using assms(2) unfolding allows_file_def by blast
  have "filesystem_findings b c = []" using assms(1) c(1) by blast
  then obtain m where m: "m \<in> set (bd_filesystem b)" "fst (filesystem_step b c m)"
    by (auto simp: filesystem_findings_def list_ex_iff split: if_splits)
  from filesystem_step_covers [OF m(2) c(2,4)] show ?thesis
    unfolding allows_file_def using m(1) c(3) right_in_within by blast
qed

lemma scan_allowed_covered: "scan_allowed path as n = (True, e, n') \<Longrightarrow> \<exists>a \<in> set as. rest_path_within path a"
  by (induction path as n rule: scan_allowed.induct) (auto split: if_splits)

lemma scan_maxima_covered:
  "scan_maxima so verb path ms n = (True, e, n') \<Longrightarrow>
     \<exists>m \<in> set ms. verb \<in> set (nt_methods m) \<and> (\<exists>a \<in> set (so (nt_paths m)). rest_path_within path a)"
  by (induction so verb path ms n rule: scan_maxima.induct)
    (auto split: if_splits prod.splits dest: scan_allowed_covered)

definition pair_covered ::
  "(string list \<Rightarrow> string list) \<Rightarrow> network_capability list \<Rightarrow> string \<Rightarrow> string \<Rightarrow> bool" where
  "pair_covered so ms verb path = (\<exists>m \<in> set ms. verb \<in> set (nt_methods m) \<and>
     (\<exists>a \<in> set (so (nt_paths m)). rest_path_within path a))"

lemma scan_pairs_covered:
  "scan_pairs so ms pairs all n = (True, False) \<Longrightarrow>
     all \<and> (\<forall>p \<in> set pairs. pair_covered so ms (fst p) (snd p))"
proof (induction pairs arbitrary: all n)
  case (Cons p pairs)
  obtain verb path where p: "p = (verb, path)" by (cases p)
  obtain covered exhausted n' where scan: "scan_maxima so verb path ms n = (covered, exhausted, n')"
    by (metis prod_cases3)
  have rest: "\<not> exhausted" "scan_pairs so ms pairs (all \<and> covered) n' = (True, False)"
    using Cons.prems by (simp_all add: p scan split: if_splits)
  from Cons.IH [OF rest(2)] have IH: "all" "covered" "\<forall>p \<in> set pairs. pair_covered so ms (fst p) (snd p)"
    by simp_all
  from scan IH(2) have "pair_covered so ms verb path"
    unfolding pair_covered_def by (intro scan_maxima_covered) simp
  with IH p show ?case by simp
qed simp

definition network_fits :: "network_capability \<Rightarrow> network_capability \<Rightarrow> bool" where
  "network_fits c m = (nt_host m = nt_host c \<and> nt_port m = nt_port c \<and> nt_identity m = nt_identity c \<and>
     rights_within (network_rights (nt_access c)) (network_rights (nt_access m)))"

lemma network_step_cases:
  assumes "network_step c acc m = a" "nt_host m = nt_host c" "nt_port m = nt_port c"
  shows "a = acc \<or> fst a = fst acc \<and> snd (snd a) = snd (snd acc) \<or>
    network_fits c m \<and> raw_connection m \<and> snd (snd a) = snd (snd acc) \<or>
    network_fits c m \<and> nt_protocol m = ''rest'' \<and> fst a = fst acc \<and> snd (snd a) = snd (snd acc) @ [m]"
proof -
  obtain x y z where acc: "acc = (x, y, z)" by (cases acc)
  show ?thesis
    unfolding assms(1) [symmetric] acc network_step_def prod.case network_fits_def raw_connection_def
    using assms(2,3) by (simp only: fst_conv snd_conv simp_thms split: if_split) (intro conjI impI; simp)
qed

lemma network_fold:
  assumes "foldl (network_step c) acc ms = r"
    "\<forall>m \<in> set ms. nt_host m = nt_host c \<and> nt_port m = nt_port c"
  shows "(fst r \<longrightarrow> fst acc \<or> (\<exists>m \<in> set ms. network_fits c m \<and> raw_connection m)) \<and>
    (\<forall>m \<in> set (snd (snd r)). m \<in> set (snd (snd acc)) \<or> m \<in> set ms \<and> network_fits c m \<and> nt_protocol m = ''rest'')"
  using assms
proof (induction ms arbitrary: acc)
  case (Cons m ms)
  define a where "a = network_step c acc m"
  have "foldl (network_step c) a ms = r" using Cons.prems(1) a_def by simp
  note IH = Cons.IH [OF this]
  have "nt_host m = nt_host c" "nt_port m = nt_port c" using Cons.prems(2) by simp_all
  note step = network_step_cases [OF a_def [symmetric] this]
  have "(fst r \<longrightarrow> fst a \<or> (\<exists>m \<in> set ms. network_fits c m \<and> raw_connection m)) \<and>
    (\<forall>m \<in> set (snd (snd r)). m \<in> set (snd (snd a)) \<or> m \<in> set ms \<and> network_fits c m \<and> nt_protocol m = ''rest'')"
    by (rule IH) (use Cons.prems(2) in simp)
  with step show ?case by (elim disjE) auto
qed simp

lemma exact_request: "request_path False a \<Longrightarrow> rest_path_within path a \<Longrightarrow> path = a"
  by (auto simp: request_path_def rest_path_within_def endswith_def startswith_def split: if_splits
    dest!: arg_cong [where f = set] in_set_dropD)

lemma network_covered:
  assumes "network_findings so bounds c = []" "\<forall>xs. set (so xs) = set xs"
  shows "(\<exists>m \<in> set bounds. network_fits c m \<and> raw_connection m) \<or>
    nt_protocol c = ''rest'' \<and> (\<forall>a \<in> set (nt_paths c). request_path False a) \<and>
    (\<forall>verb \<in> set (nt_methods c). \<forall>a \<in> set (nt_paths c).
       \<exists>m \<in> set bounds. network_fits c m \<and> serves m verb a)"
proof -
  define ms where "ms = filter (\<lambda>m. nt_host m = nt_host c \<and> nt_port m = nt_port c) bounds"
  obtain matched unmodeled maxima where fold:
      "foldl (network_step c) (False, False, []) ms = (matched, unmodeled, maxima)"
    by (metis prod_cases3)
  have ends: "\<forall>m \<in> set ms. nt_host m = nt_host c \<and> nt_port m = nt_port c" and sub: "set ms \<subseteq> set bounds"
    unfolding ms_def by auto
  from network_fold [OF fold ends]
  have raw: "matched \<Longrightarrow> \<exists>m \<in> set bounds. network_fits c m \<and> raw_connection m"
    and rest: "\<forall>m \<in> set maxima. m \<in> set bounds \<and> network_fits c m \<and> nt_protocol m = ''rest''"
    using sub by auto
    have known: "network_unmodelled c = []" and compared: "network_compared so ms c = []"
    using assms(1) unfolding network_findings_def Let_def ms_def [symmetric]
    by (simp_all split: if_split_asm)
  show ?thesis
  proof (cases matched)
    case True
    then show ?thesis using raw by blast
  next
    case False
    have protocol: "nt_protocol c = ''rest''"
      using compared unfolding network_compared_def fold by (simp add: False split: if_split_asm)
    have paths: "\<forall>a \<in> set (nt_paths c). request_path False a"
      using known protocol unfolding network_unmodelled_def list_ex_iff by (simp split: if_split_asm)
    obtain ok exhausted where scan: "scan_pairs so maxima
        (List.product (so (nt_methods c)) (so (nt_paths c))) True 0 = (ok, exhausted)"
      by fastforce
    have ok: "ok \<and> \<not> exhausted"
      using compared unfolding network_compared_def fold prod.case
      by (simp add: False protocol scan split: if_split_asm)
    then have "scan_pairs so maxima (List.product (so (nt_methods c)) (so (nt_paths c))) True 0 = (True, False)"
      using scan by simp
    from scan_pairs_covered [OF this]
    have pairs: "pair_covered so maxima verb a"
      if "verb \<in> set (nt_methods c)" "a \<in> set (nt_paths c)" for verb a
      using that assms(2) by auto
    have "\<exists>m \<in> set bounds. network_fits c m \<and> serves m verb a"
      if "verb \<in> set (nt_methods c)" "a \<in> set (nt_paths c)" for verb a
      using pairs [OF that] rest assms(2) unfolding pair_covered_def serves_def by blast
    with protocol paths show ?thesis by blast
  qed
qed

lemma fits_endpoint: "network_fits n m \<Longrightarrow> at_endpoint n host port r i \<Longrightarrow> at_endpoint m host port r i"
  unfolding network_fits_def at_endpoint_def by (metis right_in_within)

lemma request_sound:
  assumes "\<forall>n \<in> set ns. network_findings so bounds n = []" "\<forall>xs. set (so xs) = set xs"
    "allows_request ns host port verb path r i"
  shows "allows_request bounds host port verb path r i"
proof -
  obtain n where n: "n \<in> set ns" "at_endpoint n host port r i" "raw_connection n \<or> serves n verb path"
    using assms(3) unfolding allows_request_def by blast
  from network_covered [OF _ assms(2)] assms(1) n(1)
  consider m where "m \<in> set bounds" "network_fits n m" "raw_connection m"
    | "nt_protocol n = ''rest''" "\<forall>a \<in> set (nt_paths n). request_path False a"
      "\<forall>verb \<in> set (nt_methods n). \<forall>a \<in> set (nt_paths n).
         \<exists>m \<in> set bounds. network_fits n m \<and> serves m verb a" by blast
  then show ?thesis
  proof cases
    case 1
    then show ?thesis unfolding allows_request_def using fits_endpoint [OF _ n(2)] by blast
  next
    case 2
    then have "verb \<in> set (nt_methods n)" "path \<in> set (nt_paths n)"
      using n(3) exact_request unfolding serves_def raw_connection_def by (auto, metis)
    with 2(3) show ?thesis unfolding allows_request_def using fits_endpoint [OF _ n(2)] by blast
  qed
qed

lemma connect_sound:
  assumes "\<forall>n \<in> set ns. network_findings so bounds n = []" "\<forall>xs. set (so xs) = set xs"
    "allows_connect ns host port r i"
  shows "allows_connect bounds host port r i"
proof -
  obtain n where n: "n \<in> set ns" "at_endpoint n host port r i" "raw_connection n"
    using assms(3) unfolding allows_connect_def by blast
  then have "nt_protocol n \<noteq> ''rest''" by (simp add: raw_connection_def)
  with network_covered [OF _ assms(2)] assms(1) n(1)
  obtain m where "m \<in> set bounds" "network_fits n m" "raw_connection m" by metis
  then show ?thesis unfolding allows_connect_def using fits_endpoint [OF _ n(2)] by blast
qed

text \<open>A result within the boundary has no finding behind it.\<close>

lemma worst_in: "worst_finding f fs \<in> set (f # fs)"
  by (induction fs arbitrary: f) auto

definition reported :: "finding \<Rightarrow> bool" where
  "reported f = (fst f \<in> {''exceeds_boundary'', ''unsupported'', ''inconclusive''})"

lemma network_reported: "f \<in> set (network_findings so bounds c) \<Longrightarrow> reported f"
  unfolding network_findings_def network_unmodelled_def network_compared_def Let_def
  by (auto simp: reported_def split: if_split_asm prod.split_asm)

lemma filesystem_reported: "f \<in> set (filesystem_findings b c) \<Longrightarrow> reported f"
  unfolding filesystem_findings_def by (auto simp: reported_def split: if_split_asm)

lemma unknown_reported: "f \<in> set (unknown_findings u) \<Longrightarrow> reported f"
  unfolding unknown_findings_def by (auto simp: reported_def)

lemma process_reported: "f \<in> set (process_findings b p) \<Longrightarrow> reported f"
  unfolding process_findings_def Let_def
  by (auto simp: reported_def split: if_split_asm option.split_asm bool.split_asm)

lemma privilege_reported: "f \<in> set (privilege_findings m p) \<Longrightarrow> reported f"
  unfolding privilege_findings_def by (auto simp: reported_def split: if_split_asm)

lemma findings_reported: "f \<in> set (boundary_findings so c b) \<Longrightarrow> reported f"
  unfolding boundary_findings_def set_append set_concat set_map
  by (elim UnE UN_E imageE)
    (auto simp: reported_def split: if_split_asm
      dest!: network_reported filesystem_reported unknown_reported process_reported privilege_reported)

section \<open>The check is sound\<close>

lemma verify_states:
  assumes "verify_runtime_capability h so c b = Inr r"
  shows "vr_result r = ''within_boundary'' \<or>
    vr_result r \<in> {''exceeds_boundary'', ''unsupported'', ''inconclusive''}"
proof (cases "boundary_findings so c b")
  case Nil
  then show ?thesis using assms unfolding verify_runtime_capability_def Let_def
    by (auto simp: res_bind_Inr_iff)
next
  case (Cons f fs)
  obtain state code domain v where worst: "worst_finding f fs = (state, code, domain, v)"
    by (metis prod_cases4)
  have "reported (worst_finding f fs)"
    using worst_in [of f fs] findings_reported [of _ so c b] Cons by simp
  moreover have "vr_result r = state"
    using assms unfolding verify_runtime_capability_def Let_def Cons list.case worst prod.case option.case
      res_bind_Inr_iff by clarsimp
  ultimately show ?thesis unfolding worst reported_def by auto
qed

lemma ok_no_findings:
  assumes "verify_runtime_capability h so c b = Inr r" "verified_ok r"
  shows "boundary_findings so c b = []"
proof (rule ccontr)
  assume "boundary_findings so c b \<noteq> []"
  then obtain f fs where fs: "boundary_findings so c b = f # fs" by (cases "boundary_findings so c b") auto
  obtain state code domain v where worst: "worst_finding f fs = (state, code, domain, v)"
    by (metis prod_cases4)
  have "reported (worst_finding f fs)"
    using worst_in [of f fs] findings_reported [of _ so c b] fs by simp
  then have "state \<noteq> ''within_boundary''" unfolding worst reported_def by auto
  moreover have "vr_result r = state"
    using assms(1) unfolding verify_runtime_capability_def Let_def fs list.case worst prod.case option.case
      res_bind_Inr_iff by clarsimp
  ultimately show False using assms(2) by (simp add: verified_ok_def)
qed

lemma boundary_sound:
  assumes "\<forall>xs. set (so xs) = set xs" "verify_runtime_capability h so c b = Inr r" "verified_ok r"
  shows "cc_decision c \<noteq> ''block'' \<and> cc_unknowns c = [] \<and> (\<forall>op. requires c op \<longrightarrow> permits b op)"
proof -
  note none = ok_no_findings [OF assms(2,3), unfolded boundary_findings_def append_is_Nil_conv]
  have decision: "cc_decision c \<noteq> ''block''" using none [THEN conjunct1] by (simp split: if_split_asm)
  have nounknown: "unknown_findings u \<noteq> []" for u by (simp add: unknown_findings_def boundary_domains_def)
  have unknowns: "cc_unknowns c = []"
    using none [THEN conjunct2, THEN conjunct1] nounknown by (cases "cc_unknowns c") auto
  have files: "\<forall>f \<in> set (cc_filesystem c). filesystem_findings b f = []"
    and nets: "\<forall>n \<in> set (cc_network c). network_findings so (bd_network b) n = []"
    using none by (elim conjE; simp only: concat_eq_Nil_conv set_map ball_simps)+
  have tools: "set (cc_tools c) \<subseteq> set (bd_tools b)"
    using none [THEN conjunct2, THEN conjunct2, THEN conjunct2, THEN conjunct2, THEN conjunct1]
    by (auto split: if_split_asm)
  have creds: "set (cc_credentials c) \<subseteq> set (bd_credentials b)"
    using none [THEN conjunct2, THEN conjunct2, THEN conjunct2, THEN conjunct2, THEN conjunct2,
        THEN conjunct2, THEN conjunct2]
    by (auto split: if_split_asm)
  have process: "process_findings b (cc_process c) = []"
    and privilege: "privilege_findings (bd_privilege b) (cc_privilege c) = []"
    by (simp_all only: none)
  have "permits b op" if op: "requires c op" for op
  proof (cases op)
    case (FileOp r path)
    with op files show ?thesis by (auto intro: filesystem_sound)
  next
    case (NetRequest host port verb path r i)
    with op show ?thesis using request_sound [OF nets assms(1)] by simp
  next
    case (NetConnect host port r i)
    with op show ?thesis using connect_sound [OF nets assms(1)] by simp
  next
    case (RunExecutable e)
    with op process show ?thesis
      by (auto simp: process_findings_def Let_def split: option.splits bool.splits if_split_asm)
  next
    case SpawnChild
    with op process show ?thesis
      by (auto simp: process_findings_def Let_def split: option.splits bool.splits if_split_asm)
  next
    case Escalate
    with op privilege show ?thesis by (auto simp: privilege_findings_def split: if_split_asm)
  next
    case (RunAs u)
    with op privilege show ?thesis by (auto simp: privilege_findings_def split: if_split_asm)
  qed (use op tools creds in auto)
  with decision unknowns show ?thesis by blast
qed

text \<open>
  C3: A contract that the check finds within a boundary asks for nothing outside it. Whatever
  order the host walks its sets in, when \<^verbatim>\<open>verify_runtime_capability\<close> answers
  \<^verbatim>\<open>within_boundary\<close>, the contract was not decided \<^verbatim>\<open>block\<close>, has no unknown
  need, and every concrete operation it needs is one the boundary permits: a file right on a
  path (below a prefix included), a request or a raw connection to an endpoint under an identity,
  a tool call, an executable, a child process, an escalation, the effective user, a credential.
\<close>

theorem boundary_check_sound:
  assumes "\<forall>xs. set (so xs) = set xs" "verify_runtime_capability h so c b = Inr r" "verified_ok r"
  shows "cc_decision c \<noteq> ''block'' \<and> cc_unknowns c = [] \<and> (\<forall>op. requires c op \<longrightarrow> permits b op)"
  by (rule boundary_sound [OF assms])

definition sample_boundary :: capability_boundary where
  "sample_boundary = \<lparr>bd_id = ''bnd'',
     bd_filesystem = [\<lparr>fs_access = ''read'', fs_path = Some ''/srv'', fs_scope = ''prefix''\<rparr>],
     bd_network = [], bd_tools = [],
     bd_process = \<lparr>pc_execution = Some False, pc_executables = [], pc_children = Some False\<rparr>,
     bd_privilege = \<lparr>pv_escalation = Some False, pv_euid = None\<rparr>, bd_credentials = [],
     bd_semantics = ''lexical_prefix'', bd_guarantees = True, bd_any_executable = False\<rparr>"

lemma no_findings_ok:
  assumes "boundary_findings so c b = []"
  obtains r where "verify_runtime_capability h so c b = Inr r" "verified_ok r"
proof -
  have "case verify_runtime_capability h so c b of Inl _ \<Rightarrow> False | Inr r \<Rightarrow> verified_ok r"
    unfolding verify_runtime_capability_def Let_def
    by (simp add: assms verified_ok_def text_tuple_def max_runtime_items_def freeze.simps max_runtime_depth_def sorted_set_def)
  then show ?thesis using that by (auto split: sum.splits)
qed

lemma sample_within: "boundary_findings id sample_contract sample_boundary = []"
  by code_simp

lemma sample_requires: "requires sample_contract (FileOp ''metadata'' ''/srv/data'')"
  by code_simp

text \<open>A read below a prefix of the boundary: the operation it needs is permitted.\<close>

theorem boundary_check_sound_witness:
  "permits sample_boundary (FileOp ''metadata'' ''/srv/data'')"
proof -
  obtain r where r: "verify_runtime_capability digest_env id sample_contract sample_boundary = Inr r"
      "verified_ok r"
    using sample_within by (rule no_findings_ok)
  from boundary_check_sound [OF _ this] sample_requires show ?thesis by (simp del: requires.simps permits.simps)
qed

end
