(* ===== verification/Assurance_Json.thy ===== *)
theory Assurance_Json
  imports Boundary
begin

text \<open>
  \<^verbatim>\<open>ordin/assurance/_json.py\<close> and the parts of \<^verbatim>\<open>ordin/assurance/_schemas.py\<close> that delegation uses:
  the bounded copy with its structure budget, domain-separated digests, and closed record shapes.
\<close>

section \<open>Bounded copies\<close>

definition as_max_depth :: nat where "as_max_depth = 12"
definition as_max_items :: nat where "as_max_items = 256"
definition as_budget :: nat where "as_budget = 65536"

definition unsafe_text :: "string \<Rightarrow> bool" where
  "unsafe_text s = list_ex (\<lambda>c. cp c < 32 \<or> cp c = 127) s"

text \<open>
  The shared counter is threaded through the walk; the copy equals the value, so the budget left
  is the only result. A counter at 0 is the source's counter that would become negative.
\<close>

fun as_freeze :: "nat \<Rightarrow> nat \<Rightarrow> json \<Rightarrow> nat res"
and as_freeze_all :: "nat \<Rightarrow> nat \<Rightarrow> json list \<Rightarrow> nat res"
and as_freeze_members :: "nat \<Rightarrow> nat \<Rightarrow> (string \<times> json) list \<Rightarrow> nat res" where
  "as_freeze depth budget j =
     (if budget = 0 \<or> depth > as_max_depth
      then Inl (ValueError ''assurance JSON structure limit exceeded'')
      else (let left = budget - 1 in case j of
        JObj p \<Rightarrow>
          if length p > as_max_items \<or>
             list_ex (\<lambda>k. k = [] \<or> length k > 128 \<or> unsafe_text k) (map fst p)
          then Inl (ValueError ''assurance JSON object limit exceeded'')
          else as_freeze_members (Suc depth) left p
      | JArr xs \<Rightarrow>
          if length xs > 4096 then Inl (ValueError ''assurance JSON collection limit exceeded'')
          else as_freeze_all (Suc depth) left xs
      | JStr s \<Rightarrow>
          if length s > 4096 \<or> unsafe_text s
          then Inl (ValueError ''assurance JSON text limit exceeded'') else Inr left
      | JInt i \<Rightarrow>
          if \<bar>i\<bar> \<ge> 2 ^ 128 then Inl (ValueError ''assurance JSON numeric limit exceeded'')
          else Inr left
      | v \<Rightarrow> Inr left))"
| "as_freeze_all depth budget [] = Inr budget"
| "as_freeze_all depth budget (x # xs) =
     res_bind (as_freeze depth budget x) (\<lambda>left. as_freeze_all depth left xs)"
| "as_freeze_members depth budget [] = Inr budget"
| "as_freeze_members depth budget ((k, x) # ms) =
     res_bind (as_freeze depth budget x) (\<lambda>left. as_freeze_members depth left ms)"

declare as_freeze.simps [simp del]

definition as_frozen :: "json \<Rightarrow> unit res" where
  "as_frozen j = res_bind (as_freeze 0 as_budget j) (\<lambda>_. Inr ())"

section \<open>Digests and validation\<close>

text \<open>The digest of a value that is known to be within the bounds, and the digest that checks.\<close>

definition as_hash :: "host_env \<Rightarrow> string \<Rightarrow> json \<Rightarrow> string" where
  "as_hash h domain j =
     sha256 h (utf8 (''ordin.assurance:'' @ domain @ '':v1'' @ [char_of (0 :: nat)] @ canonical_json h j))"

definition as_digest :: "host_env \<Rightarrow> string \<Rightarrow> json \<Rightarrow> string res" where
  "as_digest h domain j = res_bind (as_frozen j) (\<lambda>_. Inr (as_hash h domain j))"

definition as_validate :: "host_env \<Rightarrow> string \<Rightarrow> schema \<Rightarrow> json \<Rightarrow> unit res" where
  "as_validate h name shape j =
     res_bind (as_frozen j) (\<lambda>_.
     if length (utf8 (canonical_json h j)) > 1048576
     then Inl (ValueError ''assurance JSON byte limit exceeded'')
     else if \<not> conforms shape j
     then Inl (ValueError (''invalid '' @ name @ '': schema validation failed''))
     else Inr ())"

section \<open>Shapes\<close>

definition as_text :: "nat \<Rightarrow> schema" where
  "as_text maximum = pattern_shape maximum (\<lambda>s. s \<noteq> [] \<and> \<not> unsafe_text s)"

definition as_id_text :: "string \<Rightarrow> bool" where
  "as_id_text s = (identifier_text s \<and> length s \<le> 128)"

definition as_id :: schema where "as_id = pattern_shape 128 as_id_text"

definition as_count :: schema where
  "as_count = Schema [Types [''integer''], Minimum 0, Maximum 1000000000]"

definition as_timestamp :: schema where
  "as_timestamp = Schema [Types [''integer''], Minimum 0, Maximum (2 ^ 53 - 1)]"

definition as_depth :: schema where
  "as_depth = Schema [Types [''integer''], Minimum 0, Maximum 16]"

definition as_nullable :: "schema \<Rightarrow> schema" where
  "as_nullable s = Schema [AnyOf [s, Schema [Types [''null'']]]]"

definition as_obj :: "(string \<times> schema) list \<Rightarrow> schema" where
  "as_obj ps = Schema [Types [''object''], Required (map fst ps), Properties ps, NoAdditional,
     MaxProperties (length ps)]"

definition artifact :: "string \<Rightarrow> (string \<times> schema) list \<Rightarrow> schema" where
  "artifact name ps = as_obj ((''schema_version'',
     Schema [Const (JStr (''ordin.'' @ name @ ''.v1'')), Types [''string'']]) # ps)"

definition repository_shape :: schema where
  "repository_shape = as_obj [(''id'', as_id), (''revision'', as_id)]"

definition host_scope_shape :: schema where
  "host_scope_shape = as_obj [(''principal'', as_id), (''repository'', repository_shape),
     (''session_digest'', digest_shape), (''epoch'', as_count),
     (''runtime_policy_digest'', digest_shape), (''selection_digest'', digest_shape)]"

definition authority_ref_shape :: schema where
  "authority_ref_shape = as_obj [(''authority_id'', as_id), (''boundary_digest'', digest_shape)]"

definition delegation_shape :: schema where
  "delegation_shape = artifact ''assurance_delegation'' [
     (''grant_id'', as_id), (''parent_principal'', as_id), (''child_principal'', as_id),
     (''parent_grant_id'', as_nullable as_id), (''issuer_identity'', as_id),
     (''authorization_channel'', as_id), (''session_digest'', digest_shape), (''epoch'', as_count),
     (''issued_at'', as_timestamp), (''expires_at'', as_timestamp),
     (''revoked_at'', as_nullable as_timestamp), (''parent_policy_digest'', digest_shape),
     (''profile_digest'', digest_shape), (''contract_digest'', digest_shape),
     (''capability_refs'', array_shape 128 digest_shape),
     (''maximum_delegation_depth'', as_depth), (''depth'', as_depth),
     (''status'', enum_shape [''proposal'', ''issued'', ''revoked''])]"

definition verification_states :: "string list" where
  "verification_states = [''within_boundary'', ''exceeds_boundary'', ''unsupported'', ''inconclusive'']"

definition delegation_domains :: "string list" where
  "delegation_domains = boundary_domains @ [''requests'', ''approval'']"

definition delegation_verification_shape :: schema where
  "delegation_verification_shape = artifact ''assurance_delegation_verification'' [
     (''result'', enum_shape verification_states), (''reason_codes'', array_shape 64 as_id),
     (''child_authority_digest'', digest_shape), (''parent_authority_digest'', digest_shape),
     (''operator_authority_digest'', digest_shape), (''task_authority_digest'', digest_shape),
     (''coverage'', as_obj (map (\<lambda>d. (d, bool_shape)) delegation_domains)),
     (''proof_gaps'', array_shape 32 (as_text 4096))]"

definition rest_methods :: "string list" where
  "rest_methods = [''GET'', ''HEAD'', ''OPTIONS'', ''POST'', ''PUT'', ''PATCH'', ''DELETE'']"

definition rest_authority_shape :: schema where
  "rest_authority_shape = artifact ''assurance_rest_authority'' [
     (''scheme'', enum_shape [''http'', ''https'']), (''host'', as_text 253), (''port'', port_shape),
     (''path'', as_text 4096), (''method'', enum_shape rest_methods),
     (''access'', enum_shape [''read'', ''write'']), (''body_present'', bool_shape),
     (''commitment'', digest_shape),
     (''algorithm'', enum_shape [''ordin.authority-json.sha256.v1''])]"

definition rest_boundary_shape :: schema where
  "rest_boundary_shape = artifact ''assurance_rest_boundary'' [
     (''capability'', boundary_shape), (''requests'', array_shape 128 rest_authority_shape)]"

definition rest_contract_shape :: schema where
  "rest_contract_shape = artifact ''assurance_rest_contract'' [
     (''capability'', capability_shape), (''request'', rest_authority_shape)]"

section \<open>Lemmas\<close>

fun json_nodes :: "json \<Rightarrow> nat" where
  "json_nodes (JArr xs) = Suc (sum_list (map json_nodes xs))"
| "json_nodes (JObj p) = Suc (sum_list (map (\<lambda>m. json_nodes (snd m)) p))"
| "json_nodes j = 1"

text \<open>What is admitted has used one unit of the budget for every value in it.\<close>

lemma as_freeze_spends:
  "as_freeze depth budget j = Inr left \<Longrightarrow> left + json_nodes j = budget"
  "as_freeze_all depth budget xs = Inr left \<Longrightarrow> left + sum_list (map json_nodes xs) = budget"
  "as_freeze_members depth budget ms = Inr left \<Longrightarrow>
     left + sum_list (map (\<lambda>m. json_nodes (snd m)) ms) = budget"
proof (induction depth budget j and depth budget xs and depth budget ms arbitrary: left and left and left
    rule: as_freeze_as_freeze_all_as_freeze_members.induct)
  case (1 depth budget j)
  then show ?case
    by (cases j) (auto simp: as_freeze.simps Let_def split: if_splits)
next
  case (3 depth budget x xs)
  then show ?case by fastforce
next
  case (5 depth budget k x ms)
  then show ?case by fastforce
qed auto

end
