(* ===== verification/Requests.thy ===== *)
theory Requests
  imports Assurance_Json
begin

text \<open>
  Exact request authority: \<^verbatim>\<open>ordin/_runtime_host.py\<close>, the records and verifiers of
  \<^verbatim>\<open>ordin/runtime_requests_v2.py\<close>, and the stricter protocol rules of
  \<^verbatim>\<open>ordin/assurance/requests.py\<close>. Request authorities are values that have been constructed;
  parsing a URL or a request body into one is not modelled.
\<close>

section \<open>Host and identity selectors\<close>

definition host_label :: "string \<Rightarrow> bool" where
  "host_label s = (s \<noteq> [] \<and>
     list_all (\<lambda>c. let n = cp c in 97 \<le> n \<and> n \<le> 122 \<or> 48 \<le> n \<and> n \<le> 57 \<or> n = 45) s)"

definition host_suffix :: "string \<Rightarrow> string" where
  "host_suffix p = drop 1 (dropWhile (\<lambda>c. c \<noteq> CHR ''.'') p)"

definition host_matches :: "string \<Rightarrow> string option \<Rightarrow> bool" where
  "host_matches pattern host = (case host of None \<Rightarrow> False | Some name \<Rightarrow>
     if startswith pattern ''*.'' \<or> startswith pattern ''**.''
     then (let suffix = host_suffix pattern; labels = py_split CHR ''.'' suffix in
       if length labels < 2 \<or> \<not> list_all host_label labels then False
       else endswith name (CHR ''.'' # suffix) \<and>
         (startswith pattern ''**.'' \<or> length (py_split CHR ''.'' name) = length labels + 1))
     else CHR ''*'' \<notin> set pattern \<and> pattern = name)"

definition identity_matches :: "string option \<Rightarrow> string option \<Rightarrow> bool" where
  "identity_matches pattern v = (case (pattern, v) of
     (Some p, Some s) \<Rightarrow>
       if length p > 256 \<or> length s > 256 then False
       else if CHR ''*'' \<notin> set p then p = s
       else endswith p ''*'' \<and> length (filter (\<lambda>c. c = CHR ''*'') p) = 1 \<and> startswith s (butlast p)
   | _ \<Rightarrow> pattern = v)"

section \<open>Grants, requests, contracts and boundaries\<close>

record network_grant =
  ng_host :: string
  ng_port :: int
  ng_protocol :: string
  ng_access :: string
  ng_methods :: "string list"
  ng_paths :: "string list"

record graphql_operation =
  go_type :: string
  go_name :: "string option"
  go_fields :: "string list"

record rpc_call =
  rc_method :: string
  rc_tool :: "string option"
  rc_kind :: string

record request_authority =
  ra_protocol :: string
  ra_host :: string
  ra_port :: int
  ra_path :: string
  ra_commitment :: string
  ra_algorithm :: string
  ra_server :: "string option"
  ra_versions :: "string list"
  ra_operations :: "graphql_operation list"
  ra_calls :: "rpc_call list"

record request_contract =
  rq_capability :: capability_contract
  rq_requests :: "request_authority list"
  rq_id :: string

record request_boundary =
  rb_boundary :: capability_boundary
  rb_requests :: "request_authority list"
  rb_grants :: "network_grant list"

definition network_grant_json :: "network_grant \<Rightarrow> json" where
  "network_grant_json g = JObj [(''host_pattern'', JStr (ng_host g)), (''port'', JInt (ng_port g)),
     (''protocol'', JStr (ng_protocol g)), (''access'', JStr (ng_access g)),
     (''methods'', strings_json (ng_methods g)), (''paths'', strings_json (ng_paths g))]"

definition graphql_operation_json :: "graphql_operation \<Rightarrow> json" where
  "graphql_operation_json g = JObj [(''operation_type'', JStr (go_type g)),
     (''operation_name'', option_json (go_name g)), (''fields'', strings_json (go_fields g))]"

definition rpc_call_json :: "rpc_call \<Rightarrow> json" where
  "rpc_call_json c = JObj [(''method'', JStr (rc_method c)), (''tool'', option_json (rc_tool c)),
     (''kind'', JStr (rc_kind c))]"

definition request_authority_json :: "request_authority \<Rightarrow> json" where
  "request_authority_json r = JObj [(''protocol'', JStr (ra_protocol r)), (''host'', JStr (ra_host r)),
     (''port'', JInt (ra_port r)), (''path'', JStr (ra_path r)),
     (''commitment'', JStr (ra_commitment r)), (''algorithm'', JStr (ra_algorithm r)),
     (''server'', option_json (ra_server r)), (''versions'', strings_json (ra_versions r)),
     (''operations'', JArr (map graphql_operation_json (ra_operations r))),
     (''calls'', JArr (map rpc_call_json (ra_calls r)))]"

definition mcp_versions :: "string list" where
  "mcp_versions = [''2025-03-26'', ''2025-06-18'', ''2025-11-25'']"

definition name_text :: "string \<Rightarrow> bool" where
  "name_text = lead_rest (\<lambda>c. ascii_alnum c \<and> \<not> (48 \<le> cp c \<and> cp c \<le> 57) \<or> c = CHR ''_'')
     (\<lambda>c. ascii_alnum c \<or> c = CHR ''_'')"

definition field_text :: "string \<Rightarrow> bool" where
  "field_text s = list_all name_text (py_split CHR ''.'' s)"

definition request_authority_shape :: schema where
  "request_authority_shape = obj_shape [
     (''protocol'', enum_shape [''graphql'', ''mcp'', ''json-rpc'']), (''host'', host_shape),
     (''port'', port_shape), (''path'', text_shape 4096), (''commitment'', digest_shape),
     (''algorithm'', Schema [Const (JStr ''ordin.authority-json.sha256.v1'')]),
     (''server'', nullable_text 256), (''versions'', array_shape 3 (enum_shape mcp_versions)),
     (''operations'', array_shape 128 (obj_shape [
        (''operation_type'', enum_shape [''query'', ''mutation'', ''subscription'']),
        (''operation_name'', nullable_pattern 128 name_text),
        (''fields'', array_shape 4096 (pattern_shape 4096 field_text))])),
     (''calls'', array_shape 128 (obj_shape [(''method'', text_shape 128),
        (''tool'', nullable_text 128), (''kind'', enum_shape [''request'', ''notification''])]))]"

definition network_grant_shape :: schema where
  "network_grant_shape = obj_shape [
     (''host_pattern'', text_shape 253), (''port'', port_shape),
     (''protocol'', enum_shape [''rest'', ''graphql'', ''mcp'', ''json-rpc'', ''tcp'']),
     (''access'', enum_shape [''read'', ''write'']),
     (''methods'', array_shape 32 (enum_shape http_methods)),
     (''paths'', array_shape 128 (text_shape 4096))]"

definition request_contract_shape :: schema where
  "request_contract_shape = obj_shape [
     (''schema_version'', Schema [Const (JStr ''ordin.runtime_request_contract.v2'')]),
     (''capability'', capability_shape), (''requests'', array_shape 128 request_authority_shape),
     (''request_contract_id'', pattern_shape 67 (contract_id_text ''rq:''))]"

definition request_boundary_shape :: schema where
  "request_boundary_shape = obj_shape [
     (''schema_version'', Schema [Const (JStr ''ordin.runtime_request_boundary.v2'')]),
     (''boundary'', boundary_shape), (''requests'', array_shape 128 request_authority_shape),
     (''network_grants'', array_shape 128 network_grant_shape)]"

text \<open>\<^verbatim>\<open>pattern.replace(old, new, 1)\<close> for the two wildcard prefixes.\<close>

fun replace_first :: "string \<Rightarrow> string \<Rightarrow> string \<Rightarrow> string" where
  "replace_first old new [] = (if old = [] then new else [])"
| "replace_first old new (c # s) =
     (if startswith (c # s) old then new @ drop (length old) (c # s) else c # replace_first old new s)"

definition make_network_grant :: "host_env \<Rightarrow> network_grant \<Rightarrow> network_grant res" where
  "make_network_grant h g =
     res_bind (validate_shape h 128 ''network_authority_grant'' network_grant_shape (network_grant_json g)) (\<lambda>_.
     let p = ng_host g;
         probe = replace_first ''*.'' ''probe.'' (replace_first ''**.'' ''probe.'' p)
     in if CHR ''*'' \<in> set p \<and> \<not> startswith p ''*.'' \<and> \<not> startswith p ''**.''
        then Inl (ValueError ''runtime_network_grant_invalid'')
        else if \<not> host_matches p (Some probe) then Inl (ValueError ''runtime_network_grant_invalid'')
        else if ng_protocol g = ''tcp'' \<and> (ng_access g \<noteq> ''write'' \<or> ng_methods g \<noteq> [] \<or> ng_paths g \<noteq> [])
        then Inl (ValueError ''runtime_network_grant_invalid'')
        else if ng_protocol g \<noteq> ''tcp'' \<and> (ng_methods g = [] \<or> ng_paths g = [])
        then Inl (ValueError ''runtime_network_grant_invalid'')
        else Inr g)"

definition request_material :: "request_contract \<Rightarrow> payload" where
  "request_material c = [(''schema_version'', JStr ''ordin.runtime_request_contract.v2''),
     (''capability'', contract_json (rq_capability c)),
     (''requests'', JArr (map request_authority_json (rq_requests c)))]"

definition request_contract_json :: "request_contract \<Rightarrow> json" where
  "request_contract_json c = JObj (request_material c @ [(''request_contract_id'', JStr (rq_id c))])"

definition make_request_contract :: "host_env \<Rightarrow> request_contract \<Rightarrow> request_contract res" where
  "make_request_contract h c =
     res_bind (model_tuple (rq_requests c)) (\<lambda>_.
     (let expected = ''rq:'' @ digest h (JObj (request_material c)); c' = c\<lparr>rq_id := expected\<rparr>
     in if rq_id c \<noteq> [] \<and> rq_id c \<noteq> expected
        then Inl (ValueError ''runtime_request_identity_mismatch'')
        else res_bind (validate_shape h 4096 ''runtime_request_contract_v2'' request_contract_shape
               (request_contract_json c')) (\<lambda>_. Inr c')))"

definition request_contract_digest :: "host_env \<Rightarrow> request_contract \<Rightarrow> string" where
  "request_contract_digest h c = digest h (request_contract_json c)"

definition request_boundary_json :: "request_boundary \<Rightarrow> json" where
  "request_boundary_json b = JObj [(''schema_version'', JStr ''ordin.runtime_request_boundary.v2''),
     (''boundary'', boundary_json (rb_boundary b)),
     (''requests'', JArr (map request_authority_json (rb_requests b))),
     (''network_grants'', JArr (map network_grant_json (rb_grants b)))]"

definition make_request_boundary :: "host_env \<Rightarrow> request_boundary \<Rightarrow> request_boundary res" where
  "make_request_boundary h b =
     res_bind (model_tuple (rb_requests b)) (\<lambda>_.
     res_bind (model_tuple (rb_grants b)) (\<lambda>_.
     res_bind (validate_shape h 4096 ''runtime_request_boundary_v2'' request_boundary_shape
       (request_boundary_json b)) (\<lambda>_. Inr b)))"

definition request_boundary_digest :: "host_env \<Rightarrow> request_boundary \<Rightarrow> string" where
  "request_boundary_digest h b = digest h (request_boundary_json b)"

section \<open>Consistency of requests and capabilities\<close>

definition higher_protocol :: "string \<Rightarrow> bool" where
  "higher_protocol p = (p \<in> {''graphql'', ''mcp'', ''json-rpc''})"

definition endpoint_matches :: "capability_contract \<Rightarrow> request_authority \<Rightarrow> network_capability list" where
  "endpoint_matches c r = filter (\<lambda>n. nt_protocol n = ra_protocol r \<and> nt_host n = Some (ra_host r) \<and>
     nt_port n = Some (ra_port r) \<and> nt_paths n = [ra_path r] \<and> nt_methods n = [''POST''] \<and>
     nt_identity n = None) (cc_network c)"

definition graphql_access :: "request_authority \<Rightarrow> string" where
  "graphql_access r =
     (if list_all (\<lambda>g. go_type g \<in> {''query'', ''subscription''}) (ra_operations r)
      then ''read'' else ''write'')"

definition request_errors :: "capability_contract \<Rightarrow> request_authority \<Rightarrow> string list" where
  "request_errors c r = (let ms = endpoint_matches c r in
     (if ms = [] then [''requests.endpoint_contract_mismatch''] else []) @
     (if ra_protocol r = ''graphql'' \<and> list_ex (\<lambda>n. nt_access n \<noteq> graphql_access r) ms
      then [''requests.graphql_access_mismatch''] else []))"

definition network_errors :: "request_authority list \<Rightarrow> network_capability \<Rightarrow> string list" where
  "network_errors rs n =
     (if nt_protocol n = ''json-rpc'' \<and> nt_access n \<noteq> ''write''
      then [''requests.jsonrpc_access_mismatch''] else []) @
     (if higher_protocol (nt_protocol n)
      then (if nt_identity n \<noteq> None \<or> nt_methods n \<noteq> [''POST''] \<or> length (nt_paths n) \<noteq> 1 \<or>
               nt_access n \<notin> {''read'', ''write''}
            then [''requests.network_scope_unrepresentable''] else []) @
           (if \<not> list_ex (\<lambda>r. ra_protocol r = nt_protocol n \<and> Some (ra_host r) = nt_host n \<and>
                 Some (ra_port r) = nt_port n \<and> [ra_path r] = nt_paths n) rs
            then [''requests.missing_restrictions''] else [])
      else [])"

definition tool_errors :: "request_authority list \<Rightarrow> tool_capability \<Rightarrow> string list" where
  "tool_errors rs t =
     (if list_ex (\<lambda>r. ra_protocol r = tl_runtime t \<and> tl_runtime t = ''mcp'' \<and> ra_server r = tl_server t \<and>
           list_ex (\<lambda>c. rc_method c = ''tools/call'' \<and> rc_tool c = Some (tl_tool t)) (ra_calls r)) rs
      then [] else [''requests.tool_contract_mismatch''])"

definition request_authority_errors :: "request_contract \<Rightarrow> string list" where
  "request_authority_errors c = sorted_set (
     concat (map (request_errors (rq_capability c)) (rq_requests c)) @
     concat (map (network_errors (rq_requests c)) (cc_network (rq_capability c))) @
     concat (map (tool_errors (rq_requests c)) (cc_tools (rq_capability c))))"

section \<open>Verification\<close>

text \<open>The constructors of the two result classes, which refuse incomplete success.\<close>

definition make_verification :: "verification_result \<Rightarrow> verification_result res" where
  "make_verification r =
     res_bind (case vr_counterexample r of None \<Rightarrow> Inr ()
       | Some j \<Rightarrow> res_bind (freeze 0 max_runtime_depth max_runtime_items j) (\<lambda>_. Inr ())) (\<lambda>_.
     res_bind (text_tuple (vr_unsupported r)) (\<lambda>_.
     if vr_result r \<notin> set verification_states
     then Inl (ValueError ''invalid boundary verification state'')
     else if vr_result r = ''within_boundary'' \<and>
        (list_ex (\<lambda>m. fst m \<in> set boundary_domains \<and> \<not> snd m) (vr_coverage r) \<or> vr_unsupported r \<noteq> [])
     then Inl (ValueError ''within_boundary requires complete coverage without unsupported fields'')
     else Inr r))"

definition network_of_grant ::
  "host_env \<Rightarrow> string option \<Rightarrow> network_grant \<Rightarrow> network_capability res" where
  "network_of_grant h host g = make_network h \<lparr>nt_host = host, nt_port = Some (ng_port g),
     nt_protocol = ng_protocol g, nt_access = ng_access g, nt_methods = ng_methods g,
     nt_paths = ng_paths g, nt_identity = None\<rparr>"

definition grants_at :: "network_grant list \<Rightarrow> network_capability \<Rightarrow> network_grant list" where
  "grants_at gs n = filter (\<lambda>g. Some (ng_port g) = nt_port n \<and> host_matches (ng_host g) (nt_host n)) gs"

text \<open>The maxima that the grants add for each of some candidate capabilities.\<close>

definition granted_networks ::
  "host_env \<Rightarrow> network_grant list \<Rightarrow> network_capability list \<Rightarrow> network_capability list res" where
  "granted_networks h gs ns =
     res_bind (res_mapM (\<lambda>n. res_mapM (network_of_grant h (nt_host n)) (grants_at gs n)) ns)
       (\<lambda>nss. Inr (concat nss))"

definition transport :: "host_env \<Rightarrow> network_capability \<Rightarrow> network_capability res" where
  "transport h n =
     (if higher_protocol (nt_protocol n) then make_network h (n\<lparr>nt_protocol := ''rest''\<rparr>) else Inr n)"

definition matching_tools :: "tool_capability list \<Rightarrow> tool_capability list \<Rightarrow> tool_capability list" where
  "matching_tools ts maxima = filter (\<lambda>t. list_ex (\<lambda>m. tl_runtime m = tl_runtime t \<and>
     tl_operation m = tl_operation t \<and> identity_matches (tl_server m) (tl_server t) \<and>
     identity_matches (Some (tl_tool m)) (Some (tl_tool t))) maxima) ts"

text \<open>One more comparison for each protocol, until one fails.\<close>

fun verify_protocols ::
  "host_env \<Rightarrow> (string list \<Rightarrow> string list) \<Rightarrow> capability_contract \<Rightarrow> capability_boundary \<Rightarrow>
     network_capability list \<Rightarrow> network_capability list \<Rightarrow> string list \<Rightarrow> verification_result
     \<Rightarrow> verification_result res" where
  "verify_protocols h so candidate maximum ns maxima [] core = Inr core"
| "verify_protocols h so candidate maximum ns maxima (p # ps) core =
     res_bind (res_mapM (transport h) (filter (\<lambda>n. nt_protocol n = p) ns)) (\<lambda>ns'.
     res_bind (make_contract h (candidate\<lparr>cc_id := [], cc_network := ns'\<rparr>)) (\<lambda>c'.
     res_bind (res_mapM (transport h) (filter (\<lambda>n. nt_protocol n \<in> {p, ''tcp''}) maxima)) (\<lambda>ms.
     res_bind (make_boundary h (maximum\<lparr>bd_network := ms\<rparr>)) (\<lambda>b'.
     res_bind (verify_runtime_capability h so c' b') (\<lambda>core'.
     if verified_ok core' then verify_protocols h so candidate maximum ns maxima ps core'
     else Inr core')))))"

definition with_requests :: "request_contract \<Rightarrow> request_boundary \<Rightarrow> host_env \<Rightarrow> verification_result
    \<Rightarrow> bool \<Rightarrow> verification_result" where
  "with_requests c b h core v = core\<lparr>vr_contract := request_contract_digest h c,
     vr_boundary := request_boundary_digest h b, vr_coverage := vr_coverage core @ [(''requests'', v)]\<rparr>"

definition verify_runtime_request_authority ::
  "host_env \<Rightarrow> (string list \<Rightarrow> string list) \<Rightarrow> request_contract \<Rightarrow> request_boundary
     \<Rightarrow> verification_result res" where
  "verify_runtime_request_authority h so c b =
     (let errors = request_authority_errors c; cap = rq_capability c; bd = rb_boundary b in
      if errors \<noteq> []
      then make_verification \<lparr>vr_result = ''unsupported'', vr_reason = ''runtime_request_unsupported'',
         vr_contract = request_contract_digest h c, vr_boundary = request_boundary_digest h b,
         vr_coverage = map (\<lambda>d. (d, False)) (boundary_domains @ [''requests'']),
         vr_counterexample = None, vr_unsupported = errors\<rparr>
      else
        res_bind (granted_networks h (rb_grants b) (cc_network cap)) (\<lambda>granted.
        let maxima = bd_network bd @ granted in
        res_bind (res_mapM (transport h) (cc_network cap)) (\<lambda>ns.
        res_bind (make_contract h (cap\<lparr>cc_id := [], cc_network := ns\<rparr>)) (\<lambda>candidate.
        res_bind (res_mapM (transport h) maxima) (\<lambda>ms.
        res_bind (make_boundary h (bd\<lparr>bd_network := ms,
            bd_tools := matching_tools (cc_tools cap) (bd_tools bd)\<rparr>)) (\<lambda>maximum.
        res_bind (verify_runtime_capability h so candidate maximum) (\<lambda>first.
        res_bind (if verified_ok first
            then verify_protocols h so candidate maximum (cc_network cap) maxima
              (so (map nt_protocol (cc_network cap))) first
            else Inr first) (\<lambda>core.
        if \<not> verified_ok core then make_verification (with_requests c b h core False)
        else (case filter (\<lambda>r. r \<notin> set (rb_requests b)) (rq_requests c) of
            r # _ \<Rightarrow> make_verification ((with_requests c b h core True)\<lparr>
              vr_result := ''exceeds_boundary'', vr_reason := ''runtime_request_exceeds_boundary'',
              vr_counterexample := Some (JObj [(''request_digest'', JStr (digest h (request_authority_json r)))]),
              vr_unsupported := []\<rparr>)
          | [] \<Rightarrow> make_verification ((with_requests c b h core True)\<lparr>
              vr_result := ''within_boundary'', vr_reason := ''runtime_request_within'',
              vr_counterexample := None, vr_unsupported := []\<rparr>))))))))))"

section \<open>Assurance: protocols are separate\<close>

definition plain_process :: process_capability where
  "plain_process = \<lparr>pc_execution = Some False, pc_executables = [], pc_children = None\<rparr>"

definition plain_privilege :: privilege_capability where
  "plain_privilege = \<lparr>pv_escalation = Some False, pv_euid = None\<rparr>"

text \<open>A contract and a boundary over the network only, the other domains at their defaults.\<close>

definition network_question ::
  "host_env \<Rightarrow> capability_contract \<Rightarrow> network_capability \<Rightarrow> capability_contract res" where
  "network_question h c n = make_contract h \<lparr>cc_action = cc_action c, cc_action_digest = cc_action_digest c,
     cc_decision = ''allow'', cc_risk = ''low'', cc_filesystem = [], cc_network = [n], cc_tools = [],
     cc_process = plain_process, cc_privilege = plain_privilege, cc_credentials = [],
     cc_unknowns = [], cc_source = cc_source c, cc_id = []\<rparr>"

definition network_projection ::
  "host_env \<Rightarrow> string \<Rightarrow> network_capability list \<Rightarrow> capability_boundary res" where
  "network_projection h name ms = make_boundary h \<lparr>bd_id = name, bd_filesystem = [], bd_network = ms,
     bd_tools = [], bd_process = plain_process, bd_privilege = plain_privilege, bd_credentials = [],
     bd_semantics = ''exact'', bd_guarantees = False, bd_any_executable = False\<rparr>"

definition protocol_refusal ::
  "string \<Rightarrow> string \<Rightarrow> verification_result \<Rightarrow> verification_result \<Rightarrow> string \<Rightarrow> verification_result" where
  "protocol_refusal contract boundary checked comparison protocol =
     \<lparr>vr_result = vr_result comparison,
      vr_reason = (if vr_result comparison = ''exceeds_boundary''
        then ''assurance.request_protocol_exceeds_boundary''
        else ''assurance.request_protocol_unsupported''),
      vr_contract = contract, vr_boundary = boundary,
      vr_coverage = map (\<lambda>m. if fst m = ''network''
        then (''network'', (''network'', True) \<in> set (vr_coverage comparison)) else m) (vr_coverage checked),
      vr_counterexample = Some (JObj [(''protocol'', JStr protocol)]),
      vr_unsupported = vr_unsupported comparison\<rparr>"

fun separate_networks ::
  "host_env \<Rightarrow> (string list \<Rightarrow> string list) \<Rightarrow> capability_contract \<Rightarrow> capability_boundary \<Rightarrow>
     verification_result \<Rightarrow> network_capability list \<Rightarrow> verification_result res" where
  "separate_networks h so c b checked [] = Inr checked"
| "separate_networks h so c b checked (n # ns) =
     (if nt_protocol n = ''tcp'' then separate_networks h so c b checked ns
      else
        res_bind (network_question h c n) (\<lambda>question.
        res_bind (network_projection h ''assurance-basic-protocol-projection''
            (filter (\<lambda>m. nt_protocol m = nt_protocol n) (bd_network b))) (\<lambda>projection.
        res_bind (verify_runtime_capability h so question projection) (\<lambda>comparison.
        if verified_ok comparison then separate_networks h so c b checked ns
        else make_verification (protocol_refusal (contract_digest h c) (boundary_digest h b)
               checked comparison (nt_protocol n))))))"

definition verify_assurance_capability ::
  "host_env \<Rightarrow> (string list \<Rightarrow> string list) \<Rightarrow> capability_contract \<Rightarrow> capability_boundary
     \<Rightarrow> verification_result res" where
  "verify_assurance_capability h so c b =
     res_bind (verify_runtime_capability h so c b) (\<lambda>checked.
     if \<not> verified_ok checked then Inr checked
     else separate_networks h so c b checked (cc_network c))"

fun separate_requests ::
  "host_env \<Rightarrow> (string list \<Rightarrow> string list) \<Rightarrow> request_contract \<Rightarrow> request_boundary \<Rightarrow>
     verification_result \<Rightarrow> network_capability list \<Rightarrow> verification_result res" where
  "separate_requests h so c b checked [] = Inr checked"
| "separate_requests h so c b checked (n # ns) =
     (if nt_protocol n = ''tcp'' then separate_requests h so c b checked ns
      else
        res_bind (res_mapM (network_of_grant h (nt_host n))
            (filter (\<lambda>g. ng_protocol g = nt_protocol n) (grants_at (rb_grants b) n))) (\<lambda>granted.
        res_bind (transport h n) (\<lambda>n'.
        res_bind (network_question h (rq_capability c) n') (\<lambda>question.
        res_bind (res_mapM (transport h)
            (filter (\<lambda>m. nt_protocol m = nt_protocol n) (bd_network (rb_boundary b)) @ granted)) (\<lambda>maxima.
        res_bind (network_projection h ''assurance-protocol-projection'' maxima) (\<lambda>projection.
        res_bind (verify_runtime_capability h so question projection) (\<lambda>comparison.
        if verified_ok comparison then separate_requests h so c b checked ns
        else make_verification (protocol_refusal (request_contract_digest h c)
               (request_boundary_digest h b) checked comparison (nt_protocol n)))))))))"

definition verify_assurance_request_authority ::
  "host_env \<Rightarrow> (string list \<Rightarrow> string list) \<Rightarrow> request_contract \<Rightarrow> request_boundary
     \<Rightarrow> verification_result res" where
  "verify_assurance_request_authority h so c b =
     res_bind (verify_runtime_request_authority h so c b) (\<lambda>checked.
     if \<not> verified_ok checked then Inr checked
     else separate_requests h so c b checked (cc_network (rq_capability c)))"

section \<open>Exact REST requests\<close>

text \<open>\<^verbatim>\<open>ordin/assurance/rest.py\<close>.\<close>

record rest_authority =
  rs_scheme :: string
  rs_host :: string
  rs_port :: int
  rs_path :: string
  rs_method :: string
  rs_access :: string
  rs_body :: bool
  rs_commitment :: string
  rs_algorithm :: string

record rest_boundary =
  sb_capability :: capability_boundary
  sb_requests :: "rest_authority list"

record rest_contract =
  sc_capability :: capability_contract
  sc_request :: rest_authority

definition rest_authority_json :: "rest_authority \<Rightarrow> json" where
  "rest_authority_json r = JObj [(''schema_version'', JStr ''ordin.assurance_rest_authority.v1''),
     (''scheme'', JStr (rs_scheme r)), (''host'', JStr (rs_host r)), (''port'', JInt (rs_port r)),
     (''path'', JStr (rs_path r)), (''method'', JStr (rs_method r)), (''access'', JStr (rs_access r)),
     (''body_present'', JBool (rs_body r)), (''commitment'', JStr (rs_commitment r)),
     (''algorithm'', JStr (rs_algorithm r))]"

definition rest_boundary_json :: "rest_boundary \<Rightarrow> json" where
  "rest_boundary_json b = JObj [(''schema_version'', JStr ''ordin.assurance_rest_boundary.v1''),
     (''capability'', boundary_json (sb_capability b)),
     (''requests'', JArr (map rest_authority_json (sb_requests b)))]"

definition make_rest_boundary :: "host_env \<Rightarrow> rest_boundary \<Rightarrow> rest_boundary res" where
  "make_rest_boundary h b =
     (if length (sb_requests b) > 128
      then Inl (ValueError ''REST maximum requires bounded typed request declarations'')
      else res_bind (as_validate h ''assurance_rest_boundary'' rest_boundary_shape (rest_boundary_json b))
        (\<lambda>_. Inr b))"

definition rest_contract_json :: "rest_contract \<Rightarrow> json" where
  "rest_contract_json c = JObj [(''schema_version'', JStr ''ordin.assurance_rest_contract.v1''),
     (''capability'', contract_json (sc_capability c)),
     (''request'', rest_authority_json (sc_request c))]"

definition exact_requirement :: "capability_unknown \<Rightarrow> bool" where
  "exact_requirement u =
     (cu_domain u = ''network'' \<and> cu_code u = ''runtime_rest_request_commitment_required'')"

definition rest_network :: "rest_authority \<Rightarrow> network_capability" where
  "rest_network r = \<lparr>nt_host = Some (rs_host r), nt_port = Some (rs_port r), nt_protocol = ''rest'',
     nt_access = rs_access r, nt_methods = [rs_method r], nt_paths = [rs_path r], nt_identity = None\<rparr>"

definition make_rest_contract :: "host_env \<Rightarrow> rest_contract \<Rightarrow> rest_contract res" where
  "make_rest_contract h c = (let cap = sc_capability c; r = sc_request c; s = cc_source cap in
     res_bind (make_network h (rest_network r)) (\<lambda>expected.
     if length (filter exact_requirement (cc_unknowns cap)) \<noteq> 1 \<or> cc_network cap \<noteq> [expected] \<or>
        jget s ''adapter'' \<noteq> JStr ''network.rest'' \<or> jget s ''kind'' \<noteq> JStr ''network'' \<or>
        jget s ''operation'' \<noteq> JStr ''http.request'' \<or>
        the_list (jget s ''effects'') \<noteq>
          [JStr (if rs_access r = ''read'' then ''network.download'' else ''network.upload'')]
     then Inl (ValueError ''REST core capability differs from request commitment'')
     else res_bind (as_validate h ''assurance_rest_contract'' rest_contract_shape (rest_contract_json c))
        (\<lambda>_. Inr c)))"

definition rest_contract_digest :: "host_env \<Rightarrow> rest_contract \<Rightarrow> string" where
  "rest_contract_digest h c = as_hash h ''rest_contract'' (rest_contract_json c)"

definition rest_boundary_digest :: "host_env \<Rightarrow> rest_boundary \<Rightarrow> string" where
  "rest_boundary_digest h b = as_hash h ''rest_boundary'' (rest_boundary_json b)"

definition verify_rest_request_authority ::
  "host_env \<Rightarrow> (string list \<Rightarrow> string list) \<Rightarrow> rest_contract \<Rightarrow> rest_boundary
     \<Rightarrow> verification_result res" where
  "verify_rest_request_authority h so c b = (let cap = sc_capability c in
     res_bind (make_contract h (cap\<lparr>cc_id := [],
         cc_unknowns := filter (\<lambda>u. \<not> exact_requirement u) (cc_unknowns cap)\<rparr>)) (\<lambda>question.
     res_bind (verify_assurance_capability h so question (sb_capability b)) (\<lambda>core.
     let matched = sc_request c \<in> set (sb_requests b);
         bound = core\<lparr>vr_contract := rest_contract_digest h c, vr_boundary := rest_boundary_digest h b\<rparr>
     in if \<not> verified_ok core
        then make_verification (bound\<lparr>vr_coverage := vr_coverage core @ [(''requests'', False)],
               vr_counterexample := None\<rparr>)
        else make_verification (bound\<lparr>vr_coverage := vr_coverage core @ [(''requests'', matched)],
               vr_result := (if matched then ''within_boundary'' else ''exceeds_boundary''),
               vr_reason := (if matched then ''assurance.rest_request_within''
                 else ''assurance.rest_request_commitment_exceeds''),
               vr_counterexample := (if matched then None else Some (JObj [(''request_digest'',
                 JStr (as_hash h ''assurance_rest_authority'' (rest_authority_json (sc_request c))))])),
               vr_unsupported := []\<rparr>))))"

section \<open>What boundaries with grants permit\<close>

text \<open>The pure counterparts of the constructions above.\<close>

definition as_rest :: "network_capability \<Rightarrow> network_capability" where
  "as_rest n = (if higher_protocol (nt_protocol n) then n\<lparr>nt_protocol := ''rest''\<rparr> else n)"

definition grant_network :: "string option \<Rightarrow> network_grant \<Rightarrow> network_capability" where
  "grant_network host g = \<lparr>nt_host = host, nt_port = Some (ng_port g), nt_protocol = ng_protocol g,
     nt_access = ng_access g, nt_methods = ng_methods g, nt_paths = ng_paths g, nt_identity = None\<rparr>"

definition networks_at :: "network_grant list \<Rightarrow> string \<Rightarrow> int \<Rightarrow> network_capability list" where
  "networks_at gs host port = map (grant_network (Some host))
     (filter (\<lambda>g. ng_port g = port \<and> host_matches (ng_host g) (Some host)) gs)"

text \<open>
  Operations on the network are those of the transport: a right over GraphQL, MCP or JSON-RPC is
  the right to the HTTP requests that carry it. A tool is permitted by name or by a pattern.
\<close>

fun grants_permit :: "capability_boundary \<Rightarrow> network_grant list \<Rightarrow> operation \<Rightarrow> bool" where
  "grants_permit b gs (NetRequest host port verb path r i) =
     allows_request (map as_rest (bd_network b @ networks_at gs host port)) host port verb path r i"
| "grants_permit b gs (NetConnect host port r i) =
     allows_connect (map as_rest (bd_network b @ networks_at gs host port)) host port r i"
| "grants_permit b gs (CallTool t) = (t \<in> set (bd_tools b) \<or> matching_tools [t] (bd_tools b) \<noteq> [])"
| "grants_permit b gs op = permits b op"

definition carries :: "capability_contract \<Rightarrow> operation \<Rightarrow> bool" where
  "carries c op = requires (c\<lparr>cc_network := map as_rest (cc_network c)\<rparr>) op"

section \<open>Lemmas\<close>

lemma transport_pure: "transport h n = Inr n' \<Longrightarrow> n' = as_rest n"
  by (auto simp: transport_def as_rest_def split: if_split_asm dest: make_same)

lemma transports_pure: "res_mapM (transport h) ns = Inr ns' \<Longrightarrow> ns' = map as_rest ns"
  by (induction ns arbitrary: ns') (auto dest: transport_pure)

lemma network_of_grant_pure: "network_of_grant h host g = Inr n \<Longrightarrow> n = grant_network host g"
  by (auto simp: network_of_grant_def grant_network_def dest: make_same)

lemma networks_of_grants_pure:
  "res_mapM (network_of_grant h host) gs = Inr ns \<Longrightarrow> ns = map (grant_network host) gs"
  by (induction gs arbitrary: ns) (auto dest: network_of_grant_pure)

lemma granted_networks_pure:
  assumes "granted_networks h gs ns = Inr ms" "m \<in> set ms"
  shows "\<exists>n \<in> set ns. \<exists>g \<in> set (grants_at gs n). m = grant_network (nt_host n) g"
proof -
  obtain nss where nss: "res_mapM (\<lambda>n. res_mapM (network_of_grant h (nt_host n)) (grants_at gs n)) ns = Inr nss"
      "ms = concat nss"
    using assms(1) by (auto simp: granted_networks_def)
  then obtain xs where xs: "xs \<in> set nss" "m \<in> set xs" using assms(2) by auto
  from res_mapM_Inr_mem2 [OF nss(1) xs(1)]
  obtain n where "n \<in> set ns" "res_mapM (network_of_grant h (nt_host n)) (grants_at gs n) = Inr xs" by auto
  with xs(2) networks_of_grants_pure show ?thesis by fastforce
qed

lemma granted_at_endpoint:
  assumes "granted_networks h gs ns = Inr ms" "m \<in> set ms" "nt_host m = Some host" "nt_port m = Some port"
  shows "m \<in> set (networks_at gs host port)"
  using granted_networks_pure [OF assms(1,2)] assms(3,4)
  by (auto simp: networks_at_def grants_at_def grant_network_def)

lemma as_rest_endpoint [simp]: "at_endpoint (as_rest n) = at_endpoint n"
  by (simp add: as_rest_def at_endpoint_def fun_eq_iff)

lemma as_rest_raw: "raw_connection (as_rest n) \<longleftrightarrow> raw_connection n"
  by (auto simp: as_rest_def raw_connection_def higher_protocol_def)

lemma as_rest_serves: "serves n verb path \<Longrightarrow> serves (as_rest n) verb path"
  by (auto simp: as_rest_def serves_def higher_protocol_def)

lemma as_rest_idem [simp]: "as_rest (as_rest n) = as_rest n"
  by (simp add: as_rest_def higher_protocol_def)

lemma allows_request_at:
  assumes "allows_request ns host port verb path r i"
    "\<And>n. n \<in> set ns \<Longrightarrow> nt_host n = Some host \<Longrightarrow> nt_port n = Some port \<Longrightarrow> as_rest n \<in> set ms"
  shows "allows_request ms host port verb path r i"
proof -
  obtain n where n: "n \<in> set ns" "at_endpoint n host port r i" "raw_connection n \<or> serves n verb path"
    using assms(1) unfolding allows_request_def by blast
  then have "as_rest n \<in> set ms" using assms(2) by (simp add: at_endpoint_def)
  moreover have "raw_connection (as_rest n) \<or> serves (as_rest n) verb path"
    using n(3) as_rest_raw as_rest_serves by blast
  ultimately show ?thesis using n(2) unfolding allows_request_def by (metis as_rest_endpoint)
qed

lemma allows_connect_at:
  assumes "allows_connect ns host port r i"
    "\<And>n. n \<in> set ns \<Longrightarrow> nt_host n = Some host \<Longrightarrow> nt_port n = Some port \<Longrightarrow> as_rest n \<in> set ms"
  shows "allows_connect ms host port r i"
proof -
  obtain n where n: "n \<in> set ns" "at_endpoint n host port r i" "raw_connection n"
    using assms(1) unfolding allows_connect_def by blast
  then have "as_rest n \<in> set ms" using assms(2) by (simp add: at_endpoint_def)
  then show ?thesis using n(2,3) as_rest_raw unfolding allows_connect_def by (metis as_rest_endpoint)
qed

text \<open>
  Whatever a boundary extended by granted networks and narrowed tools permits, the boundary
  with its grants permits.
\<close>

lemma extended_permits:
  assumes "permits (b\<lparr>bd_network := ms, bd_tools := ts\<rparr>) op"
    "granted_networks h gs ns = Inr granted" "set (map as_rest ms) \<subseteq> set (map as_rest (bd_network b @ granted))"
    "\<forall>t \<in> set ts. t \<in> set (bd_tools b) \<or> matching_tools [t] (bd_tools b) \<noteq> []"
  shows "grants_permit b gs op"
proof -
  have covered: "as_rest m \<in> set (map as_rest (bd_network b @ networks_at gs host port))"
    if m: "m \<in> set ms" "nt_host m = Some host" "nt_port m = Some port" for m host port
  proof -
    obtain k where k: "k \<in> set (bd_network b @ granted)" "as_rest m = as_rest k"
      using assms(3) m(1) by auto
    have ends: "nt_host k = Some host" "nt_port k = Some port"
      using m(2,3) k(2) by (simp_all add: as_rest_def split: if_split_asm) (metis network_capability.ext_inject network_capability.surjective network_capability.update_convs(3))+
    show ?thesis
    proof (cases "k \<in> set (bd_network b)")
      case False
      with k(1) have "k \<in> set granted" by simp
      from granted_at_endpoint [OF assms(2) this ends] k(2) show ?thesis by simp
    qed (use k in simp)
  qed
  show ?thesis
  proof (cases op)
    case (NetRequest host port verb path r i)
    with assms(1) show ?thesis
      using allows_request_at [of ms host port verb path r i "map as_rest (bd_network b @ networks_at gs host port)"]
        covered by simp
  next
    case (NetConnect host port r i)
    with assms(1) show ?thesis
      using allows_connect_at [of ms host port r i "map as_rest (bd_network b @ networks_at gs host port)"]
        covered by simp
  qed (use assms(1,4) in auto)
qed

lemma requires_id [simp]: "requires (c\<lparr>cc_id := x\<rparr>) op = requires c op"
  by (cases op) auto

lemma carries_id [simp]: "carries (c\<lparr>cc_id := x\<rparr>) op = carries c op"
  by (cases op) (simp_all add: carries_def)

lemma matching_tools_one: "t \<in> set (matching_tools ts ms) \<Longrightarrow> matching_tools [t] ms \<noteq> []"
  by (auto simp: matching_tools_def)

text \<open>Networks that pass the comparison have no higher protocol.\<close>

lemma compared_plain:
  assumes "boundary_findings so c b = []" "n \<in> set (cc_network c)"
  shows "as_rest n = n"
proof -
  have "network_findings so (bd_network b) n = []"
    using assms unfolding boundary_findings_def append_is_Nil_conv concat_eq_Nil_conv by auto
  then have "nt_protocol n \<in> {''rest'', ''tcp''}"
    unfolding network_findings_def network_unmodelled_def by (simp split: if_split_asm)
  then show ?thesis by (auto simp: as_rest_def higher_protocol_def)
qed

lemma capability_carried:
  assumes so: "\<forall>xs. set (so xs) = set xs"
    and ok: "verify_runtime_capability h so c (b\<lparr>bd_network := bd_network b @ granted\<rparr>) = Inr r" "verified_ok r"
    and granted: "granted_networks h gs ns = Inr granted" and op: "carries c op"
  shows "grants_permit b gs op"
proof -
  have "map as_rest (cc_network c) = cc_network c"
    using compared_plain [OF ok_no_findings [OF ok]] by (simp add: map_idI)
  then have "requires c op" using op by (simp add: carries_def)
  with boundary_sound [OF so ok]
  have "permits (b\<lparr>bd_network := bd_network b @ granted\<rparr>) op" by blast
  then have "permits (b\<lparr>bd_network := bd_network b @ granted, bd_tools := bd_tools b\<rparr>) op" by simp
  from extended_permits [OF this granted] show ?thesis by simp
qed

lemma make_boundary_ok: "make_boundary h b = Inr b' \<Longrightarrow> b' = b"
  by (auto simp: make_boundary_def)

lemma make_verification_ok: "make_verification r = Inr r' \<Longrightarrow> r' = r"
  by (auto simp: make_verification_def split: if_split_asm)

definition known_state :: "verification_result \<Rightarrow> bool" where
  "known_state r = (vr_result r \<in> set verification_states)"

lemma made_known: "make_verification r = Inr r' \<Longrightarrow> known_state r'"
  by (auto simp: make_verification_def known_state_def split: if_split_asm)

lemma verified_known: "verify_runtime_capability h so c b = Inr r \<Longrightarrow> known_state r"
  using verify_states [of h so c b r] by (auto simp: known_state_def verification_states_def)

lemma request_known: "verify_runtime_request_authority h so c b = Inr r \<Longrightarrow> known_state r"
  unfolding verify_runtime_request_authority_def Let_def
  by (auto split: if_split_asm list.splits intro: made_known)

lemma with_requests_ok [simp]: "verified_ok (with_requests c b h core v) = verified_ok core"
  by (simp add: verified_ok_def with_requests_def)

lemma request_verified:
  assumes "verify_runtime_request_authority h so c b = Inr r" "verified_ok r"
  obtains granted candidate maximum first where
    "granted_networks h (rb_grants b) (cc_network (rq_capability c)) = Inr granted"
    "candidate = (rq_capability c)\<lparr>cc_network := map as_rest (cc_network (rq_capability c)),
       cc_id := cc_id candidate\<rparr>"
    "maximum = (rb_boundary b)\<lparr>bd_network := map as_rest (bd_network (rb_boundary b) @ granted),
       bd_tools := matching_tools (cc_tools (rq_capability c)) (bd_tools (rb_boundary b))\<rparr>"
    "verify_runtime_capability h so candidate maximum = Inr first" "verified_ok first"
    "set (rq_requests c) \<subseteq> set (rb_requests b)" "request_authority_errors c = []"
proof (cases "request_authority_errors c = []")
  case False
  then have "vr_result r = ''unsupported''"
    using assms(1) unfolding verify_runtime_request_authority_def Let_def
    by (auto dest: make_verification_ok)
  with assms(2) show ?thesis by (simp add: verified_ok_def)
next
  case True
  from assms(1) True obtain granted ns candidate ms maximum first core where
    g: "granted_networks h (rb_grants b) (cc_network (rq_capability c)) = Inr granted"
    and ns: "res_mapM (transport h) (cc_network (rq_capability c)) = Inr ns"
    and cand: "make_contract h ((rq_capability c)\<lparr>cc_id := [], cc_network := ns\<rparr>) = Inr candidate"
    and ms: "res_mapM (transport h) (bd_network (rb_boundary b) @ granted) = Inr ms"
    and mx: "make_boundary h ((rb_boundary b)\<lparr>bd_network := ms,
       bd_tools := matching_tools (cc_tools (rq_capability c)) (bd_tools (rb_boundary b))\<rparr>) = Inr maximum"
    and first: "verify_runtime_capability h so candidate maximum = Inr first"
    and core: "(if verified_ok first
            then verify_protocols h so candidate maximum (cc_network (rq_capability c))
              (bd_network (rb_boundary b) @ granted)
              (so (map nt_protocol (cc_network (rq_capability c)))) first
            else Inr first) = Inr core"
    and last: "(if \<not> verified_ok core then make_verification (with_requests c b h core False)
        else (case filter (\<lambda>r. r \<notin> set (rb_requests b)) (rq_requests c) of
            r # _ \<Rightarrow> make_verification ((with_requests c b h core True)\<lparr>
              vr_result := ''exceeds_boundary'', vr_reason := ''runtime_request_exceeds_boundary'',
              vr_counterexample := Some (JObj [(''request_digest'', JStr (digest h (request_authority_json r)))]),
              vr_unsupported := []\<rparr>)
          | [] \<Rightarrow> make_verification ((with_requests c b h core True)\<lparr>
              vr_result := ''within_boundary'', vr_reason := ''runtime_request_within'',
              vr_counterexample := None, vr_unsupported := []\<rparr>))) = Inr r"
    unfolding verify_runtime_request_authority_def Let_def
    by (simp only: True simp_thms if_False res_bind_Inr_iff) blast
  have core_ok: "verified_ok core"
    using last assms(2) by (auto split: if_split_asm dest: make_verification_ok)
  then have first_ok: "verified_ok first" using core by (auto split: if_split_asm)
  have "filter (\<lambda>r. r \<notin> set (rb_requests b)) (rq_requests c) = []"
    using last assms(2) core_ok
    by (auto simp: verified_ok_def split: list.splits dest!: make_verification_ok)
  then have requests: "set (rq_requests c) \<subseteq> set (rb_requests b)" by (auto simp: filter_empty_conv)
  have candidate: "candidate = (rq_capability c)\<lparr>cc_network := map as_rest (cc_network (rq_capability c)),
       cc_id := cc_id candidate\<rparr>"
    using make_contract_ok(1) [OF cand] transports_pure [OF ns] by simp
  have maximum: "maximum = (rb_boundary b)\<lparr>bd_network := map as_rest (bd_network (rb_boundary b) @ granted),
       bd_tools := matching_tools (cc_tools (rq_capability c)) (bd_tools (rb_boundary b))\<rparr>"
    using make_boundary_ok [OF mx] transports_pure [OF ms] by simp
  show ?thesis by (rule that [OF g candidate maximum first first_ok requests True])
qed

lemma request_carried:
  assumes so: "\<forall>xs. set (so xs) = set xs"
    and ok: "verify_runtime_request_authority h so c b = Inr r" "verified_ok r"
    and op: "carries (rq_capability c) op"
  shows "grants_permit (rb_boundary b) (rb_grants b) op"
  using ok
proof (rule request_verified)
  fix granted candidate maximum first
  assume v: "granted_networks h (rb_grants b) (cc_network (rq_capability c)) = Inr granted"
    "candidate = (rq_capability c)\<lparr>cc_network := map as_rest (cc_network (rq_capability c)),
       cc_id := cc_id candidate\<rparr>"
    "maximum = (rb_boundary b)\<lparr>bd_network := map as_rest (bd_network (rb_boundary b) @ granted),
       bd_tools := matching_tools (cc_tools (rq_capability c)) (bd_tools (rb_boundary b))\<rparr>"
    "verify_runtime_capability h so candidate maximum = Inr first" "verified_ok first"
  have "requires candidate op"
    using op unfolding carries_def by (subst v(2)) (simp only: requires_id)
  with boundary_sound [OF so v(4,5)] have "permits maximum op" by blast
  then show ?thesis
    unfolding v(3)
    by (rule extended_permits [OF _ v(1)]) (simp_all add: comp_def ballI disjI2 matching_tools_one)
qed

lemma refusal_not_ok:
  "make_verification (protocol_refusal x y checked comparison p) = Inr r \<Longrightarrow> \<not> verified_ok comparison \<Longrightarrow>
     \<not> verified_ok r"
  by (auto simp: protocol_refusal_def verified_ok_def dest!: make_verification_ok)

lemma assurance_core:
  assumes "verify_assurance_capability h so c b = Inr r" "verified_ok r"
  obtains checked where "verify_runtime_capability h so c b = Inr checked" "verified_ok checked"
    "separate_networks h so c b checked (cc_network c) = Inr r"
  using assms unfolding verify_assurance_capability_def
  by (auto split: if_split_asm)

lemma assurance_carried:
  assumes so: "\<forall>xs. set (so xs) = set xs"
    and ok: "verify_assurance_capability h so c (b\<lparr>bd_network := bd_network b @ granted\<rparr>) = Inr r" "verified_ok r"
    and granted: "granted_networks h gs ns = Inr granted" and op: "carries c op"
  shows "grants_permit b gs op"
  using ok by (rule assurance_core) (rule capability_carried [OF so _ _ granted op])

lemma separate_networks_known:
  "separate_networks h so c b checked ns = Inr r \<Longrightarrow> known_state checked \<Longrightarrow> known_state r"
  by (induction ns) (auto split: if_split_asm intro: made_known)

lemma separate_requests_known:
  "separate_requests h so c b checked ns = Inr r \<Longrightarrow> known_state checked \<Longrightarrow> known_state r"
  by (induction ns) (auto split: if_split_asm intro: made_known)

lemma assurance_known: "verify_assurance_capability h so c b = Inr r \<Longrightarrow> known_state r"
  unfolding verify_assurance_capability_def
  by (auto split: if_split_asm intro: separate_networks_known dest: verified_known)

lemma assurance_request_known: "verify_assurance_request_authority h so c b = Inr r \<Longrightarrow> known_state r"
  unfolding verify_assurance_request_authority_def
  by (auto split: if_split_asm intro: separate_requests_known dest: request_known)

lemma request_assured:
  assumes "verify_assurance_request_authority h so c b = Inr r" "verified_ok r"
  obtains checked where "verify_runtime_request_authority h so c b = Inr checked" "verified_ok checked"
  using assms unfolding verify_assurance_request_authority_def
  by (auto split: if_split_asm)

lemma separate_networks_ok:
  assumes "separate_networks h so c b checked ns = Inr r" "verified_ok r" "n \<in> set ns" "nt_protocol n \<noteq> ''tcp''"
  shows "\<exists>question projection comparison. network_question h c n = Inr question \<and>
    network_projection h ''assurance-basic-protocol-projection''
      (filter (\<lambda>m. nt_protocol m = nt_protocol n) (bd_network b)) = Inr projection \<and>
    verify_runtime_capability h so question projection = Inr comparison \<and> verified_ok comparison"
  using assms(1,3)
proof (induction ns)
  case (Cons m ns)
  show ?case
  proof (cases "nt_protocol m = ''tcp''")
    case True
    with Cons assms(4) show ?thesis by auto
  next
    case False
    from Cons.prems(1) False obtain question projection comparison where
      q: "network_question h c m = Inr question" and
      p: "network_projection h ''assurance-basic-protocol-projection''
        (filter (\<lambda>k. nt_protocol k = nt_protocol m) (bd_network b)) = Inr projection" and
      v: "verify_runtime_capability h so question projection = Inr comparison" and
      rest: "(if verified_ok comparison then separate_networks h so c b checked ns
        else make_verification (protocol_refusal (contract_digest h c) (boundary_digest h b)
               checked comparison (nt_protocol m))) = Inr r"
      by (simp only: separate_networks.simps if_False res_bind_Inr_iff) blast
    then have ok: "verified_ok comparison" using refusal_not_ok assms(2) by (metis (full_types))
    show ?thesis
    proof (cases "n = m")
      case True
      with q p v ok show ?thesis by blast
    next
      case False
      with Cons rest ok show ?thesis by simp
    qed
  qed
qed simp

section \<open>Properties\<close>

text \<open>
  C14: A raw TCP permission never stands in for HTTP. When \<^verbatim>\<open>verify_assurance_capability\<close> accepts
  a contract, every verb and path of every REST capability it asks for is served by a REST
  maximum of the boundary at the same endpoint, under the same identity and with at least its
  access, although the core comparison alone would accept a raw connection for them.
\<close>

theorem assurance_separates_protocols:
  assumes "\<forall>xs. set (so xs) = set xs" "verify_assurance_capability h so c b = Inr r" "verified_ok r"
    "n \<in> set (cc_network c)" "nt_protocol n = ''rest''" "verb \<in> set (nt_methods n)" "path \<in> set (nt_paths n)"
  shows "\<exists>m \<in> set (bd_network b). nt_protocol m = ''rest'' \<and> network_fits n m \<and> serves m verb path"
proof -
  obtain checked where "separate_networks h so c b checked (cc_network c) = Inr r"
    using assms(2,3) by (rule assurance_core)
  from separate_networks_ok [OF this assms(3,4)] assms(5)
  obtain question projection comparison where
    q: "network_question h c n = Inr question" and
    p: "network_projection h ''assurance-basic-protocol-projection''
      (filter (\<lambda>m. nt_protocol m = ''rest'') (bd_network b)) = Inr projection" and
    v: "verify_runtime_capability h so question projection = Inr comparison" "verified_ok comparison"
    by auto
  have "cc_network question = [n]"
    using make_contract_ok(1) [OF q [unfolded network_question_def]] by simp
  moreover have "bd_network projection = filter (\<lambda>m. nt_protocol m = ''rest'') (bd_network b)"
    using make_boundary_ok [OF p [unfolded network_projection_def]] by simp
  ultimately have "network_findings so (filter (\<lambda>m. nt_protocol m = ''rest'') (bd_network b)) n = []"
    using ok_no_findings [OF v] unfolding boundary_findings_def append_is_Nil_conv concat_eq_Nil_conv by simp
  from network_covered [OF this assms(1)] assms(6,7) show ?thesis
    by (auto simp: raw_connection_def) blast
qed

definition sample_need :: network_capability where
  "sample_need = \<lparr>nt_host = Some ''api.dev'', nt_port = Some 443, nt_protocol = ''rest'',
     nt_access = ''read'', nt_methods = [''GET''], nt_paths = [''/v1''], nt_identity = None\<rparr>"

definition sample_maximum :: network_capability where
  "sample_maximum = \<lparr>nt_host = Some ''api.dev'', nt_port = Some 443, nt_protocol = ''rest'',
     nt_access = ''write'', nt_methods = [''GET'', ''POST''], nt_paths = [''/v1'', ''/v2/**''], nt_identity = None\<rparr>"

definition sample_question :: capability_contract where
  "sample_question = sample_contract\<lparr>cc_filesystem := [], cc_network := [sample_need],
     cc_process := plain_process, cc_privilege := plain_privilege\<rparr>"

definition sample_network_boundary :: capability_boundary where
  "sample_network_boundary = \<lparr>bd_id = ''assurance-basic-protocol-projection'',
     bd_filesystem = [], bd_network = [sample_maximum], bd_tools = [],
     bd_process = plain_process, bd_privilege = plain_privilege, bd_credentials = [],
     bd_semantics = ''exact'', bd_guarantees = False, bd_any_executable = False\<rparr>"

lemmas sample_question_defs = sample_question_def sample_contract_def sample_need_def
  plain_process_def plain_privilege_def

lemma sample_question_made:
  "make_contract digest_env (sample_question\<lparr>cc_id := []\<rparr>) = Inr sample_question"
proof -
  have id: "digest digest_env j = replicate 64 CHR ''a''" for j by (simp add: digest_def digest_env_def)
  have same: "sample_question\<lparr>cc_id := []\<rparr>\<lparr>cc_id := ''rc:'' @ replicate 64 CHR ''a''\<rparr> = sample_question"
    by (simp add: sample_question_defs)
  have "freeze 0 max_runtime_depth 128 (contract_json sample_question) = Inr (contract_json sample_question)"
    by (simp add: freeze.simps capability_json_defs sample_question_defs
        max_runtime_depth_def max_runtime_text_def cp_def list_ex_iff)
  moreover have "text_bound digest_env (contract_json sample_question) \<le> 524288"
    by (simp add: capability_json_defs sample_question_defs int_text_def decimal.simps)
  moreover have "conforms capability_shape (contract_json sample_question)"
    by (simp add: capability_json_defs sample_question_defs shape_defs pattern_defs http_methods_def
        list_all_iff startswith_def cp_def ascii_alnum_def)
  ultimately have valid:
    "validate_shape digest_env 128 name capability_shape (contract_json sample_question) = Inr ()" for name
    by (rule validate_shape_small)
  have source: "freeze 0 max_runtime_depth 128 (JObj (cc_source (sample_question\<lparr>cc_id := []\<rparr>))) =
      Inr (JObj (cc_source sample_question))"
    by (simp add: freeze.simps sample_question_defs max_runtime_depth_def max_runtime_text_def cp_def)
  show ?thesis
    unfolding make_contract_def Let_def source id same valid
    by (simp add: sample_question_defs model_tuple_def max_runtime_items_def)
qed

lemma sample_projection_made:
  "make_boundary digest_env sample_network_boundary = Inr sample_network_boundary"
proof -
  have "freeze 0 max_runtime_depth 128 (boundary_json sample_network_boundary) =
      Inr (boundary_json sample_network_boundary)"
    by (simp add: freeze.simps capability_json_defs boundary_json_def sample_network_boundary_def
        sample_maximum_def plain_process_def plain_privilege_def max_runtime_depth_def max_runtime_text_def cp_def)
  moreover have "text_bound digest_env (boundary_json sample_network_boundary) \<le> 524288"
    by (simp add: capability_json_defs boundary_json_def sample_network_boundary_def sample_maximum_def
        plain_process_def plain_privilege_def int_text_def decimal.simps)
  moreover have "conforms boundary_shape (boundary_json sample_network_boundary)"
    by (simp add: capability_json_defs boundary_json_def sample_network_boundary_def sample_maximum_def
        plain_process_def plain_privilege_def shape_defs pattern_defs http_methods_def
        cp_def ascii_alnum_def)
  ultimately have "validate_shape digest_env 128 name boundary_shape (boundary_json sample_network_boundary) = Inr ()"
    for name by (rule validate_shape_small)
  then show ?thesis by (simp add: make_boundary_def sample_network_boundary_def model_tuple_def max_runtime_items_def)
qed

lemma sample_assured:
  obtains r where "verify_assurance_capability digest_env id sample_question sample_network_boundary = Inr r"
    "verified_ok r"
proof -
  have "boundary_findings id sample_question sample_network_boundary = []" by code_simp
  from no_findings_ok [OF this] obtain r where
    r: "verify_runtime_capability digest_env id sample_question sample_network_boundary = Inr r" "verified_ok r"
    by blast
  have q: "network_question digest_env sample_question sample_need = Inr sample_question"
    using sample_question_made by (simp add: network_question_def sample_question_defs)
  have p: "network_projection digest_env ''assurance-basic-protocol-projection'' [sample_maximum] =
      Inr sample_network_boundary"
    using sample_projection_made by (simp add: network_projection_def sample_network_boundary_def)
  have nets: "cc_network sample_question = [sample_need]" "nt_protocol sample_need = ''rest''"
      "bd_network sample_network_boundary = [sample_maximum]" "nt_protocol sample_maximum = ''rest''"
    by (simp_all add: sample_question_def sample_need_def sample_network_boundary_def sample_maximum_def)
  have "verify_assurance_capability digest_env id sample_question sample_network_boundary = Inr r"
    unfolding verify_assurance_capability_def by (simp add: r q p nets)
  with r(2) that show ?thesis by blast
qed

text \<open>A read of one path is served by a maximum that names it.\<close>

theorem assurance_separates_protocols_witness:
  "\<exists>m \<in> set (bd_network sample_network_boundary).
     nt_protocol m = ''rest'' \<and> network_fits sample_need m \<and> serves m ''GET'' ''/v1''"
proof -
  obtain r where r: "verify_assurance_capability digest_env id sample_question sample_network_boundary = Inr r"
    "verified_ok r" by (rule sample_assured)
  show ?thesis
    by (rule assurance_separates_protocols [OF _ r]) (simp_all add: sample_question_def sample_need_def)
qed

end
