(* ===== verification/Delegation.thy ===== *)
theory Delegation
  imports Requests
begin

text \<open>
  \<^verbatim>\<open>ordin/assurance/delegation.py\<close>, the first half: authorities as data, the proof that the
  authority asked for a child is inside three maxima, and the check of one operation against an
  authority. Both are sound for the operations of \<^verbatim>\<open>Boundary\<close> and \<^verbatim>\<open>Requests\<close>.
\<close>

section \<open>Authorities\<close>

record delegation_authority =
  da_capability :: capability_boundary
  da_requests :: "request_authority list"
  da_grants :: "network_grant list"
  da_approval :: bool
  da_rest :: "rest_authority list"

definition authority_json :: "delegation_authority \<Rightarrow> json" where
  "authority_json a = JObj ([(''capability'', boundary_json (da_capability a)),
     (''requests'', JArr (map request_authority_json (da_requests a))),
     (''network_grants'', JArr (map network_grant_json (da_grants a))),
     (''requires_approval'', JBool (da_approval a))] @
     (if da_rest a = [] then [] else [(''rest_requests'', JArr (map rest_authority_json (da_rest a)))]))"

definition make_authority :: "delegation_authority \<Rightarrow> delegation_authority res" where
  "make_authority a =
     (if length (da_requests a) > 128 \<or> length (da_grants a) > 128 \<or> length (da_rest a) > 128
      then Inl (ValueError ''delegation request rights must be bounded typed data'')
      else res_bind (as_frozen (authority_json a)) (\<lambda>_. Inr a))"

definition authority_digest :: "host_env \<Rightarrow> delegation_authority \<Rightarrow> string" where
  "authority_digest h a = as_hash h ''delegation_authority'' (authority_json a)"

definition delegation_source :: payload where
  "delegation_source = [(''kind'', JStr ''delegation''), (''operation'', JStr ''subset''),
     (''adapter'', JNull), (''effects'', JArr []), (''provenance_digest'', JNull)]"

text \<open>The maximum with the networks its grants give to some candidates.\<close>

definition extended_boundary ::
  "host_env \<Rightarrow> delegation_authority \<Rightarrow> network_capability list \<Rightarrow> capability_boundary res" where
  "extended_boundary h a candidates =
     res_bind (granted_networks h (da_grants a) candidates) (\<lambda>granted.
     make_boundary h ((da_capability a)\<lparr>bd_network := bd_network (da_capability a) @ granted\<rparr>))"

definition requirements :: "host_env \<Rightarrow> delegation_authority \<Rightarrow> capability_contract res" where
  "requirements h a = (let cap = da_capability a in
     res_bind (res_mapM (\<lambda>g. if CHR ''*'' \<in> set (ng_host g)
         then Inl (ValueError ''child wildcard network authority cannot be represented exactly'')
         else network_of_grant h (Some (ng_host g)) g) (da_grants a)) (\<lambda>granted.
     make_contract h \<lparr>cc_action = Some ''delegation-proposal'', cc_action_digest = authority_digest h a,
       cc_decision = ''allow'', cc_risk = ''low'', cc_filesystem = bd_filesystem cap,
       cc_network = bd_network cap @ granted, cc_tools = bd_tools cap, cc_process = bd_process cap,
       cc_privilege = bd_privilege cap, cc_credentials = bd_credentials cap, cc_unknowns = [],
       cc_source = delegation_source, cc_id = []\<rparr>))"

section \<open>Containment\<close>

record delegation_verification =
  dv_result :: string
  dv_reasons :: "string list"
  dv_child :: string
  dv_parent :: string
  dv_operator :: string
  dv_task :: string
  dv_coverage :: "(string \<times> bool) list"
  dv_gaps :: "string list"

definition delegation_verification_json :: "delegation_verification \<Rightarrow> json" where
  "delegation_verification_json v = JObj [
     (''schema_version'', JStr ''ordin.assurance_delegation_verification.v1''),
     (''result'', JStr (dv_result v)), (''reason_codes'', strings_json (dv_reasons v)),
     (''child_authority_digest'', JStr (dv_child v)), (''parent_authority_digest'', JStr (dv_parent v)),
     (''operator_authority_digest'', JStr (dv_operator v)), (''task_authority_digest'', JStr (dv_task v)),
     (''coverage'', JObj (map (\<lambda>m. (fst m, JBool (snd m))) (dv_coverage v))),
     (''proof_gaps'', strings_json (dv_gaps v))]"

definition make_delegation_verification ::
  "host_env \<Rightarrow> delegation_verification \<Rightarrow> delegation_verification res" where
  "make_delegation_verification h v =
     res_bind (as_validate h ''assurance_delegation_verification'' delegation_verification_shape
       (delegation_verification_json v)) (\<lambda>_.
     if dv_result v = ''within_boundary'' \<and> (list_ex (\<lambda>m. \<not> snd m) (dv_coverage v) \<or> dv_gaps v \<noteq> [])
     then Inl (ValueError ''delegation containment requires complete supported coverage'')
     else Inr v)"

definition delegation_ok :: "delegation_verification \<Rightarrow> bool" where
  "delegation_ok v = (dv_result v = ''within_boundary'')"

text \<open>What the checks have found so far: states, reasons, and domains not covered.\<close>

record subset_scan =
  ss_states :: "string list"
  ss_reasons :: "string list"
  ss_uncovered :: "string list"

definition scan_add :: "string list \<Rightarrow> string list \<Rightarrow> string list \<Rightarrow> subset_scan \<Rightarrow> subset_scan" where
  "scan_add states reasons domains s = s\<lparr>ss_states := ss_states s @ states,
     ss_reasons := ss_reasons s @ reasons, ss_uncovered := ss_uncovered s @ domains\<rparr>"

text \<open>The child's own exact requests, each within the child's own capability.\<close>

definition rest_step ::
  "host_env \<Rightarrow> (string list \<Rightarrow> string list) \<Rightarrow> delegation_authority \<Rightarrow> rest_authority \<Rightarrow> subset_scan
     \<Rightarrow> subset_scan res" where
  "rest_step h so child request s =
     res_bind (make_network h (rest_network request)) (\<lambda>n.
     res_bind (make_contract h \<lparr>cc_action = Some ''rest-delegation-proposal'',
       cc_action_digest = authority_digest h child, cc_decision = ''allow'', cc_risk = ''low'',
       cc_filesystem = [], cc_network = [n], cc_tools = [], cc_process = plain_process,
       cc_privilege = plain_privilege, cc_credentials = [], cc_unknowns = [],
       cc_source = delegation_source, cc_id = []\<rparr>) (\<lambda>question.
     res_bind (extended_boundary h child [n]) (\<lambda>maximum.
     res_bind (verify_assurance_capability h so question maximum) (\<lambda>selected.
     Inr (if verified_ok selected then s
       else scan_add [vr_result selected] [''delegation.rest_request_outside_child_capability'']
         [''requests''] s)))))"

definition own_limits :: "delegation_authority \<Rightarrow> subset_scan \<Rightarrow> subset_scan" where
  "own_limits child s = (let cap = da_capability child;
     s' = (if bd_any_executable cap
       then scan_add [''unsupported''] [''delegation.any_executable_unsupported''] [''process''] s else s)
     in if list_ex (\<lambda>c. fs_scope c = ''prefix'') (bd_filesystem cap) \<and>
          (bd_semantics cap \<noteq> ''lexical_prefix'' \<or> \<not> bd_guarantees cap)
        then scan_add [''unsupported''] [''delegation.child_filesystem_semantics_unsupported'']
          [''filesystem''] s'
        else s')"

text \<open>The comparison with one maximum, by requests when the child has any.\<close>

definition maximum_check ::
  "host_env \<Rightarrow> (string list \<Rightarrow> string list) \<Rightarrow> delegation_authority \<Rightarrow> capability_contract
     \<Rightarrow> delegation_authority \<Rightarrow> verification_result res" where
  "maximum_check h so child contract m =
     (if da_requests child \<noteq> [] \<or> list_ex (\<lambda>n. higher_protocol (nt_protocol n)) (cc_network contract)
      then
        res_bind (make_request_contract h
            \<lparr>rq_capability = contract, rq_requests = da_requests child, rq_id = []\<rparr>) (\<lambda>c.
        res_bind (make_request_boundary h
            \<lparr>rb_boundary = da_capability m, rb_requests = da_requests m, rb_grants = da_grants m\<rparr>) (\<lambda>b.
        verify_assurance_request_authority h so c b))
      else
        res_bind (extended_boundary h m (cc_network contract)) (\<lambda>b.
        verify_assurance_capability h so contract b))"

definition maximum_step ::
  "host_env \<Rightarrow> (string list \<Rightarrow> string list) \<Rightarrow> delegation_authority \<Rightarrow> capability_contract option
     \<Rightarrow> string \<times> delegation_authority \<Rightarrow> subset_scan \<Rightarrow> subset_scan res" where
  "maximum_step h so child contract nm s = (case nm of (name, m) \<Rightarrow>
     let s1 = (if da_approval m \<and> \<not> da_approval child
           then scan_add [''exceeds_boundary''] [''delegation.'' @ name @ ''_approval_removed''] [] s else s);
         s2 = (if \<not> set (da_rest child) \<subseteq> set (da_rest m)
           then scan_add [''exceeds_boundary'']
             [''delegation.'' @ name @ ''_rest_request_commitment_exceeds''] [''requests''] s1 else s1)
     in case contract of None \<Rightarrow> Inr s2
      | Some c \<Rightarrow>
          res_bind (maximum_check h so child c m) (\<lambda>check.
          Inr (scan_add [vr_result check]
            (if verified_ok check then []
             else (''delegation.'' @ name @ ''_'' @ vr_result check) # vr_unsupported check)
            (map fst (filter (\<lambda>d. \<not> snd d) (vr_coverage check))) s2)))"

fun scan_all :: "('a \<Rightarrow> subset_scan \<Rightarrow> subset_scan res) \<Rightarrow> 'a list \<Rightarrow> subset_scan \<Rightarrow> subset_scan res" where
  "scan_all f [] s = Inr s"
| "scan_all f (x # xs) s = res_bind (f x s) (scan_all f xs)"

definition overall_state :: "string list \<Rightarrow> string" where
  "overall_state states =
     (if ''exceeds_boundary'' \<in> set states then ''exceeds_boundary''
      else if ''unsupported'' \<in> set states then ''unsupported''
      else if ''inconclusive'' \<in> set states then ''inconclusive''
      else ''within_boundary'')"

text \<open>\<^verbatim>\<open>tuple(dict.fromkeys(reasons))\<close>.\<close>

definition distinct_first :: "string list \<Rightarrow> string list" where
  "distinct_first xs = rev (remdups (rev xs))"

definition subset_result ::
  "host_env \<Rightarrow> delegation_authority \<Rightarrow> delegation_authority \<Rightarrow> delegation_authority
     \<Rightarrow> delegation_authority \<Rightarrow> subset_scan \<Rightarrow> delegation_verification res" where
  "subset_result h child parent operator task s =
     (let state = overall_state (ss_states s);
          coverage = map (\<lambda>d. (d, d \<notin> set (ss_uncovered s))) delegation_domains;
          gaps = (if state \<in> {''unsupported'', ''inconclusive''} \<or> list_ex (\<lambda>m. \<not> snd m) coverage
            then [''At least one intended authority domain cannot be proven contained; no grant may be issued.'']
            else [])
      in make_delegation_verification h \<lparr>dv_result = state,
           dv_reasons = take 64 (distinct_first (ss_reasons s)),
           dv_child = authority_digest h child, dv_parent = authority_digest h parent,
           dv_operator = authority_digest h operator, dv_task = authority_digest h task,
           dv_coverage = coverage, dv_gaps = gaps\<rparr>)"

definition verify_delegation_subset ::
  "host_env \<Rightarrow> (string list \<Rightarrow> string list) \<Rightarrow> delegation_authority \<Rightarrow> delegation_authority
     \<Rightarrow> delegation_authority \<Rightarrow> delegation_authority \<Rightarrow> delegation_verification res" where
  "verify_delegation_subset h so child parent operator task =
     res_bind (scan_all (rest_step h so child) (da_rest child)
         \<lparr>ss_states = [], ss_reasons = [], ss_uncovered = []\<rparr>) (\<lambda>s1.
     let s2 = own_limits child s1;
         (contract, s3) = (case requirements h child of
             Inl _ \<Rightarrow> (None, scan_add [''unsupported'']
               [''delegation.child_requirements_unrepresentable''] [''network'', ''requests''] s2)
           | Inr c \<Rightarrow> (Some c, s2))
     in res_bind (scan_all (maximum_step h so child contract)
          [(''parent'', parent), (''operator'', operator), (''task'', task)] s3)
        (subset_result h child parent operator task))"

section \<open>One operation\<close>

datatype operation_contract =
    PlainContract capability_contract
  | RequestsContract request_contract
  | RestContract rest_contract

fun contract_capability :: "operation_contract \<Rightarrow> capability_contract" where
  "contract_capability (PlainContract c) = c"
| "contract_capability (RequestsContract c) = rq_capability c"
| "contract_capability (RestContract c) = sc_capability c"

fun operation_digest :: "host_env \<Rightarrow> operation_contract \<Rightarrow> string" where
  "operation_digest h (PlainContract c) = contract_digest h c"
| "operation_digest h (RequestsContract c) = request_contract_digest h c"
| "operation_digest h (RestContract c) = rest_contract_digest h c"

definition capability_authority ::
  "host_env \<Rightarrow> (string list \<Rightarrow> string list) \<Rightarrow> capability_contract \<Rightarrow> delegation_authority
     \<Rightarrow> verification_result res" where
  "capability_authority h so c a =
     res_bind (extended_boundary h a (cc_network c)) (\<lambda>b. verify_assurance_capability h so c b)"

fun verify_operation_authority ::
  "host_env \<Rightarrow> (string list \<Rightarrow> string list) \<Rightarrow> operation_contract \<Rightarrow> delegation_authority
     \<Rightarrow> verification_result res" where
  "verify_operation_authority h so (RestContract c) a =
     res_bind (extended_boundary h a (cc_network (sc_capability c))) (\<lambda>b.
     res_bind (make_rest_boundary h \<lparr>sb_capability = b, sb_requests = da_rest a\<rparr>) (\<lambda>b'.
     verify_rest_request_authority h so c b'))"
| "verify_operation_authority h so (RequestsContract c) a =
     (if rq_requests c \<noteq> []
      then res_bind (make_request_boundary h
        \<lparr>rb_boundary = da_capability a, rb_requests = da_requests a, rb_grants = da_grants a\<rparr>)
        (verify_assurance_request_authority h so c)
      else capability_authority h so (rq_capability c) a)"
| "verify_operation_authority h so (PlainContract c) a = capability_authority h so c a"

section \<open>What an authority permits\<close>

definition authority_permits :: "delegation_authority \<Rightarrow> operation \<Rightarrow> bool" where
  "authority_permits a op = grants_permit (da_capability a) (da_grants a) op"

text \<open>Every right of one authority is a right of another, and no duty is dropped.\<close>

definition authority_within :: "delegation_authority \<Rightarrow> delegation_authority \<Rightarrow> bool" where
  "authority_within a m \<longleftrightarrow> (\<forall>op. authority_permits a op \<longrightarrow> authority_permits m op) \<and>
     set (da_requests a) \<subseteq> set (da_requests m) \<and> set (da_rest a) \<subseteq> set (da_rest m) \<and>
     (da_approval m \<longrightarrow> da_approval a)"

lemma authority_within_refl: "authority_within a a"
  by (simp add: authority_within_def)

lemma authority_within_trans: "authority_within a b \<Longrightarrow> authority_within b c \<Longrightarrow> authority_within a c"
  unfolding authority_within_def by blast

section \<open>Lemmas\<close>

lemma count_star: "length (filter (\<lambda>c. c = CHR ''*'') p) = 1 \<Longrightarrow> endswith p ''*'' \<Longrightarrow>
    CHR ''*'' \<notin> set (butlast p)"
proof (induction p rule: rev_induct)
  case (snoc c p)
  then show ?case by (auto simp: endswith_def filter_empty_conv)
qed simp

lemma identity_matches_trans:
  assumes "identity_matches p q" "identity_matches q v"
  shows "identity_matches p v"
proof (cases "p = None \<or> q = None \<or> v = None")
  case True
  with assms show ?thesis by (auto simp: identity_matches_def split: option.splits)
next
  case False
  then obtain a b c where abc: "p = Some a" "q = Some b" "v = Some c" by auto
  have short: "length a \<le> 256" "length c \<le> 256"
    using assms by (auto simp: identity_matches_def abc split: if_split_asm)
  show ?thesis
  proof (cases "CHR ''*'' \<in> set a")
    case False
    then show ?thesis using assms by (auto simp: identity_matches_def abc split: if_split_asm)
  next
    case True
    then have a: "endswith a ''*''" "length (filter (\<lambda>c. c = CHR ''*'') a) = 1" "startswith b (butlast a)"
      using assms(1) by (auto simp: identity_matches_def abc split: if_split_asm)
    note star = count_star [OF a(2,1)]
    have "startswith c (butlast a)"
    proof (cases "CHR ''*'' \<in> set b")
      case False
      then show ?thesis using assms(2) a(3) by (auto simp: identity_matches_def abc split: if_split_asm)
    next
      case True
      then have b: "endswith b ''*''" "startswith c (butlast b)"
        using assms(2) by (auto simp: identity_matches_def abc split: if_split_asm)
      obtain rest where rest: "b = butlast a @ rest" using a(3) by (auto simp: startswith_iff)
      have "rest \<noteq> []"
      proof
        assume "rest = []"
        then have "CHR ''*'' \<notin> set b" using rest star by simp
        with True show False by blast
      qed
      then have "butlast b = butlast a @ butlast rest" using rest by (simp add: butlast_append)
      with b(2) show ?thesis by (auto simp: startswith_iff)
    qed
    with a(1,2) short True show ?thesis by (simp add: identity_matches_def abc)
  qed
qed

lemma matching_tool:
  "matching_tools [t] ms \<noteq> [] \<longleftrightarrow> (\<exists>m \<in> set ms. tl_runtime m = tl_runtime t \<and> tl_operation m = tl_operation t \<and>
     identity_matches (tl_server m) (tl_server t) \<and> identity_matches (Some (tl_tool m)) (Some (tl_tool t)))"
  by (auto simp: matching_tools_def list_ex_iff)

lemma tool_pattern_trans:
  assumes "p \<in> set ms \<or> matching_tools [p] ms \<noteq> []" "matching_tools [t] [p] \<noteq> []"
  shows "matching_tools [t] ms \<noteq> []"
  using assms unfolding matching_tool by (auto intro: identity_matches_trans)

text \<open>The contract made of a child asks for everything the child permits.\<close>

lemma requirements_parts:
  assumes "requirements h a = Inr c"
  obtains granted where
    "granted = map (\<lambda>g. grant_network (Some (ng_host g)) g) (da_grants a)"
    "\<forall>g \<in> set (da_grants a). CHR ''*'' \<notin> set (ng_host g)"
    "c = \<lparr>cc_action = Some ''delegation-proposal'', cc_action_digest = authority_digest h a,
       cc_decision = ''allow'', cc_risk = ''low'', cc_filesystem = bd_filesystem (da_capability a),
       cc_network = bd_network (da_capability a) @ granted, cc_tools = bd_tools (da_capability a),
       cc_process = bd_process (da_capability a), cc_privilege = bd_privilege (da_capability a),
       cc_credentials = bd_credentials (da_capability a), cc_unknowns = [],
       cc_source = delegation_source, cc_id = cc_id c\<rparr>"
proof -
  let ?f = "\<lambda>g. if CHR ''*'' \<in> set (ng_host g)
         then Inl (ValueError ''child wildcard network authority cannot be represented exactly'')
         else network_of_grant h (Some (ng_host g)) g"
  obtain granted c0 where g: "res_mapM ?f (da_grants a) = Inr granted"
    and c: "make_contract h c0 = Inr c" and c0: "c0 = \<lparr>cc_action = Some ''delegation-proposal'', cc_action_digest = authority_digest h a,
       cc_decision = ''allow'', cc_risk = ''low'', cc_filesystem = bd_filesystem (da_capability a),
       cc_network = bd_network (da_capability a) @ granted, cc_tools = bd_tools (da_capability a),
       cc_process = bd_process (da_capability a), cc_privilege = bd_privilege (da_capability a),
       cc_credentials = bd_credentials (da_capability a), cc_unknowns = [],
       cc_source = delegation_source, cc_id = []\<rparr>"
    using assms unfolding requirements_def Let_def by auto
  have "granted = map (\<lambda>g. grant_network (Some (ng_host g)) g) gs \<and> (\<forall>g \<in> set gs. CHR ''*'' \<notin> set (ng_host g))"
    if "res_mapM ?f gs = Inr granted" for gs granted
    using that by (induction gs arbitrary: granted) (auto split: if_split_asm dest: network_of_grant_pure)
  note pure = this [OF g]
  have "c = c0\<lparr>cc_id := cc_id c\<rparr>" using make_contract_ok(1) [OF c] by simp
  then show ?thesis using that pure c0 by simp
qed

lemma exact_host: "CHR ''*'' \<notin> set p \<Longrightarrow> host_matches p (Some host) \<Longrightarrow> p = host"
  by (auto simp: host_matches_def startswith_iff split: if_split_asm)

lemma child_networks:
  assumes "granted = map (\<lambda>g. grant_network (Some (ng_host g)) g) gs" "\<forall>g \<in> set gs. CHR ''*'' \<notin> set (ng_host g)"
  shows "set (networks_at gs host port) \<subseteq> set granted"
  using assms by (auto simp: networks_at_def dest: exact_host)

lemma allows_request_mono:
  "allows_request ns host port verb path r i \<Longrightarrow> set ns \<subseteq> set ms \<Longrightarrow>
     allows_request ms host port verb path r i"
  unfolding allows_request_def by blast

lemma allows_connect_mono:
  "allows_connect ns host port r i \<Longrightarrow> set ns \<subseteq> set ms \<Longrightarrow> allows_connect ms host port r i"
  unfolding allows_connect_def by blast

lemma child_carried:
  assumes "requirements h a = Inr c" "\<not> bd_any_executable (da_capability a)" "authority_permits a op"
    and m: "\<And>op. carries c op \<Longrightarrow> authority_permits m op"
  shows "authority_permits m op"
  using assms(1)
proof (rule requirements_parts)
  fix granted
  assume g: "granted = map (\<lambda>g. grant_network (Some (ng_host g)) g) (da_grants a)"
    "\<forall>g \<in> set (da_grants a). CHR ''*'' \<notin> set (ng_host g)"
    and c: "c = \<lparr>cc_action = Some ''delegation-proposal'', cc_action_digest = authority_digest h a,
       cc_decision = ''allow'', cc_risk = ''low'', cc_filesystem = bd_filesystem (da_capability a),
       cc_network = bd_network (da_capability a) @ granted, cc_tools = bd_tools (da_capability a),
       cc_process = bd_process (da_capability a), cc_privilege = bd_privilege (da_capability a),
       cc_credentials = bd_credentials (da_capability a), cc_unknowns = [],
       cc_source = delegation_source, cc_id = cc_id c\<rparr>"
  have fields: "cc_filesystem c = bd_filesystem (da_capability a)"
    "cc_network c = bd_network (da_capability a) @ granted" "cc_tools c = bd_tools (da_capability a)"
    "cc_process c = bd_process (da_capability a)" "cc_privilege c = bd_privilege (da_capability a)"
    "cc_credentials c = bd_credentials (da_capability a)"
    by (subst c, simp)+
  note nets = child_networks [OF g]
  show ?thesis
  proof (cases op)
    case (NetRequest host port verb path r i)
    have "set (map as_rest (bd_network (da_capability a) @ networks_at (da_grants a) host port)) \<subseteq>
        set (map as_rest (cc_network c))"
      using nets [of host port] fields(2) by auto
    then have "carries c op"
      using assms(3) NetRequest allows_request_mono by (simp add: carries_def authority_permits_def)
    then show ?thesis by (rule m)
  next
    case (NetConnect host port r i)
    have "set (map as_rest (bd_network (da_capability a) @ networks_at (da_grants a) host port)) \<subseteq>
        set (map as_rest (cc_network c))"
      using nets [of host port] fields(2) by auto
    then have "carries c op"
      using assms(3) NetConnect allows_connect_mono by (simp add: carries_def authority_permits_def)
    then show ?thesis by (rule m)
  next
    case (CallTool t)
    have tool: "authority_permits m (CallTool p)" if "p \<in> set (bd_tools (da_capability a))" for p
      by (rule m) (simp add: carries_def fields that)
    show ?thesis
    proof (cases "t \<in> set (bd_tools (da_capability a))")
      case False
      then obtain p where p: "p \<in> set (bd_tools (da_capability a))" "matching_tools [t] [p] \<noteq> []"
        using assms(3) CallTool by (auto simp: authority_permits_def matching_tool)
      from tool [OF p(1)] tool_pattern_trans [OF _ p(2)] CallTool show ?thesis
        by (auto simp: authority_permits_def)
    qed (use tool CallTool in simp)
  next
    case (RunAs u)
    have "authority_permits m (RunAs (pv_euid (bd_privilege (da_capability a))))" for u
      by (rule m) (simp add: carries_def fields)
    with assms(3) RunAs show ?thesis by (auto simp: authority_permits_def)
  qed (use assms(2,3) m [of op] in \<open>auto simp: authority_permits_def carries_def fields\<close>)
qed

lemma extended_boundary_parts:
  assumes "extended_boundary h a candidates = Inr b"
  obtains granted where "granted_networks h (da_grants a) candidates = Inr granted"
    "b = (da_capability a)\<lparr>bd_network := bd_network (da_capability a) @ granted\<rparr>"
  using assms unfolding extended_boundary_def by (auto dest: make_boundary_ok)

lemma make_request_contract_ok: "make_request_contract h c = Inr c' \<Longrightarrow> c' = c\<lparr>rq_id := rq_id c'\<rparr>"
  by (auto simp: make_request_contract_def Let_def split: if_split_asm)

lemma make_request_boundary_ok: "make_request_boundary h b = Inr b' \<Longrightarrow> b' = b"
  by (auto simp: make_request_boundary_def)

lemma maximum_check_sound:
  assumes so: "\<forall>xs. set (so xs) = set xs" and check: "maximum_check h so child c m = Inr r" "verified_ok r"
  shows "(\<forall>op. carries c op \<longrightarrow> authority_permits m op) \<and> set (da_requests child) \<subseteq> set (da_requests m)"
proof (cases "da_requests child \<noteq> [] \<or> list_ex (\<lambda>n. higher_protocol (nt_protocol n)) (cc_network c)")
  case True
  then obtain q b where q: "make_request_contract h \<lparr>rq_capability = c, rq_requests = da_requests child, rq_id = []\<rparr> = Inr q"
    and b: "make_request_boundary h
      \<lparr>rb_boundary = da_capability m, rb_requests = da_requests m, rb_grants = da_grants m\<rparr> = Inr b"
    and v: "verify_assurance_request_authority h so q b = Inr r"
    using check(1) unfolding maximum_check_def by auto
  have parts: "rq_capability q = c" "rq_requests q = da_requests child"
    using make_request_contract_ok [OF q] by (metis request_contract.simps(1,2,6,7) request_contract.surjective request_contract.update_convs(3))+
  have bound: "rb_boundary b = da_capability m" "rb_requests b = da_requests m" "rb_grants b = da_grants m"
    using make_request_boundary_ok [OF b] by simp_all
  obtain checked where checked: "verify_runtime_request_authority h so q b = Inr checked" "verified_ok checked"
    using v check(2) by (rule request_assured)
  have "set (rq_requests q) \<subseteq> set (rb_requests b)"
    using checked by (rule request_verified)
  moreover have "authority_permits m op" if "carries c op" for op
    using request_carried [OF so checked] that by (simp add: parts bound authority_permits_def)
  ultimately show ?thesis by (simp add: parts bound)
next
  case False
  then obtain b where b: "extended_boundary h m (cc_network c) = Inr b"
    and v: "verify_assurance_capability h so c b = Inr r"
    using check(1) unfolding maximum_check_def by auto
  from b show ?thesis
  proof (rule extended_boundary_parts)
    fix granted
    assume g: "granted_networks h (da_grants m) (cc_network c) = Inr granted"
      "b = (da_capability m)\<lparr>bd_network := bd_network (da_capability m) @ granted\<rparr>"
    from assurance_carried [OF so v [unfolded g(2)] check(2) g(1)] False show ?thesis
      by (simp add: authority_permits_def)
  qed
qed

lemma maximum_check_known: "maximum_check h so child c m = Inr r \<Longrightarrow> known_state r"
  unfolding maximum_check_def
  by (auto split: if_split_asm intro: assurance_known assurance_request_known)

text \<open>A scan that ends clean: no state but success, no domain uncovered.\<close>

definition clean :: "subset_scan \<Rightarrow> bool" where
  "clean s = ({''exceeds_boundary'', ''unsupported'', ''inconclusive''} \<inter> set (ss_states s) = {} \<and>
     set delegation_domains \<inter> set (ss_uncovered s) = {})"

lemma clean_add [simp]:
  "clean (scan_add st rs ds s) \<longleftrightarrow> clean s \<and>
     {''exceeds_boundary'', ''unsupported'', ''inconclusive''} \<inter> set st = {} \<and> set delegation_domains \<inter> set ds = {}"
  by (auto simp: clean_def scan_add_def)

lemma maximum_step_clean:
  assumes so: "\<forall>xs. set (so xs) = set xs" and step: "maximum_step h so child contract (name, m) s = Inr s'" "clean s'"
  shows "clean s \<and> (da_approval m \<longrightarrow> da_approval child) \<and> set (da_rest child) \<subseteq> set (da_rest m) \<and>
    (\<forall>c. contract = Some c \<longrightarrow> (\<forall>op. carries c op \<longrightarrow> authority_permits m op) \<and>
       set (da_requests child) \<subseteq> set (da_requests m))"
proof (cases contract)
  case None
  with step show ?thesis
    unfolding maximum_step_def Let_def by (auto split: if_split_asm simp: delegation_domains_def)
next
  case (Some c)
  then obtain check where check: "maximum_check h so child c m = Inr check"
    using step(1) unfolding maximum_step_def Let_def by auto
  have "clean s \<and> (da_approval m \<longrightarrow> da_approval child) \<and> set (da_rest child) \<subseteq> set (da_rest m) \<and>
      {''exceeds_boundary'', ''unsupported'', ''inconclusive''} \<inter> {vr_result check} = {}"
    using step Some check unfolding maximum_step_def Let_def by (auto split: if_split_asm)
  moreover from this have "verified_ok check"
    using maximum_check_known [OF check] by (auto simp: known_state_def verification_states_def verified_ok_def)
  ultimately show ?thesis using maximum_check_sound [OF so check] Some by simp
qed

lemma overall_within: "overall_state states = ''within_boundary'' \<longleftrightarrow>
    {''exceeds_boundary'', ''unsupported'', ''inconclusive''} \<inter> set states = {}"
  by (auto simp: overall_state_def)

lemma subset_result_clean:
  assumes "subset_result h child parent operator task s = Inr v" "delegation_ok v"
  shows "clean s"
  using assms unfolding subset_result_def Let_def make_delegation_verification_def
  by (auto simp: delegation_ok_def clean_def overall_within list_ex_iff delegation_domains_def
      split: if_split_asm)

lemma subset_attenuates:
  assumes "\<forall>xs. set (so xs) = set xs"
    "verify_delegation_subset h so child parent operator task = Inr v" "delegation_ok v"
    "m \<in> {parent, operator, task}"
  shows "authority_within child m"
proof -
    obtain s1 where run: "res_bind (case (case requirements h child of
             Inl _ \<Rightarrow> (None, scan_add [''unsupported'']
               [''delegation.child_requirements_unrepresentable''] [''network'', ''requests''] (own_limits child s1))
           | Inr c \<Rightarrow> (Some c, own_limits child s1)) of (contract, s3) \<Rightarrow> scan_all (maximum_step h so child contract)
          [(''parent'', parent), (''operator'', operator), (''task'', task)] s3)
        (subset_result h child parent operator task) = Inr v"
    using assms(2) unfolding verify_delegation_subset_def Let_def
    by (auto simp: split_def simp del: scan_all.simps(2))
  then obtain s4 where s4: "(case (case requirements h child of
             Inl _ \<Rightarrow> (None, scan_add [''unsupported'']
               [''delegation.child_requirements_unrepresentable''] [''network'', ''requests''] (own_limits child s1))
           | Inr c \<Rightarrow> (Some c, own_limits child s1)) of (contract, s3) \<Rightarrow> scan_all (maximum_step h so child contract)
          [(''parent'', parent), (''operator'', operator), (''task'', task)] s3) = Inr s4"
    and result: "subset_result h child parent operator task s4 = Inr v"
    unfolding res_bind_Inr_iff by blast
  have clean: "clean s4" using subset_result_clean [OF result assms(3)] .
  note step = maximum_step_clean [OF assms(1)]
  show ?thesis
  proof (cases "requirements h child")
    case (Inl e)
    then have "clean (scan_add [''unsupported''] [''delegation.child_requirements_unrepresentable'']
        [''network'', ''requests''] (own_limits child s1))"
      using s4 clean by (auto dest!: step)
    then show ?thesis by simp
  next
    case (Inr c)
    then obtain s2 s3 where steps:
      "maximum_step h so child (Some c) (''parent'', parent) (own_limits child s1) = Inr s2"
      "maximum_step h so child (Some c) (''operator'', operator) s2 = Inr s3"
      "maximum_step h so child (Some c) (''task'', task) s3 = Inr s4"
      using s4 by auto
    note c3 = step [OF steps(3) clean]
    note c2 = step [OF steps(2) c3 [THEN conjunct1]]
    note c1 = step [OF steps(1) c2 [THEN conjunct1]]
    have exec: "\<not> bd_any_executable (da_capability child)"
      using c1 by (auto simp: own_limits_def Let_def split: if_split_asm)
    have "\<forall>op. carries c op \<longrightarrow> authority_permits m op" "set (da_requests child) \<subseteq> set (da_requests m)"
      "set (da_rest child) \<subseteq> set (da_rest m)" "da_approval m \<longrightarrow> da_approval child"
      using assms(4) c1 c2 c3 by auto
    with child_carried [OF Inr exec] show ?thesis unfolding authority_within_def by blast
  qed
qed

text \<open>
  C10: Delegation only narrows. When \<^verbatim>\<open>verify_delegation_subset\<close> finds a child's authority
  within its parent's, the operator's and the task's, then each of the three permits every
  operation that the child's permits, names every exact request the child's names, and asks for
  approval only where the child's does.
\<close>

theorem delegation_attenuates:
  assumes "\<forall>xs. set (so xs) = set xs"
    "verify_delegation_subset h so child parent operator task = Inr v" "delegation_ok v"
    "m \<in> {parent, operator, task}"
  shows "authority_within child m"
  by (rule subset_attenuates [OF assms])

text \<open>One operation within an authority.\<close>

lemma capability_authority_sound:
  assumes so: "\<forall>xs. set (so xs) = set xs"
    and check: "capability_authority h so c a = Inr r" "verified_ok r" and op: "carries c op"
  shows "authority_permits a op"
proof -
  obtain b where b: "extended_boundary h a (cc_network c) = Inr b"
    and v: "verify_assurance_capability h so c b = Inr r"
    using check(1) unfolding capability_authority_def by auto
  from b show ?thesis
  proof (rule extended_boundary_parts)
    fix granted
    assume g: "granted_networks h (da_grants a) (cc_network c) = Inr granted"
      "b = (da_capability a)\<lparr>bd_network := bd_network (da_capability a) @ granted\<rparr>"
    from assurance_carried [OF so v [unfolded g(2)] check(2) g(1) op] show ?thesis
      by (simp add: authority_permits_def)
  qed
qed

lemma carries_unknowns [simp]: "carries (c\<lparr>cc_unknowns := us\<rparr>) op = carries c op"
  by (cases op) (simp_all add: carries_def)

lemma make_rest_boundary_ok: "make_rest_boundary h b = Inr b' \<Longrightarrow> b' = b"
  by (auto simp: make_rest_boundary_def split: if_split_asm)

lemma rest_verified:
  assumes "verify_rest_request_authority h so c b = Inr r" "verified_ok r"
  obtains question core where
    "question = (sc_capability c)\<lparr>cc_id := cc_id question,
       cc_unknowns := filter (\<lambda>u. \<not> exact_requirement u) (cc_unknowns (sc_capability c))\<rparr>"
    "verify_assurance_capability h so question (sb_capability b) = Inr core" "verified_ok core"
    "sc_request c \<in> set (sb_requests b)"
proof -
  from assms(1) obtain question core where
    q: "make_contract h ((sc_capability c)\<lparr>cc_id := [],
         cc_unknowns := filter (\<lambda>u. \<not> exact_requirement u) (cc_unknowns (sc_capability c))\<rparr>) = Inr question"
    and core: "verify_assurance_capability h so question (sb_capability b) = Inr core"
    and last: "(let matched = sc_request c \<in> set (sb_requests b);
         bound = core\<lparr>vr_contract := rest_contract_digest h c, vr_boundary := rest_boundary_digest h b\<rparr>
     in if \<not> verified_ok core
        then make_verification (bound\<lparr>vr_coverage := vr_coverage core @ [(''requests'', False)],
               vr_counterexample := None\<rparr>)
        else make_verification (bound\<lparr>vr_coverage := vr_coverage core @ [(''requests'', matched)],
               vr_result := (if matched then ''within_boundary'' else ''exceeds_boundary''),
               vr_reason := (if matched then ''assurance.rest_request_within''
                 else ''assurance.rest_request_commitment_exceeds''),
               vr_counterexample := (if matched then None else Some (JObj [(''request_digest'',
                 JStr (as_hash h ''assurance_rest_authority'' (rest_authority_json (sc_request c))))])),
               vr_unsupported := []\<rparr>)) = Inr r"
    unfolding verify_rest_request_authority_def Let_def by (auto simp del: if_split)
  have "verified_ok core"
    using last assms(2) by (auto simp: Let_def verified_ok_def split: if_split_asm dest!: make_verification_ok)
  moreover from this have "sc_request c \<in> set (sb_requests b)"
    using last assms(2) by (auto simp: Let_def verified_ok_def split: if_split_asm dest!: make_verification_ok)
  moreover have "question = (sc_capability c)\<lparr>cc_id := cc_id question,
       cc_unknowns := filter (\<lambda>u. \<not> exact_requirement u) (cc_unknowns (sc_capability c))\<rparr>"
    using make_contract_ok(1) [OF q] by simp
  ultimately show ?thesis using core that by blast
qed

text \<open>The exact requests of an operation.\<close>

fun requests_within :: "operation_contract \<Rightarrow> delegation_authority \<Rightarrow> bool" where
  "requests_within (PlainContract c) a = True"
| "requests_within (RequestsContract c) a = (set (rq_requests c) \<subseteq> set (da_requests a))"
| "requests_within (RestContract c) a = (sc_request c \<in> set (da_rest a))"

definition operation_within :: "operation_contract \<Rightarrow> delegation_authority \<Rightarrow> bool" where
  "operation_within k a \<longleftrightarrow> requests_within k a \<and>
     (\<forall>op. carries (contract_capability k) op \<longrightarrow> authority_permits a op)"

lemma operation_within_mono: "operation_within k a \<Longrightarrow> authority_within a b \<Longrightarrow> operation_within k b"
  by (cases k) (auto simp: operation_within_def authority_within_def)

lemma operation_sound:
  assumes so: "\<forall>xs. set (so xs) = set xs"
    and ok: "verify_operation_authority h so k a = Inr r" "verified_ok r"
  shows "operation_within k a"
proof (cases k)
  case (PlainContract c)
  with ok capability_authority_sound [OF so] show ?thesis by (auto simp: operation_within_def)
next
  case (RequestsContract c)
  show ?thesis
  proof (cases "rq_requests c = []")
    case True
    with RequestsContract ok capability_authority_sound [OF so] show ?thesis
      by (auto simp: operation_within_def)
  next
    case False
    then obtain b where b: "make_request_boundary h
        \<lparr>rb_boundary = da_capability a, rb_requests = da_requests a, rb_grants = da_grants a\<rparr> = Inr b"
      and v: "verify_assurance_request_authority h so c b = Inr r"
      using ok(1) RequestsContract by auto
    have bound: "rb_boundary b = da_capability a" "rb_requests b = da_requests a" "rb_grants b = da_grants a"
      using make_request_boundary_ok [OF b] by simp_all
    obtain checked where checked: "verify_runtime_request_authority h so c b = Inr checked" "verified_ok checked"
      using v ok(2) by (rule request_assured)
    have "set (rq_requests c) \<subseteq> set (rb_requests b)"
      using checked by (rule request_verified)
    with request_carried [OF so checked] RequestsContract show ?thesis
      by (simp add: operation_within_def authority_permits_def bound)
  qed
next
  case (RestContract c)
  then obtain b b' where b: "extended_boundary h a (cc_network (sc_capability c)) = Inr b"
    and b': "make_rest_boundary h \<lparr>sb_capability = b, sb_requests = da_rest a\<rparr> = Inr b'"
    and v: "verify_rest_request_authority h so c b' = Inr r"
    using ok(1) by auto
  have bound: "sb_capability b' = b" "sb_requests b' = da_rest a"
    using make_rest_boundary_ok [OF b'] by simp_all
  from v ok(2) show ?thesis
  proof (rule rest_verified)
    fix question core
    assume q: "question = (sc_capability c)\<lparr>cc_id := cc_id question,
       cc_unknowns := filter (\<lambda>u. \<not> exact_requirement u) (cc_unknowns (sc_capability c))\<rparr>"
      and core: "verify_assurance_capability h so question (sb_capability b') = Inr core" "verified_ok core"
      and r: "sc_request c \<in> set (sb_requests b')"
    have same: "carries question op = carries (sc_capability c) op" for op
      by (subst q) simp
    from b have "authority_permits a op" if op: "carries (sc_capability c) op" for op
    proof (rule extended_boundary_parts)
      fix granted
      assume g: "granted_networks h (da_grants a) (cc_network (sc_capability c)) = Inr granted"
        "b = (da_capability a)\<lparr>bd_network := bd_network (da_capability a) @ granted\<rparr>"
      have "carries question op" using op by (simp only: same)
      from assurance_carried [OF so core(1) [unfolded bound g(2)] core(2) g(1) this] show ?thesis
        by (simp add: authority_permits_def)
    qed
    with r bound RestContract show ?thesis by (simp add: operation_within_def)
  qed
qed

end
