(* ===== verification/Delegation_Issuer.thy ===== *)
theory Delegation_Issuer
  imports Delegation Contracts State_Result Swarm_Models "HOL-Library.AList"
begin

text \<open>
  \<^verbatim>\<open>DelegationIssuer\<close> of \<^verbatim>\<open>ordin/assurance/delegation.py\<close>: the host service that issues grants,
  checks that they are current, revokes them with their descendants, and reserves and commits the
  operations made under them. An operation takes what the host supplies at that call: the clock
  reading, a fresh ticket, the outcome of the host's binding check.

  A handle is the object the issuer returned. Its identity is the number of the object, and two
  handles are the same object when they are equal, number included. The lock makes each operation
  one step.
\<close>

section \<open>What the host owns\<close>

record repository_scope =
  rp_id :: string
  rp_revision :: string

record evidence_source =
  es_principal :: string
  es_repository :: repository_scope
  es_session :: string
  es_epoch :: int
  es_policy :: string
  es_selection :: string

definition evidence_source_json :: "evidence_source \<Rightarrow> json" where
  "evidence_source_json s = JObj [(''principal'', JStr (es_principal s)),
     (''repository'', JObj [(''id'', JStr (rp_id (es_repository s))),
        (''revision'', JStr (rp_revision (es_repository s)))]),
     (''session_digest'', JStr (es_session s)), (''epoch'', JInt (es_epoch s)),
     (''runtime_policy_digest'', JStr (es_policy s)), (''selection_digest'', JStr (es_selection s))]"

definition make_source :: "host_env \<Rightarrow> evidence_source \<Rightarrow> evidence_source res" where
  "make_source h s =
     res_bind (as_validate h ''assurance_host_scope'' host_scope_shape (evidence_source_json s))
       (\<lambda>_. Inr s)"

definition source_key :: "host_env \<Rightarrow> evidence_source \<Rightarrow> string" where
  "source_key h s = as_hash h ''host_evidence_source'' (evidence_source_json s)"

text \<open>What the issuer reads of an approved profile.\<close>

record approved_profile =
  ap_repository :: repository_scope
  ap_digest :: string
  ap_operator :: string
  ap_selection :: string
  ap_policy :: "string option"

definition check_profile :: "evidence_source \<Rightarrow> approved_profile \<Rightarrow> unit res" where
  "check_profile s p =
     ensure (ap_repository p = es_repository s \<and> ap_selection p = es_selection s \<and>
        ap_policy p = Some (es_policy s))
       (ValueError ''host evidence source does not match selected profile'')"

record delegation_limits =
  dl_grants :: nat
  dl_children :: nat
  dl_flight :: nat
  dl_actions :: nat

definition make_limits :: "delegation_limits \<Rightarrow> delegation_limits res" where
  "make_limits l =
     (if 1 \<le> dl_grants l \<and> dl_grants l \<le> 128 \<and> 1 \<le> dl_children l \<and> dl_children l \<le> 128 \<and>
         1 \<le> dl_flight l \<and> dl_flight l \<le> 128 \<and> 1 \<le> dl_actions l \<and> dl_actions l \<le> 4096
      then Inr l else Inl (ValueError ''invalid bounded delegation quota''))"

definition default_limits :: delegation_limits where
  "default_limits = \<lparr>dl_grants = 128, dl_children = 16, dl_flight = 8, dl_actions = 256\<rparr>"

section \<open>Grants and handles\<close>

record delegation_grant =
  dg_id :: string
  dg_parent_principal :: string
  dg_child_principal :: string
  dg_issuer :: string
  dg_channel :: string
  dg_session :: string
  dg_epoch :: int
  dg_issued_at :: int
  dg_expires_at :: int
  dg_policy :: string
  dg_profile :: string
  dg_contract :: string
  dg_parent :: "string option"
  dg_revoked_at :: "int option"
  dg_refs :: "string list"
  dg_max_depth :: int
  dg_depth :: int
  dg_status :: string

definition delegation_grant_json :: "delegation_grant \<Rightarrow> json" where
  "delegation_grant_json g = JObj [(''schema_version'', JStr ''ordin.assurance_delegation.v1''),
     (''grant_id'', JStr (dg_id g)), (''parent_principal'', JStr (dg_parent_principal g)),
     (''child_principal'', JStr (dg_child_principal g)), (''issuer_identity'', JStr (dg_issuer g)),
     (''authorization_channel'', JStr (dg_channel g)), (''session_digest'', JStr (dg_session g)),
     (''epoch'', JInt (dg_epoch g)), (''issued_at'', JInt (dg_issued_at g)),
     (''expires_at'', JInt (dg_expires_at g)), (''parent_policy_digest'', JStr (dg_policy g)),
     (''profile_digest'', JStr (dg_profile g)), (''contract_digest'', JStr (dg_contract g)),
     (''parent_grant_id'', option_json (dg_parent g)), (''revoked_at'', int_json (dg_revoked_at g)),
     (''capability_refs'', strings_json (dg_refs g)),
     (''maximum_delegation_depth'', JInt (dg_max_depth g)), (''depth'', JInt (dg_depth g)),
     (''status'', JStr (dg_status g))]"

definition make_grant :: "host_env \<Rightarrow> delegation_grant \<Rightarrow> delegation_grant res" where
  "make_grant h g =
     res_bind (as_validate h ''assurance_delegation'' delegation_shape (delegation_grant_json g)) (\<lambda>_.
     if dg_parent_principal g = dg_child_principal g \<or> dg_expires_at g \<le> dg_issued_at g
     then Inl (ValueError ''invalid delegation identities or lifetime'')
     else if dg_depth g > dg_max_depth g \<or> dg_parent g = Some (dg_id g)
     then Inl (ValueError ''invalid delegation depth or parent'')
     else if (case dg_revoked_at g of None \<Rightarrow> False | Some t \<Rightarrow> t < dg_issued_at g)
     then Inl (ValueError ''invalid delegation revocation time'')
     else Inr g)"

record issued_delegation =
  hd_object :: nat
  hd_record :: delegation_grant
  hd_authority :: delegation_authority
  hd_source :: string
  hd_issuer :: string

definition issued_json :: "host_env \<Rightarrow> issued_delegation \<Rightarrow> json" where
  "issued_json h d = JObj [(''record'', delegation_grant_json (hd_record d)),
     (''authority_digest'', JStr (authority_digest h (hd_authority d))),
     (''host_source_key'', JStr (hd_source d)), (''issuer_key'', JStr (hd_issuer d))]"

abbreviation grant_id :: "issued_delegation \<Rightarrow> string" where
  "grant_id d \<equiv> dg_id (hd_record d)"

abbreviation parent_id :: "issued_delegation \<Rightarrow> string option" where
  "parent_id d \<equiv> dg_parent (hd_record d)"

abbreviation principal :: "issued_delegation \<Rightarrow> string" where
  "principal d \<equiv> dg_child_principal (hd_record d)"

section \<open>The issuer\<close>

record issuer_configuration =
  ic_source :: string
  ic_profile :: string
  ic_operator :: string
  ic_task :: string
  ic_limits :: delegation_limits

record pending_operation =
  po_grant :: string
  po_action :: string
  po_contract :: string
  po_generation :: nat

record issuer =
  is_source :: evidence_source
  is_profile :: approved_profile
  is_operator :: delegation_authority
  is_task :: delegation_authority
  is_limits :: delegation_limits
  is_configuration :: issuer_configuration
  is_key :: string
  is_last :: int
  is_issued :: "(string \<times> issued_delegation) list"
  is_revoked :: "(string \<times> int) list"
  is_used :: "(string \<times> nat) list"
  is_pending :: "(string \<times> pending_operation) list"
  is_generation :: nat
  is_objects :: nat

type_synonym 'a issuer_op = "(issuer, 'a) op"

definition current_configuration :: "host_env \<Rightarrow> issuer \<Rightarrow> issuer_configuration" where
  "current_configuration h s = \<lparr>ic_source = source_key h (is_source s), ic_profile = ap_digest (is_profile s),
     ic_operator = authority_digest h (is_operator s), ic_task = authority_digest h (is_task s),
     ic_limits = is_limits s\<rparr>"

text \<open>The constructor, with the random text of the issuer key.\<close>

definition start_issuer ::
  "host_env \<Rightarrow> evidence_source \<Rightarrow> approved_profile \<Rightarrow> delegation_authority \<Rightarrow> delegation_authority
     \<Rightarrow> delegation_limits option \<Rightarrow> string \<Rightarrow> issuer res" where
  "start_issuer h source profile operator task limits random =
     res_bind (check_profile source profile) (\<lambda>_.
     res_bind (as_digest h ''delegation_issuer''
       (JArr [JStr (source_key h source), JStr (ap_digest profile), JStr random])) (\<lambda>key.
     let l = (case limits of None \<Rightarrow> default_limits | Some l \<Rightarrow> l)
     in Inr \<lparr>is_source = source, is_profile = profile, is_operator = operator, is_task = task,
       is_limits = l,
       is_configuration = \<lparr>ic_source = source_key h source, ic_profile = ap_digest profile,
         ic_operator = authority_digest h operator, ic_task = authority_digest h task, ic_limits = l\<rparr>,
       is_key = key, is_last = - 1, is_issued = [], is_revoked = [], is_used = [], is_pending = [],
       is_generation = 0, is_objects = 0\<rparr>))"

definition issued_of :: "issuer \<Rightarrow> string \<Rightarrow> issued_delegation option" where
  "issued_of s i = map_of (is_issued s) i"

definition revoked :: "issuer \<Rightarrow> string \<Rightarrow> bool" where
  "revoked s i = (i \<in> fst ` set (is_revoked s))"

text \<open>Every issued grant has a counter, so the default is never read.\<close>

definition used_of :: "issuer \<Rightarrow> string \<Rightarrow> nat" where
  "used_of s i = (case map_of (is_used s) i of None \<Rightarrow> 0 | Some n \<Rightarrow> n)"

section \<open>Time and configuration\<close>

definition issuer_now :: "host_number \<Rightarrow> int issuer_op" where
  "issuer_now clock =
     op_bind (op_read (\<lambda>s. case clock of
         HInt now \<Rightarrow> if 0 \<le> now \<and> now < 2 ^ 53 \<and> is_last s \<le> now then Inr now
           else Inl (ValueError ''delegation clock is invalid or moved backward'')
       | _ \<Rightarrow> Inl (ValueError ''delegation clock is invalid or moved backward''))) (\<lambda>now.
     op_bind (op_modify (\<lambda>s. s\<lparr>is_last := now\<rparr>)) (\<lambda>_. op_return now))"

definition require_configuration :: "host_env \<Rightarrow> issuer \<Rightarrow> unit res" where
  "require_configuration h s = ensure (is_configuration s = current_configuration h s)
     (ValueError ''delegation host configuration changed; create a fresh issuer'')"

section \<open>Current grants\<close>

definition stale :: "issuer \<Rightarrow> int \<Rightarrow> issued_delegation \<Rightarrow> bool" where
  "stale s now d = (revoked s (grant_id d) \<or>
     \<not> (dg_issued_at (hd_record d) \<le> now \<and> now < dg_expires_at (hd_record d)) \<or>
     dg_profile (hd_record d) \<noteq> ap_digest (is_profile s) \<or>
     dg_policy (hd_record d) \<noteq> es_policy (is_source s))"

text \<open>
  The walk to the root. The loop stops when it has seen \<^verbatim>\<open>maximum_grants\<close> grants, so the number
  still allowed is the fuel.
\<close>

fun walk_current :: "issuer \<Rightarrow> int \<Rightarrow> nat \<Rightarrow> string list \<Rightarrow> issued_delegation \<Rightarrow> unit res" where
  "walk_current s now 0 seen d = Inl (ValueError ''delegation cycle or ancestry limit'')"
| "walk_current s now (Suc n) seen d =
     (if grant_id d \<in> set seen then Inl (ValueError ''delegation cycle or ancestry limit'')
      else if stale s now d then Inl (ValueError ''delegation or ancestor is expired/revoked/stale'')
      else (case parent_id d of
          None \<Rightarrow> Inr ()
        | Some p \<Rightarrow> (case issued_of s p of
              None \<Rightarrow> Inl (ValueError ''delegation parent is ambiguous or absent'')
            | Some d' \<Rightarrow> walk_current s now n (grant_id d # seen) d')))"

definition check_current ::
  "host_env \<Rightarrow> issued_delegation \<Rightarrow> evidence_source \<Rightarrow> int \<Rightarrow> issuer \<Rightarrow> unit res" where
  "check_current h d source now s =
     res_bind (require_configuration h s) (\<lambda>_.
     res_bind (ensure (hd_issuer d = is_key s \<and> issued_of s (grant_id d) = Some d)
       (ValueError ''delegation is not issued by this host'')) (\<lambda>_.
     res_bind (ensure (hd_source d = source_key h source \<and> es_repository source = es_repository (is_source s) \<and>
         es_policy source = es_policy (is_source s) \<and> es_selection source = es_selection (is_source s))
       (ValueError ''delegation principal/session/epoch/policy scope changed'')) (\<lambda>_.
     res_bind (ensure (es_principal source = principal d \<and> es_session source = dg_session (hd_record d) \<and>
         es_epoch source = dg_epoch (hd_record d))
       (ValueError ''delegation identity differs from current host principal'')) (\<lambda>_.
     walk_current s now (dl_grants (is_limits s)) [] d))))"

definition require_current_grant ::
  "host_env \<Rightarrow> host_number \<Rightarrow> issued_delegation \<Rightarrow> evidence_source \<Rightarrow> unit issuer_op" where
  "require_current_grant h clock d source =
     op_bind (issuer_now clock) (\<lambda>now. op_read (check_current h d source now))"

section \<open>Issuing\<close>

definition live :: "issuer \<Rightarrow> int \<Rightarrow> issued_delegation \<Rightarrow> bool" where
  "live s now d = (\<not> revoked s (grant_id d) \<and> now < dg_expires_at (hd_record d))"

definition live_children :: "issuer \<Rightarrow> int \<Rightarrow> string \<Rightarrow> nat" where
  "live_children s now i =
     length (filter (\<lambda>d. parent_id d = Some i \<and> live s now d) (map snd (is_issued s)))"

text \<open>
  The walk over the parent's ancestors in \<^verbatim>\<open>_issue\<close> has no bound of its own. It gets fuel for 17
  grants, which is enough because a grant is one deeper than its parent and no grant is deeper
  than 16 (\<open>lineage_walk_ends\<close> in \<open>Issuer_Safety\<close>).
\<close>

definition in_lineage :: "string \<Rightarrow> issued_delegation \<Rightarrow> bool" where
  "in_lineage p d = (p \<in> {dg_parent_principal (hd_record d), principal d})"

fun walk_lineage :: "issuer \<Rightarrow> string \<Rightarrow> nat \<Rightarrow> issued_delegation \<Rightarrow> unit res" where
  "walk_lineage s p 0 d = Inl (AssertionError ''ancestry deeper than any grant'')"
| "walk_lineage s p (Suc n) d =
     (if in_lineage p d then Inl (ValueError ''self-delegation or principal cycle'')
      else (case parent_id d of
          None \<Rightarrow> Inr ()
        | Some i \<Rightarrow> (case issued_of s i of None \<Rightarrow> Inl (KeyError i) | Some d' \<Rightarrow> walk_lineage s p n d')))"

text \<open>A request to issue: identifier, parent, source, authority, expiry and depth limit.\<close>

record issue_request =
  ir_id :: string
  ir_parent :: "issued_delegation option"
  ir_source :: evidence_source
  ir_authority :: delegation_authority
  ir_expires :: int
  ir_depth :: int

definition check_parent :: "issuer \<Rightarrow> int \<Rightarrow> issue_request \<Rightarrow> int res" where
  "check_parent s now r = (case ir_parent r of
     None \<Rightarrow>
       res_bind (ensure (es_principal (ir_source r) \<noteq> ap_operator (is_profile s))
         (ValueError ''operator identity cannot be delegated to itself'')) (\<lambda>_. Inr 0)
   | Some parent \<Rightarrow> let pr = hd_record parent; p = es_principal (ir_source r) in
       res_bind (ensure (ir_expires r \<le> dg_expires_at pr \<and> ir_depth r \<le> dg_max_depth pr)
         (ValueError ''child lifetime/depth exceeds parent'')) (\<lambda>_.
       res_bind (ensure (dg_depth pr + 1 \<le> ir_depth r) (ValueError ''delegation depth exhausted'')) (\<lambda>_.
       res_bind (walk_lineage s p 17 parent) (\<lambda>_.
       res_bind (ensure (live_children s now (dg_id pr) < dl_children (is_limits s))
         (ValueError ''active-child quota exhausted'')) (\<lambda>_.
       Inr (dg_depth pr + 1))))))"

definition issued_grant ::
  "host_env \<Rightarrow> issuer \<Rightarrow> int \<Rightarrow> int \<Rightarrow> issue_request \<Rightarrow> delegation_grant" where
  "issued_grant h s now depth r =
     \<lparr>dg_id = ir_id r,
      dg_parent_principal = (case ir_parent r of None \<Rightarrow> ap_operator (is_profile s)
        | Some parent \<Rightarrow> principal parent),
      dg_child_principal = es_principal (ir_source r), dg_issuer = ap_operator (is_profile s),
      dg_channel = ''protected-host:'' @ take 24 (is_key s), dg_session = es_session (ir_source r),
      dg_epoch = es_epoch (ir_source r), dg_issued_at = now, dg_expires_at = ir_expires r,
      dg_policy = es_policy (is_source s), dg_profile = ap_digest (is_profile s),
      dg_contract = authority_digest h (ir_authority r),
      dg_parent = map_option grant_id (ir_parent r), dg_revoked_at = None,
      dg_refs = [authority_digest h (ir_authority r)], dg_max_depth = ir_depth r,
      dg_depth = depth, dg_status = ''issued''\<rparr>"

text \<open>Everything \<^verbatim>\<open>_issue\<close> checks before it stores the grant.\<close>

definition prepare_issue ::
  "host_env \<Rightarrow> (string list \<Rightarrow> string list) \<Rightarrow> int \<Rightarrow> issue_request \<Rightarrow> issuer \<Rightarrow> issued_delegation res" where
  "prepare_issue h so now r s =
     res_bind (require_configuration h s) (\<lambda>_.
     res_bind (as_validate h ''assurance_authority_ref'' authority_ref_shape
       (JObj [(''authority_id'', JStr (ir_id r)),
          (''boundary_digest'', JStr (authority_digest h (ir_authority r)))])) (\<lambda>_.
     res_bind (ensure (issued_of s (ir_id r) = None \<and> length (is_issued s) < dl_grants (is_limits s))
       (ValueError ''duplicate delegation ID or grant quota exhausted'')) (\<lambda>_.
     res_bind (check_profile (ir_source r) (is_profile s)) (\<lambda>_.
     res_bind (ensure (es_repository (ir_source r) = es_repository (is_source s))
       (ValueError ''delegation child repository differs'')) (\<lambda>_.
     res_bind (ensure (now < ir_expires r \<and> ir_expires r < 2 ^ 53 \<and> 0 \<le> ir_depth r \<and> ir_depth r \<le> 16)
       (ValueError ''invalid delegation expiry or depth limit'')) (\<lambda>_.
     res_bind (ensure (case ir_parent r of None \<Rightarrow> True
         | Some parent \<Rightarrow> \<not> in_lineage (es_principal (ir_source r)) parent)
       (ValueError ''self-delegation or principal cycle'')) (\<lambda>_.
     res_bind (ensure (\<not> list_ex (\<lambda>d. principal d = es_principal (ir_source r) \<and> live s now d)
         (map snd (is_issued s)))
       (ValueError ''principal already has a current grant; parent is ambiguous'')) (\<lambda>_.
     res_bind (check_parent s now r) (\<lambda>depth.
     res_bind (verify_delegation_subset h so (ir_authority r)
         (case ir_parent r of None \<Rightarrow> is_operator s | Some parent \<Rightarrow> hd_authority parent)
         (is_operator s) (is_task s)) (\<lambda>verified.
     res_bind (ensure (delegation_ok verified)
       (ValueError ''delegation authority is outside a maximum or unsupported'')) (\<lambda>_.
     res_bind (make_grant h (issued_grant h s now depth r)) (\<lambda>g.
     let d = \<lparr>hd_object = is_objects s, hd_record = g, hd_authority = ir_authority r,
       hd_source = source_key h (ir_source r), hd_issuer = is_key s\<rparr>
     in res_bind (as_digest h ''issued_delegation'' (issued_json h d)) (\<lambda>_. Inr d)))))))))))))"

definition store_grant :: "issued_delegation \<Rightarrow> issuer \<Rightarrow> issuer" where
  "store_grant d s = s\<lparr>is_issued := AList.update (grant_id d) d (is_issued s),
     is_used := AList.update (grant_id d) 0 (is_used s), is_objects := Suc (is_objects s)\<rparr>"

definition issue_grant ::
  "host_env \<Rightarrow> (string list \<Rightarrow> string list) \<Rightarrow> int \<Rightarrow> issue_request \<Rightarrow> issued_delegation issuer_op" where
  "issue_grant h so now r =
     op_bind (op_read (prepare_issue h so now r)) (\<lambda>d.
     op_bind (op_modify (store_grant d)) (\<lambda>_. op_return d))"

definition authorize_root ::
  "host_env \<Rightarrow> (string list \<Rightarrow> string list) \<Rightarrow> host_number \<Rightarrow> delegation_authority \<Rightarrow> string \<Rightarrow> int
     \<Rightarrow> int \<Rightarrow> issued_delegation issuer_op" where
  "authorize_root h so clock authority i expires depth =
     op_bind (issuer_now clock) (\<lambda>now.
     op_bind (op_get is_source) (\<lambda>source.
     issue_grant h so now \<lparr>ir_id = i, ir_parent = None, ir_source = source, ir_authority = authority,
       ir_expires = expires, ir_depth = depth\<rparr>))"

definition source_for :: "host_env \<Rightarrow> issued_delegation \<Rightarrow> issuer \<Rightarrow> evidence_source res" where
  "source_for h d s = make_source h \<lparr>es_principal = principal d, es_repository = es_repository (is_source s),
     es_session = dg_session (hd_record d), es_epoch = dg_epoch (hd_record d),
     es_policy = es_policy (is_source s), es_selection = es_selection (is_source s)\<rparr>"

definition issue_child ::
  "host_env \<Rightarrow> (string list \<Rightarrow> string list) \<Rightarrow> host_number \<Rightarrow> issued_delegation \<Rightarrow> evidence_source
     \<Rightarrow> delegation_authority \<Rightarrow> string \<Rightarrow> int \<Rightarrow> int option \<Rightarrow> issued_delegation issuer_op" where
  "issue_child h so clock parent source authority i expires depth =
     op_bind (issuer_now clock) (\<lambda>now.
     op_bind (op_read (\<lambda>s. case parent_id parent of None \<Rightarrow> Inr (is_source s)
       | Some _ \<Rightarrow> source_for h parent s)) (\<lambda>parent_source.
     op_bind (op_read (check_current h parent parent_source now)) (\<lambda>_.
     issue_grant h so now \<lparr>ir_id = i, ir_parent = Some parent, ir_source = source, ir_authority = authority,
       ir_expires = expires,
       ir_depth = (case depth of None \<Rightarrow> dg_max_depth (hd_record parent) | Some n \<Rightarrow> n)\<rparr>)))"

section \<open>Revoking\<close>

text \<open>
  One pass of the loop over the issued grants, and the loop: it repeats while a pass adds a
  grant, so one pass more than there are grants is enough.
\<close>

definition revoke_pass :: "issuer \<Rightarrow> string list \<Rightarrow> string list" where
  "revoke_pass s affected = foldl (\<lambda>aff m.
     if (\<exists>p \<in> set aff. parent_id (snd m) = Some p) \<and> fst m \<notin> set aff then fst m # aff else aff)
     affected (is_issued s)"

fun revoke_loop :: "issuer \<Rightarrow> nat \<Rightarrow> string list \<Rightarrow> string list" where
  "revoke_loop s 0 affected = affected"
| "revoke_loop s (Suc n) affected = (let next = revoke_pass s affected in
     if next = affected then affected else revoke_loop s n next)"

definition affected_by :: "issuer \<Rightarrow> string \<Rightarrow> string list" where
  "affected_by s i = revoke_loop s (Suc (length (is_issued s))) [i]"

definition mark_revoked :: "int \<Rightarrow> string list \<Rightarrow> issuer \<Rightarrow> issuer" where
  "mark_revoked now is s = s\<lparr>is_revoked := fold (\<lambda>i. AList.update i now) is (is_revoked s),
     is_generation := Suc (is_generation s), is_pending := []\<rparr>"

definition revoke :: "host_number \<Rightarrow> issued_delegation \<Rightarrow> string list issuer_op" where
  "revoke clock d =
     op_bind (op_read (\<lambda>s. ensure (issued_of s (grant_id d) = Some d)
       (ValueError ''revocation requires a host-issued handle''))) (\<lambda>_.
     op_bind (issuer_now clock) (\<lambda>now.
     op_bind (op_get (\<lambda>s. affected_by s (grant_id d))) (\<lambda>affected.
     op_bind (op_modify (mark_revoked now affected)) (\<lambda>_.
     op_return (sort affected)))))"

definition invalidate_policy :: "host_number \<Rightarrow> unit issuer_op" where
  "invalidate_policy clock =
     op_bind (issuer_now clock) (\<lambda>now.
     op_modify (\<lambda>s. mark_revoked now (map fst (is_issued s)) s))"

section \<open>Operations under a grant\<close>

definition active_operations :: "issuer \<Rightarrow> string \<Rightarrow> nat" where
  "active_operations s i = length (filter (\<lambda>m. po_grant (snd m) = i) (is_pending s))"

definition preview_operation ::
  "host_env \<Rightarrow> (string list \<Rightarrow> string list) \<Rightarrow> host_number \<Rightarrow> issued_delegation \<Rightarrow> evidence_source
     \<Rightarrow> operation_contract \<Rightarrow> unit issuer_op" where
  "preview_operation h so clock d source k =
     op_bind (require_current_grant h clock d source) (\<lambda>_.
     op_bind (op_lift (verify_operation_authority h so k (hd_authority d))) (\<lambda>check.
     op_bind (op_check (verified_ok check)
       (ValueError ''delegated operation exceeds current grant or is unsupported'')) (\<lambda>_.
     op_read (\<lambda>s. let active = active_operations s (grant_id d) in
       ensure (active < dl_flight (is_limits s) \<and>
           used_of s (grant_id d) + active < dl_actions (is_limits s))
         (ValueError ''delegated operation quota exhausted'')))))"

definition reserve_operation ::
  "host_env \<Rightarrow> (string list \<Rightarrow> string list) \<Rightarrow> host_number \<Rightarrow> string \<Rightarrow> issued_delegation
     \<Rightarrow> evidence_source \<Rightarrow> string \<Rightarrow> operation_contract \<Rightarrow> string issuer_op" where
  "reserve_operation h so clock ticket d source action k =
     op_bind (preview_operation h so clock d source k) (\<lambda>_.
     op_bind (op_modify (\<lambda>s. s\<lparr>is_pending := AList.update ticket
         \<lparr>po_grant = grant_id d, po_action = action, po_contract = operation_digest h k,
          po_generation = is_generation s\<rparr> (is_pending s)\<rparr>)) (\<lambda>_.
     op_return ticket))"

definition drop_ticket :: "string \<Rightarrow> issuer \<Rightarrow> issuer" where
  "drop_ticket ticket s = s\<lparr>is_pending := AList.delete ticket (is_pending s)\<rparr>"

definition cancel_operation :: "string \<Rightarrow> unit issuer_op" where
  "cancel_operation ticket = op_modify (drop_ticket ticket)"

text \<open>The commit: refusals drop the ticket and answer \<^verbatim>\<open>False\<close>; only the last branch counts a use.\<close>

definition commit_operation ::
  "host_env \<Rightarrow> host_number \<Rightarrow> issued_delegation \<Rightarrow> evidence_source \<Rightarrow> string \<Rightarrow> string \<Rightarrow> string
     \<Rightarrow> bool \<Rightarrow> bool issuer_op" where
  "commit_operation h clock d source ticket action contract binding s =
     (case require_current_grant h clock d source s of
       (s1, Inl _) \<Rightarrow> (drop_ticket ticket s1, Inr False)
     | (s1, Inr _) \<Rightarrow>
         let i = grant_id d; s2 = drop_ticket ticket s1 in
         if \<not> binding then (s2, Inr False)
         else if map_of (is_pending s1) ticket \<noteq> Some \<lparr>po_grant = i, po_action = action,
             po_contract = contract, po_generation = is_generation s1\<rparr> \<or>
             dl_actions (is_limits s1) \<le> used_of s2 i
         then (s2, Inr False)
         else (s2\<lparr>is_used := AList.update i (Suc (used_of s2 i)) (is_used s2)\<rparr>, Inr True))"

end
