(* ===== verification/Issuer_Safety.thy ===== *)
theory Issuer_Safety
  imports Delegation_Issuer
begin

text \<open>
  The safety of the delegation issuer: every operation is a sequence of six kinds of update, an
  invariant that each of them keeps, and what it gives in every state an issuer can reach.
\<close>

section \<open>Updates\<close>

definition walk_order :: "(string list \<Rightarrow> string list) \<Rightarrow> bool" where
  "walk_order so = (\<forall>xs. set (so xs) = set xs)"

definition closed_under :: "issuer \<Rightarrow> string list \<Rightarrow> bool" where
  "closed_under s is = (\<forall>m \<in> set (is_issued s). (\<exists>p \<in> set is. parent_id (snd m) = Some p) \<longrightarrow> fst m \<in> set is)"

inductive issuer_prim :: "host_env \<Rightarrow> (string list \<Rightarrow> string list) \<Rightarrow> issuer \<Rightarrow> issuer \<Rightarrow> bool"
  for h so where
  ticked: "is_last s \<le> now \<Longrightarrow> issuer_prim h so s (s\<lparr>is_last := now\<rparr>)"
| stored: "prepare_issue h so (is_last s) r s = Inr d \<Longrightarrow>
    (\<And>p. ir_parent r = Some p \<Longrightarrow> issued_of s (grant_id p) = Some p \<and> \<not> revoked s (grant_id p)) \<Longrightarrow>
    issuer_prim h so s (store_grant d s)"
| marked: "set is \<subseteq> fst ` set (is_issued s) \<Longrightarrow> closed_under s is \<Longrightarrow>
    issuer_prim h so s (mark_revoked now is s)"
| reserved: "issued_of s (grant_id d) = Some d \<Longrightarrow> operation_within k (hd_authority d) \<Longrightarrow>
    active_operations s (grant_id d) < dl_flight (is_limits s) \<Longrightarrow>
    used_of s (grant_id d) + active_operations s (grant_id d) < dl_actions (is_limits s) \<Longrightarrow>
    issuer_prim h so s (s\<lparr>is_pending := AList.update ticket
      \<lparr>po_grant = grant_id d, po_action = action, po_contract = operation_digest h k,
       po_generation = is_generation s\<rparr> (is_pending s)\<rparr>)"
| dropped: "issuer_prim h so s (drop_ticket ticket s)"
| committed: "map_of (is_pending s) ticket = Some po \<Longrightarrow> po_grant po = i \<Longrightarrow>
    used_of s i < dl_actions (is_limits s) \<Longrightarrow>
    issuer_prim h so s ((drop_ticket ticket s)\<lparr>is_used := AList.update i (Suc (used_of s i)) (is_used s)\<rparr>)"

section \<open>The loop of a revocation\<close>

definition kin :: "issuer \<Rightarrow> string \<Rightarrow> string \<Rightarrow> bool" where
  "kin s p i = (\<exists>d. (i, d) \<in> set (is_issued s) \<and> parent_id d = Some p)"

definition pass_step :: "string list \<Rightarrow> string \<times> issued_delegation \<Rightarrow> string list" where
  "pass_step aff m = (if (\<exists>p \<in> set aff. parent_id (snd m) = Some p) \<and> fst m \<notin> set aff then fst m # aff else aff)"

lemma revoke_pass_fold: "revoke_pass s affected = foldl pass_step affected (is_issued s)"
  by (simp add: revoke_pass_def pass_step_def [abs_def])

lemma pass_grows: "\<exists>zs. foldl pass_step aff ms = zs @ aff \<and> set zs \<subseteq> fst ` set ms \<and> (distinct aff \<longrightarrow> distinct (zs @ aff))"
proof (induction ms arbitrary: aff)
  case (Cons m ms)
  obtain zs where zs: "foldl pass_step (pass_step aff m) ms = zs @ pass_step aff m"
      "set zs \<subseteq> fst ` set ms" "distinct (pass_step aff m) \<longrightarrow> distinct (zs @ pass_step aff m)"
    using Cons.IH [of "pass_step aff m"] by blast
  show ?case
  proof (cases "pass_step aff m = aff")
    case True
    with zs show ?thesis by (auto intro!: exI [of _ zs])
  next
    case False
    then have "pass_step aff m = fst m # aff" "fst m \<notin> set aff" by (auto simp: pass_step_def split: if_split_asm)
    with zs show ?thesis by (auto intro!: exI [of _ "zs @ [fst m]"])
  qed
qed simp

lemma pass_fixed:
  assumes "foldl pass_step aff ms = aff" "m \<in> set ms" "p \<in> set aff" "parent_id (snd m) = Some p"
  shows "fst m \<in> set aff"
  using assms(1,2)
proof (induction ms)
  case (Cons n ms)
  obtain zs where zs: "foldl pass_step (pass_step aff n) ms = zs @ pass_step aff n"
    using pass_grows [of "pass_step aff n" ms] by blast
  have step: "pass_step aff n = aff"
  proof (rule ccontr)
    assume "pass_step aff n \<noteq> aff"
    then have "pass_step aff n = fst n # aff" by (auto simp: pass_step_def split: if_split_asm)
    with zs Cons.prems(1) have "length aff = length zs + Suc (length aff)" by (metis foldl_Cons length_append length_Cons)
    then show False by simp
  qed
  show ?case
  proof (cases "m = n")
    case True
    with step assms(3,4) show ?thesis by (auto simp: pass_step_def split: if_split_asm)
  next
    case False
    with Cons step show ?thesis by simp
  qed
qed simp

lemma pass_kin:
  assumes "set ms \<subseteq> set (is_issued s)" "i \<in> set (foldl pass_step aff ms)"
  shows "\<exists>j \<in> set aff. (kin s)\<^sup>*\<^sup>* j i"
  using assms
proof (induction ms arbitrary: aff)
  case (Cons m ms)
  then obtain j where j: "j \<in> set (pass_step aff m)" "(kin s)\<^sup>*\<^sup>* j i" by auto
  show ?case
  proof (cases "j \<in> set aff")
    case False
    with j(1) obtain p where "p \<in> set aff" "parent_id (snd m) = Some p" "j = fst m"
      by (auto simp: pass_step_def split: if_split_asm)
    moreover have "kin s p j" using calculation Cons.prems(1) by (cases m) (auto simp: kin_def)
    ultimately show ?thesis using j(2) by (meson converse_rtranclp_into_rtranclp)
  qed (use j in blast)
qed auto

text \<open>Fuel for one pass more than there are grants: each pass but the last adds one.\<close>

lemma revoke_loop_ends:
  assumes "distinct aff" "set aff \<subseteq> set base \<union> fst ` set (is_issued s)" "set base \<subseteq> fst ` set (is_issued s)"
    "card (fst ` set (is_issued s)) < n + length aff"
  shows "revoke_pass s (revoke_loop s n aff) = revoke_loop s n aff"
  using assms
proof (induction n arbitrary: aff)
  case 0
  have "set aff \<subseteq> fst ` set (is_issued s)" using 0 by blast
  then have "length aff \<le> card (fst ` set (is_issued s))"
    using 0(1) by (metis card_mono distinct_card finite_imageI finite_set)
  with 0(4) show ?case by simp
next
  case (Suc n)
  obtain zs where zs: "revoke_pass s aff = zs @ aff" "set zs \<subseteq> fst ` set (is_issued s)" "distinct (zs @ aff)"
    using pass_grows [of aff "is_issued s"] Suc.prems(1) by (auto simp: revoke_pass_fold)
  show ?case
  proof (cases "zs = []")
    case True
    with zs show ?thesis by (simp add: Let_def)
  next
    case False
    then have "Suc (length aff) \<le> length (zs @ aff)" by (cases zs) auto
    with Suc.prems(4) have size: "card (fst ` set (is_issued s)) < n + length (zs @ aff)" by simp
    have "set (zs @ aff) \<subseteq> set base \<union> fst ` set (is_issued s)" using zs(2) Suc.prems(2) by auto
    from Suc.IH [OF zs(3) this Suc.prems(3) size] zs(1) False show ?thesis
      by (simp add: Let_def)
  qed
qed

lemma revoke_loop_kin: "i \<in> set (revoke_loop s n aff) \<Longrightarrow> \<exists>j \<in> set aff. (kin s)\<^sup>*\<^sup>* j i"
proof (induction n arbitrary: aff)
  case (Suc n)
  show ?case
  proof (cases "revoke_pass s aff = aff")
    case True
    with Suc.prems show ?thesis by (auto simp: Let_def)
  next
    case False
    with Suc.prems have "i \<in> set (revoke_loop s n (revoke_pass s aff))" by (simp add: Let_def)
    from Suc.IH [OF this] obtain j where j: "j \<in> set (revoke_pass s aff)" "(kin s)\<^sup>*\<^sup>* j i" by blast
    then obtain j' where "j' \<in> set aff" "(kin s)\<^sup>*\<^sup>* j' j"
      using pass_kin [of "is_issued s" s j aff] by (auto simp: revoke_pass_fold)
    with j(2) show ?thesis by (meson rtranclp_trans)
  qed
qed auto

lemma revoke_loop_start: "set aff \<subseteq> set (revoke_loop s n aff)"
proof (induction n arbitrary: aff)
  case (Suc n)
  have "set aff \<subseteq> set (revoke_pass s aff)"
    using pass_grows [of aff "is_issued s"] by (auto simp: revoke_pass_fold)
  with Suc show ?case by (auto simp: Let_def)
qed simp

lemma affected_closed:
  assumes "i \<in> fst ` set (is_issued s)"
  shows "closed_under s (affected_by s i)"
proof -
  have "card (fst ` set (is_issued s)) \<le> length (is_issued s)"
    by (metis card_length length_map set_map)
  then have "revoke_pass s (affected_by s i) = affected_by s i"
    unfolding affected_by_def by (intro revoke_loop_ends [where base = "[i]"]) (use assms in auto)
  from pass_fixed [OF this [unfolded revoke_pass_fold]] show ?thesis
    unfolding closed_under_def by blast
qed

text \<open>What a revocation affects: exactly the grant and its descendants.\<close>

lemma affected_exactly:
  assumes "i \<in> fst ` set (is_issued s)"
  shows "set (affected_by s i) = {j. (kin s)\<^sup>*\<^sup>* i j}"
proof (intro equalityI subsetI)
  fix j assume "j \<in> set (affected_by s i)"
  then show "j \<in> {j. (kin s)\<^sup>*\<^sup>* i j}" using revoke_loop_kin unfolding affected_by_def by fastforce
next
  fix j assume "j \<in> {j. (kin s)\<^sup>*\<^sup>* i j}"
  then have "(kin s)\<^sup>*\<^sup>* i j" by simp
  then show "j \<in> set (affected_by s i)"
  proof (induction rule: rtranclp_induct)
    case base
    then show ?case using revoke_loop_start [of "[i]" s "Suc (length (is_issued s))"]
      unfolding affected_by_def by simp
  next
    case (step p j)
    then show ?case using affected_closed [OF assms] unfolding closed_under_def kin_def by fastforce
  qed
qed

section \<open>Every operation is a sequence of updates\<close>

datatype issuer_call =
    AuthorizeRoot host_number delegation_authority string int int
  | IssueChild host_number issued_delegation evidence_source delegation_authority string int "int option"
  | Revoke host_number issued_delegation
  | InvalidatePolicy host_number
  | RequireCurrent host_number issued_delegation evidence_source
  | Preview host_number issued_delegation evidence_source operation_contract
  | Reserve host_number string issued_delegation evidence_source string operation_contract
  | CancelTicket string
  | Commit host_number issued_delegation evidence_source string string string bool

definition state_after :: "('s, 'a) op \<Rightarrow> 's \<Rightarrow> 's" where
  "state_after m s = fst (m s)"

fun issuer_step :: "host_env \<Rightarrow> (string list \<Rightarrow> string list) \<Rightarrow> issuer \<Rightarrow> issuer_call \<Rightarrow> issuer" where
  "issuer_step h so s (AuthorizeRoot c a i e n) = state_after (authorize_root h so c a i e n) s"
| "issuer_step h so s (IssueChild c p src a i e n) = state_after (issue_child h so c p src a i e n) s"
| "issuer_step h so s (Revoke c d) = state_after (revoke c d) s"
| "issuer_step h so s (InvalidatePolicy c) = state_after (invalidate_policy c) s"
| "issuer_step h so s (RequireCurrent c d src) = state_after (require_current_grant h c d src) s"
| "issuer_step h so s (Preview c d src k) = state_after (preview_operation h so c d src k) s"
| "issuer_step h so s (Reserve c t d src a k) = state_after (reserve_operation h so c t d src a k) s"
| "issuer_step h so s (CancelTicket t) = state_after (cancel_operation t) s"
| "issuer_step h so s (Commit c d src t a k b) = state_after (commit_operation h c d src t a k b) s"

lemma issuer_now_ok:
  assumes "issuer_now clock s = (s', Inr now)"
  shows "s' = s\<lparr>is_last := now\<rparr>" "is_last s \<le> now" "clock = HInt now"
  using assms unfolding issuer_now_def
  by (auto simp: op_bind_Inr_iff split: host_number.splits if_split_asm)

lemma issuer_now_reaches: "reaches (issuer_prim h so) (issuer_now clock) s"
  unfolding issuer_now_def
  by (rule reaches_read, rule reaches_modify_bind)
    (auto split: host_number.splits if_split_asm intro!: ticked r_into_rtranclp reaches_basic)

lemma ensure_Inr [simp]: "ensure b e = Inr u \<longleftrightarrow> b"
  by (simp add: ensure_def)

lemma walk_fresh: "walk_current s now n seen d = Inr u \<Longrightarrow> \<not> stale s now d"
  by (cases n) (auto split: if_split_asm)

lemma check_current_ok:
  assumes "check_current h d source now s = Inr u"
  shows "issued_of s (grant_id d) = Some d" "hd_issuer d = is_key s" "\<not> stale s now d"
    "walk_current s now (dl_grants (is_limits s)) [] d = Inr ()" "is_configuration s = current_configuration h s"
    "es_principal source = principal d" "es_session source = dg_session (hd_record d)"
    "es_epoch source = dg_epoch (hd_record d)" "hd_source d = source_key h source"
  using assms walk_fresh unfolding check_current_def by (auto simp: require_configuration_def)

lemma require_current_ok:
  assumes "require_current_grant h clock d source s = (s', Inr u)"
  obtains now where "s' = s\<lparr>is_last := now\<rparr>" "is_last s \<le> now" "clock = HInt now"
    "check_current h d source now s' = Inr ()"
  using assms unfolding require_current_grant_def
  by (auto simp: op_bind_Inr_iff dest: issuer_now_ok)

lemma require_current_reaches: "reaches (issuer_prim h so) (require_current_grant h clock d source) s"
  unfolding require_current_grant_def by (intro reaches_bind issuer_now_reaches reaches_basic)

lemma issue_reaches:
  assumes "is_last s = now"
    "\<And>p. ir_parent r = Some p \<Longrightarrow> issued_of s (grant_id p) = Some p \<and> \<not> revoked s (grant_id p)"
  shows "reaches (issuer_prim h so) (issue_grant h so now r) s"
  unfolding issue_grant_def
  by (rule reaches_read, rule reaches_modify_bind)
    (use assms in \<open>auto intro!: stored r_into_rtranclp reaches_basic\<close>)

lemma authorize_root_reaches: "reaches (issuer_prim h so) (authorize_root h so clock a i e n) s"
  unfolding authorize_root_def
proof (rule reaches_bind [OF issuer_now_reaches])
  fix s' now assume "issuer_now clock s = (s', Inr now)"
  from issuer_now_ok(1) [OF this] have "is_last s' = now" by simp
  then show "reaches (issuer_prim h so) (op_bind (op_get is_source) (\<lambda>source.
     issue_grant h so now \<lparr>ir_id = i, ir_parent = None, ir_source = source, ir_authority = a,
       ir_expires = e, ir_depth = n\<rparr>)) s'"
    by (intro reaches_get issue_reaches) simp_all
qed

lemma issue_child_reaches: "reaches (issuer_prim h so) (issue_child h so clock parent src a i e n) s"
  unfolding issue_child_def
proof (rule reaches_bind [OF issuer_now_reaches], intro reaches_read)
  fix s' now parent_source u
  assume now: "issuer_now clock s = (s', Inr now)" and cur: "check_current h parent parent_source now s' = Inr u"
  then have "is_last s' = now" "issued_of s' (grant_id parent) = Some parent" "\<not> revoked s' (grant_id parent)"
    using issuer_now_ok(1) [OF now] check_current_ok(1,3) [OF cur] by (auto simp: stale_def)
  then show "reaches (issuer_prim h so) (issue_grant h so now \<lparr>ir_id = i, ir_parent = Some parent, ir_source = src,
      ir_authority = a, ir_expires = e,
      ir_depth = (case n of None \<Rightarrow> dg_max_depth (hd_record parent) | Some n \<Rightarrow> n)\<rparr>) s'"
    by (intro issue_reaches) simp_all
qed

definition keys_ok :: "issuer \<Rightarrow> bool" where
  "keys_ok s = (distinct (map fst (is_issued s)) \<and> (\<forall>m \<in> set (is_issued s). grant_id (snd m) = fst m))"

lemma issued_of_iff: "keys_ok s \<Longrightarrow> issued_of s i = Some d \<longleftrightarrow> (i, d) \<in> set (is_issued s)"
  by (simp add: keys_ok_def issued_of_def)

lemma kin_issued: "(kin s)\<^sup>*\<^sup>* i j \<Longrightarrow> i \<in> fst ` set (is_issued s) \<Longrightarrow> j \<in> fst ` set (is_issued s)"
proof (induction rule: rtranclp_induct)
  case (step p j)
  then show ?case unfolding kin_def by force
qed

lemma issued_key: "issued_of s i = Some d \<Longrightarrow> i \<in> fst ` set (is_issued s)"
  by (force simp: issued_of_def dest: map_of_SomeD)

lemma affected_marked:
  assumes "issued_of s i = Some d"
  shows "issuer_prim h so s (mark_revoked now (affected_by s i) s)"
  using affected_exactly [OF issued_key [OF assms]] affected_closed [OF issued_key [OF assms]]
    kin_issued [of s i] issued_key [OF assms]
  by (intro marked) auto

lemma revoke_reaches: "reaches (issuer_prim h so) (revoke clock d) s"
  unfolding revoke_def
proof (rule reaches_read, rule reaches_bind [OF issuer_now_reaches], rule reaches_get, rule reaches_modify_bind)
  fix u s' now
  assume "ensure (issued_of s (grant_id d) = Some d) (ValueError ''revocation requires a host-issued handle'') = Inr u"
    "issuer_now clock s = (s', Inr now)"
  then have "issued_of s' (grant_id d) = Some d"
    using issuer_now_ok(1) [OF \<open>issuer_now clock s = (s', Inr now)\<close>] by (simp add: issued_of_def)
  then show "(issuer_prim h so)\<^sup>*\<^sup>* s' (mark_revoked now (affected_by s' (grant_id d)) s')"
    by (intro r_into_rtranclp affected_marked)
qed (rule reaches_basic)

lemma invalidate_reaches: "reaches (issuer_prim h so) (invalidate_policy clock) s"
  unfolding invalidate_policy_def
  by (rule reaches_bind [OF issuer_now_reaches], rule reaches_modify, rule r_into_rtranclp, rule marked)
    (auto simp: closed_under_def)

lemma preview_ok:
  assumes "preview_operation h so clock d source k s = (s', Inr u)"
  obtains now check where "s' = s\<lparr>is_last := now\<rparr>" "is_last s \<le> now"
    "check_current h d source now s' = Inr ()" "verify_operation_authority h so k (hd_authority d) = Inr check"
    "verified_ok check" "active_operations s' (grant_id d) < dl_flight (is_limits s')"
    "used_of s' (grant_id d) + active_operations s' (grant_id d) < dl_actions (is_limits s')"
  using assms unfolding preview_operation_def
  by (auto simp: op_bind_Inr_iff Let_def elim!: require_current_ok)

lemma preview_reaches: "reaches (issuer_prim h so) (preview_operation h so clock d source k) s"
  unfolding preview_operation_def by (intro reaches_bind require_current_reaches reaches_basic)

lemma reserve_op_reaches:
  assumes "walk_order so"
  shows "reaches (issuer_prim h so) (reserve_operation h so clock t d source action k) s"
  unfolding reserve_operation_def
proof (rule reaches_bind [OF preview_reaches], rule reaches_modify_bind)
  fix s' and u :: unit
  assume "preview_operation h so clock d source k s = (s', Inr u)"
  then show "(issuer_prim h so)\<^sup>*\<^sup>* s' (s'\<lparr>is_pending := AList.update t
         \<lparr>po_grant = grant_id d, po_action = action, po_contract = operation_digest h k,
          po_generation = is_generation s'\<rparr> (is_pending s')\<rparr>)"
  proof (rule preview_ok)
    fix now check
    assume c: "check_current h d source now s' = Inr ()" "verify_operation_authority h so k (hd_authority d) = Inr check"
      "verified_ok check" "active_operations s' (grant_id d) < dl_flight (is_limits s')"
      "used_of s' (grant_id d) + active_operations s' (grant_id d) < dl_actions (is_limits s')"
    have "operation_within k (hd_authority d)"
      using operation_sound [OF _ c(2,3)] assms by (simp add: walk_order_def)
    with c check_current_ok(1) show ?thesis by (intro r_into_rtranclp reserved)
  qed
qed (rule reaches_basic)

lemma commit_cases:
  assumes "commit_operation h clock d source t a k b s = (s', r)"
  obtains s1 e where "require_current_grant h clock d source s = (s1, e)" "s' = drop_ticket t s1" "r = Inr False"
    | now s1 where "require_current_grant h clock d source s = (s1, Inr ())" "b"
      "s1 = s\<lparr>is_last := now\<rparr>" "is_last s \<le> now" "check_current h d source now s1 = Inr ()"
      "map_of (is_pending s1) t = Some \<lparr>po_grant = grant_id d, po_action = a, po_contract = k,
         po_generation = is_generation s1\<rparr>"
      "used_of s1 (grant_id d) < dl_actions (is_limits s1)" "r = Inr True"
      "s' = (drop_ticket t s1)\<lparr>is_used := AList.update (grant_id d) (Suc (used_of s1 (grant_id d))) (is_used s1)\<rparr>"
proof -
  obtain s1 e where req: "require_current_grant h clock d source s = (s1, e)" by (cases "require_current_grant h clock d source s")
  have used: "used_of (drop_ticket t s1) = used_of s1" "is_used (drop_ticket t s1) = is_used s1"
    by (simp_all add: drop_ticket_def used_of_def fun_eq_iff)
  show ?thesis
  proof (cases e)
    case (Inl x)
    with req assms that(1) show ?thesis by (simp add: commit_operation_def)
  next
    case (Inr u)
    show ?thesis
    proof (cases "r = Inr True")
      case False
      with req assms Inr that(1) show ?thesis
        by (auto simp: commit_operation_def Let_def split: if_split_asm)
    next
      case True
      have ok: "require_current_grant h clock d source s = (s1, Inr ())" using req Inr by simp
      then show ?thesis
      proof (rule require_current_ok)
        fix now
        assume "s1 = s\<lparr>is_last := now\<rparr>" "is_last s \<le> now" "check_current h d source now s1 = Inr ()"
        with that(2) [OF ok] show ?thesis
          using assms True used by (auto simp: commit_operation_def ok Let_def split: if_split_asm)
      qed
    qed
  qed
qed

lemma commit_op_reaches: "reaches (issuer_prim h so) (commit_operation h clock d source t a k b) s"
proof -
  obtain s' r where run: "commit_operation h clock d source t a k b s = (s', r)"
    by (cases "commit_operation h clock d source t a k b s")
  then have "(issuer_prim h so)\<^sup>*\<^sup>* s s'"
  proof (cases rule: commit_cases)
    case (1 s1 e)
    then show ?thesis
      using reachesD [OF require_current_reaches 1(1)] dropped by (metis rtranclp.rtrancl_into_rtrancl)
  next
    case (2 now s1)
    then show ?thesis
      using reachesD [OF require_current_reaches 2(1)] committed [OF 2(6) _ 2(7)]
      by (metis pending_operation.select_convs(1) rtranclp.rtrancl_into_rtrancl)
  qed
  with run show ?thesis by (simp add: reaches_def)
qed

lemma issuer_step_prims:
  assumes "walk_order so"
  shows "(issuer_prim h so)\<^sup>*\<^sup>* s (issuer_step h so s call)"
proof (cases call)
  case (CancelTicket t)
  then show ?thesis
    by (auto simp: state_after_def cancel_operation_def op_modify_def intro: dropped)
qed (use assms in \<open>auto simp: state_after_def reaches_def [symmetric] intro: authorize_root_reaches
    issue_child_reaches revoke_reaches invalidate_reaches require_current_reaches preview_reaches
    reserve_op_reaches commit_op_reaches\<close>)

section \<open>The invariant\<close>

text \<open>A grant under its parent, and a grant by itself.\<close>

definition child_of :: "issued_delegation \<Rightarrow> issued_delegation \<Rightarrow> bool" where
  "child_of d e = (dg_depth (hd_record d) = dg_depth (hd_record e) + 1 \<and>
     dg_expires_at (hd_record d) \<le> dg_expires_at (hd_record e) \<and>
     dg_max_depth (hd_record d) \<le> dg_max_depth (hd_record e) \<and>
     dg_parent_principal (hd_record d) = principal e \<and> authority_within (hd_authority d) (hd_authority e))"

definition grant_ok :: "issuer \<Rightarrow> issued_delegation \<Rightarrow> bool" where
  "grant_ok s d = (0 \<le> dg_depth (hd_record d) \<and> dg_depth (hd_record d) \<le> dg_max_depth (hd_record d) \<and>
     dg_max_depth (hd_record d) \<le> 16 \<and>
     authority_within (hd_authority d) (is_operator s) \<and> authority_within (hd_authority d) (is_task s) \<and>
     (case parent_id d of
        None \<Rightarrow> dg_depth (hd_record d) = 0 \<and> dg_parent_principal (hd_record d) = ap_operator (is_profile s)
      | Some p \<Rightarrow> \<exists>e. issued_of s p = Some e \<and> child_of d e))"

definition grants_ok :: "issuer \<Rightarrow> bool" where
  "grants_ok s = (keys_ok s \<and> (\<forall>m \<in> set (is_issued s). grant_ok s (snd m)) \<and>
     length (is_issued s) \<le> dl_grants (is_limits s))"

definition revoked_ok :: "issuer \<Rightarrow> bool" where
  "revoked_ok s = (fst ` set (is_revoked s) \<subseteq> fst ` set (is_issued s) \<and>
     (\<forall>m \<in> set (is_issued s). \<forall>p. parent_id (snd m) = Some p \<longrightarrow> revoked s p \<longrightarrow> revoked s (fst m)))"

definition principals_ok :: "issuer \<Rightarrow> bool" where
  "principals_ok s = (\<forall>m \<in> set (is_issued s). \<forall>n \<in> set (is_issued s).
     principal (snd m) = principal (snd n) \<longrightarrow> fst m \<noteq> fst n \<longrightarrow>
     \<not> live s (is_last s) (snd m) \<or> \<not> live s (is_last s) (snd n))"

definition children_ok :: "issuer \<Rightarrow> bool" where
  "children_ok s = (\<forall>i. live_children s (is_last s) i \<le> dl_children (is_limits s))"

definition operation_ok :: "host_env \<Rightarrow> issuer \<Rightarrow> pending_operation \<Rightarrow> bool" where
  "operation_ok h s po = (po_generation po = is_generation s \<and>
     (\<exists>d k. issued_of s (po_grant po) = Some d \<and> operation_digest h k = po_contract po \<and>
        operation_within k (hd_authority d)))"

definition operations_ok :: "host_env \<Rightarrow> issuer \<Rightarrow> bool" where
  "operations_ok h s = ((\<forall>m \<in> set (is_pending s). operation_ok h s (snd m)) \<and>
     (\<forall>i. active_operations s i \<le> dl_flight (is_limits s) \<and>
        used_of s i + active_operations s i \<le> dl_actions (is_limits s)))"

definition issuer_inv :: "host_env \<Rightarrow> (string list \<Rightarrow> string list) \<Rightarrow> issuer \<Rightarrow> bool" where
  "issuer_inv h so s = (walk_order so \<and> grants_ok s \<and> revoked_ok s \<and> principals_ok s \<and> children_ok s \<and>
     operations_ok h s)"

text \<open>What a stored grant has passed.\<close>

lemma make_grant_ok: "make_grant h g = Inr g' \<Longrightarrow> g' = g \<and> dg_depth g \<le> dg_max_depth g \<and> dg_issued_at g < dg_expires_at g"
  by (auto simp: make_grant_def split: if_split_asm)

lemma prepare_issue_ok:
  assumes "prepare_issue h so now r s = Inr d"
  obtains depth v where "issued_of s (ir_id r) = None" "length (is_issued s) < dl_grants (is_limits s)"
    "now < ir_expires r" "0 \<le> ir_depth r" "ir_depth r \<le> 16"
    "\<forall>m \<in> set (is_issued s). principal (snd m) = es_principal (ir_source r) \<longrightarrow> \<not> live s now (snd m)"
    "check_parent s now r = Inr depth"
    "verify_delegation_subset h so (ir_authority r)
       (case ir_parent r of None \<Rightarrow> is_operator s | Some parent \<Rightarrow> hd_authority parent)
       (is_operator s) (is_task s) = Inr v" "delegation_ok v"
    "hd_record d = issued_grant h s now depth r" "hd_authority d = ir_authority r"
    "dg_depth (hd_record d) \<le> dg_max_depth (hd_record d)" "hd_issuer d = is_key s"
  using assms unfolding prepare_issue_def Let_def list_ex_iff
  by (auto dest!: make_grant_ok)

lemma check_parent_ok:
  assumes "check_parent s now r = Inr depth"
  shows "case ir_parent r of None \<Rightarrow> depth = 0
    | Some p \<Rightarrow> depth = dg_depth (hd_record p) + 1 \<and> ir_expires r \<le> dg_expires_at (hd_record p) \<and>
        ir_depth r \<le> dg_max_depth (hd_record p) \<and>
        live_children s now (grant_id p) < dl_children (is_limits s)"
  using assms unfolding check_parent_def Let_def by (auto split: option.splits)

lemma update_new: "k \<notin> fst ` set al \<Longrightarrow> AList.update k v al = al @ [(k, v)]"
  by (induction al) auto

lemma set_update: "set (AList.update k v al) \<subseteq> insert (k, v) (set al)"
  by (induction al) auto

lemma keys_update: "fst ` set (AList.update k v al) = insert k (fst ` set al)"
  by (induction al) auto

lemma keys_updates: "fst ` set (fold (\<lambda>i. AList.update i v) is al) = set is \<union> fst ` set al"
  by (induction "is" arbitrary: al) (auto simp: keys_update)

lemma revoked_mark [simp]: "revoked (mark_revoked now is s) i \<longleftrightarrow> i \<in> set is \<or> revoked s i"
  by (auto simp: revoked_def mark_revoked_def keys_updates)

lemma store_fields:
  assumes "issued_of s (grant_id d) = None"
  shows "is_issued (store_grant d s) = is_issued s @ [(grant_id d, d)]"
    "is_revoked (store_grant d s) = is_revoked s" "is_last (store_grant d s) = is_last s"
    "is_pending (store_grant d s) = is_pending s" "is_limits (store_grant d s) = is_limits s"
    "is_operator (store_grant d s) = is_operator s" "is_task (store_grant d s) = is_task s"
    "is_profile (store_grant d s) = is_profile s" "is_generation (store_grant d s) = is_generation s"
  using assms by (simp_all add: store_grant_def issued_of_def map_of_eq_None_iff update_new)

lemma issued_of_store:
  assumes "issued_of s (grant_id d) = None"
  shows "issued_of (store_grant d s) i = (if i = grant_id d then Some d else issued_of s i)"
  using assms by (auto simp: issued_of_def store_fields map_add_def split: option.splits)

text \<open>Grants.\<close>

lemma grant_ok_frame:
  assumes "is_operator s' = is_operator s" "is_task s' = is_task s" "is_profile s' = is_profile s"
    "\<And>i e. issued_of s i = Some e \<Longrightarrow> issued_of s' i = Some e" "grant_ok s d"
  shows "grant_ok s' d"
  using assms unfolding grant_ok_def by (auto split: option.splits)

lemma grants_ok_frame:
  assumes "is_issued s' = is_issued s" "is_operator s' = is_operator s" "is_task s' = is_task s"
    "is_profile s' = is_profile s" "is_limits s' = is_limits s" "grants_ok s"
  shows "grants_ok s'"
  using assms unfolding grants_ok_def keys_ok_def
  by (auto simp: issued_of_def intro!: grant_ok_frame [of s' s])

lemma stored_grants:
  assumes "walk_order so" "grants_ok s" "prepare_issue h so (is_last s) r s = Inr d"
    "\<And>p. ir_parent r = Some p \<Longrightarrow> issued_of s (grant_id p) = Some p \<and> \<not> revoked s (grant_id p)"
  shows "grants_ok (store_grant d s)"
  using assms(3)
proof (rule prepare_issue_ok)
  fix depth v
  assume p: "issued_of s (ir_id r) = None" "length (is_issued s) < dl_grants (is_limits s)"
    "is_last s < ir_expires r" "0 \<le> ir_depth r" "ir_depth r \<le> 16"
    "check_parent s (is_last s) r = Inr depth"
    "verify_delegation_subset h so (ir_authority r)
       (case ir_parent r of None \<Rightarrow> is_operator s | Some parent \<Rightarrow> hd_authority parent)
       (is_operator s) (is_task s) = Inr v" "delegation_ok v"
    "hd_record d = issued_grant h s (is_last s) depth r" "hd_authority d = ir_authority r"
    "dg_depth (hd_record d) \<le> dg_max_depth (hd_record d)"
  have id: "grant_id d = ir_id r" by (simp add: p(9) issued_grant_def)
  then have new: "issued_of s (grant_id d) = None" using p(1) by simp
  note fields = store_fields [OF new] and look = issued_of_store [OF new]
  have narrow: "authority_within (hd_authority d) m"
    if "m \<in> {case ir_parent r of None \<Rightarrow> is_operator s | Some parent \<Rightarrow> hd_authority parent,
      is_operator s, is_task s}" for m
    using subset_attenuates [OF _ p(7,8) that] assms(1) by (simp add: walk_order_def p(10))
  have old: "issued_of (store_grant d s) i = Some e" if "issued_of s i = Some e" for i e
    using that new by (auto simp: look)
  have deep: "0 \<le> depth"
  proof (cases "ir_parent r")
    case (Some q)
    then have "issued_of s (grant_id q) = Some q" using assms(4) by blast
    then have "grant_ok s q"
      using assms(2) unfolding grants_ok_def issued_of_def by (auto dest!: map_of_SomeD)
    with check_parent_ok [OF p(6)] Some show ?thesis by (simp add: grant_ok_def)
  qed (use check_parent_ok [OF p(6)] in simp)
  have "case parent_id d of
        None \<Rightarrow> dg_depth (hd_record d) = 0 \<and> dg_parent_principal (hd_record d) = ap_operator (is_profile s)
      | Some p \<Rightarrow> \<exists>e. issued_of (store_grant d s) p = Some e \<and> child_of d e"
  proof (cases "ir_parent r")
    case None
    with check_parent_ok [OF p(6)] show ?thesis by (simp add: p(9) issued_grant_def)
  next
    case (Some q)
    then have q: "issued_of (store_grant d s) (grant_id q) = Some q" using assms(4) old by blast
    have "child_of d q"
      using check_parent_ok [OF p(6)] Some narrow by (simp add: child_of_def p(9) issued_grant_def)
    with q Some show ?thesis by (simp add: p(9) issued_grant_def)
  qed
  moreover have "0 \<le> dg_depth (hd_record d)" "dg_max_depth (hd_record d) \<le> 16"
    using deep p(5) by (simp_all add: p(9) issued_grant_def)
  moreover have "authority_within (hd_authority d) (is_operator s)" "authority_within (hd_authority d) (is_task s)"
    using narrow by simp_all
  ultimately have "grant_ok (store_grant d s) d"
    unfolding grant_ok_def fields using p(11) by blast
  moreover have "\<forall>m \<in> set (is_issued s). grant_ok (store_grant d s) (snd m)"
  proof
    fix m assume "m \<in> set (is_issued s)"
    then have "grant_ok s (snd m)" using assms(2) by (simp add: grants_ok_def)
    with fields(6-8) old show "grant_ok (store_grant d s) (snd m)" by (rule grant_ok_frame)
  qed
  moreover have "keys_ok (store_grant d s)"
    using assms(2) new by (auto simp: grants_ok_def keys_ok_def fields(1) issued_of_def map_of_eq_None_iff)
  ultimately show ?thesis
    using p(2) unfolding grants_ok_def fields(1,5) by simp
qed

text \<open>Revocations.\<close>

lemma revoked_ok_frame:
  "is_issued s' = is_issued s \<Longrightarrow> is_revoked s' = is_revoked s \<Longrightarrow> revoked_ok s \<Longrightarrow> revoked_ok s'"
  by (simp add: revoked_ok_def revoked_def)

lemma stored_revoked:
  assumes "revoked_ok s" "issued_of s (grant_id d) = None" "\<And>p. parent_id d = Some p \<Longrightarrow> \<not> revoked s p"
  shows "revoked_ok (store_grant d s)"
  using assms(1,3) unfolding revoked_ok_def
  by (auto simp: store_fields [OF assms(2)] revoked_def)

lemma marked_revoked:
  assumes "revoked_ok s" "set is \<subseteq> fst ` set (is_issued s)" "closed_under s is"
  shows "revoked_ok (mark_revoked now is s)"
proof -
  have "fst ` set (is_revoked (mark_revoked now is s)) = set is \<union> fst ` set (is_revoked s)"
    by (simp add: mark_revoked_def keys_updates)
  moreover have "is_issued (mark_revoked now is s) = is_issued s" by (simp add: mark_revoked_def)
  ultimately show ?thesis
    using assms unfolding revoked_ok_def closed_under_def revoked_mark by auto
qed

text \<open>Live grants: time and revocation only end them.\<close>

lemma live_later:
  assumes "live s' now' d" "now \<le> now'" "\<And>i. revoked s i \<Longrightarrow> revoked s' i"
  shows "live s now d"
  using assms by (auto simp: live_def)

lemma live_children_later:
  assumes "is_issued s' = is_issued s" "now \<le> now'" "\<And>i. revoked s i \<Longrightarrow> revoked s' i"
  shows "live_children s' now' i \<le> live_children s now i"
proof -
  have mono: "length (filter P xs) \<le> length (filter Q xs)" if "\<And>x. P x \<Longrightarrow> Q x"
    for P Q and xs :: "issued_delegation list"
    using that by (induction xs) (auto simp: le_Suc_eq)
  show ?thesis unfolding live_children_def assms(1)
    by (rule mono) (use live_later [OF _ assms(2,3)] in blast)
qed

lemma principals_ok_frame:
  assumes "is_issued s' = is_issued s" "is_last s \<le> is_last s'" "\<And>i. revoked s i \<Longrightarrow> revoked s' i" "principals_ok s"
  shows "principals_ok s'"
  using assms(4) live_later [OF _ assms(2,3)] unfolding principals_ok_def assms(1) by blast

lemma children_ok_frame:
  assumes "is_issued s' = is_issued s" "is_last s \<le> is_last s'" "\<And>i. revoked s i \<Longrightarrow> revoked s' i"
    "is_limits s' = is_limits s" "children_ok s"
  shows "children_ok s'"
  unfolding children_ok_def assms(4)
  using assms(5) live_children_later [OF assms(1-3)] unfolding children_ok_def by (meson order_trans)

lemma stored_principals:
  assumes "principals_ok s" "prepare_issue h so (is_last s) r s = Inr d"
  shows "principals_ok (store_grant d s)"
  using assms(2)
proof (rule prepare_issue_ok)
  fix depth
  assume p: "issued_of s (ir_id r) = None"
    "\<forall>m \<in> set (is_issued s). principal (snd m) = es_principal (ir_source r) \<longrightarrow> \<not> live s (is_last s) (snd m)"
    "hd_record d = issued_grant h s (is_last s) depth r"
  have d: "grant_id d = ir_id r" "principal d = es_principal (ir_source r)" by (simp_all add: p(3) issued_grant_def)
  then have new: "issued_of s (grant_id d) = None" using p(1) by simp
  have live: "live (store_grant d s) = live s"
    by (simp add: live_def fun_eq_iff revoked_def store_fields [OF new])
  show ?thesis
    using assms(1) p(2) d unfolding principals_ok_def live store_fields [OF new] by auto
qed

lemma stored_children:
  assumes "children_ok s" "prepare_issue h so (is_last s) r s = Inr d"
  shows "children_ok (store_grant d s)"
  using assms(2)
proof (rule prepare_issue_ok)
  fix depth
  assume p: "issued_of s (ir_id r) = None" "check_parent s (is_last s) r = Inr depth"
    "hd_record d = issued_grant h s (is_last s) depth r"
  have d: "grant_id d = ir_id r" "parent_id d = map_option grant_id (ir_parent r)" by (simp_all add: p(3) issued_grant_def)
  then have new: "issued_of s (grant_id d) = None" using p(1) by simp
  have live: "live (store_grant d s) = live s"
    by (simp add: live_def fun_eq_iff revoked_def store_fields [OF new])
  have count: "live_children (store_grant d s) (is_last s) i =
      live_children s (is_last s) i + (if parent_id d = Some i \<and> live s (is_last s) d then 1 else 0)" for i
    by (simp add: live_children_def live store_fields [OF new])
  have "live_children (store_grant d s) (is_last s) i \<le> dl_children (is_limits s)" for i
  proof (cases "parent_id d = Some i")
    case True
    then obtain q where "ir_parent r = Some q" "grant_id q = i" using d(2) by auto
    with check_parent_ok [OF p(2)] have "live_children s (is_last s) i < dl_children (is_limits s)" by simp
    then show ?thesis by (simp add: count)
  next
    case False
    then show ?thesis using assms(1) by (simp add: count children_ok_def)
  qed
  then show ?thesis by (simp add: children_ok_def store_fields [OF new])
qed

text \<open>Operations.\<close>

lemma operations_ok_frame:
  assumes "is_issued s' = is_issued s" "is_generation s' = is_generation s" "is_pending s' = is_pending s"
    "is_used s' = is_used s" "is_limits s' = is_limits s" "operations_ok h s"
  shows "operations_ok h s'"
  using assms by (simp add: operations_ok_def operation_ok_def active_operations_def used_of_def issued_of_def)

lemma map_of_aupdate: "map_of (AList.update k v al) i = (if i = k then Some v else map_of al i)"
  by (simp add: update_conv' )

lemma stored_operations:
  assumes "operations_ok h s" "issued_of s (grant_id d) = None"
  shows "operations_ok h (store_grant d s)"
proof -
  have used: "used_of (store_grant d s) i \<le> used_of s i" for i
    by (simp add: store_grant_def used_of_def map_of_aupdate)
  have active: "active_operations (store_grant d s) i = active_operations s i" for i
    by (simp add: active_operations_def store_fields [OF assms(2)])
  have "operation_ok h (store_grant d s) po" if "operation_ok h s po" for po
    using that assms(2) unfolding operation_ok_def
    by (auto simp: store_fields [OF assms(2)] issued_of_store [OF assms(2)])
  then show ?thesis
    using assms(1) used unfolding operations_ok_def
    by (auto simp: active store_fields [OF assms(2)]) (meson add_le_mono1 order_trans)
qed

lemma marked_operations: "operations_ok h s \<Longrightarrow> operations_ok h (mark_revoked now is s)"
  by (auto simp: operations_ok_def mark_revoked_def active_operations_def used_of_def
      intro: add_leD1)

lemma filter_delete: "filter P (AList.delete k al) = AList.delete k (filter P al)"
  by (simp add: AList.delete_eq filter_filter conj_commute)

lemma active_drop: "active_operations (drop_ticket t s) i \<le> active_operations s i"
  by (simp add: active_operations_def drop_ticket_def filter_delete AList.length_delete_le)

lemma active_drop_one:
  assumes "map_of (is_pending s) t = Some po"
  shows "active_operations (drop_ticket t s) (po_grant po) < active_operations s (po_grant po)"
proof -
  have "(t, po) \<in> set (filter (\<lambda>m. po_grant (snd m) = po_grant po) (is_pending s))"
    using map_of_SomeD [OF assms] by simp
  moreover have "length (AList.delete t al) < length al" if "(t, po) \<in> set al" for al
    unfolding AList.delete_eq by (rule length_filter_less [OF that]) simp
  ultimately show ?thesis by (simp add: active_operations_def drop_ticket_def filter_delete)
qed

lemma active_update:
  "length (filter (\<lambda>m. po_grant (snd m) = i) (AList.update t po al)) \<le>
     length (filter (\<lambda>m. po_grant (snd m) = i) al) + (if po_grant po = i then 1 else 0)"
  by (induction al) auto

lemma dropped_operations: "operations_ok h s \<Longrightarrow> operations_ok h (drop_ticket t s)"
proof -
  assume ok: "operations_ok h s"
  have "set (is_pending (drop_ticket t s)) \<subseteq> set (is_pending s)"
    by (auto simp: drop_ticket_def AList.delete_eq)
  moreover have "operation_ok h (drop_ticket t s) po = operation_ok h s po" for po
    by (simp add: operation_ok_def drop_ticket_def issued_of_def)
  moreover have "used_of (drop_ticket t s) i = used_of s i" "is_limits (drop_ticket t s) = is_limits s" for i
    by (simp_all add: drop_ticket_def used_of_def)
  ultimately show ?thesis
    using ok active_drop [of t s] unfolding operations_ok_def
    by (metis (no_types, lifting) add_le_mono le_trans order_refl subsetD)
qed

lemma reserved_operations:
  assumes "operations_ok h s" "issued_of s (grant_id d) = Some d" "operation_within k (hd_authority d)"
    "active_operations s (grant_id d) < dl_flight (is_limits s)"
    "used_of s (grant_id d) + active_operations s (grant_id d) < dl_actions (is_limits s)"
    "po = \<lparr>po_grant = grant_id d, po_action = action, po_contract = operation_digest h k,
       po_generation = is_generation s\<rparr>"
  shows "operations_ok h (s\<lparr>is_pending := AList.update t po (is_pending s)\<rparr>)" (is "operations_ok h ?s")
proof -
  have same: "operation_ok h ?s x = operation_ok h s x" "used_of ?s i = used_of s i" for x i
    by (simp_all add: operation_ok_def issued_of_def used_of_def)
  have "operation_ok h s po" using assms(2,3) unfolding operation_ok_def assms(6) by auto
  then have pend: "\<forall>m \<in> set (is_pending ?s). operation_ok h ?s (snd m)"
    using assms(1) set_update [of t po "is_pending s"] unfolding same operations_ok_def by auto
  have grown: "active_operations ?s i \<le> active_operations s i + (if i = grant_id d then 1 else 0)" for i
    using active_update [of i t po "is_pending s"] assms(6) by (auto simp: active_operations_def)
  have old: "active_operations s i \<le> dl_flight (is_limits s)"
    "used_of s i + active_operations s i \<le> dl_actions (is_limits s)" for i
    using assms(1) by (simp_all add: operations_ok_def)
  have "active_operations ?s i \<le> dl_flight (is_limits s) \<and>
      used_of s i + active_operations ?s i \<le> dl_actions (is_limits s)" for i
    using grown [of i] old [of i] assms(4,5) by (cases "i = grant_id d") simp_all
  with pend show ?thesis by (simp add: operations_ok_def same)
qed

lemma committed_operations:
  assumes "operations_ok h s" "map_of (is_pending s) t = Some po" "po_grant po = i"
  shows "operations_ok h ((drop_ticket t s)\<lparr>is_used := AList.update i (Suc (used_of s i)) (is_used s)\<rparr>)"
    (is "operations_ok h ?s")
proof -
  note dropped = dropped_operations [OF assms(1), of t]
  have same: "operation_ok h ?s x = operation_ok h (drop_ticket t s) x"
      "active_operations ?s j = active_operations (drop_ticket t s) j" for x j
    by (simp_all add: operation_ok_def issued_of_def active_operations_def)
  have used: "used_of ?s j = (if j = i then Suc (used_of s i) else used_of s j)" for j
    by (simp add: used_of_def map_of_aupdate)
  have drop_used: "used_of (drop_ticket t s) j = used_of s j" for j by (simp add: drop_ticket_def used_of_def)
  have one: "Suc (used_of s i) + active_operations (drop_ticket t s) i \<le> used_of s i + active_operations s i"
    using active_drop_one [OF assms(2)] assms(3) by simp
  have lim: "is_limits (drop_ticket t s) = is_limits s" by (simp add: drop_ticket_def)
  have "used_of ?s j + active_operations ?s j \<le> dl_actions (is_limits s)" for j
  proof (cases "j = i")
    case True
    have "used_of s i + active_operations s i \<le> dl_actions (is_limits s)"
      using assms(1) by (simp add: operations_ok_def)
    moreover have "Suc (used_of s i) + active_operations (drop_ticket t s) i \<le> dl_actions (is_limits s)"
      using one calculation by (rule le_trans)
    ultimately show ?thesis using True by (simp add: used same)
  next
    case False
    then show ?thesis using dropped unfolding operations_ok_def same used lim drop_used by simp
  qed
  then show ?thesis using dropped unfolding operations_ok_def same lim by (simp add: lim)
qed

text \<open>Updates that leave the grants alone only have to answer for revocations and operations.\<close>

lemma issuer_inv_frame:
  assumes "issuer_inv h so s" "is_issued s' = is_issued s" "is_limits s' = is_limits s"
    "is_operator s' = is_operator s" "is_task s' = is_task s" "is_profile s' = is_profile s"
    "is_last s \<le> is_last s'" "\<And>i. revoked s i \<Longrightarrow> revoked s' i" "revoked_ok s'" "operations_ok h s'"
  shows "issuer_inv h so s'"
  using assms grants_ok_frame [of s' s] principals_ok_frame [of s' s] children_ok_frame [of s' s]
  by (simp add: issuer_inv_def)

text \<open>Each update keeps the invariant, so every operation does.\<close>

lemma issuer_prim_inv:
  assumes "issuer_prim h so s s'" "issuer_inv h so s"
  shows "issuer_inv h so s'"
proof -
  have inv: "walk_order so" "grants_ok s" "revoked_ok s" "principals_ok s" "children_ok s" "operations_ok h s"
    using assms(2) by (simp_all add: issuer_inv_def)
  show ?thesis
    using assms(1)
  proof cases
    case (ticked now)
    have "operations_ok h s'" by (rule operations_ok_frame [OF _ _ _ _ _ inv(6)]) (simp_all add: ticked)
    then show ?thesis
      by (intro issuer_inv_frame [OF assms(2)] revoked_ok_frame [OF _ _ inv(3)]) (simp_all add: ticked revoked_def)
  next
    case (stored r d)
    have new: "issued_of s (grant_id d) = None" "\<And>p. parent_id d = Some p \<Longrightarrow> \<not> revoked s p"
      using stored(2) by (auto elim!: prepare_issue_ok simp: issued_grant_def dest: stored(3))
    show ?thesis
      unfolding issuer_inv_def stored(1)
      using inv(1) stored_grants [OF inv(1,2) stored(2,3)] stored_revoked [OF inv(3) new]
        stored_principals [OF inv(4) stored(2)] stored_children [OF inv(5) stored(2)]
        stored_operations [OF inv(6) new(1)] by blast
  next
    case (marked "is" now)
    show ?thesis
      unfolding marked(1)
      by (intro issuer_inv_frame [OF assms(2)] marked_revoked [OF inv(3) marked(2,3)] marked_operations [OF inv(6)])
        (simp_all add: mark_revoked_def keys_updates revoked_def)
  next
    case (reserved d k ticket action)
    have "operations_ok h s'" unfolding reserved(1) by (rule reserved_operations [OF inv(6) reserved(2-5) refl])
    then show ?thesis
      by (intro issuer_inv_frame [OF assms(2)] revoked_ok_frame [OF _ _ inv(3)]) (simp_all add: reserved revoked_def)
  next
    case (dropped ticket)
    have "operations_ok h s'" unfolding dropped by (rule dropped_operations [OF inv(6)])
    then show ?thesis
      by (intro issuer_inv_frame [OF assms(2)] revoked_ok_frame [OF _ _ inv(3)])
        (simp_all add: dropped drop_ticket_def revoked_def)
  next
    case (committed ticket po i)
    have "operations_ok h s'" unfolding committed(1) by (rule committed_operations [OF inv(6) committed(2,3)])
    then show ?thesis
      by (intro issuer_inv_frame [OF assms(2)] revoked_ok_frame [OF _ _ inv(3)])
        (simp_all add: committed drop_ticket_def revoked_def)
  qed
qed

lemma issuer_prims_inv: "(issuer_prim h so)\<^sup>*\<^sup>* s s' \<Longrightarrow> issuer_inv h so s \<Longrightarrow> issuer_inv h so s'"
  by (induction rule: rtranclp_induct) (auto intro: issuer_prim_inv)

lemma step_inv: "issuer_inv h so s \<Longrightarrow> issuer_inv h so (issuer_step h so s call)"
  by (rule issuer_prims_inv [OF issuer_step_prims]) (auto simp: issuer_inv_def)

text \<open>What an update never undoes: a revocation, an issued grant, the configuration.\<close>

definition settled_grants :: "issuer \<Rightarrow> (string + string \<times> issued_delegation) set" where
  "settled_grants s = Inl ` {i. revoked s i} \<union> Inr ` {(i, d). issued_of s i = Some d}"

lemma prim_settled: "issuer_prim h so s s' \<Longrightarrow> settled_grants s \<subseteq> settled_grants s'"
proof (induction rule: issuer_prim.induct)
  case (stored s r d)
  then have new: "issued_of s (grant_id d) = None"
    by (auto elim!: prepare_issue_ok simp: issued_grant_def)
  have "issued_of (store_grant d s) i = Some e" if "issued_of s i = Some e" for i e
    using that new by (auto simp: issued_of_store)
  moreover have "revoked (store_grant d s) i = revoked s i" for i by (simp add: revoked_def store_fields [OF new])
  ultimately show ?case unfolding settled_grants_def by blast
next
  case (marked "is" s now)
  have "issued_of (mark_revoked now is s) = issued_of s" by (simp add: mark_revoked_def issued_of_def fun_eq_iff)
  then show ?case by (auto simp: settled_grants_def)
qed (auto simp: settled_grants_def revoked_def issued_of_def drop_ticket_def)

lemma prims_settled: "(issuer_prim h so)\<^sup>*\<^sup>* s s' \<Longrightarrow> settled_grants s \<subseteq> settled_grants s'"
  by (induction rule: rtranclp_induct) (auto dest: prim_settled)

interpretation issuer_settled: monotone_system "issuer_step h so" "issuer_inv h so" settled_grants for h so
proof
  fix s call
  assume inv: "issuer_inv h so s"
  then show "issuer_inv h so (issuer_step h so s call)" by (rule step_inv)
  show "settled_grants s \<subseteq> settled_grants (issuer_step h so s call)"
    by (rule prims_settled [OF issuer_step_prims]) (use inv in \<open>simp add: issuer_inv_def\<close>)
qed

interpretation issuer_generations: monotone_system "issuer_step h so" "issuer_inv h so" is_generation for h so
proof
  fix s call
  assume inv: "issuer_inv h so s"
  have prim: "is_generation s \<le> is_generation s'" if "issuer_prim h so s s'" for s s'
    using that by cases (auto simp: store_grant_def mark_revoked_def drop_ticket_def)
  have "is_generation s \<le> is_generation s'" if "(issuer_prim h so)\<^sup>*\<^sup>* s s'" for s s'
    using that by (induction rule: rtranclp_induct) (auto dest: prim intro: order_trans)
  with issuer_step_prims show "is_generation s \<le> is_generation (issuer_step h so s call)"
    using inv by (simp add: issuer_inv_def)
qed

definition issuer_run :: "host_env \<Rightarrow> (string list \<Rightarrow> string list) \<Rightarrow> issuer \<Rightarrow> issuer_call list \<Rightarrow> issuer" where
  "issuer_run h so s calls = foldl (issuer_step h so) s calls"

lemma start_inv:
  assumes "walk_order so" "start_issuer h source profile operator task limits random = Inr s"
  shows "issuer_inv h so s"
  using assms unfolding start_issuer_def Let_def
  by (auto simp: issuer_inv_def grants_ok_def keys_ok_def revoked_ok_def principals_ok_def children_ok_def
      operations_ok_def live_children_def active_operations_def used_of_def)

lemma issuer_run_inv:
  assumes "walk_order so" "start_issuer h source profile operator task limits random = Inr s"
  shows "issuer_inv h so (issuer_run h so s calls)"
  unfolding issuer_run_def by (rule issuer_settled.run_inv [OF start_inv [OF assms]])
text \<open>
  The same, in words of the code: once revoked, or with a revoked ancestor, always so; and a
  revoked grant is never current.
\<close>

section \<open>Properties\<close>

inductive descends :: "issuer \<Rightarrow> issued_delegation \<Rightarrow> issued_delegation \<Rightarrow> bool" for s where
  self: "descends s d d"
| parent: "descends s d e \<Longrightarrow> parent_id e = Some p \<Longrightarrow> issued_of s p = Some e' \<Longrightarrow> descends s d e'"

lemma issued_grant_ok: "grants_ok s \<Longrightarrow> issued_of s i = Some d \<Longrightarrow> grant_ok s d"
  unfolding grants_ok_def issued_of_def by (auto dest!: map_of_SomeD)

lemma descends_issued:
  "descends s d e \<Longrightarrow> issued_of s (grant_id d) = Some d \<Longrightarrow> grants_ok s \<Longrightarrow> issued_of s (grant_id e) = Some e"
proof (induction rule: descends.induct)
  case (parent d e p e')
  then show ?case by (auto simp: grants_ok_def keys_ok_def issued_of_def dest!: map_of_SomeD)
qed

lemma lineage_attenuates:
  assumes "walk_order so" "start_issuer h source profile operator task limits random = Inr s0"
    "s = issuer_run h so s0 calls" "issued_of s (grant_id d) = Some d" "descends s d e"
  shows "authority_within (hd_authority d) (hd_authority e) \<and>
    authority_within (hd_authority d) (is_operator s) \<and> authority_within (hd_authority d) (is_task s) \<and>
    dg_expires_at (hd_record d) \<le> dg_expires_at (hd_record e) \<and>
    dg_depth (hd_record e) \<le> dg_depth (hd_record d) \<and> dg_depth (hd_record d) \<le> dg_max_depth (hd_record e) \<and>
    dg_max_depth (hd_record d) \<le> dg_max_depth (hd_record e) \<and> dg_depth (hd_record d) \<le> 16"
proof -
  have ok: "grants_ok s" using issuer_run_inv [OF assms(1,2)] assms(3) by (simp add: issuer_inv_def)
  have d: "grant_ok s d" by (rule issued_grant_ok [OF ok assms(4)])
  have "authority_within (hd_authority d) (hd_authority e) \<and>
      dg_expires_at (hd_record d) \<le> dg_expires_at (hd_record e) \<and> dg_depth (hd_record e) \<le> dg_depth (hd_record d) \<and>
      dg_max_depth (hd_record d) \<le> dg_max_depth (hd_record e)"
    using assms(5,4)
  proof (induction rule: descends.induct)
    case (self d)
    then show ?case by (simp add: authority_within_refl)
  next
    case (parent d e p e')
    have "grant_ok s e" using issued_grant_ok [OF ok descends_issued [OF parent.hyps(1) parent.prems ok]] .
    with parent.hyps(2,3) have "child_of e e'" by (simp add: grant_ok_def)
    with parent.IH [OF parent.prems] show ?case
      by (auto simp: child_of_def intro: authority_within_trans)
  qed
  with d show ?thesis by (auto simp: grant_ok_def)
qed

text \<open>
  C6: Authority only narrows down a chain of grants. In every state an issuer can reach, whatever
  calls the host and its callers made and in whatever order, each issued grant's authority is
  within the authority of every grant it descends from and within both operator and task maxima;
  it expires no later and lies no shallower than each of its ancestors, no deeper than the depth that
  ancestor allows, allows no more depth itself, and lies at most 16 deep.
\<close>

theorem grants_attenuate:
  assumes "walk_order so" "start_issuer h source profile operator task limits random = Inr s0"
    "s = issuer_run h so s0 calls" "issued_of s (grant_id d) = Some d" "descends s d e"
  shows "authority_within (hd_authority d) (hd_authority e) \<and>
    authority_within (hd_authority d) (is_operator s) \<and> authority_within (hd_authority d) (is_task s) \<and>
    dg_expires_at (hd_record d) \<le> dg_expires_at (hd_record e) \<and>
    dg_depth (hd_record e) \<le> dg_depth (hd_record d) \<and> dg_depth (hd_record d) \<le> dg_max_depth (hd_record e) \<and>
    dg_max_depth (hd_record d) \<le> dg_max_depth (hd_record e) \<and> dg_depth (hd_record d) \<le> 16"
  by (rule lineage_attenuates [OF assms])

text \<open>The first step of a lineage.\<close>

lemma descends_first:
  "descends s d e \<Longrightarrow> e \<noteq> d \<Longrightarrow>
     \<exists>p d'. parent_id d = Some p \<and> issued_of s p = Some d' \<and> descends s d' e"
proof (induction rule: descends.induct)
  case (parent d e p e')
  show ?case
  proof (cases "e = d")
    case True
    with parent.hyps show ?thesis by (blast intro: descends.self)
  next
    case False
    with parent show ?thesis by (blast intro: descends.parent)
  qed
qed simp

lemma walk_lineage_fresh:
  "walk_current s now n seen d = Inr u \<Longrightarrow> descends s d e \<Longrightarrow> \<not> stale s now e"
proof (induction n arbitrary: seen d)
  case (Suc n)
  show ?case
  proof (cases "e = d")
    case True
    with Suc.prems(1) show ?thesis by (auto split: if_split_asm)
  next
    case False
    from descends_first [OF Suc.prems(2) False] obtain p d' where
      p: "parent_id d = Some p" "issued_of s p = Some d'" "descends s d' e" by blast
    with Suc.prems(1) have "walk_current s now n (grant_id d # seen) d' = Inr u" by (auto split: if_split_asm)
    from Suc.IH [OF this p(3)] show ?thesis .
  qed
qed simp

lemma descends_kept:
  assumes "descends s d e" "\<And>i x. issued_of s i = Some x \<Longrightarrow> issued_of s' i = Some x"
  shows "descends s' d e"
  using assms(1) by (induction rule: descends.induct) (auto intro: descends.intros assms(2))

lemma settled_iff [simp]:
  "Inl i \<in> settled_grants s \<longleftrightarrow> revoked s i" "Inr (i, d) \<in> settled_grants s \<longleftrightarrow> issued_of s i = Some d"
  by (auto simp: settled_grants_def)

lemma settled_kept:
  assumes "issuer_inv h so s" "s' = issuer_run h so s calls"
  shows "revoked s i \<Longrightarrow> revoked s' i" "issued_of s i = Some d \<Longrightarrow> issued_of s' i = Some d"
  using issuer_settled.run_level [OF assms(1), of calls, THEN subsetD]
  unfolding assms(2) issuer_run_def by (metis settled_iff(1), metis settled_iff(2))

text \<open>
  C13: Revocation is final and reaches all descendants. Once a grant is revoked, no later calls of
  any kind make it, or a grant that descends from it, pass \<^verbatim>\<open>require_current\<close> again, whatever the
  clock says and whoever presents it.
\<close>

theorem revoked_never_current:
  assumes "walk_order so" "start_issuer h source profile operator task limits random = Inr s0"
    "s1 = issuer_run h so s0 before" "revoked s1 (grant_id e)" "descends s1 d e"
    "s2 = issuer_run h so s1 later"
  shows "snd (require_current_grant h clock d presented s2) \<noteq> Inr ()"
proof
  assume "snd (require_current_grant h clock d presented s2) = Inr ()"
  then obtain s3 where "require_current_grant h clock d presented s2 = (s3, Inr ())"
    by (cases "require_current_grant h clock d presented s2") auto
  then show False
  proof (rule require_current_ok)
    fix now
    assume s3: "s3 = s2\<lparr>is_last := now\<rparr>" and cur: "check_current h d presented now s3 = Inr ()"
    have inv: "issuer_inv h so s1" using issuer_run_inv [OF assms(1,2)] assms(3) by simp
    have same: "revoked s3 i = revoked s2 i" "issued_of s3 i = issued_of s2 i" for i
      by (simp_all add: s3 revoked_def issued_of_def)
    have "descends s3 d e"
      by (rule descends_kept [OF assms(5)]) (simp add: same settled_kept(2) [OF inv assms(6)])
    from walk_lineage_fresh [OF check_current_ok(4) [OF cur] this]
    have "\<not> revoked s3 (grant_id e)" by (simp add: stale_def)
    with settled_kept(1) [OF inv assms(6,4)] show False by (simp add: same)
  qed
qed

text \<open>
  C28: What revoking a grant affects: exactly the grant and the grants that descend from it, each
  reported once in order; the issuer's generation grows and no reserved operation survives.
\<close>

theorem revoke_affects_descendants:
  assumes "revoke clock d s = (s', Inr affected)"
  shows "set affected = {i. (kin s)\<^sup>*\<^sup>* (grant_id d) i} \<and>
    (\<forall>i. revoked s' i = (i \<in> set affected \<or> revoked s i)) \<and>
    is_generation s' = Suc (is_generation s) \<and> is_pending s' = []"
proof -
  obtain now s1 where now: "issuer_now clock s = (s1, Inr now)" "issued_of s (grant_id d) = Some d"
    and run: "s' = mark_revoked now (affected_by s1 (grant_id d)) s1" "affected = sort (affected_by s1 (grant_id d))"
    using assms unfolding revoke_def by (auto simp: op_bind_Inr_iff)
  have s1: "s1 = s\<lparr>is_last := now\<rparr>" by (rule issuer_now_ok(1) [OF now(1)])
  then have "issued_of s1 (grant_id d) = Some d" using now(2) by (simp add: issued_of_def)
  from affected_exactly [OF issued_key [OF this]]
  have "set (affected_by s1 (grant_id d)) = {i. (kin s1)\<^sup>*\<^sup>* (grant_id d) i}" .
  moreover have "kin s1 = kin s" "revoked s1 = revoked s" by (simp_all add: s1 kin_def revoked_def fun_eq_iff)
  ultimately show ?thesis
    unfolding run by (simp add: s1 mark_revoked_def) (simp add: s1 [symmetric] revoked_def keys_updates)
qed

text \<open>
  C1: A committed operation is within every maximum and was reserved. In every state an issuer can
  reach, when \<^verbatim>\<open>_commit_operation\<close> answers \<^verbatim>\<open>True\<close>, the ticket was reserved in the current
  generation for this grant, action and contract; the contract is one whose every need the grant,
  all its ancestors, the operator and the task permit; the grant and its ancestors are unrevoked
  and unexpired; one use is counted, within the limit; and the ticket cannot be used again.
\<close>

theorem commit_is_authorized:
  assumes "walk_order so" "start_issuer h source profile operator task limits random = Inr s0"
    "s = issuer_run h so s0 calls"
    "commit_operation h clock d presented ticket action contract binding s = (s', Inr True)"
  shows "(\<exists>k. operation_digest h k = contract \<and> operation_within k (is_operator s) \<and> operation_within k (is_task s) \<and>
      (\<forall>e. descends s d e \<longrightarrow> operation_within k (hd_authority e) \<and> \<not> stale s' (is_last s') e)) \<and>
    binding \<and> map_of (is_pending s) ticket = Some \<lparr>po_grant = grant_id d, po_action = action,
      po_contract = contract, po_generation = is_generation s\<rparr> \<and>
    used_of s' (grant_id d) = Suc (used_of s (grant_id d)) \<and>
    used_of s' (grant_id d) \<le> dl_actions (is_limits s) \<and> map_of (is_pending s') ticket = None"
  using assms(4)
proof (cases rule: commit_cases)
  case (2 now s1)
  have inv: "issuer_inv h so s" using issuer_run_inv [OF assms(1,2)] assms(3) by simp
  then have ok: "grants_ok s" "operations_ok h s" by (simp_all add: issuer_inv_def)
  have same: "issued_of s1 = issued_of s" "is_pending s1 = is_pending s" "is_generation s1 = is_generation s"
    "used_of s1 = used_of s" "is_limits s1 = is_limits s"
    by (simp_all add: 2(3) issued_of_def used_of_def fun_eq_iff)
  have d: "issued_of s (grant_id d) = Some d" using check_current_ok(1) [OF 2(5)] by (simp add: same)
  have pend: "map_of (is_pending s) ticket = Some \<lparr>po_grant = grant_id d, po_action = action,
      po_contract = contract, po_generation = is_generation s\<rparr>" using 2(6) by (simp add: same)
  then obtain k where k: "operation_digest h k = contract" "operation_within k (hd_authority d)"
    using ok(2) d unfolding operations_ok_def operation_ok_def by (auto dest!: map_of_SomeD)
  have grant: "authority_within (hd_authority d) (hd_authority e) \<and> authority_within (hd_authority d) (is_operator s) \<and>
      authority_within (hd_authority d) (is_task s)" if "descends s d e" for e
    using lineage_attenuates [OF assms(1,2,3) d that] by simp
  have fresh: "\<not> stale s' (is_last s') e" if "descends s d e" for e
  proof -
    have "descends s1 d e" by (rule descends_kept [OF that]) (simp add: same)
    from walk_lineage_fresh [OF check_current_ok(4) [OF 2(5)] this] show ?thesis
      by (simp add: stale_def 2(9) 2(3) drop_ticket_def revoked_def)
  qed
  have uses: "used_of s' (grant_id d) = Suc (used_of s (grant_id d))"
    by (simp add: 2(9) 2(3) used_of_def map_of_aupdate)
  have gone: "map_of (is_pending s') ticket = None" by (simp add: 2(9) drop_ticket_def AList.delete_conv')
  from grant k fresh 2(2,7) pend uses gone show ?thesis
    by (auto simp: same intro!: exI [of _ k] intro: operation_within_mono descends.self)
qed simp

text \<open>
  C22: A reservation can be used. When \<^verbatim>\<open>_reserve_operation\<close> gives a ticket, a commit by the same
  holder at the same reading of the clock, for the same action and contract and with the host's
  binding check passed, answers \<^verbatim>\<open>True\<close>.
\<close>

theorem reservation_commits:
  assumes "reserve_operation h so clock ticket d presented action k s = (s1, Inr t)"
  shows "snd (commit_operation h clock d presented ticket action (operation_digest h k) True s1) = Inr True"
proof -
  obtain s0 where pre: "preview_operation h so clock d presented k s = (s0, Inr ())"
    and s1: "s1 = s0\<lparr>is_pending := AList.update ticket
         \<lparr>po_grant = grant_id d, po_action = action, po_contract = operation_digest h k,
          po_generation = is_generation s0\<rparr> (is_pending s0)\<rparr>"
    using assms unfolding reserve_operation_def by (auto simp: op_bind_Inr_iff)
  obtain now where clock: "clock = HInt now" "0 \<le> now" "now < 2 ^ 53" and s0: "s0 = s\<lparr>is_last := now\<rparr>"
    and cur: "check_current h d presented now s0 = Inr ()"
    and quota: "used_of s0 (grant_id d) + active_operations s0 (grant_id d) < dl_actions (is_limits s0)"
    using pre unfolding preview_operation_def require_current_grant_def issuer_now_def
    by (auto simp: op_bind_Inr_iff Let_def split: host_number.splits if_split_asm)
  have walk: "walk_current s1 now n seen e = walk_current s0 now n seen e" for n seen e
    by (induction n arbitrary: seen e) (simp_all add: s1 stale_def revoked_def issued_of_def split: option.splits)
  have "check_current h d presented now s1 = check_current h d presented now s0"
    unfolding check_current_def walk
    by (simp add: s1 require_configuration_def current_configuration_def issued_of_def)
  then have cur1: "check_current h d presented now s1 = Inr ()" using cur by simp
  have same: "s1\<lparr>is_last := now\<rparr> = s1" "is_last s1 = now" by (simp_all add: s1 s0)
  have req: "require_current_grant h clock d presented s1 = (s1, Inr ())"
    using clock by (simp add: require_current_grant_def issuer_now_def op_bind_def op_defs same cur1)
  have "used_of (drop_ticket ticket s1) (grant_id d) < dl_actions (is_limits s1)"
    using quota by (simp add: s1 drop_ticket_def used_of_def)
  with req show ?thesis
    by (simp add: commit_operation_def Let_def s1 map_of_aupdate)
qed

text \<open>
  C23: The quotas of an issuer hold in every state it can reach: at most \<^verbatim>\<open>maximum_grants\<close> grants;
  under each grant at most \<^verbatim>\<open>active_children\<close> live children, at most \<^verbatim>\<open>in_flight_operations\<close> reserved
  operations, and uses that with the reserved ones stay within \<^verbatim>\<open>actions_per_grant\<close>; and no two
  grants of one principal are live at once.
\<close>

theorem issuer_quotas:
  assumes "walk_order so" "start_issuer h source profile operator task limits random = Inr s0"
    "s = issuer_run h so s0 calls"
  shows "length (is_issued s) \<le> dl_grants (is_limits s) \<and>
    live_children s (is_last s) i \<le> dl_children (is_limits s) \<and>
    active_operations s i \<le> dl_flight (is_limits s) \<and>
    used_of s i + active_operations s i \<le> dl_actions (is_limits s) \<and> principals_ok s"
  using issuer_run_inv [OF assms(1,2)] assms(3)
  by (simp add: issuer_inv_def grants_ok_def children_ok_def operations_ok_def)

text \<open>
  C30: The walk over a parent's ancestors ends. In every state an issuer can reach, the loop of
  \<^verbatim>\<open>_issue\<close> over the lineage of an issued grant finds a root or a principal of the lineage within 17
  steps: it neither runs on nor misses a parent.
\<close>

theorem lineage_walk_ends:
  assumes "walk_order so" "start_issuer h source profile operator task limits random = Inr s0"
    "s = issuer_run h so s0 calls" "issued_of s (grant_id d) = Some d"
  shows "walk_lineage s p 17 d =
    (if \<exists>e. descends s d e \<and> in_lineage p e
     then Inl (ValueError ''self-delegation or principal cycle'') else Inr ())"
proof -
  have ok: "grants_ok s" using issuer_run_inv [OF assms(1,2)] assms(3) by (simp add: issuer_inv_def)
  have step: "(\<exists>e. descends s d e \<and> in_lineage p e) \<longleftrightarrow> in_lineage p d \<or>
      (\<exists>q d'. parent_id d = Some q \<and> issued_of s q = Some d' \<and> (\<exists>e. descends s d' e \<and> in_lineage p e))" for d
  proof
    assume "\<exists>e. descends s d e \<and> in_lineage p e"
    then show "in_lineage p d \<or>
      (\<exists>q d'. parent_id d = Some q \<and> issued_of s q = Some d' \<and> (\<exists>e. descends s d' e \<and> in_lineage p e))"
      using descends_first by blast
  next
    have up: "descends s d e" if "parent_id d = Some q" "issued_of s q = Some d'" "descends s d' e" for q d' e
      using that(3,1,2) by (induction rule: descends.induct) (auto intro: descends.intros)
    assume "in_lineage p d \<or>
      (\<exists>q d'. parent_id d = Some q \<and> issued_of s q = Some d' \<and> (\<exists>e. descends s d' e \<and> in_lineage p e))"
    then show "\<exists>e. descends s d e \<and> in_lineage p e" using up by (blast intro: descends.self)
  qed
  have "walk_lineage s p n d = (if \<exists>e. descends s d e \<and> in_lineage p e
     then Inl (ValueError ''self-delegation or principal cycle'') else Inr ())"
    if "issued_of s (grant_id d) = Some d" "dg_depth (hd_record d) < int n" for n d
    using that
  proof (induction n arbitrary: d)
    case 0
    with issued_grant_ok [OF ok 0(1)] show ?case by (simp add: grant_ok_def)
  next
    case (Suc n)
    note d = issued_grant_ok [OF ok Suc.prems(1)]
    show ?case
    proof (cases "parent_id d")
      case None
      then show ?thesis by (subst step) simp
    next
      case (Some q)
      with d obtain e where e: "issued_of s q = Some e" "child_of d e" by (auto simp: grant_ok_def)
      have "issued_of s (grant_id e) = Some e"
        using descends_issued [OF descends.parent [OF descends.self Some e(1)] Suc.prems(1) ok] .
      with Suc.IH [of e] Suc.prems(2) e show ?thesis
        by (subst step) (simp add: Some child_of_def)
    qed
  qed
  from this [OF assms(4), of 17] issued_grant_ok [OF ok assms(4)] show ?thesis
    by (simp add: grant_ok_def)
qed

end
