(* ===== verification/Issuer_Example.thy ===== *)
theory Issuer_Example
  imports Issuer_Safety
begin

text \<open>
  Concrete authorities over a directory and over one file in it, and the proof that the second is
  contained in the first, evaluated through the definitions of \<open>Delegation\<close>.
\<close>

section \<open>Authorities\<close>

lemma as_validate_small:
  assumes "as_frozen j = Inr ()" "text_bound h j \<le> 524288" "conforms shape j"
  shows "as_validate h name shape j = Inr ()"
proof -
  have "length (utf8 (canonical_json h j)) \<le> 1048576"
    using length_utf8 [of "canonical_json h j"] length_canonical [of h j] assms(2) by linarith
  with assms show ?thesis by (simp add: as_validate_def)
qed

definition plain_boundary :: "string \<Rightarrow> filesystem_capability \<Rightarrow> capability_boundary" where
  "plain_boundary name f = \<lparr>bd_id = name, bd_filesystem = [f], bd_network = [], bd_tools = [],
     bd_process = plain_process, bd_privilege = plain_privilege, bd_credentials = [],
     bd_semantics = ''lexical_prefix'', bd_guarantees = True, bd_any_executable = False\<rparr>"

definition wide_read :: filesystem_capability where
  "wide_read = \<lparr>fs_access = ''read'', fs_path = Some ''/srv'', fs_scope = ''prefix''\<rparr>"

definition plain_authority :: "string \<Rightarrow> filesystem_capability \<Rightarrow> delegation_authority" where
  "plain_authority name f = \<lparr>da_capability = plain_boundary name f, da_requests = [], da_grants = [],
     da_approval = False, da_rest = []\<rparr>"

definition wide :: delegation_authority where "wide = plain_authority ''wide'' wide_read"
definition narrow :: delegation_authority where "narrow = plain_authority ''narrow'' sample_read"

definition proposal :: "filesystem_capability \<Rightarrow> capability_contract" where
  "proposal f = \<lparr>cc_action = Some ''delegation-proposal'', cc_action_digest = replicate 64 CHR ''a'',
     cc_decision = ''allow'', cc_risk = ''low'', cc_filesystem = [f], cc_network = [], cc_tools = [],
     cc_process = plain_process, cc_privilege = plain_privilege, cc_credentials = [],
     cc_unknowns = [], cc_source = delegation_source, cc_id = ''rc:'' @ replicate 64 CHR ''a''\<rparr>"

lemmas example_defs = plain_boundary_def plain_authority_def wide_read_def sample_read_def
  plain_process_def plain_privilege_def delegation_source_def

lemmas example_eval = freeze.simps capability_json_defs max_runtime_depth_def max_runtime_text_def
  cp_def list_ex_iff

lemma env_digests [simp]:
  "digest digest_env j = replicate 64 CHR ''a''" "as_hash digest_env domain j = replicate 64 CHR ''a''"
  by (simp_all add: digest_def as_hash_def digest_env_def)

lemma boundary_made:
  assumes "(name, f) \<in> {(''wide'', wide_read), (''narrow'', sample_read)}"
  shows "make_boundary digest_env (plain_boundary name f) = Inr (plain_boundary name f)"
proof -
  have "freeze 0 max_runtime_depth 128 (boundary_json (plain_boundary name f)) = Inr (boundary_json (plain_boundary name f))"
    using assms by (auto simp: example_eval boundary_json_def example_defs)
  moreover have "text_bound digest_env (boundary_json (plain_boundary name f)) \<le> 524288"
    using assms by (auto simp: capability_json_defs boundary_json_def example_defs)
  moreover have "conforms boundary_shape (boundary_json (plain_boundary name f))"
    using assms by (auto simp: capability_json_defs boundary_json_def example_defs shape_defs pattern_defs
        cp_def ascii_alnum_def)
  ultimately have "validate_shape digest_env 128 n boundary_shape (boundary_json (plain_boundary name f)) = Inr ()"
    for n by (rule validate_shape_small)
  then show ?thesis by (simp add: make_boundary_def plain_boundary_def model_tuple_def max_runtime_items_def)
qed

lemma proposal_made:
  assumes "f \<in> {wide_read, sample_read}"
  shows "make_contract digest_env ((proposal f)\<lparr>cc_id := []\<rparr>) = Inr (proposal f)"
proof -
  have same: "(proposal f)\<lparr>cc_id := []\<rparr>\<lparr>cc_id := ''rc:'' @ replicate 64 CHR ''a''\<rparr> = proposal f"
    by (simp add: proposal_def)
  have "freeze 0 max_runtime_depth 128 (contract_json (proposal f)) = Inr (contract_json (proposal f))"
    using assms by (auto simp: example_eval proposal_def example_defs)
  moreover have "text_bound digest_env (contract_json (proposal f)) \<le> 524288"
    using assms by (auto simp: capability_json_defs proposal_def example_defs)
  moreover have "conforms capability_shape (contract_json (proposal f))"
    using assms by (auto simp: capability_json_defs proposal_def example_defs shape_defs pattern_defs
        list_all_iff startswith_def cp_def)
  ultimately have valid: "validate_shape digest_env 128 n capability_shape (contract_json (proposal f)) = Inr ()"
    for n by (rule validate_shape_small)
  have source: "freeze 0 max_runtime_depth 128 (JObj (cc_source ((proposal f)\<lparr>cc_id := []\<rparr>))) =
      Inr (JObj (cc_source (proposal f)))"
    by (simp add: example_eval proposal_def delegation_source_def)
  show ?thesis
    unfolding make_contract_def Let_def source env_digests same valid
    by (simp add: proposal_def model_tuple_def max_runtime_items_def)
qed

lemma requirements_made:
  assumes "(name, f) \<in> {(''wide'', wide_read), (''narrow'', sample_read)}"
  shows "requirements digest_env (plain_authority name f) = Inr (proposal f)"
proof -
  have "f \<in> {wide_read, sample_read}" using assms by auto
  from proposal_made [OF this] show ?thesis
    by (simp add: requirements_def Let_def authority_digest_def plain_authority_def plain_boundary_def proposal_def)
qed

text \<open>A contract within a boundary, checked through the assurance rules.\<close>

definition within_result :: "host_env \<Rightarrow> capability_contract \<Rightarrow> capability_boundary \<Rightarrow> verification_result" where
  "within_result h c b = \<lparr>vr_result = ''within_boundary'', vr_reason = ''runtime_boundary_within'',
     vr_contract = contract_digest h c, vr_boundary = boundary_digest h b,
     vr_coverage = map (\<lambda>d. (d, True)) boundary_domains, vr_counterexample = None, vr_unsupported = []\<rparr>"

lemma within_result_ok [simp]: "verified_ok (within_result h c b)"
  by (simp add: verified_ok_def within_result_def)

lemma assured_without_network:
  assumes "boundary_findings so c b = []" "cc_network c = []"
  shows "verify_assurance_capability h so c b = Inr (within_result h c b)"
proof -
  have "verify_runtime_capability h so c b = Inr (within_result h c b)"
    unfolding verify_runtime_capability_def Let_def
    by (simp add: assms(1) text_tuple_def max_runtime_items_def freeze.simps max_runtime_depth_def
        sorted_set_def within_result_def)
  then show ?thesis by (simp add: verify_assurance_capability_def assms(2))
qed

lemma findings_none:
  "boundary_findings id (proposal wide_read) (plain_boundary ''wide'' wide_read) = []"
  "boundary_findings id (proposal sample_read) (plain_boundary ''wide'' wide_read) = []"
  "boundary_findings id sample_contract (plain_boundary ''narrow'' sample_read) = []"
  by code_simp+

definition contained :: delegation_verification where
  "contained = \<lparr>dv_result = ''within_boundary'', dv_reasons = [], dv_child = replicate 64 CHR ''a'',
     dv_parent = replicate 64 CHR ''a'', dv_operator = replicate 64 CHR ''a'', dv_task = replicate 64 CHR ''a'',
     dv_coverage = map (\<lambda>d. (d, True)) delegation_domains, dv_gaps = []\<rparr>"

lemma contained_made: "make_delegation_verification digest_env contained = Inr contained"
proof -
  have "as_frozen (delegation_verification_json contained) = Inr ()"
    by (simp add: as_frozen_def as_freeze.simps as_budget_def as_max_depth_def as_max_items_def
        delegation_verification_json_def contained_def strings_json_def delegation_domains_def boundary_domains_def
        unsafe_text_def cp_def list_ex_iff Let_def)
  moreover have "text_bound digest_env (delegation_verification_json contained) \<le> 524288"
    by (simp add: delegation_verification_json_def contained_def strings_json_def delegation_domains_def boundary_domains_def)
  moreover have "conforms delegation_verification_shape (delegation_verification_json contained)"
    by (simp add: delegation_verification_json_def contained_def strings_json_def delegation_domains_def
        boundary_domains_def delegation_verification_shape_def artifact_def as_obj_def shape_defs pattern_defs
        verification_states_def list_all_iff cp_def)
  ultimately have "as_validate digest_env n delegation_verification_shape (delegation_verification_json contained) = Inr ()"
    for n by (rule as_validate_small)
  then show ?thesis
    by (simp add: make_delegation_verification_def contained_def delegation_domains_def boundary_domains_def)
qed

lemma subset_contained:
  assumes "(name, f) \<in> {(''wide'', wide_read), (''narrow'', sample_read)}"
  shows "verify_delegation_subset digest_env id (plain_authority name f) wide wide wide = Inr contained"
proof -
  let ?c = "proposal f"
  have req: "requirements digest_env (plain_authority name f) = Inr ?c" by (rule requirements_made [OF assms])
  have ext: "extended_boundary digest_env wide (cc_network ?c) = Inr (plain_boundary ''wide'' wide_read)"
    using boundary_made [of "''wide''" wide_read]
    by (simp add: extended_boundary_def granted_networks_def proposal_def wide_def plain_authority_def plain_boundary_def)
  have check: "maximum_check digest_env id (plain_authority name f) ?c wide =
      Inr (within_result digest_env ?c (plain_boundary ''wide'' wide_read))"
    unfolding maximum_check_def ext
    using assms findings_none assured_without_network [of id ?c "plain_boundary ''wide'' wide_read"]
    by (auto simp: plain_authority_def proposal_def)
  have step: "maximum_step digest_env id (plain_authority name f) (Some ?c) (n, wide) s =
      Inr (scan_add [''within_boundary''] [] [] s)" for n s
    by (simp add: maximum_step_def Let_def check)
      (simp add: plain_authority_def wide_def within_result_def verified_ok_def boundary_domains_def)
  have limits: "own_limits (plain_authority name f) s = s" for s
    by (simp add: own_limits_def Let_def plain_authority_def plain_boundary_def)
  show ?thesis
    unfolding verify_delegation_subset_def req sum.case prod.case Let_def limits
    using contained_made
    by (simp add: step plain_authority_def [of name f, THEN arg_cong [where f = da_rest], simplified])
      (simp add: scan_add_def subset_result_def overall_state_def distinct_first_def contained_def
        authority_digest_def list_ex_iff Let_def)
qed

text \<open>A file below the directory: the child's authority is within the maxima.\<close>

theorem delegation_attenuates_witness: "authority_within narrow wide"
proof (rule delegation_attenuates [of id digest_env narrow wide wide wide contained wide])
  show "verify_delegation_subset digest_env id narrow wide wide wide = Inr contained"
    unfolding narrow_def by (rule subset_contained) simp
qed (simp_all add: delegation_ok_def contained_def)

end
