(* ===== verification/Issuer_Run.thy ===== *)
theory Issuer_Run
  imports Issuer_Example
begin

text \<open>
  A run of the delegation issuer on concrete data, evaluated through the definitions: the root and
  child grants of \<open>Issuer_Example\<close> issued, an operation reserved and committed under the child
  grant, and the root revoked. Each property of \<open>Issuer_Safety\<close> is applied to it.
\<close>

section \<open>A run\<close>

definition example_source :: evidence_source where
  "example_source = \<lparr>es_principal = ''agent'', es_repository = \<lparr>rp_id = ''repo'', rp_revision = ''v1''\<rparr>,
     es_session = replicate 64 CHR ''a'', es_epoch = 1, es_policy = replicate 64 CHR ''b'',
     es_selection = replicate 64 CHR ''c''\<rparr>"

definition example_child :: evidence_source where
  "example_child = example_source\<lparr>es_principal := ''helper''\<rparr>"

definition example_profile :: approved_profile where
  "example_profile = \<lparr>ap_repository = \<lparr>rp_id = ''repo'', rp_revision = ''v1''\<rparr>,
     ap_digest = replicate 64 CHR ''d'', ap_operator = ''operator'', ap_selection = replicate 64 CHR ''c'',
     ap_policy = Some (replicate 64 CHR ''b'')\<rparr>"

definition example_issuer :: issuer where
  "example_issuer = \<lparr>is_source = example_source, is_profile = example_profile, is_operator = wide,
     is_task = wide, is_limits = default_limits,
     is_configuration = \<lparr>ic_source = replicate 64 CHR ''a'', ic_profile = replicate 64 CHR ''d'',
       ic_operator = replicate 64 CHR ''a'', ic_task = replicate 64 CHR ''a'', ic_limits = default_limits\<rparr>,
     is_key = replicate 64 CHR ''a'', is_last = - 1, is_issued = [], is_revoked = [], is_used = [],
     is_pending = [], is_generation = 0, is_objects = 0\<rparr>"

definition example_grant :: "string \<Rightarrow> string \<Rightarrow> string \<Rightarrow> int \<Rightarrow> string option \<Rightarrow> int \<Rightarrow> delegation_grant" where
  "example_grant i parent child now pid depth = \<lparr>dg_id = i, dg_parent_principal = parent, dg_child_principal = child,
     dg_issuer = ''operator'', dg_channel = ''protected-host:'' @ replicate 24 CHR ''a'',
     dg_session = replicate 64 CHR ''a'', dg_epoch = 1, dg_issued_at = now, dg_expires_at = 100,
     dg_policy = replicate 64 CHR ''b'', dg_profile = replicate 64 CHR ''d'',
     dg_contract = replicate 64 CHR ''a'', dg_parent = pid, dg_revoked_at = None,
     dg_refs = [replicate 64 CHR ''a''], dg_max_depth = 3, dg_depth = depth, dg_status = ''issued''\<rparr>"

definition root_handle :: issued_delegation where
  "root_handle = \<lparr>hd_object = 0, hd_record = example_grant ''root'' ''operator'' ''agent'' 10 None 0,
     hd_authority = wide, hd_source = replicate 64 CHR ''a'', hd_issuer = replicate 64 CHR ''a''\<rparr>"

definition child_handle :: issued_delegation where
  "child_handle = \<lparr>hd_object = 1, hd_record = example_grant ''child'' ''agent'' ''helper'' 11 (Some ''root'') 1,
     hd_authority = narrow, hd_source = replicate 64 CHR ''a'', hd_issuer = replicate 64 CHR ''a''\<rparr>"

definition after_root :: issuer where
  "after_root = example_issuer\<lparr>is_last := 10, is_issued := [(''root'', root_handle)],
     is_used := [(''root'', 0)], is_objects := 1\<rparr>"

definition after_child :: issuer where
  "after_child = after_root\<lparr>is_last := 11, is_issued := [(''root'', root_handle), (''child'', child_handle)],
     is_used := [(''root'', 0), (''child'', 0)], is_objects := 2\<rparr>"

definition example_pending :: pending_operation where
  "example_pending = \<lparr>po_grant = ''child'', po_action = ''act'', po_contract = replicate 64 CHR ''a'', po_generation = 0\<rparr>"

definition after_reserve :: issuer where
  "after_reserve = after_child\<lparr>is_last := 12, is_pending := [(''t'', example_pending)]\<rparr>"

definition after_commit :: issuer where
  "after_commit = after_child\<lparr>is_last := 13, is_used := [(''root'', 0), (''child'', 1)]\<rparr>"

definition after_revoke :: issuer where
  "after_revoke = after_commit\<lparr>is_last := 14, is_revoked := [(''child'', 14), (''root'', 14)], is_generation := 1\<rparr>"

lemmas state_defs = after_root_def after_child_def after_reserve_def after_commit_def after_revoke_def
  example_issuer_def default_limits_def

lemmas as_eval = as_frozen_def as_freeze.simps as_budget_def as_max_depth_def as_max_items_def
  unsafe_text_def cp_def list_ex_iff Let_def

text \<open>Evaluation from the left: the continuation waits for the value it gets.\<close>

lemma res_bind_weak: "m = m' \<Longrightarrow> res_bind m f = res_bind m' f"
  by simp

lemma conforms_as_obj:
  assumes "distinct (map fst p)" "fst ` set p = fst ` set ps" "distinct (map fst ps)"
    "\<forall>q \<in> set ps. conforms (snd q) (jget p (fst q))"
  shows "conforms (as_obj ps) (JObj p)"
proof -
  have "conforms (snd q) (snd m)" if "m \<in> set p" "q \<in> set ps" "fst q = fst m" for m q
  proof -
    have "map_of p (fst m) = Some (snd m)" using assms(1) that(1) by simp
    with assms(4) that(2,3) show ?thesis by (auto simp: jget_def)
  qed
  moreover have "length p = length ps"
    using assms(1-3) by (metis distinct_card length_map set_map)
  ultimately show ?thesis using assms(2)
    by (auto simp: as_obj_def type_matches_def property_names_def)
qed

lemma id_order: "walk_order id"
  by (simp add: walk_order_def)

lemma example_start:
  "start_issuer digest_env example_source example_profile wide wide None ''seed'' = Inr example_issuer"
  by (simp add: start_issuer_def check_profile_def example_source_def example_profile_def ensure_def
      source_key_def authority_digest_def as_digest_def as_eval example_issuer_def)

lemma example_ref:
  assumes "i \<in> {''root'', ''child''}"
  shows "as_validate digest_env n authority_ref_shape (JObj [(''authority_id'', JStr i),
     (''boundary_digest'', JStr (replicate 64 CHR ''a''))]) = Inr ()"
  by (rule as_validate_small)
    (use assms in \<open>auto simp: as_eval authority_ref_shape_def as_obj_def as_id_def as_id_text_def shape_defs
      pattern_defs ascii_alnum_def list_all_iff\<close>)

lemma example_grants_made:
  assumes "g \<in> {hd_record root_handle, hd_record child_handle}"
  shows "make_grant digest_env g = Inr g"
proof -
  have frozen: "as_frozen (delegation_grant_json g) = Inr ()"
    using assms by (elim insertE emptyE; simp add: as_eval delegation_grant_json_def root_handle_def child_handle_def
        example_grant_def option_json_def int_json_def strings_json_def cong: res_bind_weak)
  have small: "text_bound digest_env (delegation_grant_json g) \<le> 524288"
    using assms by (elim insertE emptyE; simp add: delegation_grant_json_def root_handle_def child_handle_def
        example_grant_def option_json_def int_json_def strings_json_def int_text_def) (simp_all add: decimal.simps)
  have shape: "conforms delegation_shape (delegation_grant_json g)"
    unfolding delegation_shape_def artifact_def delegation_grant_json_def
  proof (rule conforms_as_obj, goal_cases)
    case 4
    show ?case
      using assms by (elim insertE emptyE; simp add: root_handle_def child_handle_def example_grant_def
        option_json_def int_json_def strings_json_def as_id_def as_id_text_def as_count_def as_timestamp_def
        as_nullable_def as_depth_def shape_defs pattern_defs ascii_alnum_def list_all_iff cp_def jget_def)
  qed (simp_all, auto)
  have "as_validate digest_env n delegation_shape (delegation_grant_json g) = Inr ()" for n
    by (rule as_validate_small [OF frozen small shape])
  then show ?thesis using assms
    by (auto simp: make_grant_def root_handle_def child_handle_def example_grant_def)
qed

lemma example_issued_digest:
  assumes "d \<in> {root_handle, child_handle}"
  shows "as_digest digest_env ''issued_delegation'' (issued_json digest_env d) = Inr (replicate 64 CHR ''a'')"
  using assms by (elim insertE emptyE; simp add: as_digest_def as_eval issued_json_def delegation_grant_json_def root_handle_def
      child_handle_def example_grant_def option_json_def int_json_def strings_json_def authority_digest_def cong: res_bind_weak)

lemma example_root_prepared:
  "prepare_issue digest_env id 10 \<lparr>ir_id = ''root'', ir_parent = None, ir_source = example_source,
     ir_authority = wide, ir_expires = 100, ir_depth = 3\<rparr> (example_issuer\<lparr>is_last := 10\<rparr>) = Inr root_handle"
  using example_ref [of "''root''"] example_grants_made [of "hd_record root_handle"]
    example_issued_digest [of root_handle] subset_contained [of "''wide''" wide_read]
  by (simp add: prepare_issue_def Let_def require_configuration_def current_configuration_def example_issuer_def
      source_key_def authority_digest_def issued_of_def default_limits_def check_profile_def example_source_def
      example_profile_def ensure_def check_parent_def wide_def [symmetric] delegation_ok_def contained_def
      issued_grant_def root_handle_def example_grant_def)

lemma example_root:
  "authorize_root digest_env id (HInt 10) wide ''root'' 100 3 example_issuer = (after_root, Inr root_handle)"
proof -
  have now: "issuer_now (HInt 10) example_issuer = (example_issuer\<lparr>is_last := 10\<rparr>, Inr 10)"
    by (simp add: issuer_now_def op_bind_def op_defs example_issuer_def)
  have store: "store_grant root_handle (example_issuer\<lparr>is_last := 10\<rparr>) = after_root"
    by (simp add: store_grant_def state_defs root_handle_def example_grant_def)
  have source: "is_source (example_issuer\<lparr>is_last := 10\<rparr>) = example_source" by (simp add: example_issuer_def)
  show ?thesis
    unfolding authorize_root_def issue_grant_def
    by (simp add: op_bind_def op_defs now source example_root_prepared store)
qed

lemma run_fields:
  "is_source after_root = example_source" "is_profile after_root = example_profile" "is_operator after_root = wide"
    "is_task after_root = wide" "is_limits after_root = default_limits" "is_key after_root = replicate 64 CHR ''a''"
    "is_configuration after_root = is_configuration example_issuer" "is_revoked after_root = []" "is_generation after_root = 0"
    "is_issued after_root = [(''root'', root_handle)]"
  "is_source after_child = example_source" "is_profile after_child = example_profile" "is_operator after_child = wide"
    "is_task after_child = wide" "is_limits after_child = default_limits" "is_key after_child = replicate 64 CHR ''a''"
    "is_configuration after_child = is_configuration example_issuer" "is_revoked after_child = []" "is_generation after_child = 0"
    "is_issued after_child = [(''root'', root_handle), (''child'', child_handle)]"
  "is_source after_reserve = example_source" "is_profile after_reserve = example_profile" "is_operator after_reserve = wide"
    "is_task after_reserve = wide" "is_limits after_reserve = default_limits" "is_key after_reserve = replicate 64 CHR ''a''"
    "is_configuration after_reserve = is_configuration example_issuer" "is_revoked after_reserve = []" "is_generation after_reserve = 0"
    "is_issued after_reserve = [(''root'', root_handle), (''child'', child_handle)]"
  "is_source after_commit = example_source" "is_profile after_commit = example_profile" "is_operator after_commit = wide"
    "is_task after_commit = wide" "is_limits after_commit = default_limits" "is_key after_commit = replicate 64 CHR ''a''"
    "is_configuration after_commit = is_configuration example_issuer" "is_revoked after_commit = []" "is_generation after_commit = 0"
    "is_issued after_commit = [(''root'', root_handle), (''child'', child_handle)]"
  by (simp_all add: state_defs)

lemma run_configuration:
  assumes "is_source s = example_source" "is_profile s = example_profile" "is_operator s = wide" "is_task s = wide"
    "is_limits s = default_limits" "is_configuration s = is_configuration example_issuer"
  shows "require_configuration digest_env s = Inr ()"
  using assms by (simp add: require_configuration_def ensure_def current_configuration_def source_key_def
      authority_digest_def example_issuer_def example_profile_def)

lemmas handle_defs = root_handle_def child_handle_def example_grant_def
lemmas source_defs = example_source_def example_child_def example_profile_def

lemma root_current:
  "check_current digest_env root_handle example_source 11 (after_root\<lparr>is_last := 11\<rparr>) = Inr ()"
  by (simp add: check_current_def run_configuration run_fields ensure_def issued_of_def source_key_def default_limits_def)
    (simp add: handle_defs source_defs stale_def revoked_def run_fields numeral_eq_Suc)

lemma example_child_prepared:
  "prepare_issue digest_env id 11 \<lparr>ir_id = ''child'', ir_parent = Some root_handle, ir_source = example_child,
     ir_authority = narrow, ir_expires = 100, ir_depth = 3\<rparr> (after_root\<lparr>is_last := 11\<rparr>) = Inr child_handle"
    (is "prepare_issue _ _ _ ?r ?s = _")
proof -
  have walk: "walk_lineage ?s ''helper'' 17 root_handle = Inr ()"
    by (simp add: numeral_eq_Suc in_lineage_def handle_defs)
  have none: "live_children ?s 11 ''root'' = 0"
    by (simp add: live_children_def run_fields handle_defs)
  have parent: "check_parent ?s 11 ?r = Inr 1"
    using walk none by (simp add: check_parent_def Let_def ensure_def run_fields default_limits_def)
      (simp add: source_defs handle_defs)
  have verified: "verify_delegation_subset digest_env id narrow wide wide wide = Inr contained"
    unfolding narrow_def by (rule subset_contained) simp
  have authority: "hd_authority root_handle = wide" by (simp add: root_handle_def)
  have grant: "issued_grant digest_env ?s 11 1 ?r = hd_record child_handle"
    by (simp add: issued_grant_def run_fields authority_digest_def) (simp add: source_defs handle_defs)
  have handle: "\<lparr>hd_object = Suc 0, hd_record = hd_record child_handle, hd_authority = narrow,
      hd_source = replicate 64 CHR ''a'', hd_issuer = replicate 64 CHR ''a''\<rparr> = child_handle"
    by (simp add: child_handle_def)
  have apart: "issued_of ?s ''child'' = None" "\<not> in_lineage ''helper'' root_handle" "is_objects ?s = Suc 0"
      "principal root_handle = ''agent''" "es_principal example_child = ''helper''"
      "es_repository example_child = es_repository example_source"
      "check_profile example_child example_profile = Inr ()"
    by (simp_all add: issued_of_def run_fields in_lineage_def handle_defs state_defs source_defs check_profile_def ensure_def)
  have ref: "as_validate digest_env n authority_ref_shape (JObj [(''authority_id'', JStr ''child''),
     (''boundary_digest'', JStr (replicate 64 CHR ''a''))]) = Inr ()" for n by (rule example_ref) simp
  have made: "make_grant digest_env (hd_record child_handle) = Inr (hd_record child_handle)"
    by (rule example_grants_made) simp
  have digested: "as_digest digest_env ''issued_delegation'' (issued_json digest_env child_handle) =
      Inr (replicate 64 CHR ''a'')" by (rule example_issued_digest) simp
  have ok: "delegation_ok contained" by (simp add: delegation_ok_def contained_def)
  show ?thesis
    by (simp add: prepare_issue_def Let_def run_configuration run_fields apart parent verified authority grant handle
        ref made digested ok ensure_def authority_digest_def source_key_def default_limits_def)
qed

lemma example_child_issued:
  "issue_child digest_env id (HInt 11) root_handle example_child narrow ''child'' 100 None after_root =
     (after_child, Inr child_handle)"
proof -
  have now: "issuer_now (HInt 11) after_root = (after_root\<lparr>is_last := 11\<rparr>, Inr 11)"
    by (simp add: issuer_now_def op_bind_def op_defs state_defs)
  have store: "store_grant child_handle (after_root\<lparr>is_last := 11\<rparr>) = after_child"
    by (simp add: store_grant_def state_defs child_handle_def example_grant_def)
  have parts: "is_source (after_root\<lparr>is_last := 11\<rparr>) = example_source" "parent_id root_handle = None"
    "dg_max_depth (hd_record root_handle) = 3"
    by (simp_all add: state_defs root_handle_def example_grant_def)
  show ?thesis
    unfolding issue_child_def issue_grant_def
    by (simp add: op_bind_def op_defs now parts root_current example_child_prepared store)
qed

lemma child_current:
  assumes "(s, now) \<in> {(after_child\<lparr>is_last := 12\<rparr>, 12), (after_reserve\<lparr>is_last := 13\<rparr>, 13)}"
  shows "check_current digest_env child_handle example_child now s = Inr ()"
proof -
  have fields: "is_source s = example_source" "is_profile s = example_profile" "is_operator s = wide" "is_task s = wide"
    "is_limits s = default_limits" "is_configuration s = is_configuration example_issuer" "is_revoked s = []"
    "is_key s = replicate 64 CHR ''a''" "is_issued s = [(''root'', root_handle), (''child'', child_handle)]"
    "11 \<le> now" "now < 100"
    using assms by (auto simp: run_fields)
  show ?thesis
    by (simp add: check_current_def run_configuration fields ensure_def issued_of_def source_key_def default_limits_def)
      (use fields in \<open>simp add: handle_defs source_defs stale_def revoked_def issued_of_def numeral_eq_Suc\<close>)
qed

lemma example_authority:
  "capability_authority digest_env id sample_contract narrow =
     Inr (within_result digest_env sample_contract (plain_boundary ''narrow'' sample_read))"
proof -
  have net: "cc_network sample_contract = []" by (simp add: sample_contract_def)
  have "extended_boundary digest_env narrow [] = Inr (plain_boundary ''narrow'' sample_read)"
    using boundary_made [of "''narrow''" sample_read]
    by (simp add: extended_boundary_def granted_networks_def narrow_def plain_authority_def plain_boundary_def)
  with assured_without_network [OF findings_none(3) net] show ?thesis
    by (simp add: capability_authority_def net)
qed

lemma example_reserved:
  "reserve_operation digest_env id (HInt 12) ''t'' child_handle example_child ''act'' (PlainContract sample_contract)
     after_child = (after_reserve, Inr ''t'')"
proof -
  have now: "issuer_now (HInt 12) after_child = (after_child\<lparr>is_last := 12\<rparr>, Inr 12)"
    by (simp add: issuer_now_def op_bind_def op_defs state_defs)
  have current: "check_current digest_env child_handle example_child 12 (after_child\<lparr>is_last := 12\<rparr>) = Inr ()"
    by (rule child_current) simp
  have authority: "hd_authority child_handle = narrow" by (simp add: child_handle_def)
  show ?thesis
    unfolding reserve_operation_def preview_operation_def require_current_grant_def
    by (simp add: op_bind_def op_defs now current authority example_authority ensure_def Let_def)
      (simp add: state_defs child_handle_def example_grant_def active_operations_def used_of_def example_pending_def
        contract_digest_def within_result_def)
qed

lemma example_committed:
  "commit_operation digest_env (HInt 13) child_handle example_child ''t'' ''act'' (replicate 64 CHR ''a'') True
     after_reserve = (after_commit, Inr True)"
proof -
  have now: "issuer_now (HInt 13) after_reserve = (after_reserve\<lparr>is_last := 13\<rparr>, Inr 13)"
    by (simp add: issuer_now_def op_bind_def op_defs state_defs)
  have current: "check_current digest_env child_handle example_child 13 (after_reserve\<lparr>is_last := 13\<rparr>) = Inr ()"
    by (rule child_current) simp
  have "require_current_grant digest_env (HInt 13) child_handle example_child after_reserve =
      (after_reserve\<lparr>is_last := 13\<rparr>, Inr ())"
    by (simp add: require_current_grant_def op_bind_def op_defs now current)
  then show ?thesis
    by (simp add: commit_operation_def Let_def)
      (simp add: state_defs drop_ticket_def used_of_def child_handle_def example_grant_def example_pending_def)
qed

lemma example_revoked:
  "revoke (HInt 14) root_handle after_commit = (after_revoke, Inr [''child'', ''root''])"
proof -
  have now: "issuer_now (HInt 14) after_commit = (after_commit\<lparr>is_last := 14\<rparr>, Inr 14)"
    by (simp add: issuer_now_def op_bind_def op_defs state_defs)
  have issued: "issued_of after_commit ''root'' = Some root_handle" "grant_id root_handle = ''root''"
    by (simp_all add: state_defs issued_of_def root_handle_def example_grant_def)
  have affected: "affected_by (after_commit\<lparr>is_last := 14\<rparr>) ''root'' = [''child'', ''root'']"
    by (simp add: affected_by_def revoke_pass_def state_defs root_handle_def child_handle_def example_grant_def Let_def)
  show ?thesis
    unfolding revoke_def
    by (simp add: op_bind_def op_defs issued ensure_def now affected mark_revoked_def)
      (simp add: state_defs)
qed

section \<open>The properties on the run\<close>

definition setup_calls :: "issuer_call list" where
  "setup_calls = [AuthorizeRoot (HInt 10) wide ''root'' 100 3,
     IssueChild (HInt 11) root_handle example_child narrow ''child'' 100 None]"

definition reserve_call :: issuer_call where
  "reserve_call = Reserve (HInt 12) ''t'' child_handle example_child ''act'' (PlainContract sample_contract)"

definition commit_call :: issuer_call where
  "commit_call = Commit (HInt 13) child_handle example_child ''t'' ''act'' (replicate 64 CHR ''a'') True"

lemma setup_run: "after_child = issuer_run digest_env id example_issuer setup_calls"
  by (simp add: issuer_run_def setup_calls_def state_after_def example_root example_child_issued)

lemma reserve_run: "after_reserve = issuer_run digest_env id example_issuer (setup_calls @ [reserve_call])"
  using setup_run by (simp add: issuer_run_def reserve_call_def state_after_def example_reserved)

lemma revoke_run:
  "after_revoke = issuer_run digest_env id example_issuer
     (setup_calls @ [reserve_call, commit_call, Revoke (HInt 14) root_handle])"
  using setup_run
  by (simp add: issuer_run_def reserve_call_def commit_call_def state_after_def example_reserved example_committed
      example_revoked)

lemma run_kinship:
  "grant_id root_handle = ''root''" "grant_id child_handle = ''child''" "parent_id child_handle = Some ''root''"
  "issued_of after_reserve ''root'' = Some root_handle" "issued_of after_reserve ''child'' = Some child_handle"
  "issued_of after_revoke ''root'' = Some root_handle" "issued_of after_commit ''root'' = Some root_handle"
  by (simp_all add: handle_defs issued_of_def state_defs)

theorem grants_attenuate_witness:
  "authority_within (hd_authority child_handle) (hd_authority root_handle) \<and> 
   dg_depth (hd_record child_handle) \<le> dg_max_depth (hd_record root_handle) \<and> dg_depth (hd_record child_handle) \<le> 16"
proof -
  have "descends after_reserve child_handle root_handle"
    using descends.parent [OF descends.self] by (simp add: run_kinship)
  from grants_attenuate [OF id_order example_start reserve_run _ this] show ?thesis by (simp add: run_kinship)
qed

theorem revoked_never_current_witness:
  "snd (require_current_grant digest_env (HInt 15) child_handle example_child after_revoke) \<noteq> Inr ()"
proof (rule revoked_never_current [OF id_order example_start revoke_run])
  show "revoked after_revoke (grant_id root_handle)" by (simp add: run_kinship revoked_def state_defs)
  show "descends after_revoke child_handle root_handle"
    using descends.parent [OF descends.self] by (simp add: run_kinship)
  show "after_revoke = issuer_run digest_env id after_revoke []" by (simp add: issuer_run_def)
qed

theorem revoke_affects_descendants_witness:
  "{''child'', ''root''} = {i. (kin after_commit)\<^sup>*\<^sup>* ''root'' i} \<and> is_pending after_revoke = []"
  using revoke_affects_descendants [OF example_revoked] by (simp add: run_kinship)

theorem commit_is_authorized_witness:
  "(\<exists>k. operation_digest digest_env k = replicate 64 CHR ''a'' \<and> operation_within k wide) \<and>
   used_of after_commit ''child'' = Suc (used_of after_reserve ''child'')"
  using commit_is_authorized [OF id_order example_start reserve_run example_committed]
  by (auto simp: run_kinship run_fields)

theorem reservation_commits_witness:
  "snd (commit_operation digest_env (HInt 12) child_handle example_child ''t'' ''act''
     (operation_digest digest_env (PlainContract sample_contract)) True after_reserve) = Inr True"
  by (rule reservation_commits [OF example_reserved])

theorem issuer_quotas_witness:
  "used_of after_reserve ''child'' + active_operations after_reserve ''child'' \<le> dl_actions default_limits"
  using issuer_quotas [OF id_order example_start reserve_run, of "''child''"] by (simp add: run_fields)

theorem lineage_walk_ends_witness:
  "walk_lineage after_reserve ''agent'' 17 child_handle = Inl (ValueError ''self-delegation or principal cycle'')"
proof -
  have "descends after_reserve child_handle child_handle \<and> in_lineage ''agent'' child_handle"
    by (simp add: descends.self in_lineage_def handle_defs)
  with lineage_walk_ends [OF id_order example_start reserve_run, of child_handle "''agent''"] show ?thesis
    by (metis run_kinship(2,5))
qed

end
