(* ===== verification/Commitment.thy ===== *)
theory Commitment
  imports Runtime_Json "HOL-Library.Countable"
begin

text \<open>
  \<^verbatim>\<open>ordin/_request_commitment.py\<close>: commitments to JSON request bodies. A tree is written as typed,
  length-framed bytes under limits on depth, nodes, items, text and total size, and the bytes are
  hashed. RPC messages are projected first, so that correlation identifiers do not count.

  \<^verbatim>\<open>commitment_json\<close> parses raw bytes with a JSON parser of the library and is not modelled; a value
  here is a parsed tree. A float is committed by the decimal its \<^verbatim>\<open>repr\<close> (a parameter) spells. That
  the committed decimal determines the float is proved here, from what the documentation says of \<^verbatim>\<open>repr\<close>.
\<close>

section \<open>Limits\<close>

definition max_commitment_bytes :: nat where "max_commitment_bytes = 1048576"
definition max_commitment_nodes :: nat where "max_commitment_nodes = 4096"
definition max_commitment_depth :: nat where "max_commitment_depth = 32"
definition max_commitment_items :: nat where "max_commitment_items = 128"
definition max_commitment_text_bytes :: nat where "max_commitment_text_bytes = 65536"
definition max_number_digits :: nat where "max_number_digits = 1024"
definition max_number_exponent :: int where "max_number_exponent = 10000"

abbreviation commitment_invalid :: py_error where
  "commitment_invalid \<equiv> ValueError ''request_commitment_invalid''"

section \<open>Numbers\<close>

text \<open>
  \<^verbatim>\<open>Decimal(repr(x)).as_tuple()\<close> for the text of a finite float: a sign, digits without leading
  zeros and an exponent.
\<close>

definition digits_value :: "string \<Rightarrow> int" where
  "digits_value s = foldl (\<lambda>n c. 10 * n + (int (cp c) - 48)) 0 s"

definition exponent_value :: "string \<Rightarrow> int" where
  "exponent_value s = (case s of [] \<Rightarrow> 0
     | c # cs \<Rightarrow> if c = CHR ''-'' then - digits_value cs
         else if c = CHR ''+'' then digits_value cs else digits_value s)"

definition strip_zeros :: "string \<Rightarrow> string" where
  "strip_zeros s = dropWhile (\<lambda>c. c = CHR ''0'') s"

definition or_zero :: "string \<Rightarrow> string" where
  "or_zero s = (if s = [] then ''0'' else s)"

definition float_parts :: "string \<Rightarrow> bool \<times> string \<times> int" where
  "float_parts s =
     (let negative = startswith s ''-'';
          body = (if negative then drop 1 s else s);
          mantissa = takeWhile (\<lambda>c. c \<noteq> CHR ''e'') body;
          exponent = drop 1 (dropWhile (\<lambda>c. c \<noteq> CHR ''e'') body);
          whole = takeWhile (\<lambda>c. c \<noteq> CHR ''.'') mantissa;
          fraction = drop 1 (dropWhile (\<lambda>c. c \<noteq> CHR ''.'') mantissa)
      in (negative, or_zero (strip_zeros (whole @ fraction)),
          exponent_value exponent - int (length fraction)))"

definition decimal_token :: "bool \<times> string \<times> int \<Rightarrow> string res" where
  "decimal_token t = (case t of (sign, digits, exponent) \<Rightarrow>
     if length digits > max_number_digits \<or> \<bar>exponent\<bar> > max_number_exponent then Inl commitment_invalid
     else
       (let coefficient = or_zero (strip_zeros digits);
            kept = rev (strip_zeros (rev coefficient));
            (coefficient', exponent') = (if coefficient = ''0'' then (coefficient, 0)
              else (kept, exponent + int (length coefficient - length kept)))
        in if \<bar>exponent'\<bar> > max_number_exponent then Inl commitment_invalid
           else Inr (''d'' @ (if sign then ''1'' else ''0'') @ '':'' @ coefficient' @ '':'' @
             int_text exponent' @ '';'')))"

definition float_token :: "host_env \<Rightarrow> py_float \<Rightarrow> string res" where
  "float_token h x = decimal_token (float_parts (float_repr h x))"

section \<open>The walk\<close>

text \<open>The state of the walk: nodes visited and bytes written.\<close>

type_synonym commit_state = "nat \<times> nat list"
type_synonym commit_op = "commit_state \<Rightarrow> commit_state res"

definition commit_node :: "nat \<Rightarrow> commit_op" where
  "commit_node depth s =
     (if Suc (fst s) > max_commitment_nodes \<or> depth > max_commitment_depth then Inl commitment_invalid
      else Inr (Suc (fst s), snd s))"

definition commit_write :: "nat list \<Rightarrow> commit_op" where
  "commit_write bytes s =
     (if length (snd s) + length bytes > max_commitment_bytes then Inl commitment_invalid
      else Inr (fst s, snd s @ bytes))"

fun commit_all :: "commit_op list \<Rightarrow> commit_op" where
  "commit_all [] s = Inr s"
| "commit_all (f # fs) s = res_bind (f s) (commit_all fs)"

definition commit_string :: "nat \<Rightarrow> string \<Rightarrow> commit_op" where
  "commit_string depth t s =
     res_bind (commit_node depth s) (\<lambda>s.
     if length (utf8 t) > max_commitment_text_bytes then Inl commitment_invalid
     else commit_write (utf8 (''s'' @ decimal (length (utf8 t)) @ '':'') @ utf8 t) s)"

fun commit_walk :: "host_env \<Rightarrow> nat \<Rightarrow> json \<Rightarrow> commit_op" where
  "commit_walk h depth JNull = (\<lambda>s. res_bind (commit_node depth s) (commit_write (utf8 ''n'')))"
| "commit_walk h depth (JBool b) = (\<lambda>s. res_bind (commit_node depth s)
     (commit_write (utf8 (if b then ''t'' else ''f''))))"
| "commit_walk h depth (JInt i) = (\<lambda>s. res_bind (commit_node depth s) (\<lambda>s.
     if \<bar>i\<bar> \<ge> 2 ^ 3402 then Inl commitment_invalid
     else if length (decimal (nat \<bar>i\<bar>)) > max_number_digits then Inl commitment_invalid
     else commit_write (utf8 (''i'' @ int_text i @ '';'')) s))"
| "commit_walk h depth (JFloat x) = (\<lambda>s. res_bind (commit_node depth s) (\<lambda>s.
     res_bind (float_token h x) (\<lambda>t. commit_write (utf8 t) s)))"
| "commit_walk h depth (JStr t) = commit_string depth t"
| "commit_walk h depth (JArr xs) = (\<lambda>s. res_bind (commit_node depth s) (\<lambda>s.
     if length xs > max_commitment_items then Inl commitment_invalid
     else res_bind (commit_write (utf8 (''l'' @ decimal (length xs) @ '':'')) s) (\<lambda>s.
       res_bind (commit_all (map (commit_walk h (Suc depth)) xs) s) (commit_write (utf8 '';'')))))"
| "commit_walk h depth (JObj p) = (\<lambda>s. res_bind (commit_node depth s) (\<lambda>s.
     if length p > max_commitment_items then Inl commitment_invalid
     else res_bind (commit_write (utf8 (''o'' @ decimal (length p) @ '':'')) s) (\<lambda>s.
       res_bind (commit_all (map (\<lambda>m s. res_bind (commit_string (Suc depth) (fst m) s) (snd m))
           (sorted_members (map (\<lambda>m. (fst m, commit_walk h (Suc depth) (snd m))) p))) s)
         (commit_write (utf8 '';'')))))"

definition request_commitment :: "host_env \<Rightarrow> json \<Rightarrow> string res" where
  "request_commitment h j = res_bind (commit_walk h 0 j (0, []))
     (\<lambda>s. Inr (sha256 h (utf8 ''ordin.authority-json.v1'' @ [0] @ snd s)))"

section \<open>RPC messages\<close>

definition rpc_projection :: "host_env \<Rightarrow> json \<Rightarrow> json res" where
  "rpc_projection h j = (case j of
     JObj p \<Rightarrow>
       if unknown_keys p [''jsonrpc'', ''id'', ''method'', ''params''] \<noteq> [] \<or>
          jget p ''jsonrpc'' \<noteq> JStr ''2.0'' \<or>
          (case jget p ''method'' of
             JStr m \<Rightarrow> m = [] \<or> length m > 128 \<or> list_ex (\<lambda>c. cp c \<le> 32 \<or> cp c = 127 \<or> c = CHR ''*'') m
           | _ \<Rightarrow> True) \<or>
          (case jget p ''id'' of JBool _ \<Rightarrow> True | JArr _ \<Rightarrow> True | JObj _ \<Rightarrow> True | _ \<Rightarrow> False) \<or>
          (case jget p ''params'' of JNull \<Rightarrow> False | JArr _ \<Rightarrow> False | JObj _ \<Rightarrow> False | _ \<Rightarrow> True)
       then Inl commitment_invalid
       else res_bind (request_commitment h j) (\<lambda>_.
         Inr (JObj ([(''kind'', JStr (if ''id'' \<in> fst ` set p then ''request'' else ''notification'')),
                (''method'', jget p ''method'')] @
              (if ''params'' \<in> fst ` set p then [(''params'', jget p ''params'')] else []))))
   | _ \<Rightarrow> Inl commitment_invalid)"

definition rpc_authority_commitment :: "host_env \<Rightarrow> json \<Rightarrow> string res" where
  "rpc_authority_commitment h j = res_bind (rpc_projection h j) (request_commitment h)"

definition rpc_body_projection :: "host_env \<Rightarrow> json \<Rightarrow> json res" where
  "rpc_body_projection h j = (case j of
     JArr xs \<Rightarrow>
       if xs = [] \<or> length xs > max_commitment_items then Inl commitment_invalid
       else res_bind (res_mapM (rpc_projection h) xs) (\<lambda>ys. Inr (JArr ys))
   | _ \<Rightarrow> rpc_projection h j)"

definition rpc_body_commitment :: "host_env \<Rightarrow> json \<Rightarrow> string res" where
  "rpc_body_commitment h j = res_bind (request_commitment h j) (\<lambda>_.
     res_bind (rpc_body_projection h j) (request_commitment h))"

section \<open>The bytes written\<close>

definition frame_bytes :: "char \<Rightarrow> nat \<Rightarrow> nat list" where
  "frame_bytes c n = utf8 ([c] @ decimal n @ '':'')"

definition string_bytes :: "string \<Rightarrow> nat list" where
  "string_bytes t = frame_bytes CHR ''s'' (length (utf8 t)) @ utf8 t"

fun commit_bytes :: "host_env \<Rightarrow> json \<Rightarrow> nat list" where
  "commit_bytes h JNull = utf8 ''n''"
| "commit_bytes h (JBool b) = utf8 (if b then ''t'' else ''f'')"
| "commit_bytes h (JInt i) = utf8 (''i'' @ int_text i @ '';'')"
| "commit_bytes h (JFloat x) = (case float_token h x of Inl _ \<Rightarrow> [] | Inr t \<Rightarrow> utf8 t)"
| "commit_bytes h (JStr t) = string_bytes t"
| "commit_bytes h (JArr xs) =
     frame_bytes CHR ''l'' (length xs) @ concat (map (commit_bytes h) xs) @ utf8 '';''"
| "commit_bytes h (JObj p) =
     frame_bytes CHR ''o'' (length p) @
     concat (map (\<lambda>m. string_bytes (fst m) @ snd m)
       (sorted_members (map (\<lambda>m. (fst m, commit_bytes h (snd m))) p))) @ utf8 '';''"

text \<open>Every float of a tree has a token.\<close>

fun floats_ok :: "host_env \<Rightarrow> json \<Rightarrow> bool" where
  "floats_ok h (JFloat x) = is_ok (float_token h x)"
| "floats_ok h (JArr xs) = (\<forall>x \<in> set xs. floats_ok h x)"
| "floats_ok h (JObj p) = (\<forall>m \<in> set p. floats_ok h (snd m))"
| "floats_ok h j = True"

text \<open>The tree up to the order of members.\<close>

fun canonical_tree :: "json \<Rightarrow> json" where
  "canonical_tree (JArr xs) = JArr (map canonical_tree xs)"
| "canonical_tree (JObj p) = JObj (sorted_members (map (\<lambda>m. (fst m, canonical_tree (snd m))) p))"
| "canonical_tree j = j"

lemma insort_members_map:
  "insort_key fst (fst m, g (snd m)) (map (\<lambda>m. (fst m, g (snd m))) ms) =
     map (\<lambda>m. (fst m, g (snd m))) (insort_key fst m ms)"
  by (induction ms) auto

lemma sorted_members_map:
  "sorted_members (map (\<lambda>m. (fst m, g (snd m))) p) = map (\<lambda>m. (fst m, g (snd m))) (sorted_members p)"
  by (induction p) (simp_all add: sorted_members_def insort_members_map)

lemma sorted_members_set [simp]: "set (sorted_members p) = set p" "length (sorted_members p) = length p"
  by (simp_all add: sorted_members_def)

definition appends :: "commit_op \<Rightarrow> nat list \<Rightarrow> bool" where
  "appends f bytes \<longleftrightarrow> (\<forall>s s'. f s = Inr s' \<longrightarrow> snd s' = snd s @ bytes)"

lemma appendsD: "appends f b \<Longrightarrow> f s = Inr s' \<Longrightarrow> snd s' = snd s @ b"
  unfolding appends_def by blast

lemma appends_basic:
  "commit_node d s = Inr s' \<Longrightarrow> snd s' = snd s"
  "commit_write bytes s = Inr s' \<Longrightarrow> snd s' = snd s @ bytes"
  by (auto simp: commit_node_def commit_write_def split: if_splits)

lemma appends_all: "list_all2 appends fs bs \<Longrightarrow> appends (commit_all fs) (concat bs)"
proof (induction rule: list_all2_induct)
  case (Cons f fs b bs)
  show ?case
    unfolding appends_def using appendsD [OF Cons(1)] appendsD [OF Cons(3)] by fastforce
qed (simp add: appends_def)

lemma appends_string: "appends (commit_string d t) (string_bytes t)"
  unfolding appends_def commit_string_def string_bytes_def frame_bytes_def
  by (fastforce dest!: appends_basic split: if_splits)

lemma walk_appends: "appends (commit_walk h d j) (commit_bytes h j)"
proof (induction j arbitrary: d)
  case (JArr xs)
  have "list_all2 appends (map (commit_walk h (Suc d)) xs) (map (commit_bytes h) xs)"
    using JArr by (auto simp: list.rel_map intro!: list.rel_refl_strong)
  note run = appendsD [OF appends_all [OF this]]
  show ?case
    unfolding appends_def by (fastforce simp: frame_bytes_def dest!: appends_basic dest: run split: if_splits)
next
  case (JObj p)
  let ?ops = "map (\<lambda>m s. res_bind (commit_string (Suc d) (fst m) s) (commit_walk h (Suc d) (snd m))) (sorted_members p)"
  have "appends (\<lambda>s. res_bind (commit_string (Suc d) (fst m) s) (commit_walk h (Suc d) (snd m)))
      (string_bytes (fst m) @ commit_bytes h (snd m))" if "m \<in> set p" for m
    unfolding appends_def
    using JObj [OF that, of "snd m" "Suc d"] appendsD [OF appends_string]
    by (fastforce simp: prod_set_simps snds.simps dest: appendsD)
  then have "list_all2 appends ?ops (map (\<lambda>m. string_bytes (fst m) @ commit_bytes h (snd m)) (sorted_members p))"
    by (auto simp: list.rel_map intro!: list.rel_refl_strong)
  note run = appendsD [OF appends_all [OF this]]
  show ?case
    unfolding appends_def
    by (fastforce simp: frame_bytes_def sorted_members_map comp_def dest!: appends_basic dest: run split: if_splits)
qed (auto simp: appends_def dest!: appends_basic appendsD [OF appends_string] split: if_splits)

lemma commit_all_runs: "commit_all fs s = Inr s' \<Longrightarrow> f \<in> set fs \<Longrightarrow> \<exists>t t'. f t = Inr t'"
  by (induction fs arbitrary: s) auto

lemma walk_floats: "commit_walk h d j s = Inr s' \<Longrightarrow> floats_ok h j"
proof (induction j arbitrary: d s s')
  case (JArr xs)
  from JArr(2) obtain t t' where "commit_all (map (commit_walk h (Suc d)) xs) t = Inr t'" by (auto split: if_splits)
  from commit_all_runs [OF this] have "\<exists>t t'. commit_walk h (Suc d) x t = Inr t'" if "x \<in> set xs" for x
    using that by simp
  with JArr(1) show ?case by fastforce
next
  case (JObj p)
  let ?op = "\<lambda>m s. res_bind (commit_string (Suc d) (fst m) s) (commit_walk h (Suc d) (snd m))"
  from JObj(2) obtain t t' where "commit_all (map ?op (sorted_members p)) t = Inr t'"
    by (auto simp: sorted_members_map comp_def split: if_splits)
  from commit_all_runs [OF this, of "?op m" for m] have "\<exists>t t'. ?op m t = Inr t'" if "m \<in> set p" for m
    using that by force
  then have run: "\<exists>t t'. commit_walk h (Suc d) (snd m) t = Inr t'" if "m \<in> set p" for m
    using that by (metis res_bind_Inr_iff)
  have "floats_ok h (snd m)" if m: "m \<in> set p" for m
  proof -
    from run [OF m] obtain t t' where "commit_walk h (Suc d) (snd m) t = Inr t'" by blast
    with JObj(1) [OF m, of "snd m"] show ?thesis by (auto simp: snds.simps)
  qed
  then show ?case by simp
qed (auto simp: is_ok_def split: if_splits)

section \<open>Reading the bytes back\<close>

lemma utf8_append: "utf8 (s @ t) = utf8 s @ utf8 t"
  by (simp add: utf8_def)

lemma utf8_ascii: "\<forall>c \<in> set s. cp c < 128 \<Longrightarrow> utf8 s = map cp s"
  by (induction s) (auto simp: utf8_def Let_def)

lemma cp_inj: "cp c = cp d \<longleftrightarrow> c = d"
  by (simp add: cp_def)

lemma utf8_inj: "utf8 s = utf8 t \<Longrightarrow> s = t"
proof (induction s arbitrary: t)
  case Nil
  then show ?case by (cases t) (auto simp: utf8_def Let_def split: if_splits)
next
  case (Cons c s)
  then obtain d t' where t: "t = d # t'" by (cases t) (auto simp: utf8_def Let_def split: if_splits)
  have bound: "cp c < 256" "cp d < 256" by (simp_all add: cp_def)
  have rest: "utf8 s = utf8 t'" and same: "cp c = cp d"
    using Cons(2) bound unfolding t
    by (auto simp: utf8_def Let_def split: if_splits) (metis mod_mult_div_eq)+
  show ?case using Cons(1) [OF rest] same by (simp add: t cp_inj)
qed

lemma sep_inj:
  assumes "u @ c # r = v @ c # q" "c \<notin> set u" "c \<notin> set v"
  shows "u = v \<and> r = q"
  using assms by (induction u arbitrary: v) (auto simp: Cons_eq_append_conv)

lemma decimal_digits: "c \<in> set (decimal n) \<Longrightarrow> 48 \<le> cp c \<and> cp c \<le> 57"
proof (induction n rule: decimal.induct)
  case (1 n)
  then show ?case
    by (subst (asm) (2) decimal.simps) (auto simp: digit_char_def cp_def split: if_splits)
qed

lemma digits_value_decimal: "digits_value (decimal n) = int n"
proof (induction n rule: decimal.induct)
  case (1 n)
  have d: "int (cp (digit_char (n mod 10))) - 48 = int (n mod 10)" for n
    by (simp add: digit_char_def cp_def)
  show ?case
  proof (cases "n < 10")
    case True
    then show ?thesis using d [of n] by (subst decimal.simps) (simp add: digits_value_def)
  next
    case False
    have "10 * int (n div 10) + int (n mod 10) = int n" by presburger
    with 1 d [of n] False show ?thesis
      by (subst decimal.simps) (simp add: digits_value_def)
  qed
qed

lemma decimal_inj: "decimal m = decimal n \<Longrightarrow> m = n"
  by (metis digits_value_decimal of_nat_eq_iff)

lemma frame_inj:
  assumes "frame_bytes c m @ r = frame_bytes d n @ q"
  shows "utf8 [c] = utf8 [d] \<longrightarrow> m = n \<and> r = q"
proof
  assume same: "utf8 [c] = utf8 [d]"
  have digits: "cp x < 58" if "x \<in> set (decimal k)" for x k using decimal_digits [OF that] by simp
  have bytes: "utf8 (decimal k @ '':'') = map cp (decimal k) @ [58]" for k
    using digits [of _ k] by (subst utf8_ascii) (fastforce simp: cp_def)+
  have "map cp (decimal m) @ 58 # r = map cp (decimal n) @ 58 # q"
    using assms same unfolding frame_bytes_def utf8_append [of "[c]"] utf8_append [of "[d]"] bytes
    by simp
  from sep_inj [OF this] have "map cp (decimal m) = map cp (decimal n) \<and> r = q"
    using digits [of _ m] digits [of _ n] by fastforce
  then show "m = n \<and> r = q"
    by (metis decimal_inj list.inj_map_strong cp_inj)
qed

lemma string_bytes_inj:
  assumes "string_bytes s @ r = string_bytes t @ q"
  shows "s = t \<and> r = q"
proof -
  have "length (utf8 s) = length (utf8 t) \<and> utf8 s @ r = utf8 t @ q"
    using frame_inj [of "CHR ''s''" "length (utf8 s)" "utf8 s @ r" "CHR ''s''" "length (utf8 t)" "utf8 t @ q"] assms
    by (simp add: string_bytes_def)
  then show ?thesis using utf8_inj by auto
qed

text \<open>
  What the documentation says of \<^verbatim>\<open>repr\<close> of a finite float: it is written with digits, a point, a sign
  and an exponent, and reading it back gives the same float, so that two floats whose texts denote
  the same decimal, sign included, are one (\<^verbatim>\<open>repr\<close> is only called on binary64 values; on other rationals
  it may be any such text). \<open>decimal_value\<close> is what a sign, digits and an exponent denote.
\<close>

definition decimal_value :: "bool \<times> string \<times> int \<Rightarrow> bool \<times> rat" where
  "decimal_value t = (case t of (sign, digits, exponent) \<Rightarrow>
     (sign, of_int (digits_value digits) * 10 powi exponent))"

definition repr_ok :: "host_env \<Rightarrow> bool" where
  "repr_ok h = ((\<forall>x. set (float_repr h x) \<subseteq> set ''-+.e0123456789'') \<and>
     (\<forall>x y. decimal_value (float_parts (float_repr h x)) = decimal_value (float_parts (float_repr h y)) \<longrightarrow> x = y))"

lemma int_text_inj: "int_text i = int_text k \<Longrightarrow> i = k"
proof -
  have "cp CHR ''-'' = 45" by (simp add: cp_def)
  then have no_sign: "decimal n \<noteq> CHR ''-'' # s" for n s
    using decimal_digits [of "CHR ''-''" n] by auto
  assume "int_text i = int_text k"
  then show ?thesis
    using no_sign no_sign [symmetric] by (auto simp: int_text_def split: if_splits dest!: decimal_inj)
qed

text \<open>Leading and trailing zeros.\<close>

lemma digits_value_snoc: "digits_value (s @ [c]) = 10 * digits_value s + (int (cp c) - 48)"
  by (simp add: digits_value_def)

lemma digits_value_strip: "digits_value (strip_zeros s) = digits_value s"
  by (induction s) (simp_all add: strip_zeros_def digits_value_def cp_def)

lemma digits_value_or_zero: "digits_value (or_zero s) = digits_value s"
  by (simp add: or_zero_def digits_value_def cp_def)

lemma digits_value_zeros: "digits_value (s @ replicate n CHR ''0'') = 10 ^ n * digits_value s"
proof (induction n)
  case (Suc n)
  have "s @ replicate (Suc n) CHR ''0'' = (s @ replicate n CHR ''0'') @ [CHR ''0'']"
    by (simp add: replicate_append_same)
  then show ?case by (simp only: digits_value_snoc Suc) (simp add: cp_def)
qed simp

lemma strip_trailing: "s = rev (strip_zeros (rev s)) @ replicate (length s - length (rev (strip_zeros (rev s)))) CHR ''0''"
proof -
  let ?z = "takeWhile (\<lambda>c. c = CHR ''0'') (rev s)"
  have s: "s = rev (strip_zeros (rev s)) @ rev ?z"
    unfolding strip_zeros_def by (simp only: rev_append [symmetric] takeWhile_dropWhile_id rev_rev_ident)
  have len: "length s - length (rev (strip_zeros (rev s))) = length ?z"
    using arg_cong [OF s, of length] by (simp only: length_append length_rev)
  have "replicate (length ?z) CHR ''0'' = ?z"
    by (rule replicate_length_same) (auto dest: set_takeWhileD)
  then have z: "rev ?z = replicate (length ?z) CHR ''0''"
    by (metis rev_replicate)
  show ?thesis
    by (rule trans [OF s]) (simp only: len z)
qed

text \<open>A token spells the decimal it stands for: the number it is made from is read off it.\<close>

lemma decimal_token_parts:
  assumes "decimal_token (sign, digits, exponent) = Inr t"
  obtains c e where "t = ''d'' @ (if sign then ''1'' else ''0'') @ '':'' @ c @ '':'' @ int_text e @ '';''"
    "set c \<subseteq> insert CHR ''0'' (set digits)"
    "decimal_value (sign, c, e) = decimal_value (sign, digits, exponent)"
proof -
  define k where "k = or_zero (strip_zeros digits)"
  define kept where "kept = rev (strip_zeros (rev k))"
  have drop: "set (strip_zeros s) \<subseteq> set s" for s by (auto simp: strip_zeros_def dest: set_dropWhileD)
  have k: "set k \<subseteq> insert CHR ''0'' (set digits)" "digits_value k = digits_value digits"
    using drop [of digits]
    by (auto simp: k_def digits_value_or_zero digits_value_strip) (auto simp: or_zero_def split: if_splits)
  have kept: "set kept \<subseteq> set k" using drop [of "rev k"] by (simp add: kept_def)
  show ?thesis
  proof (cases "k = ''0''")
    case True
    with k(2) have "digits_value digits = 0" by (simp add: digits_value_def cp_def)
    with True assms show ?thesis
      by (intro that [of "''0''" 0])
        (auto simp: decimal_token_def Let_def k_def [symmetric] decimal_value_def digits_value_def cp_def split: if_splits)
  next
    case False
    let ?n = "length k - length kept"
    have "k = kept @ replicate ?n CHR ''0''"
      unfolding kept_def by (rule strip_trailing)
    then have "digits_value digits = 10 ^ ?n * digits_value kept"
      using digits_value_zeros [of kept ?n] k(2) by simp
    then have "decimal_value (sign, kept, exponent + int ?n) = decimal_value (sign, digits, exponent)"
      by (simp add: decimal_value_def power_int_add)
    moreover have "t = ''d'' @ (if sign then ''1'' else ''0'') @ '':'' @ kept @ '':'' @
        int_text (exponent + int ?n) @ '';''"
      using assms [unfolded decimal_token_def prod.case Let_def, folded k_def, folded kept_def] False
      by (simp split: if_splits)
    ultimately show ?thesis using that kept k(1) by blast
  qed
qed

lemma decimal_token_value:
  assumes "decimal_token p = Inr t" "decimal_token q = Inr t"
    "CHR '':'' \<notin> set (fst (snd p))" "CHR '':'' \<notin> set (fst (snd q))"
  shows "decimal_value p = decimal_value q"
proof -
  obtain s d e s' d' e' where pq: "p = (s, d, e)" "q = (s', d', e')" by (metis prod_cases3)
  obtain c k where c: "t = ''d'' @ (if s then ''1'' else ''0'') @ '':'' @ c @ '':'' @ int_text k @ '';''"
      "set c \<subseteq> insert CHR ''0'' (set d)" "decimal_value (s, c, k) = decimal_value (s, d, e)"
    using decimal_token_parts [OF assms(1) [unfolded pq]] .
  obtain c' k' where c': "t = ''d'' @ (if s' then ''1'' else ''0'') @ '':'' @ c' @ '':'' @ int_text k' @ '';''"
      "set c' \<subseteq> insert CHR ''0'' (set d')" "decimal_value (s', c', k') = decimal_value (s', d', e')"
    using decimal_token_parts [OF assms(2) [unfolded pq]] .
  have sign: "s = s'" and rest: "c @ CHR '':'' # int_text k @ '';'' = c' @ CHR '':'' # int_text k' @ '';''"
    using c(1) c'(1) by (auto split: if_splits)
  have "CHR '':'' \<notin> set c" "CHR '':'' \<notin> set c'"
    using c(2) c'(2) assms(3,4) by (auto simp: pq)
  from sep_inj [OF rest this] have "c = c'" "k = k'" by (auto dest: int_text_inj)
  then show ?thesis using sign c(3) c'(3) by (simp add: pq)
qed

definition plain_bytes :: "string \<Rightarrow> bool" where
  "plain_bytes s = (\<forall>c \<in> set s. cp c < 128 \<and> c \<noteq> CHR '';'')"

lemma plain_bytes_append [simp]: "plain_bytes (s @ t) = (plain_bytes s \<and> plain_bytes t)"
  by (auto simp: plain_bytes_def)

lemma plain_inj:
  assumes "utf8 (s @ '';'') @ r = utf8 (t @ '';'') @ q" "plain_bytes s" "plain_bytes t"
  shows "s = t \<and> r = q"
proof -
  have bytes: "utf8 (u @ '';'') = map cp u @ [59]" if "plain_bytes u" for u
    using that by (subst utf8_ascii) (auto simp: plain_bytes_def cp_def)
  have semi: "cp CHR '';'' = 59" by (simp add: cp_def)
  have free: "59 \<notin> set (map cp u)" if "plain_bytes u" for u
  proof
    assume "59 \<in> set (map cp u)"
    then obtain c where c: "c \<in> set u" "cp c = cp CHR '';''" unfolding semi by auto
    from c(2) have "c = CHR '';''" by (simp only: cp_inj)
    with c(1) that show False unfolding plain_bytes_def by blast
  qed
  from assms have "map cp s @ 59 # r = map cp t @ 59 # q" by (simp add: bytes)
  from sep_inj [OF this free free] assms(2,3) have "map cp s = map cp t \<and> r = q" by blast
  then show ?thesis by (metis list.inj_map_strong cp_inj)
qed

lemma plain_int_text: "plain_bytes (int_text i)"
proof -
  have "plain_bytes (decimal n)" for n
  proof -
    have "cp CHR '';'' = 59" by (simp add: cp_def)
    then show ?thesis using decimal_digits [of _ n] by (fastforce simp: plain_bytes_def)
  qed
  then show ?thesis by (auto simp: int_text_def) (auto simp: plain_bytes_def cp_def)
qed

lemma float_parts_digits:
  assumes "set r \<subseteq> set ''-+.e0123456789''"
  shows "set (fst (snd (float_parts r))) \<subseteq> set ''-+.e0123456789''"
proof -
  have sub: "set (takeWhile P s) \<subseteq> set s" "set (dropWhile P s) \<subseteq> set s" "set (drop n s) \<subseteq> set s" for P n and s :: string
    by (auto dest: set_takeWhileD set_dropWhileD in_set_dropD)
  define b where "b = (if startswith r ''-'' then drop 1 r else r)"
  define m where "m = takeWhile (\<lambda>c. c \<noteq> CHR ''e'') b"
  define w where "w = takeWhile (\<lambda>c. c \<noteq> CHR ''.'') m"
  define f where "f = drop 1 (dropWhile (\<lambda>c. c \<noteq> CHR ''.'') m)"
  have digits: "fst (snd (float_parts r)) = or_zero (strip_zeros (w @ f))"
    unfolding float_parts_def Let_def b_def [symmetric] m_def [symmetric] w_def [symmetric] f_def [symmetric] by simp
  have "set b \<subseteq> set r" using sub(3) by (simp add: b_def)
  moreover have "set m \<subseteq> set b" "set w \<subseteq> set m" "set f \<subseteq> set m"
    unfolding m_def w_def f_def using sub(1) sub(3) [THEN subset_trans, OF sub(2)] by blast+
  ultimately have "set (w @ f) \<subseteq> set r" unfolding set_append by blast
  moreover have "set (strip_zeros (w @ f)) \<subseteq> set (w @ f)"
    unfolding strip_zeros_def by (rule sub(2))
  ultimately have "set (strip_zeros (w @ f)) \<subseteq> set ''-+.e0123456789''"
    using assms by (blast intro: subset_trans)
  then show ?thesis unfolding digits or_zero_def by simp
qed

text \<open>The token of a float determines the float.\<close>

lemma float_token_inj:
  assumes "repr_ok h" "float_token h x = Inr t" "float_token h y = Inr t"
  shows "x = y"
proof -
  have "set (fst (snd (float_parts (float_repr h z)))) \<subseteq> set ''-+.e0123456789''" for z
    using assms(1) by (intro float_parts_digits) (simp add: repr_ok_def)
  then have "CHR '':'' \<notin> set (fst (snd (float_parts (float_repr h z))))" for z
    by fastforce
  then have "decimal_value (float_parts (float_repr h x)) = decimal_value (float_parts (float_repr h y))"
    using assms(2,3) unfolding float_token_def by (intro decimal_token_value)
  with assms(1) show ?thesis unfolding repr_ok_def by blast
qed

lemma token_shape:
  assumes "repr_ok h" "float_token h x = Inr t"
  obtains u where "t = CHR ''d'' # u @ '';''" "plain_bytes u"
proof -
  obtain sign digits e where parts: "float_parts (float_repr h x) = (sign, digits, e)"
    by (metis prod_cases3)
  have digits: "set digits \<subseteq> set ''-+.e0123456789''"
    using float_parts_digits [of "float_repr h x"] assms(1) by (simp add: repr_ok_def parts)
  obtain c k where t: "t = ''d'' @ (if sign then ''1'' else ''0'') @ '':'' @ c @ '':'' @ int_text k @ '';''"
      and c: "set c \<subseteq> insert CHR ''0'' (set digits)"
    using decimal_token_parts [OF assms(2) [unfolded float_token_def parts]] .
  have "\<forall>x \<in> set ''-+.e0123456789''. cp x < 128 \<and> x \<noteq> CHR '';''"
    by (simp add: cp_def)
  moreover have "set c \<subseteq> set ''-+.e0123456789''"
  proof -
    have "CHR ''0'' \<in> set ''-+.e0123456789''" by simp
    with c digits show ?thesis by blast
  qed
  ultimately have "plain_bytes c" unfolding plain_bytes_def by blast
  then have "plain_bytes ((if sign then ''1'' else ''0'') @ '':'' @ c @ '':'' @ int_text k)"
    using plain_int_text [of k] by (auto simp: plain_bytes_def cp_def)
  then show ?thesis using t by (intro that [of "(if sign then ''1'' else ''0'') @ '':'' @ c @ '':'' @ int_text k"]) simp_all
qed

fun json_tag :: "json \<Rightarrow> nat" where
  "json_tag JNull = cp CHR ''n''"
| "json_tag (JBool b) = cp (if b then CHR ''t'' else CHR ''f'')"
| "json_tag (JInt i) = cp CHR ''i''"
| "json_tag (JFloat x) = cp CHR ''d''"
| "json_tag (JStr t) = cp CHR ''s''"
| "json_tag (JArr xs) = cp CHR ''l''"
| "json_tag (JObj p) = cp CHR ''o''"

lemma utf8_Cons: "cp c < 128 \<Longrightarrow> utf8 (c # s) = cp c # utf8 s"
  by (simp add: utf8_def Let_def)

lemma tag_bytes:
  assumes "repr_ok h" "floats_ok h j"
  obtains bs where "commit_bytes h j = json_tag j # bs"
proof (cases j)
  case (JFloat x)
  with assms(2) obtain t where t: "float_token h x = Inr t" by (auto simp: is_ok_def split: sum.splits)
  from token_shape [OF assms(1) t] obtain u where "t = CHR ''d'' # u @ '';''" .
  with t JFloat that show ?thesis by (simp add: utf8_Cons cp_def)
qed (use that in \<open>auto simp: utf8_Cons frame_bytes_def string_bytes_def cp_def split: if_splits\<close>)

lemma same_tag:
  assumes "repr_ok h" "floats_ok h j" "floats_ok h k" "commit_bytes h j @ r = commit_bytes h k @ q"
  shows "json_tag j = json_tag k"
  using tag_bytes [OF assms(1,2)] tag_bytes [OF assms(1,3)] assms(4) by (metis append_Cons list.inject)

lemma concat_inj:
  assumes "\<And>x y r q. x \<in> set xs \<Longrightarrow> y \<in> set ys \<Longrightarrow> B x @ r = B y @ q \<Longrightarrow> f x = f y \<and> r = q"
    "length xs = length ys" "concat (map B xs) @ r = concat (map B ys) @ q"
  shows "map f xs = map f ys \<and> r = q"
  using assms
proof (induction xs arbitrary: ys)
  case (Cons x xs)
  then obtain y ys' where ys: "ys = y # ys'" by (cases ys) auto
  have head: "f x = f y \<and> concat (map B xs) @ r = concat (map B ys') @ q"
    using Cons(2) [of x y] Cons(4) ys by simp
  have "map f xs = map f ys' \<and> r = q"
    by (rule Cons(1)) (use Cons(2,3) head ys in auto)
  with head show ?case by (simp add: ys)
qed simp

lemma commit_bytes_inj:
  assumes "repr_ok h" "floats_ok h j" "floats_ok h k" "commit_bytes h j @ r = commit_bytes h k @ q"
  shows "canonical_tree j = canonical_tree k \<and> r = q"
  using assms(2-)
proof (induction j arbitrary: k r q)
  case (JArr xs)
  have "json_tag (JArr xs) = json_tag k" by (rule same_tag [OF assms(1) JArr(2,3,4)])
  then obtain ys where k: "k = JArr ys" by (cases k) (auto simp: cp_def split: if_splits)
  from JArr(4) have len: "length xs = length ys" and
    body: "concat (map (commit_bytes h) xs) @ utf8 '';'' @ r = concat (map (commit_bytes h) ys) @ utf8 '';'' @ q"
    using frame_inj [of "CHR ''l''" "length xs" _ "CHR ''l''" "length ys"] by (auto simp: k)
  have "map canonical_tree xs = map canonical_tree ys \<and> utf8 '';'' @ r = utf8 '';'' @ q"
  proof (rule concat_inj [OF _ len body])
    fix x y r q
    assume "x \<in> set xs" "y \<in> set ys" "commit_bytes h x @ r = commit_bytes h y @ q"
    with JArr(1) [of x y r q] JArr(2,3) show "canonical_tree x = canonical_tree y \<and> r = q" by (simp add: k)
  qed
  then show ?case by (simp add: k)
next
  case (JObj p)
  have "json_tag (JObj p) = json_tag k" by (rule same_tag [OF assms(1) JObj(2,3,4)])
  then obtain p' where k: "k = JObj p'" by (cases k) (auto simp: cp_def split: if_splits)
  let ?B = "\<lambda>m. string_bytes (fst m) @ commit_bytes h (snd m)"
  from JObj(4) have len: "length p = length p'" and
    body: "concat (map ?B (sorted_members p)) @ utf8 '';'' @ r = concat (map ?B (sorted_members p')) @ utf8 '';'' @ q"
    using frame_inj [of "CHR ''o''" "length p" _ "CHR ''o''" "length p'"]
    by (auto simp: k sorted_members_map comp_def)
  have "(fst m, canonical_tree (snd m)) = (fst n, canonical_tree (snd n)) \<and> r = q"
    if "m \<in> set p" "n \<in> set p'" "?B m @ r = ?B n @ q" for m n r q
  proof -
    from string_bytes_inj [of "fst m" _ "fst n"] that(3)
    have "fst m = fst n" "commit_bytes h (snd m) @ r = commit_bytes h (snd n) @ q" by auto
    then show ?thesis
      using JObj(1) [of m "snd m" "snd n" r q] that(1,2) JObj(2,3) by (auto simp: k prod_set_simps snds.simps)
  qed
  then have "map (\<lambda>m. (fst m, canonical_tree (snd m))) (sorted_members p) =
      map (\<lambda>m. (fst m, canonical_tree (snd m))) (sorted_members p') \<and> utf8 '';'' @ r = utf8 '';'' @ q"
    using len by (intro concat_inj [OF _ _ body]) simp_all
  then show ?case by (simp add: k sorted_members_map)
next
  case (JFloat x)
  have "json_tag (JFloat x) = json_tag k" by (rule same_tag [OF assms(1) JFloat(1,2,3)])
  then obtain y where k: "k = JFloat y" by (cases k) (auto simp: cp_def split: if_splits)
  obtain t u where tok: "float_token h x = Inr t" "float_token h y = Inr u"
    using JFloat(1,2) k by (auto simp: is_ok_def split: sum.splits)
  obtain t' u' where "t = CHR ''d'' # t' @ '';''" "u = CHR ''d'' # u' @ '';''" "plain_bytes t'" "plain_bytes u'"
    using token_shape [OF assms(1) tok(1)] token_shape [OF assms(1) tok(2)] by metis
  moreover have "utf8 t @ r = utf8 u @ q" using JFloat(3) by (simp add: k tok)
  ultimately have "t = u \<and> r = q"
    using plain_inj [of t' r u' q] by (simp add: utf8_Cons cp_def)
  then show ?case using float_token_inj [OF assms(1)] tok k by simp
next
  case (JInt i)
  have "json_tag (JInt i) = json_tag k" by (rule same_tag [OF assms(1) JInt(1,2,3)])
  then obtain l where k: "k = JInt l" by (cases k) (auto simp: cp_def split: if_splits)
  have "utf8 (int_text i @ '';'') @ r = utf8 (int_text l @ '';'') @ q"
    using JInt(3) by (simp add: k utf8_Cons cp_def)
  from plain_inj [OF this plain_int_text plain_int_text] show ?case by (auto simp: k dest: int_text_inj)
next
  case (JStr s)
  have "json_tag (JStr s) = json_tag k" by (rule same_tag [OF assms(1) JStr(1,2,3)])
  then obtain t where "k = JStr t" by (cases k) (auto simp: cp_def split: if_splits)
  with JStr(3) show ?case by (auto dest: string_bytes_inj)
next
  case (JBool b)
  have "json_tag (JBool b) = json_tag k" by (rule same_tag [OF assms(1) JBool(1,2,3)])
  then obtain c where "k = JBool c" by (cases k) (auto simp: cp_def split: if_splits)
  with JBool(3) show ?case by (auto simp: utf8_Cons cp_def split: if_splits)
next
  case JNull
  have "json_tag JNull = json_tag k" by (rule same_tag [OF assms(1) JNull(1,2,3)])
  then have "k = JNull" by (cases k) (auto simp: cp_def split: if_splits)
  with JNull(3) show ?case by simp
qed

lemma canonical_bytes: "commit_bytes h (canonical_tree j) = commit_bytes h j"
proof (induction j)
  case (JArr xs)
  then have "map (commit_bytes h \<circ> canonical_tree) xs = map (commit_bytes h) xs" by simp
  then show ?case by (simp only: canonical_tree.simps commit_bytes.simps length_map list.map_comp)
next
  case (JObj p)
  have "commit_bytes h (canonical_tree (snd m)) = commit_bytes h (snd m)" if "m \<in> set p" for m
    using JObj [OF that, of "snd m"] by (simp add: snds.simps)
  then have same: "map (\<lambda>m. (fst m, commit_bytes h (canonical_tree (snd m)))) p = map (\<lambda>m. (fst m, commit_bytes h (snd m))) p"
    by simp
  let ?q = "map (\<lambda>m. (fst m, canonical_tree (snd m))) p"
  have "sorted_members (map (\<lambda>m. (fst m, commit_bytes h (snd m))) (sorted_members ?q)) =
      sorted_members (sorted_members (map (\<lambda>m. (fst m, commit_bytes h (snd m))) ?q))"
    by (simp only: sorted_members_map)
  also have "\<dots> = sorted_members (map (\<lambda>m. (fst m, commit_bytes h (snd m))) p)"
    by (simp only: list.map_comp comp_def fst_conv snd_conv same) (simp add: sorted_members_def sort_key_id_if_sorted)
  finally show ?case by (simp only: canonical_tree.simps commit_bytes.simps sorted_members_set length_map)
qed simp_all

definition commit_input :: "host_env \<Rightarrow> json \<Rightarrow> nat list" where
  "commit_input h j = utf8 ''ordin.authority-json.v1'' @ [0] @ commit_bytes h j"

lemma commitment_hashes:
  assumes "request_commitment h j = Inr d"
  shows "d = sha256 h (commit_input h j)" "floats_ok h j"
  using assms appendsD [OF walk_appends, of h 0 j "(0, [])"] walk_floats [of h 0 j "(0, [])"]
  by (auto simp: request_commitment_def commit_input_def)

lemma commit_input_iff:
  assumes "repr_ok h" "floats_ok h j" "floats_ok h k"
  shows "commit_input h j = commit_input h k \<longleftrightarrow> canonical_tree j = canonical_tree k"
  using commit_bytes_inj [OF assms, of "[]" "[]"] canonical_bytes [of h j] canonical_bytes [of h k]
  by (auto simp: commit_input_def)

section \<open>Properties\<close>

text \<open>C15: A commitment binds the whole request. It is the hash of bytes from which the committed JSON tree
  can be read back up to the order of members: two accepted trees are written as the same bytes
  exactly when they are the same tree, numbers and texts with their types included. So equal
  commitments of different requests need a collision of the hash.\<close>

theorem commitment_binds:
  assumes "repr_ok h" "request_commitment h j = Inr d" "request_commitment h k = Inr e"
  shows "d = sha256 h (commit_input h j) \<and> e = sha256 h (commit_input h k) \<and>
    (commit_input h j = commit_input h k \<longleftrightarrow> canonical_tree j = canonical_tree k)"
  using commitment_hashes [OF assms(2)] commitment_hashes [OF assms(3)] commit_input_iff [OF assms(1)] by simp

text \<open>C16: The commitment of an RPC message binds what is asked and nothing else: whether an answer is
  expected, the method and the parameters, but not the value of the correlation identifier.\<close>

theorem rpc_commitment_binds_call:
  assumes "repr_ok h" "rpc_authority_commitment h (JObj p) = Inr d" "rpc_authority_commitment h (JObj q) = Inr e"
  shows "\<exists>x y. rpc_projection h (JObj p) = Inr x \<and> d = sha256 h (commit_input h x) \<and>
    rpc_projection h (JObj q) = Inr y \<and> e = sha256 h (commit_input h y) \<and>
    (commit_input h x = commit_input h y \<longleftrightarrow>
      jget p ''method'' = jget q ''method'' \<and> (''id'' \<in> fst ` set p \<longleftrightarrow> ''id'' \<in> fst ` set q) \<and>
      (''params'' \<in> fst ` set p \<longleftrightarrow> ''params'' \<in> fst ` set q) \<and>
      canonical_tree (jget p ''params'') = canonical_tree (jget q ''params''))"
proof -
  obtain x y where proj: "rpc_projection h (JObj p) = Inr x" "rpc_projection h (JObj q) = Inr y"
    and made: "request_commitment h x = Inr d" "request_commitment h y = Inr e"
    using assms(2,3) by (auto simp: rpc_authority_commitment_def)
  have shape: "\<exists>m. jget p ''method'' = JStr m \<and> z = JObj
      ([(''kind'', JStr (if ''id'' \<in> fst ` set p then ''request'' else ''notification'')), (''method'', JStr m)] @
       (if ''params'' \<in> fst ` set p then [(''params'', jget p ''params'')] else []))"
    if "rpc_projection h (JObj p) = Inr z" for p z
    using that by (cases "jget p ''method''") (auto simp: rpc_projection_def split: if_splits)
  have "canonical_tree x = canonical_tree y \<longleftrightarrow>
      jget p ''method'' = jget q ''method'' \<and> (''id'' \<in> fst ` set p \<longleftrightarrow> ''id'' \<in> fst ` set q) \<and>
      (''params'' \<in> fst ` set p \<longleftrightarrow> ''params'' \<in> fst ` set q) \<and>
      canonical_tree (jget p ''params'') = canonical_tree (jget q ''params'')"
  proof -
    have absent: "jget p ''params'' = JNull" if "''params'' \<notin> fst ` set p" for p
      using that map_of_eq_None_iff [of p "''params''"] by (simp add: jget_def)
    show ?thesis
      using shape [OF proj(1)] shape [OF proj(2)] absent [of p] absent [of q]
      by (auto simp: sorted_members_def split: if_splits)
  qed
  then show ?thesis
    using commitment_hashes [OF made(1)] commitment_hashes [OF made(2)] commit_input_iff [OF assms(1)] proj
    by (intro exI [of _ x] exI [of _ y]) simp
qed

section \<open>Witnesses\<close>

text \<open>A way to write floats as \<^verbatim>\<open>repr\<close> does, as far as the samples need it: any other value is numbered.\<close>

definition sample_repr :: "py_float \<Rightarrow> string" where
  "sample_repr x = (case x of NegZero \<Rightarrow> ''-0.0''
     | Float v \<Rightarrow> if v = 0 then ''0.0'' else if v = 1 / 2 then ''0.5'' else if v = - (1 / 2) then ''-0.5''
         else decimal (Suc (to_nat v)) @ ''.0'')"

definition commit_env :: host_env where
  "commit_env = \<lparr>float_repr = sample_repr, sha256 = (\<lambda>bytes. replicate 64 CHR ''a'')\<rparr>"

lemma sample_tokens:
  "float_token commit_env (Float (1 / 2)) = Inr ''d0:5:-1;''"
  "float_token commit_env (Float (- (1 / 2))) = Inr ''d1:5:-1;''"
  "float_token commit_env (Float 0) = Inr ''d0:0:0;''"
  "float_token commit_env NegZero = Inr ''d1:0:0;''"
  by (simp_all add: float_token_def commit_env_def sample_repr_def) code_simp+

lemma numbered_parts: "decimal_value (float_parts (decimal n @ ''.0'')) = (False, of_nat n)"
proof -
  have digit: "c \<in> set (decimal n) \<Longrightarrow> c \<noteq> CHR ''.'' \<and> c \<noteq> CHR ''e'' \<and> c \<noteq> CHR ''-''" for c
    using decimal_digits [of c n] by (auto simp: cp_def)
  have "decimal n \<noteq> []" by (subst decimal.simps) simp
  then have pos: "\<not> startswith (decimal n @ ''.0'') ''-''"
    using digit by (cases "decimal n") (auto simp: startswith_def)
  have scan: "takeWhile (\<lambda>c. c \<noteq> CHR ''e'') (decimal n @ ''.0'') = decimal n @ ''.0''"
      "dropWhile (\<lambda>c. c \<noteq> CHR ''e'') (decimal n @ ''.0'') = []"
      "takeWhile (\<lambda>c. c \<noteq> CHR ''.'') (decimal n @ ''.0'') = decimal n"
      "dropWhile (\<lambda>c. c \<noteq> CHR ''.'') (decimal n @ ''.0'') = ''.0''"
    using digit by (auto simp: takeWhile_append dropWhile_append)
  have "digits_value (decimal n @ ''0'') = 10 * int n"
    by (simp only: digits_value_snoc digits_value_decimal) (simp add: cp_def)
  then show ?thesis
    using pos by (simp add: float_parts_def scan decimal_value_def digits_value_or_zero digits_value_strip exponent_value_def
        power_int_minus Let_def)
qed

lemma sample_parts:
  "decimal_value (float_parts (sample_repr x)) = (case x of NegZero \<Rightarrow> (True, 0)
     | Float v \<Rightarrow> if v = 0 then (False, 0) else if v = 1 / 2 then (False, 1 / 2)
         else if v = - (1 / 2) then (True, 1 / 2) else (False, of_nat (Suc (to_nat v))))"
proof -
  have "decimal_value (float_parts ''-0.0'') = (True, 0)" "decimal_value (float_parts ''0.0'') = (False, 0)"
    "decimal_value (float_parts ''0.5'') = (False, 1 / 2)" "decimal_value (float_parts ''-0.5'') = (True, 1 / 2)"
    by (simp_all add: float_parts_def startswith_def exponent_value_def or_zero_def strip_zeros_def decimal_value_def
        digits_value_def cp_def Let_def power_int_minus)
  then show ?thesis
    by (simp add: sample_repr_def numbered_parts split: py_float.split del: of_nat_Suc)
qed

lemma commit_env_ok: "repr_ok commit_env"
proof -
  have half: "(of_nat n :: rat) \<noteq> 1 / 2" for n
  proof
    assume "(of_nat n :: rat) = 1 / 2"
    then have "of_nat (2 * n) = (of_nat 1 :: rat)" by simp
    then have "2 * n = 1" by (simp only: of_nat_eq_iff)
    then show False by presburger
  qed
  have "x = y" if "decimal_value (float_parts (sample_repr x)) = decimal_value (float_parts (sample_repr y))" for x y
    using that half half [symmetric] unfolding sample_parts
    by (auto split: py_float.splits if_splits simp del: of_nat_Suc)
  moreover have "set (decimal n) \<subseteq> set ''0123456789''" for n
  proof -
    have "\<forall>d \<in> set [0..<10]. digit_char d \<in> set ''0123456789''" by code_simp
    then have digit: "digit_char d \<in> set ''0123456789''" if "d < 10" for d using that by simp
    show ?thesis
    proof (induction n rule: decimal.induct)
      case (1 n)
      then show ?case using digit [of n] digit [of "n mod 10"] by (subst decimal.simps) auto
    qed
  qed
  then have "set (decimal n @ ''.0'') \<subseteq> set ''-+.e0123456789''" for n
  proof -
    assume all: "\<And>n. set (decimal n) \<subseteq> set ''0123456789''"
    have "set ''0123456789'' \<subseteq> set ''-+.e0123456789''" "set ''.0'' \<subseteq> set ''-+.e0123456789''" by simp_all
    with all [of n] show ?thesis unfolding set_append by blast
  qed
  then have "set (sample_repr x) \<subseteq> set ''-+.e0123456789''" for x
    by (simp only: sample_repr_def split: py_float.split if_split) simp
  ultimately show ?thesis unfolding repr_ok_def commit_env_def by simp
qed

definition sample_body :: json where
  "sample_body = JObj [(''b'', JFloat (Float (1 / 2))), (''a'', JArr [JInt 3, JStr ''x''])]"

definition sample_reordered :: json where
  "sample_reordered = JObj [(''a'', JArr [JInt 3, JStr ''x'']), (''b'', JFloat (Float (1 / 2)))]"

lemmas commit_eval = request_commitment_def commit_node_def commit_write_def commit_string_def sample_tokens
  max_commitment_nodes_def max_commitment_depth_def max_commitment_bytes_def max_commitment_items_def
  max_commitment_text_bytes_def max_number_digits_def sorted_members_def utf8_def decimal.simps digit_char_def
  int_text_def cp_def Let_def

lemma sample_committed:
  "request_commitment commit_env sample_body = Inr (replicate 64 CHR ''a'')"
  "request_commitment commit_env sample_reordered = Inr (replicate 64 CHR ''a'')"
  by (simp_all add: commit_eval sample_body_def sample_reordered_def) (simp_all add: commit_env_def)

lemma sample_floats_committed:
  "request_commitment commit_env (JFloat (Float 0)) = Inr (replicate 64 CHR ''a'')"
  "request_commitment commit_env (JFloat NegZero) = Inr (replicate 64 CHR ''a'')"
  "request_commitment commit_env (JFloat (Float (1 / 2))) = Inr (replicate 64 CHR ''a'')"
  "request_commitment commit_env (JFloat (Float (- (1 / 2)))) = Inr (replicate 64 CHR ''a'')"
  by (simp_all add: commit_eval) (simp_all add: commit_env_def)

theorem commitment_binds_witness:
  "commit_input commit_env sample_body = commit_input commit_env sample_reordered \<and>
   commit_input commit_env (JFloat (Float 0)) \<noteq> commit_input commit_env (JFloat NegZero) \<and>
   commit_input commit_env (JFloat (Float (1 / 2))) \<noteq> commit_input commit_env (JFloat (Float (- (1 / 2))))"
  using commitment_binds [OF commit_env_ok sample_committed]
    commitment_binds [OF commit_env_ok sample_floats_committed(1,2)]
    commitment_binds [OF commit_env_ok sample_floats_committed(3,4)]
  by (simp add: sample_body_def sample_reordered_def sorted_members_def)

definition sample_call :: "int \<Rightarrow> payload" where
  "sample_call n = [(''jsonrpc'', JStr ''2.0''), (''id'', JInt n), (''method'', JStr ''ping'')]"

lemma sample_call_committed:
  assumes "n \<in> {1, 2}"
  shows "rpc_authority_commitment commit_env (JObj (sample_call n)) = Inr (replicate 64 CHR ''a'')"
proof -
  have "request_commitment commit_env (JObj (sample_call n)) = Inr (replicate 64 CHR ''a'')"
    using assms by (elim insertE emptyE; simp add: commit_eval sample_call_def; simp add: commit_env_def)
  then have "rpc_projection commit_env (JObj (sample_call n)) =
      Inr (JObj [(''kind'', JStr ''request''), (''method'', JStr ''ping'')])"
    by (simp add: rpc_projection_def sample_call_def unknown_keys_def cp_def)
  then show ?thesis
    by (simp add: rpc_authority_commitment_def commit_eval) (simp add: commit_env_def)
qed

theorem rpc_commitment_binds_call_witness:
  "\<exists>x y. rpc_projection commit_env (JObj (sample_call 1)) = Inr x \<and>
     rpc_projection commit_env (JObj (sample_call 2)) = Inr y \<and>
     commit_input commit_env x = commit_input commit_env y"
proof -
  have "rpc_authority_commitment commit_env (JObj (sample_call 1)) = Inr (replicate 64 CHR ''a'')"
    "rpc_authority_commitment commit_env (JObj (sample_call 2)) = Inr (replicate 64 CHR ''a'')"
    by (simp_all add: sample_call_committed)
  from rpc_commitment_binds_call [OF commit_env_ok this] show ?thesis
    by (simp add: sample_call_def) blast
qed

end
