(* ===== verification/Url.thy ===== *)
theory Url
  imports Commitment Boundary
begin

text \<open>
  Endpoints of requests: what the code uses of \<^verbatim>\<open>urllib.parse.urlsplit\<close>, and \<^verbatim>\<open>request_endpoint\<close> of
  \<^verbatim>\<open>ordin/runtime_requests.py\<close>. Whether a bracketed network location is well formed depends on the
  interpreter's \<^verbatim>\<open>ipaddress\<close> module and is the parameter \<open>br\<close>. For code points below 256 the
  normalization check of \<^verbatim>\<open>urlsplit\<close> never fails.
\<close>

section \<open>Splitting\<close>

record split_url =
  su_scheme :: string
  su_netloc :: string
  su_path :: string
  su_query :: string
  su_fragment :: string

definition before :: "char \<Rightarrow> string \<Rightarrow> string" where
  "before c s = takeWhile (\<lambda>d. d \<noteq> c) s"

definition after_first :: "char \<Rightarrow> string \<Rightarrow> string" where
  "after_first c s = drop 1 (dropWhile (\<lambda>d. d \<noteq> c) s)"

definition after_last :: "char \<Rightarrow> string \<Rightarrow> string" where
  "after_last c s = rev (before c (rev s))"

definition before_last :: "char \<Rightarrow> string \<Rightarrow> string" where
  "before_last c s = rev (after_first c (rev s))"

definition scheme_char :: "char \<Rightarrow> bool" where
  "scheme_char c = (ascii_alnum c \<or> c \<in> set ''+-.'')"

definition ascii_letter :: "char \<Rightarrow> bool" where
  "ascii_letter c = (ascii_alnum c \<and> \<not> (48 \<le> cp c \<and> cp c \<le> 57))"

definition split_scheme :: "string \<Rightarrow> string \<times> string" where
  "split_scheme url = (let name = before CHR '':'' url in
     if CHR '':'' \<in> set url \<and> (case name of [] \<Rightarrow> False | c # _ \<Rightarrow> ascii_letter c) \<and> list_all scheme_char name
     then (py_lower name, after_first CHR '':'' url) else ([], url))"

definition split_netloc :: "string \<Rightarrow> string \<times> string" where
  "split_netloc url =
     (if startswith url ''//''
      then (takeWhile (\<lambda>c. c \<notin> set ''/?#'') (drop 2 url), dropWhile (\<lambda>c. c \<notin> set ''/?#'') (drop 2 url))
      else ([], url))"

definition urlsplit :: "(string \<Rightarrow> bool) \<Rightarrow> string \<Rightarrow> split_url res" where
  "urlsplit br s =
     (let url = filter (\<lambda>c. cp c \<notin> {9, 10, 13}) (dropWhile (\<lambda>c. cp c \<le> 32) s);
          (scheme, rest) = split_scheme url;
          (netloc, path) = split_netloc rest
      in if (CHR ''['' \<in> set netloc) \<noteq> (CHR '']'' \<in> set netloc) \<or> CHR ''['' \<in> set netloc \<and> \<not> br netloc
         then Inl (ValueError ''Invalid IPv6 URL'')
         else Inr \<lparr>su_scheme = scheme, su_netloc = netloc,
           su_path = before CHR ''?'' (before CHR ''#'' path),
           su_query = after_first CHR ''?'' (before CHR ''#'' path),
           su_fragment = after_first CHR ''#'' path\<rparr>)"

text \<open>\<^verbatim>\<open>username\<close> and \<^verbatim>\<open>password\<close>; host and port of the network location.\<close>

definition url_userinfo :: "split_url \<Rightarrow> string option \<times> string option" where
  "url_userinfo u =
     (if CHR ''@'' \<in> set (su_netloc u)
      then (let info = before_last CHR ''@'' (su_netloc u) in
        (Some (before CHR '':'' info), if CHR '':'' \<in> set info then Some (after_first CHR '':'' info) else None))
      else (None, None))"

definition url_hostinfo :: "split_url \<Rightarrow> string \<times> string" where
  "url_hostinfo u = (let info = after_last CHR ''@'' (su_netloc u) in
     if CHR ''['' \<in> set info
     then (before CHR '']'' (after_first CHR ''['' info),
           after_first CHR '':'' (after_first CHR '']'' (after_first CHR ''['' info)))
     else (before CHR '':'' info, after_first CHR '':'' info))"

definition url_hostname :: "split_url \<Rightarrow> string option" where
  "url_hostname u = (let host = fst (url_hostinfo u) in
     if host = [] then None
     else Some (py_lower (before CHR ''%'' host) @ dropWhile (\<lambda>c. c \<noteq> CHR ''%'') host))"

definition url_port :: "split_url \<Rightarrow> int option res" where
  "url_port u = (let port = snd (url_hostinfo u) in
     if port = [] then Inr None
     else if \<not> list_all (\<lambda>c. 48 \<le> cp c \<and> cp c \<le> 57) port
     then Inl (ValueError ''Port could not be cast to integer value'')
     else if digits_value port > 65535 then Inl (ValueError ''Port out of range 0-65535'')
     else Inr (Some (digits_value port)))"

section \<open>\<^verbatim>\<open>request_endpoint\<close>\<close>

definition default_port :: "split_url \<Rightarrow> int option \<Rightarrow> int" where
  "default_port u port = (case port of Some n \<Rightarrow> n
     | None \<Rightarrow> if su_scheme u = ''https'' then 443 else 80)"

definition http_url :: "split_url \<Rightarrow> bool" where
  "http_url u = (su_scheme u \<in> {''http'', ''https''} \<and> url_userinfo u = (None, None) \<and>
     su_query u = [] \<and> su_fragment u = [])"

definition endpoint_of :: "host_env \<Rightarrow> (string \<Rightarrow> bool) \<Rightarrow> string \<Rightarrow> (string \<times> int \<times> string) option res" where
  "endpoint_of h br url =
     res_bind (urlsplit br url) (\<lambda>u.
     res_bind (url_port u) (\<lambda>given.
       let port = default_port u given; path = (if su_path u = [] then ''/'' else su_path u)
       in case url_hostname u of
            None \<Rightarrow> Inr None
          | Some host \<Rightarrow>
              if \<not> http_url u then Inr None
              else if \<not> (1 \<le> port \<and> port \<le> 65535) \<or> \<not> safe_path path \<or>
                list_ex (\<lambda>c. c \<in> set ''%?#'') path \<or> has_sub path ''//''
              then Inr None
              else res_bind (make_network h \<lparr>nt_host = Some host, nt_port = Some port, nt_protocol = ''rest'',
                  nt_access = ''read'', nt_methods = [''POST''], nt_paths = [path], nt_identity = None\<rparr>) (\<lambda>_.
                Inr (Some (host, port, path)))))"

definition request_endpoint :: "host_env \<Rightarrow> (string \<Rightarrow> bool) \<Rightarrow> json \<Rightarrow> (string \<times> int \<times> string) option" where
  "request_endpoint h br j = (case j of
     JStr url \<Rightarrow> if unsafe_authority url then None
       else (case endpoint_of h br url of Inl _ \<Rightarrow> None | Inr e \<Rightarrow> e)
   | _ \<Rightarrow> None)"

section \<open>Lemmas\<close>

lemma part_subset [simp]:
  "set (before c s) \<subseteq> set s" "set (after_first c s) \<subseteq> set s"
  by (auto simp: before_def after_first_def dest: set_takeWhileD in_set_dropD set_dropWhileD)

lemma split_subset:
  "set (snd (split_scheme s)) \<subseteq> set s" "set (snd (split_netloc s)) \<subseteq> set s"
  by (auto simp: split_scheme_def split_netloc_def Let_def after_first_def
      dest!: in_set_dropD set_dropWhileD split: if_splits)

lemma path_subset:
  assumes "urlsplit br s = Inr u"
  shows "set (su_path u) \<subseteq> set s"
proof -
  define url where "url = filter (\<lambda>c. cp c \<notin> {9, 10, 13}) (dropWhile (\<lambda>c. cp c \<le> 32) s)"
  have "set url \<subseteq> set s" by (auto simp: url_def dest: set_dropWhileD)
  moreover have "su_path u = before CHR ''?'' (before CHR ''#'' (snd (split_netloc (snd (split_scheme url)))))"
    using assms unfolding urlsplit_def url_def [symmetric] Let_def split_def by (auto split: if_split_asm)
  ultimately show ?thesis using split_subset part_subset by (metis subset_trans)
qed

text \<open>An accepted endpoint is one the boundary check can compare.\<close>

lemma endpoint_comparable:
  assumes "request_endpoint h br j = Some (host, port, path)"
  shows "request_path False path" "1 \<le> port" "port \<le> 65535"
    "conforms network_shape (network_json \<lparr>nt_host = Some host, nt_port = Some port, nt_protocol = ''rest'',
       nt_access = ''read'', nt_methods = [''POST''], nt_paths = [path], nt_identity = None\<rparr>)"
proof -
  obtain url u given where url: "j = JStr url" "\<not> unsafe_authority url" and u: "urlsplit br url = Inr u"
    and p: "safe_path path" "\<not> list_ex (\<lambda>c. c \<in> set ''%?#'') path" "\<not> has_sub path ''//''"
      "path = (if su_path u = [] then ''/'' else su_path u)" and port: "1 \<le> port" "port \<le> 65535"
    and made: "\<exists>n. make_network h \<lparr>nt_host = Some host, nt_port = Some port, nt_protocol = ''rest'',
       nt_access = ''read'', nt_methods = [''POST''], nt_paths = [path], nt_identity = None\<rparr> = Inr n"
    using assms unfolding request_endpoint_def endpoint_of_def
    by (auto simp: Let_def split: json.splits if_split_asm sum.splits option.splits)
  show "1 \<le> port" "port \<le> 65535" by (fact port)+
  have "set path \<subseteq> insert CHR ''/'' (set url)" using p(4) path_subset [OF u] by auto
  then have "\<not> unsafe_authority path" using url(2) by (auto simp: unsafe_authority_def cp_def)
  moreover have "CHR ''*'' \<notin> set path"
  proof
    assume "CHR ''*'' \<in> set path"
    with p(1) have "cp CHR ''*'' \<notin> {42, 63, 36, 96, 92}" unfolding safe_path_def by blast
    then show False by (simp add: cp_def)
  qed
  ultimately show "request_path False path" using p(1-3) by (auto simp: request_path_def list_ex_iff)
  show "conforms network_shape (network_json \<lparr>nt_host = Some host, nt_port = Some port, nt_protocol = ''rest'',
       nt_access = ''read'', nt_methods = [''POST''], nt_paths = [path], nt_identity = None\<rparr>)"
    using made by (auto simp: make_network_def validate_shape_ok)
qed

end
