(* ===== verification/Rest_Semantics.thy ===== *)
theory Rest_Semantics
  imports Url Requests
begin

text \<open>
  \<^verbatim>\<open>ordin/_rest_semantics.py\<close>: the literal REST actions the code classifies, and how
  \<^verbatim>\<open>RestRequestAuthority\<close> of \<^verbatim>\<open>ordin/assurance/rest.py\<close> is made from them.
\<close>

section \<open>Headers\<close>

definition read_methods :: "string list" where
  "read_methods = [''GET'', ''HEAD'', ''OPTIONS'']"

definition header_char :: "char \<Rightarrow> bool" where
  "header_char c = (ascii_alnum c \<or> cp c \<in> {33, 35, 36, 37, 38, 39, 42, 43, 46, 94, 95, 96, 124, 126, 45})"

definition header_name :: "string \<Rightarrow> bool" where
  "header_name s = (s \<noteq> [] \<and> length s \<le> 128 \<and> list_all header_char s)"

definition unsupported_headers :: "string list" where
  "unsupported_headers = [''host'', ''content-length'', ''transfer-encoding'', ''connection'', ''upgrade'', ''te'',
     ''trailer'', ''authorization'', ''proxy-authorization'', ''cookie'']"

definition header_step :: "payload \<Rightarrow> string \<times> json \<Rightarrow> payload res" where
  "header_step normalized m = (let name = py_lower (fst m) in case snd m of
     JStr v \<Rightarrow>
       if \<not> header_name (fst m) \<or> name \<in> fst ` set normalized \<or> name \<in> set unsupported_headers \<or>
          startswith name ''proxy-'' \<or> length (utf8 v) > 4096 \<or> list_ex (\<lambda>c. cp c < 32 \<or> cp c = 127) v
       then Inl (ValueError ''rest_request_unsupported'')
       else Inr (normalized @ [(name, JStr v)])
   | _ \<Rightarrow> Inl (ValueError ''rest_request_unsupported''))"

section \<open>\<^verbatim>\<open>prepare_rest\<close>\<close>

record prepared_rest =
  pq_endpoint :: "string \<times> int \<times> string"
  pq_method :: string
  pq_commitment :: string
  pq_reading :: bool

definition rest_material :: "string \<Rightarrow> string \<Rightarrow> payload \<Rightarrow> payload \<Rightarrow> json" where
  "rest_material verb url headers p = JObj ([(''method'', JStr verb), (''url'', JStr url),
     (''headers'', JObj headers)] @ (if ''body'' \<in> fst ` set p then [(''body'', jget p ''body'')] else []))"

definition prepare_rest :: "host_env \<Rightarrow> (string \<Rightarrow> bool) \<Rightarrow> payload \<Rightarrow> prepared_rest res" where
  "prepare_rest h br p =
     (if \<not> {''url'', ''method''} \<subseteq> fst ` set p \<or> unknown_keys p [''url'', ''method'', ''headers'', ''body''] \<noteq> []
      then Inl (ValueError ''rest_request_unsupported'')
      else (case (request_endpoint h br (jget p ''url''), jget p ''url'', jget p ''method'') of
        (Some endpoint, JStr url, JStr verb) \<Rightarrow>
          if CHR ''?'' \<in> set url \<or> CHR ''#'' \<in> set url \<or> length (utf8 url) > 4096 \<or> verb \<notin> set rest_methods
          then Inl (ValueError ''rest_request_unsupported'')
          else (case jget_default p ''headers'' (JObj []) of
            JObj headers \<Rightarrow>
              if length headers > 128 then Inl (ValueError ''rest_request_unsupported'')
              else res_bind (res_foldM header_step [] headers) (\<lambda>normalized.
                if ''body'' \<in> fst ` set p \<and>
                   jget_default normalized ''content-type'' (JStr ''application/json'') \<noteq> JStr ''application/json''
                then Inl (ValueError ''rest_request_unsupported'')
                else res_bind (request_commitment h (rest_material verb url normalized p)) (\<lambda>commitment.
                  Inr \<lparr>pq_endpoint = endpoint, pq_method = verb, pq_commitment = commitment,
                    pq_reading = (verb \<in> set read_methods \<and> ''body'' \<notin> fst ` set p)\<rparr>))
          | _ \<Rightarrow> Inl (ValueError ''rest_request_unsupported''))
      | _ \<Rightarrow> Inl (ValueError ''rest_request_unsupported'')))"

section \<open>Exact request authority\<close>

definition authority_host :: "string \<Rightarrow> string" where
  "authority_host host = (if CHR '':'' \<in> set host then ''['' @ host @ '']'' else host)"

definition make_rest_authority :: "host_env \<Rightarrow> (string \<Rightarrow> bool) \<Rightarrow> rest_authority \<Rightarrow> rest_authority res" where
  "make_rest_authority h br r =
     res_bind (as_validate h ''assurance_rest_authority'' rest_authority_shape (rest_authority_json r)) (\<lambda>_.
     if request_endpoint h br (JStr (rs_scheme r @ ''://'' @ authority_host (rs_host r) @ '':'' @
          int_text (rs_port r) @ rs_path r)) \<noteq> Some (rs_host r, rs_port r, rs_path r)
     then Inl (ValueError ''REST authority endpoint is unsupported'')
     else if rs_access r \<noteq> (if rs_method r \<in> set read_methods \<and> \<not> rs_body r then ''read'' else ''write'')
     then Inl (ValueError ''REST authority access differs from exact request shape'')
     else Inr r)"

definition rest_from_parameters :: "host_env \<Rightarrow> (string \<Rightarrow> bool) \<Rightarrow> payload \<Rightarrow> rest_authority res" where
  "rest_from_parameters h br p =
     res_bind (prepare_rest h br p) (\<lambda>q.
     res_bind (urlsplit br (the_string (jget p ''url''))) (\<lambda>u.
     make_rest_authority h br \<lparr>rs_scheme = su_scheme u, rs_host = fst (pq_endpoint q),
       rs_port = fst (snd (pq_endpoint q)), rs_path = snd (snd (pq_endpoint q)), rs_method = pq_method q,
       rs_access = (if pq_reading q then ''read'' else ''write''), rs_body = (''body'' \<in> fst ` set p),
       rs_commitment = pq_commitment q, rs_algorithm = ''ordin.authority-json.sha256.v1''\<rparr>))"

section \<open>Lemmas\<close>

lemma prepare_rest_ok:
  assumes "prepare_rest h br p = Inr q"
  obtains url headers where "jget p ''url'' = JStr url" "jget p ''method'' = JStr (pq_method q)"
    "request_endpoint h br (JStr url) = Some (pq_endpoint q)" "pq_method q \<in> set rest_methods"
    "pq_reading q \<longleftrightarrow> pq_method q \<in> set read_methods \<and> ''body'' \<notin> fst ` set p"
    "request_commitment h (rest_material (pq_method q) url headers p) = Inr (pq_commitment q)"
  using assms unfolding prepare_rest_def
  by (auto split: if_split_asm option.splits json.splits)

text \<open>A header is kept once, under its lower-case name, and no header that frames or authenticates is.\<close>

lemma headers_normalized:
  assumes "res_foldM header_step [] headers = Inr normalized"
  shows "distinct (map fst normalized)" "\<forall>m \<in> set normalized. fst m \<notin> set unsupported_headers"
proof -
  have "distinct (map fst n') \<and> (\<forall>m \<in> set n'. fst m \<notin> set unsupported_headers)"
    if "res_foldM header_step n headers = Inr n'" "distinct (map fst n)"
      "\<forall>m \<in> set n. fst m \<notin> set unsupported_headers" for n n'
    using that
  proof (induction headers arbitrary: n)
    case (Cons m headers)
    then obtain n1 where step: "header_step n m = Inr n1" and rest: "res_foldM header_step n1 headers = Inr n'"
      by auto
    from step obtain v where "n1 = n @ [(py_lower (fst m), JStr v)]" "py_lower (fst m) \<notin> fst ` set n"
      "py_lower (fst m) \<notin> set unsupported_headers"
      by (auto simp: header_step_def Let_def split: json.splits if_split_asm)
    with Cons.IH [OF rest] Cons.prems(2,3) show ?case by auto
  qed simp
  from this [OF assms] show "distinct (map fst normalized)" "\<forall>m \<in> set normalized. fst m \<notin> set unsupported_headers"
    by simp_all
qed

end
