(* ===== verification/Derivation.thy ===== *)
theory Derivation
  imports Rest_Semantics Actions Shell "HOL-Library.Product_Lexorder"
begin

text \<open>
  Which capabilities a reviewed action needs: \<^verbatim>\<open>derive_runtime_capability_contract\<close> of
  \<^verbatim>\<open>ordin/runtime_contract.py\<close>, with \<^verbatim>\<open>_mcp_protocol_version\<close> of \<^verbatim>\<open>ordin/runtime_requests.py\<close>,
  \<^verbatim>\<open>action_digest\<close> of \<^verbatim>\<open>ordin/audit.py\<close> and \<^verbatim>\<open>derive_rest_request_contract\<close> of
  \<^verbatim>\<open>ordin/assurance/rest.py\<close>. The local variables of the function are the record \<open>derivation\<close>; a set
  is a list without duplicates, sorted by the key of the code at the end. The contract has no
  approval lease.
\<close>

section \<open>Local state\<close>

record derivation =
  dv_unknowns :: "capability_unknown list"
  dv_filesystem :: "filesystem_capability list"
  dv_network :: "network_capability list"
  dv_tools :: "tool_capability list"
  dv_execution :: bool
  dv_executables :: "string list"
  dv_escalation :: "bool option"
  dv_bindings :: "(string \<times> string) list"
  dv_children :: "bool list"

type_synonym derive_op = "derivation \<Rightarrow> derivation res"

definition add_unknown :: "host_env \<Rightarrow> string \<Rightarrow> string \<Rightarrow> string \<Rightarrow> derive_op" where
  "add_unknown h domain code reason d =
     res_bind (make_unknown h \<lparr>cu_domain = domain, cu_code = code, cu_reason = reason\<rparr>) (\<lambda>u.
     Inr (d\<lparr>dv_unknowns := List.insert u (dv_unknowns d)\<rparr>))"

definition add_file :: "host_env \<Rightarrow> string \<Rightarrow> string option \<Rightarrow> string \<Rightarrow> derive_op" where
  "add_file h access path scope d =
     res_bind (make_filesystem h \<lparr>fs_access = access, fs_path = path, fs_scope = scope\<rparr>) (\<lambda>c.
     Inr (d\<lparr>dv_filesystem := List.insert c (dv_filesystem d)\<rparr>))"

definition add_network :: "host_env \<Rightarrow> network_capability \<Rightarrow> derive_op" where
  "add_network h n d = res_bind (make_network h n) (\<lambda>c.
     Inr (d\<lparr>dv_network := List.insert c (dv_network d)\<rparr>))"

text \<open>Truth of a value and \<^verbatim>\<open>str(value)\<close> of a scalar, the only values metadata can have.\<close>

definition py_truthy :: "json \<Rightarrow> bool" where
  "py_truthy j = (case j of JNull \<Rightarrow> False | JBool b \<Rightarrow> b | JInt i \<Rightarrow> i \<noteq> 0 | JFloat x \<Rightarrow> float_value x \<noteq> 0
     | JStr s \<Rightarrow> s \<noteq> [] | JArr xs \<Rightarrow> xs \<noteq> [] | JObj p \<Rightarrow> p \<noteq> [])"

definition scalar_text :: "json \<Rightarrow> string" where
  "scalar_text j = (case j of JStr s \<Rightarrow> s | JNull \<Rightarrow> ''None'' | JBool b \<Rightarrow> if b then ''True'' else ''False''
     | JInt i \<Rightarrow> int_text i | _ \<Rightarrow> [])"

definition nonempty_text :: "string option \<Rightarrow> bool" where
  "nonempty_text v = (v \<noteq> None \<and> v \<noteq> Some [])"

text \<open>Records the host wrote into the provenance of a review: from a context, under a profile.\<close>

definition context_record :: "provenance_record \<Rightarrow> bool" where
  "context_record m = (pr_source m = ''context'' \<and> py_truthy (jget (pr_metadata m) ''profile_digest''))"

definition review_records :: "action_review \<Rightarrow> provenance_record list" where
  "review_records r = (case rv_provenance r of None \<Rightarrow> [] | Some p \<Rightarrow> dp_records p)"

abbreviation review_parameters :: "action_review \<Rightarrow> payload" where
  "review_parameters r \<equiv> ae_parameters (rv_action r)"

abbreviation review_kind :: "action_review \<Rightarrow> string" where
  "review_kind r \<equiv> ae_kind (rv_action r)"

section \<open>Files\<close>

definition filesystem_access :: "string \<Rightarrow> string option" where
  "filesystem_access e = map_of [(''filesystem.read'', ''read''), (''filesystem.metadata_read'', ''metadata''),
     (''filesystem.write'', ''write''), (''filesystem.delete'', ''delete''),
     (''filesystem.recursive_delete'', ''delete''), (''filesystem.execute'', ''execute'')] e"

definition effects_in :: "string \<Rightarrow> action_review \<Rightarrow> string list" where
  "effects_in domain r = filter (\<lambda>e. startswith e domain) (sorted_set (rv_effects r))"

definition path_resources :: "action_review \<Rightarrow> action_resource list" where
  "path_resources r = filter (\<lambda>v. ar_type v \<in> {''path'', ''file'', ''directory''}) (rv_resources r)"

definition file_target :: "host_env \<Rightarrow> string \<Rightarrow> string \<Rightarrow> derivation \<Rightarrow> action_resource \<Rightarrow> derivation res" where
  "file_target h effect access d v =
     (if \<not> safe_path (ar_value v)
      then res_bind (add_file h access None ''unknown'' d)
        (add_unknown h ''filesystem'' ''runtime_contract_malformed_resource''
          ''Filesystem target is not an unambiguous absolute POSIX path.'')
      else add_file h access (Some (ar_value v))
        (if effect = ''filesystem.recursive_delete'' then ''prefix'' else ''exact'') d)"

definition file_effect :: "host_env \<Rightarrow> action_resource list \<Rightarrow> derivation \<Rightarrow> string \<Rightarrow> derivation res" where
  "file_effect h paths d effect =
     (let access = (case filesystem_access effect of None \<Rightarrow> ''unknown'' | Some a \<Rightarrow> a) in
      res_bind (if access = ''unknown''
        then add_unknown h ''filesystem'' ''runtime_contract_unknown_semantics''
          ''Filesystem effect has no precise access mapping.'' d
        else Inr d) (\<lambda>d.
      res_bind (if paths = []
        then res_bind (add_file h access None ''unknown'' d)
          (add_unknown h ''filesystem'' ''runtime_contract_missing_resource''
            ''Filesystem effect has no established resource target.'')
        else Inr d) (\<lambda>d.
      res_foldM (file_target h effect access) d paths)))"

definition derive_filesystem :: "host_env \<Rightarrow> action_review \<Rightarrow> derive_op" where
  "derive_filesystem h r d =
     (let effects = effects_in ''filesystem.'' r; paths = path_resources r in
      res_bind (if length paths > 1 \<and> length (remdups (map filesystem_access effects)) > 1
        then add_unknown h ''filesystem'' ''runtime_contract_ambiguous_resource''
          ''Effects cannot be precisely associated with individual resource targets.'' d
        else Inr d) (\<lambda>d.
      res_foldM (file_effect h paths) d effects))"

section \<open>Literal requests\<close>

text \<open>The options of a literal curl command: the verb and the URLs.\<close>

fun curl_options :: "string \<Rightarrow> string list \<Rightarrow> string list \<Rightarrow> (string \<times> string list) option" where
  "curl_options verb urls [] = Some (verb, urls)"
| "curl_options verb urls (token # rest) =
     (if token \<in> {''--request'', ''-X''}
      then (case rest of [] \<Rightarrow> None
        | v # rest' \<Rightarrow> if verb \<noteq> ''GET'' then None else curl_options v urls rest')
      else if token \<in> {''--silent'', ''--show-error'', ''--fail'', ''--no-progress-meter''}
      then curl_options verb urls rest
      else if \<not> startswith_any token [''https://'', ''http://''] then None
      else curl_options verb (urls @ [token]) rest)"

definition literal_http_request :: "action_review \<Rightarrow> (string \<times> string) option" where
  "literal_http_request r =
     (if review_kind r \<noteq> ''shell'' \<or> rv_adapter r = None then None
      else (case jget (review_parameters r) ''command'' of
        JStr command \<Rightarrow>
          if list_ex (\<lambda>c. cp c \<in> {36, 96, 92, 10, 13}) command then None
          else (case split_shell_segments command of
            Inr ([tool # token # rest], []) \<Rightarrow>
              if after_last CHR ''/'' tool \<noteq> ''curl'' \<or> rest = [] \<or> token \<notin> {''--disable'', ''-q''} then None
              else (case curl_options ''GET'' [] rest of
                Some (verb, [url]) \<Rightarrow>
                  if verb \<notin> {''GET'', ''HEAD'', ''OPTIONS''} then None
                  else if \<lparr>ar_type = ''url'', ar_value = url\<rparr> \<in> set (rv_resources r) then Some (verb, url)
                  else None
              | _ \<Rightarrow> None)
          | _ \<Rightarrow> None)
      | _ \<Rightarrow> None))"

text \<open>The request of an action under the REST semantics of the host replaces the literal one.\<close>

definition rest_effects_ok :: "action_review \<Rightarrow> prepared_rest \<Rightarrow> bool" where
  "rest_effects_ok r q =
     (set (rv_effects r) = {if pq_reading q then ''network.download'' else ''network.upload''})"

definition derive_request ::
  "host_env \<Rightarrow> (string \<Rightarrow> bool) \<Rightarrow> action_review \<Rightarrow> derivation \<Rightarrow> (derivation \<times> (string \<times> string) option) res" where
  "derive_request h br r d =
     (let literal = literal_http_request r in
      if rv_adapter r \<noteq> Some ''network.rest'' then Inr (d, literal)
      else
        (case prepare_rest h br (review_parameters r) of
           Inr q \<Rightarrow>
             if rest_effects_ok r q
             then res_bind (add_unknown h ''network'' ''runtime_rest_request_commitment_required''
               ''REST scheme, headers and body require separate exact request authority.'' d) (\<lambda>d.
               Inr (d, Some (pq_method q, the_string (jget (review_parameters r) ''url''))))
             else res_bind (add_unknown h ''network'' ''runtime_rest_request_unsupported''
               ''REST request scope is unsupported.'' d) (\<lambda>d. Inr (d, literal))
         | Inl _ \<Rightarrow> res_bind (add_unknown h ''network'' ''runtime_rest_request_unsupported''
             ''REST request scope is unsupported.'' d) (\<lambda>d. Inr (d, literal))))"

section \<open>Network\<close>

definition text_class :: "string \<Rightarrow> string \<Rightarrow> bool" where
  "text_class extra s = (case s of [] \<Rightarrow> False
     | c # cs \<Rightarrow> ascii_alnum c \<and> length cs \<le> 252 \<and> list_all (\<lambda>d. ascii_alnum d \<or> d \<in> set extra) cs)"

text \<open>The endpoint a resource names: a host, or the host and port of a plain URL.\<close>

definition url_target :: "(string \<Rightarrow> bool) \<Rightarrow> string \<Rightarrow> (string \<times> int) option" where
  "url_target br url =
     (if unsafe_authority url then None
      else (case urlsplit br url of Inl _ \<Rightarrow> None
        | Inr u \<Rightarrow>
            if \<not> http_url u then None
            else (case url_port u of Inl _ \<Rightarrow> None
              | Inr given \<Rightarrow>
                  (case url_hostname u of None \<Rightarrow> None
                   | Some host \<Rightarrow> let port = default_port u given in
                       if 1 \<le> port \<and> port \<le> 65535 \<and> text_class ''.:-'' host then Some (host, port) else None))))"

definition resource_target :: "(string \<Rightarrow> bool) \<Rightarrow> action_resource \<Rightarrow> string option \<times> int option" where
  "resource_target br v =
     (if ar_type v = ''host''
      then (if text_class ''.-'' (ar_value v) then Some (ar_value v) else None, None)
      else (case url_target br (ar_value v) of None \<Rightarrow> (None, None)
        | Some (host, port) \<Rightarrow> (Some host, Some port)))"

definition mcp_endpoint_record :: "action_review \<Rightarrow> provenance_record \<Rightarrow> bool" where
  "mcp_endpoint_record r m = (context_record m \<and> pr_code m = ''runtime.requirement.mcp_endpoint'' \<and>
     pr_resource m \<noteq> None \<and>
     py_equal (jget (pr_metadata m) ''server'') (jget (review_parameters r) ''server''))"

definition mcp_urls :: "action_review \<Rightarrow> string list" where
  "mcp_urls r =
     (if review_kind r = ''mcp'' \<and> nonempty_text (rv_adapter r) \<and> rv_effects r \<noteq> []
      then sorted_set (map (\<lambda>m. pv_value (the (pr_resource m)))
        (filter (mcp_endpoint_record r) (review_records r)))
      else [])"

definition network_resources :: "action_review \<Rightarrow> action_resource list res" where
  "network_resources r =
     (let given = filter (\<lambda>v. ar_type v \<in> {''host'', ''url'', ''endpoint''}) (rv_resources r) in
      res_bind (res_mapM (\<lambda>url. let v = \<lparr>ar_type = ''url'', ar_value = url\<rparr>
          in res_bind (action_resource_post_init v) (\<lambda>_. Inr v))
        (filter (\<lambda>url. url \<notin> ar_value ` set given) (mcp_urls r))) (\<lambda>extra.
      Inr (given @ extra)))"

definition network_effect_kinds :: "(string \<times> string) list" where
  "network_effect_kinds = [(''network.connect'', ''read''), (''network.download'', ''read''),
     (''network.upload'', ''write'')]"

text \<open>The path of a request that is established literally.\<close>

definition literal_path :: "(string \<Rightarrow> bool) \<Rightarrow> string \<Rightarrow> string option res" where
  "literal_path br url = res_bind (urlsplit br url) (\<lambda>u.
     let path = (if su_path u = [] then ''/'' else su_path u)
     in Inr (if safe_path path \<and> \<not> list_ex (\<lambda>c. c \<in> set ''%?#'') path then Some path else None))"

definition request_protocol :: "action_review \<Rightarrow> string" where
  "request_protocol r = (if rv_adapter r = Some ''network.graphql'' then ''graphql''
     else if rv_adapter r = Some ''network.jsonrpc'' then ''json-rpc'' else ''mcp'')"

definition network_target ::
  "host_env \<Rightarrow> (string \<Rightarrow> bool) \<Rightarrow> action_review \<Rightarrow> (string \<times> string) option \<Rightarrow> string \<Rightarrow> derivation
     \<Rightarrow> action_resource \<Rightarrow> derivation res" where
  "network_target h br r request access d v =
     (case resource_target br v of (host, port) \<Rightarrow>
      let network = (\<lambda>protocol verbs paths. \<lparr>nt_host = host, nt_port = port, nt_protocol = protocol,
            nt_access = access, nt_methods = verbs, nt_paths = paths, nt_identity = None\<rparr>) in
      res_bind (if host = None
        then add_unknown h ''network'' ''runtime_contract_malformed_resource''
          ''Endpoint is malformed, ambiguous, or includes sensitive URL components.'' d
        else Inr d) (\<lambda>d.
      res_bind (if host \<noteq> None \<and> request \<noteq> None \<and> ar_value v = snd (the request)
        then literal_path br (ar_value v) else Inr None) (\<lambda>literal.
      case literal of
        Some path \<Rightarrow> add_network h (network ''rest'' [fst (the request)] [path]) d
      | None \<Rightarrow>
          (case (if host \<noteq> None \<and> (rv_adapter r \<in> {Some ''network.graphql'', Some ''network.jsonrpc''} \<or>
               ar_value v \<in> set (mcp_urls r)) then request_endpoint h br (JStr (ar_value v)) else None) of
             Some (_, _, path) \<Rightarrow> add_network h (network (request_protocol r) [''POST''] [path]) d
           | None \<Rightarrow> res_bind (add_network h (network ''unknown'' [] []) d)
               (add_unknown h ''network'' ''runtime_contract_unknown_protocol''
                 ''Endpoint evidence does not establish request protocol and method.'')))))"

definition review_access :: "action_review \<Rightarrow> string" where
  "review_access r =
     (if \<not> set (effects_in ''network.'' r) \<subseteq> fst ` set network_effect_kinds then ''unknown''
      else if ''network.upload'' \<in> set (rv_effects r) then ''write'' else ''read'')"

definition derive_network :: "host_env \<Rightarrow> (string \<Rightarrow> bool) \<Rightarrow> action_review \<Rightarrow> derive_op" where
  "derive_network h br r d =
     res_bind (network_resources r) (\<lambda>resources.
     res_bind (derive_request h br r d) (\<lambda>(d, request).
     if effects_in ''network.'' r = [] then Inr d
     else
       (let access = review_access r in
        res_bind (if access = ''unknown''
          then add_unknown h ''network'' ''runtime_contract_unknown_semantics''
            ''Network effect has no precise access mapping.'' d
          else Inr d) (\<lambda>d.
        res_bind (if resources = []
          then res_bind (add_network h \<lparr>nt_host = None, nt_port = None, nt_protocol = ''unknown'',
              nt_access = access, nt_methods = [], nt_paths = [], nt_identity = None\<rparr> d)
            (add_unknown h ''network'' ''runtime_contract_missing_resource''
              ''Network effect has no established endpoint.'')
          else Inr d) (\<lambda>d.
        res_foldM (network_target h br r request access) d resources)))))"

section \<open>Protocol revisions and tools\<close>

definition mcp_version_record :: "action_review \<Rightarrow> provenance_record \<Rightarrow> bool" where
  "mcp_version_record r m = (context_record m \<and> pr_code m = ''runtime.requirement.mcp_versions'' \<and>
     py_equal (jget (pr_metadata m) ''server'') (jget (review_parameters r) ''server''))"

definition version_scope :: "json \<Rightarrow> string list option" where
  "version_scope j = (case j of
     JStr s \<Rightarrow> (let entries = py_split CHR '','' s in
       if distinct entries \<and> set entries \<subseteq> set mcp_versions then Some entries else None)
   | _ \<Rightarrow> None)"

definition mcp_protocol_version :: "action_review \<Rightarrow> string option" where
  "mcp_protocol_version r =
     (case jget_default (review_parameters r) ''protocol_version'' (JStr ''2025-11-25'') of
       JStr version \<Rightarrow>
         if version \<notin> set mcp_versions then None
         else
           (let declarations = map (\<lambda>m. jget (pr_metadata m) ''versions'')
                  (filter (mcp_version_record r) (review_records r))
            in if declarations = [] then (if version = ''2025-11-25'' then Some version else None)
               else if list_all (\<lambda>j. case version_scope j of None \<Rightarrow> False
                   | Some scope \<Rightarrow> version \<in> set scope) declarations
               then Some version else None)
     | _ \<Rightarrow> None)"

definition derive_version :: "host_env \<Rightarrow> action_review \<Rightarrow> derive_op" where
  "derive_version h r d =
     (if review_kind r = ''mcp'' \<and> nonempty_text (rv_adapter r) \<and> rv_effects r \<noteq> [] \<and>
         mcp_protocol_version r = None
      then add_unknown h ''network'' ''runtime_contract_mcp_version_unapproved''
        ''MCP revision is not explicitly approved by the host profile.'' d
      else Inr d)"

definition derive_tool :: "host_env \<Rightarrow> action_review \<Rightarrow> derive_op" where
  "derive_tool h r d =
     (let p = review_parameters r;
          runtime = (if review_kind r = ''mcp'' then JStr ''mcp'' else jget p ''runtime'');
          server = (if runtime = JStr ''mcp'' then jget p ''server'' else JNull)
      in if review_kind r \<notin> {''mcp'', ''tool''} \<or> rv_adapter r = Some ''mcp.protocol'' then Inr d
         else
           (case (runtime, jget p ''tool'') of
              (JStr rt, JStr tool) \<Rightarrow>
                if rv_adapter r = None \<or> rv_effects r = []
                then add_unknown h ''tool'' ''runtime_contract_unknown_semantics''
                  ''Tool identity has no trusted deterministic semantic binding.'' d
                else if rt \<noteq> ''mcp'' \<or> the_string_option server \<noteq> None
                then res_bind (make_tool h \<lparr>tl_runtime = rt, tl_server = the_string_option server,
                    tl_tool = tool, tl_operation = ''call''\<rparr>) (\<lambda>t.
                  Inr (d\<lparr>dv_tools := dv_tools d @ [t]\<rparr>))
                else add_unknown h ''tool'' ''runtime_contract_missing_resource''
                  ''Exact MCP server is missing.'' d
            | _ \<Rightarrow> add_unknown h ''tool'' ''runtime_contract_unknown_semantics''
                ''Tool identity has no trusted deterministic semantic binding.'' d))"

section \<open>Processes\<close>

definition executable_char :: "char \<Rightarrow> bool" where
  "executable_char c = (ascii_alnum c \<or> c \<in> set ''_./+-'')"

definition shell_scope ::
  "host_env \<Rightarrow> derivation \<Rightarrow> string list list \<times> string list \<Rightarrow> derivation res" where
  "shell_scope h d s = (case s of
     ([token # rest], []) \<Rightarrow>
       (let d1 = d\<lparr>dv_executables := (if token \<noteq> [] \<and> list_all executable_char token then [token] else []),
              dv_escalation := (if after_last CHR ''/'' token \<in> {''sudo'', ''su'', ''doas''} then Some True
                else dv_escalation d)\<rparr>
        in if list_ex (\<lambda>v. v \<in> {''<'', ''>'', ''>>'', ''('', '')''}) (token # rest)
           then add_unknown h ''process'' ''runtime_contract_unknown_semantics''
             ''Shell redirections or nested execution require additional scope.'' d1
           else Inr d1)
   | _ \<Rightarrow> add_unknown h ''process'' ''runtime_contract_unknown_semantics''
       ''Compound shell execution has no single established executable scope.'' d)"

definition derive_shell :: "host_env \<Rightarrow> action_review \<Rightarrow> derive_op" where
  "derive_shell h r d =
     (if review_kind r \<noteq> ''shell'' then Inr d
      else
        res_bind (case (case jget (review_parameters r) ''command'' of
              JStr command \<Rightarrow> split_shell_segments command | _ \<Rightarrow> Inr ([], [])) of
            Inr s \<Rightarrow> shell_scope h d s
          | Inl _ \<Rightarrow> add_unknown h ''process'' ''runtime_contract_unknown_semantics''
              ''Shell syntax is ambiguous.'' d) (\<lambda>d.
        if dv_executables d = []
        then add_unknown h ''process'' ''runtime_contract_missing_resource'' ''Executable identity is unknown.'' d
        else Inr d))"

definition derive_process :: "host_env \<Rightarrow> action_review \<Rightarrow> derive_op" where
  "derive_process h r d =
     res_bind (derive_shell h r
       (d\<lparr>dv_execution := (review_kind r = ''shell'' \<or>
            list_ex (\<lambda>e. startswith_any e [''process.'', ''code.'']) (rv_effects r)),
          dv_executables := [],
          dv_escalation := Some (list_ex (\<lambda>e. startswith e ''privilege.'') (rv_effects r))\<rparr>)) (\<lambda>d.
     Inr (if rv_adapter r = None then d\<lparr>dv_escalation := None\<rparr> else d))"

section \<open>Requirements of the context\<close>

definition file_requirement :: "host_env \<Rightarrow> derivation \<Rightarrow> provenance_record \<Rightarrow> string \<Rightarrow> derivation res" where
  "file_requirement h d m path =
     (if \<not> safe_path path
      then add_unknown h ''filesystem'' ''runtime_contract_malformed_resource''
        ''Runtime requirement path is ambiguous.'' d
      else add_file h (scalar_text (jget (pr_metadata m) ''access'')) (Some path)
        (scalar_text (jget (pr_metadata m) ''scope'')) d)"

definition executable_requirement ::
  "host_env \<Rightarrow> derivation \<Rightarrow> provenance_record \<Rightarrow> string \<Rightarrow> derivation res" where
  "executable_requirement h d m path = (case jget (pr_metadata m) ''logical_executable'' of
     JStr logical \<Rightarrow>
       if \<not> safe_path path then Inr d
       else if map_of (dv_bindings d) logical \<notin> {None, Some path} \<or> startswith logical ''/'' \<and> logical \<noteq> path
       then add_unknown h ''process'' ''runtime_contract_conflicting_requirement''
         ''Runtime executable bindings conflict with reviewed identity.'' d
       else Inr (d\<lparr>dv_bindings := (logical, path) # dv_bindings d\<rparr>)
   | _ \<Rightarrow> Inr d)"

definition requirement_step ::
  "host_env \<Rightarrow> action_review \<Rightarrow> derivation \<Rightarrow> provenance_record \<Rightarrow> derivation res" where
  "requirement_step h r d m =
     (if \<not> context_record m then Inr d
      else if pr_code m = ''runtime.requirement.filesystem'' \<and> pr_resource m \<noteq> None
      then file_requirement h d m (pv_value (the (pr_resource m)))
      else if pr_code m = ''runtime.requirement.executable'' \<and> pr_resource m \<noteq> None
      then executable_requirement h d m (pv_value (the (pr_resource m)))
      else if pr_code m = ''runtime.requirement.children''
      then (case jget (pr_metadata m) ''spawn_children'' of
          JBool b \<Rightarrow> Inr (d\<lparr>dv_children := List.insert b (dv_children d)\<rparr>) | _ \<Rightarrow> Inr d)
      else if pr_code m = ''runtime.requirement.client'' \<and> pr_resource m \<noteq> None \<and> review_kind r \<noteq> ''shell'' \<and>
        safe_path (pv_value (the (pr_resource m)))
      then Inr (d\<lparr>dv_execution := True,
        dv_executables := sorted_set (dv_executables d @ [pv_value (the (pr_resource m))])\<rparr>)
      else Inr d)"

definition bound_executable :: "(string \<times> string) list \<Rightarrow> string \<Rightarrow> string" where
  "bound_executable bindings token = (case map_of bindings token of None \<Rightarrow> token | Some path \<Rightarrow> path)"

definition derive_requirements :: "host_env \<Rightarrow> action_review \<Rightarrow> derive_op" where
  "derive_requirements h r d =
     res_bind (res_foldM (requirement_step h r) (d\<lparr>dv_bindings := [], dv_children := []\<rparr>) (review_records r)) (\<lambda>d.
     let d1 = d\<lparr>dv_executables := map (bound_executable (dv_bindings d)) (dv_executables d)\<rparr>
     in if length (dv_children d1) > 1
        then add_unknown h ''process'' ''runtime_contract_conflicting_requirement''
          ''Runtime child-process requirements conflict.'' d1
        else Inr d1)"

section \<open>The contract\<close>

definition action_digest :: "host_env \<Rightarrow> action_review \<Rightarrow> string" where
  "action_digest h r = digest h (JObj (envelope_as_dict (rv_action r)))"

definition start_derivation :: derivation where
  "start_derivation = \<lparr>dv_unknowns = [], dv_filesystem = [], dv_network = [], dv_tools = [],
     dv_execution = False, dv_executables = [], dv_escalation = None, dv_bindings = [], dv_children = []\<rparr>"

definition derive_semantics :: "host_env \<Rightarrow> action_review \<Rightarrow> derive_op" where
  "derive_semantics h r d =
     (if rv_adapter r = None \<or> rv_risk r = ''unknown''
      then add_unknown h ''semantics'' ''runtime_contract_unknown_semantics''
        ''Reviewed action has unknown deterministic semantics.'' d
      else Inr d)"

definition option_text :: "string option \<Rightarrow> string" where
  "option_text v = (case v of None \<Rightarrow> [] | Some s \<Rightarrow> s)"

definition network_key ::
  "network_capability \<Rightarrow> string \<times> int \<times> string \<times> string \<times> string list \<times> string list \<times> string" where
  "network_key n = (option_text (nt_host n), (case nt_port n of None \<Rightarrow> 0 | Some p \<Rightarrow> p), nt_access n,
     nt_protocol n, nt_methods n, nt_paths n, option_text (nt_identity n))"

definition derived_source :: "host_env \<Rightarrow> action_review \<Rightarrow> payload" where
  "derived_source h r = [(''kind'', JStr (review_kind r)), (''operation'', JStr (ae_operation (rv_action r))),
     (''adapter'', option_json (rv_adapter r)), (''effects'', strings_json (sorted_set (rv_effects r))),
     (''provenance_digest'', (case rv_provenance r of None \<Rightarrow> JNull | Some p \<Rightarrow> JStr (provenance_digest h p)))]"

definition derived_process :: "action_review \<Rightarrow> derivation \<Rightarrow> process_capability" where
  "derived_process r d = \<lparr>pc_execution = (if rv_adapter r \<noteq> None then Some (dv_execution d) else None),
     pc_executables = dv_executables d,
     pc_children = (case dv_children d of [b] \<Rightarrow> Some b | _ \<Rightarrow> None)\<rparr>"

definition finish_derivation :: "host_env \<Rightarrow> action_review \<Rightarrow> derivation \<Rightarrow> capability_contract res" where
  "finish_derivation h r d =
     res_bind (make_process h (derived_process r d)) (\<lambda>process.
     res_bind (make_privilege h \<lparr>pv_escalation = dv_escalation d, pv_euid = None\<rparr>) (\<lambda>privilege.
     make_contract h \<lparr>cc_action = ae_action_id (rv_action r), cc_action_digest = action_digest h r,
       cc_decision = decision_text (rv_decision r), cc_risk = rv_risk r,
       cc_filesystem = sort_key (\<lambda>c. (fs_access c, option_text (fs_path c), fs_scope c)) (dv_filesystem d),
       cc_network = sort_key network_key (dv_network d), cc_tools = dv_tools d,
       cc_process = process, cc_privilege = privilege, cc_credentials = [],
       cc_unknowns = sort_key (\<lambda>u. (cu_domain u, cu_code u, cu_reason u)) (dv_unknowns d),
       cc_source = derived_source h r, cc_id = []\<rparr>))"

definition derive_evidence :: "host_env \<Rightarrow> (string \<Rightarrow> bool) \<Rightarrow> action_review \<Rightarrow> derivation res" where
  "derive_evidence h br r =
     res_bind (derive_semantics h r start_derivation) (\<lambda>d.
     res_bind (derive_filesystem h r d) (\<lambda>d.
     res_bind (derive_network h br r d) (\<lambda>d.
     res_bind (derive_version h r d) (\<lambda>d.
     res_bind (derive_tool h r d) (\<lambda>d.
     res_bind (derive_process h r d) (derive_requirements h r))))))"

definition derive_runtime_capability_contract ::
  "host_env \<Rightarrow> (string \<Rightarrow> bool) \<Rightarrow> action_review \<Rightarrow> capability_contract res" where
  "derive_runtime_capability_contract h br r =
     res_bind (derive_evidence h br r) (finish_derivation h r)"

text \<open>A REST action: the exact request beside the capabilities the host may have bound to credentials.\<close>

definition derive_rest_request_contract ::
  "host_env \<Rightarrow> (string \<Rightarrow> bool) \<Rightarrow> action_review \<Rightarrow> capability_contract option \<Rightarrow> rest_contract res" where
  "derive_rest_request_contract h br r capability =
     (if rv_adapter r \<noteq> Some ''network.rest''
      then Inl (ValueError ''REST derivation needs host-selected deterministic semantics'')
      else
        res_bind (rest_from_parameters h br (review_parameters r)) (\<lambda>selected.
        res_bind (derive_runtime_capability_contract h br r) (\<lambda>original.
        res_bind (case capability of None \<Rightarrow> Inr original
          | Some c \<Rightarrow> res_bind (make_contract h (original\<lparr>cc_credentials := cc_credentials c, cc_id := []\<rparr>)) (\<lambda>c'.
              if c' \<noteq> c
              then Inl (ValueError ''REST capability differs from reviewed/host-bound requirements'')
              else Inr c)) (\<lambda>chosen.
        make_rest_contract h \<lparr>sc_capability = chosen, sc_request = selected\<rparr>))))"

end
