(* ===== verification/Derivation_Safety.thy ===== *)
theory Derivation_Safety
  imports Derivation
begin

text \<open>
  What a derived contract covers: a derivation only adds to what it collects, so a contract without
  unknowns holds every need the review states, and a boundary that contains the contract permits
  them.
\<close>

section \<open>What a derivation collects\<close>

text \<open>Sets only grow and a binding of an executable stays.\<close>

definition grows :: "derivation \<Rightarrow> derivation \<Rightarrow> bool" where
  "grows d d' \<longleftrightarrow> set (dv_unknowns d) \<subseteq> set (dv_unknowns d') \<and> set (dv_filesystem d) \<subseteq> set (dv_filesystem d') \<and>
     set (dv_network d) \<subseteq> set (dv_network d') \<and> set (dv_tools d) \<subseteq> set (dv_tools d') \<and>
     map_of (dv_bindings d) \<subseteq>\<^sub>m map_of (dv_bindings d')"

definition growing :: "derive_op \<Rightarrow> bool" where
  "growing f \<longleftrightarrow> (\<forall>d d'. f d = Inr d' \<longrightarrow> grows d d')"

lemma grows_refl [simp, intro]: "grows d d"
  by (simp add: grows_def)

lemma grows_trans [trans]: "grows d e \<Longrightarrow> grows e f \<Longrightarrow> grows d f"
  unfolding grows_def by (meson map_le_trans subset_trans)

lemma grows_settled: "grows d d' \<Longrightarrow> dv_unknowns d' = [] \<Longrightarrow> dv_unknowns d = []"
  by (simp add: grows_def)

lemma growingD: "growing f \<Longrightarrow> f d = Inr d' \<Longrightarrow> grows d d'"
  by (simp add: growing_def)

lemma growing_bind: "growing f \<Longrightarrow> growing g \<Longrightarrow> growing (\<lambda>d. res_bind (f d) g)"
  unfolding growing_def using grows_trans by (metis res_bind_Inr_iff)

lemma growing_if: "growing f \<Longrightarrow> growing g \<Longrightarrow> growing (\<lambda>d. if P then f d else g d)"
  by (cases P) simp_all

lemma growing_stay: "growing Inr"
  by (simp add: growing_def)

lemma growing_fold:
  assumes "\<And>x. growing (\<lambda>d. f d x)"
  shows "growing (\<lambda>d. res_foldM f d xs)"
proof (induction xs)
  case (Cons x xs)
  have "growing (\<lambda>d. res_bind (f d x) (\<lambda>d. res_foldM f d xs))" by (rule growing_bind [OF assms Cons])
  then show ?case by simp
qed (simp add: growing_stay)

lemma insert_nonempty: "List.insert x xs \<noteq> []"
  by (auto simp: List.insert_def)

lemma grows_add:
  "add_unknown h a b c d = Inr d' \<Longrightarrow> grows d d' \<and> dv_unknowns d' \<noteq> []"
  "add_file h a p s d = Inr d' \<Longrightarrow> grows d d' \<and> \<lparr>fs_access = a, fs_path = p, fs_scope = s\<rparr> \<in> set (dv_filesystem d')"
  "add_network h n d = Inr d' \<Longrightarrow> grows d d' \<and> n \<in> set (dv_network d')"
proof -
  show "add_unknown h a b c d = Inr d' \<Longrightarrow> grows d d' \<and> dv_unknowns d' \<noteq> []"
    by (cases "make_unknown h \<lparr>cu_domain = a, cu_code = b, cu_reason = c\<rparr>")
      (auto simp: add_unknown_def grows_def insert_nonempty)
  show "add_file h a p s d = Inr d' \<Longrightarrow>
      grows d d' \<and> \<lparr>fs_access = a, fs_path = p, fs_scope = s\<rparr> \<in> set (dv_filesystem d')"
    by (auto simp: add_file_def grows_def dest!: make_same(1))
  show "add_network h n d = Inr d' \<Longrightarrow> grows d d' \<and> n \<in> set (dv_network d')"
    by (auto simp: add_network_def grows_def dest!: make_same(2))
qed

lemma growing_add:
  "growing (add_unknown h a b c)" "growing (add_file h x p s)" "growing (add_network h n)"
  unfolding growing_def using grows_add by blast+

lemmas growing_rules = growing_bind growing_if growing_stay growing_fold growing_add

text \<open>A step of a loop that went through: its result is in what the loop returns.\<close>

lemma fold_reaches:
  assumes "res_foldM f d xs = Inr d'" "x \<in> set xs" "\<And>x. growing (\<lambda>d. f d x)"
  obtains d0 d1 where "f d0 x = Inr d1" "grows d1 d'"
proof -
  have "\<exists>d0 d1. f d0 x = Inr d1 \<and> grows d1 d'"
    using assms(1,2)
  proof (induction xs arbitrary: d)
    case (Cons y ys)
    then obtain d1 where d1: "f d y = Inr d1" "res_foldM f d1 ys = Inr d'" by auto
    from growingD [OF growing_fold [of f, OF assms(3)] d1(2)] have "grows d1 d'" .
    with d1 Cons show ?case by auto
  qed simp
  with that show thesis by blast
qed

lemma growing_files: "growing (\<lambda>d. file_target h e a d v)" "growing (\<lambda>d. file_effect h ps d e)"
proof -
  show target: "growing (\<lambda>d. file_target h e a d v)" for a e v
    unfolding file_target_def by (intro growing_rules)
  show "growing (\<lambda>d. file_effect h ps d e)"
    unfolding file_effect_def Let_def by (intro growing_rules target)
qed

lemma growing_network: "growing (\<lambda>d. network_target h br r q a d v)"
proof -
  have "grows d d'" if "network_target h br r q a d v = Inr d'" for d d'
    using that unfolding network_target_def Let_def
    by (auto split: prod.splits option.splits if_split_asm dest!: grows_add intro: grows_trans)
  then show ?thesis by (simp add: growing_def)
qed

lemma growing_requirement: "growing (\<lambda>d. requirement_step h r d m)"
proof -
  have bind: "grows d d'" if "executable_requirement h d m p = Inr d'" for d d' p
    using that unfolding executable_requirement_def
    by (auto split: json.splits if_split_asm dest!: grows_add(1))
      (auto simp: grows_def map_le_def)
  have files: "grows d d'" if "file_requirement h d m p = Inr d'" for d d' p
    using that unfolding file_requirement_def by (auto split: if_split_asm dest!: grows_add)
  have "grows d d'" if "requirement_step h r d m = Inr d'" for d d'
    using that unfolding requirement_step_def
    by (auto split: json.splits if_split_asm dest: bind files; simp add: grows_def)
  then show ?thesis by (simp add: growing_def)
qed

section \<open>What a review states\<close>

text \<open>The executable a shell command starts: its first word, or what the context binds it to.\<close>

definition record_binding :: "provenance_record \<Rightarrow> (string \<times> string) option" where
  "record_binding m =
     (if context_record m \<and> pr_code m = ''runtime.requirement.executable''
      then (case (jget (pr_metadata m) ''logical_executable'', pr_resource m) of
          (JStr logical, Some x) \<Rightarrow> if safe_path (pv_value x) then Some (logical, pv_value x) else None
        | _ \<Rightarrow> None)
      else None)"

definition bound_paths :: "action_review \<Rightarrow> string \<Rightarrow> string list" where
  "bound_paths r logical = map snd (filter (\<lambda>b. fst b = logical) (List.map_filter record_binding (review_records r)))"

definition command_words :: "action_review \<Rightarrow> string list option" where
  "command_words r =
     (if review_kind r \<noteq> ''shell'' then None
      else (case jget (review_parameters r) ''command'' of
          JStr command \<Rightarrow> (case split_shell_segments command of
              Inr ([token # rest], []) \<Rightarrow> Some (token # rest) | _ \<Rightarrow> None)
        | _ \<Rightarrow> None))"

definition starts_program :: "action_review \<Rightarrow> string \<Rightarrow> bool" where
  "starts_program r path = (case command_words r of None \<Rightarrow> False
     | Some words \<Rightarrow> if bound_paths r (hd words) = [] then path = hd words
         else path \<in> set (bound_paths r (hd words)))"

definition tool_call :: "action_review \<Rightarrow> tool_capability \<Rightarrow> bool" where
  "tool_call r t = (let p = review_parameters r in
     review_kind r \<in> {''mcp'', ''tool''} \<and> rv_adapter r \<noteq> Some ''mcp.protocol'' \<and>
     (if review_kind r = ''mcp'' then tl_runtime t = ''mcp'' else jget p ''runtime'' = JStr (tl_runtime t)) \<and>
     (if tl_runtime t = ''mcp'' then tl_server t \<noteq> None \<and> jget p ''server'' = option_json (tl_server t)
      else tl_server t = None) \<and>
     jget p ''tool'' = JStr (tl_tool t) \<and> tl_operation t = ''call'')"

abbreviation binds_executable :: "provenance_record \<Rightarrow> string \<Rightarrow> string \<Rightarrow> bool" where
  "binds_executable m logical path \<equiv> record_binding m = Some (logical, path)"

abbreviation single_command :: "action_review \<Rightarrow> string list \<Rightarrow> bool" where
  "single_command r words \<equiv> command_words r = Some words"

lemma binds_executable_def:
  "binds_executable m logical path \<longleftrightarrow> context_record m \<and> pr_code m = ''runtime.requirement.executable'' \<and>
     jget (pr_metadata m) ''logical_executable'' = JStr logical \<and>
     (\<exists>x. pr_resource m = Some x \<and> pv_value x = path) \<and> safe_path path"
  by (auto simp: record_binding_def split: json.splits option.splits)

lemma single_command_def:
  "single_command r words \<longleftrightarrow> review_kind r = ''shell'' \<and> words \<noteq> [] \<and>
     (\<exists>command. jget (review_parameters r) ''command'' = JStr command \<and>
        split_shell_segments command = Inr ([words], []))"
  by (cases words) (auto simp: command_words_def split: json.splits sum.splits prod.splits list.splits)

lemma map_filter_set: "set (List.map_filter f xs) = {y. \<exists>x \<in> set xs. f x = Some y}"
  by (induction xs) (auto simp: List.map_filter_def)

lemma bound_paths_set: "set (bound_paths r logical) = {p. \<exists>m \<in> set (review_records r). binds_executable m logical p}"
  by (auto simp: bound_paths_def image_def map_filter_set)

text \<open>The operations a review says its action performs.\<close>

fun reviewed :: "(string \<Rightarrow> bool) \<Rightarrow> action_review \<Rightarrow> operation \<Rightarrow> bool" where
  "reviewed br r (FileOp k path) = (\<exists>e \<in> set (rv_effects r). \<exists>v \<in> set (path_resources r).
     (case filesystem_access e of None \<Rightarrow> False | Some access \<Rightarrow> right_in (filesystem_rights access) k) \<and>
     (path = ar_value v \<or> e = ''filesystem.recursive_delete'' \<and> below path (ar_value v)))"
| "reviewed br r (NetRequest host port verb path k i) = (effects_in ''network.'' r \<noteq> [] \<and> i = None \<and>
     right_in (network_rights (review_access r)) k \<and>
     (case network_resources r of Inl _ \<Rightarrow> False
      | Inr vs \<Rightarrow> \<exists>v \<in> set vs. resource_target br v = (Some host, Some port) \<and>
          literal_http_request r = Some (verb, ar_value v) \<and> literal_path br (ar_value v) = Inr (Some path)))"
| "reviewed br r (CallTool t) = tool_call r t"
| "reviewed br r (RunExecutable e) = starts_program r e"
| "reviewed br r Escalate = ((\<exists>e \<in> set (rv_effects r). startswith e ''privilege.'') \<or>
     (case command_words r of None \<Rightarrow> False
      | Some words \<Rightarrow> after_last CHR ''/'' (hd words) \<in> {''sudo'', ''su'', ''doas''}))"
| "reviewed br r op = False"

section \<open>Each domain\<close>

text \<open>The states between the parts of a derivation that ends without unknowns.\<close>

lemma growing_parts:
  "growing (derive_semantics h r)" "growing (derive_filesystem h r)" "growing (derive_version h r)"
  "growing (derive_tool h r)" "growing (derive_network h br r)"
proof -
  show "growing (derive_semantics h r)" "growing (derive_filesystem h r)" "growing (derive_version h r)"
    unfolding derive_semantics_def derive_filesystem_def derive_version_def Let_def
    by (intro growing_rules growing_files)+
  have "grows d d'" if "derive_tool h r d = Inr d'" for d d'
    using that unfolding derive_tool_def Let_def
    by (auto split: json.splits if_split_asm dest!: grows_add(1) make_same(3)) (auto simp: grows_def)
  then show "growing (derive_tool h r)" by (simp add: growing_def)
  have request: "grows d d'" if "derive_request h br r d = Inr (d', q)" for d d' q
    using that unfolding derive_request_def Let_def
    by (auto split: sum.splits if_split_asm dest!: grows_add(1))
  have "grows d d'" if made: "derive_network h br r d = Inr d'" for d d'
  proof -
    obtain vs d1 q where parts: "network_resources r = Inr vs" "derive_request h br r d = Inr (d1, q)"
      using made unfolding derive_network_def Let_def by auto
    have "growing (\<lambda>d. if effects_in ''network.'' r = [] then Inr d
      else res_bind (if review_access r = ''unknown''
          then add_unknown h ''network'' ''runtime_contract_unknown_semantics''
            ''Network effect has no precise access mapping.'' d
          else Inr d) (\<lambda>d.
        res_bind (if vs = []
          then res_bind (add_network h \<lparr>nt_host = None, nt_port = None, nt_protocol = ''unknown'',
              nt_access = review_access r, nt_methods = [], nt_paths = [], nt_identity = None\<rparr> d)
            (add_unknown h ''network'' ''runtime_contract_missing_resource''
              ''Network effect has no established endpoint.'')
          else Inr d) (\<lambda>d. res_foldM (network_target h br r q (review_access r)) d vs)))"
      by (intro growing_rules growing_network)
    from growingD [OF this, of d1 d'] made parts have "grows d1 d'"
      unfolding derive_network_def Let_def by simp
    with request [OF parts(2)] show ?thesis by (rule grows_trans)
  qed
  then show "growing (derive_network h br r)" by (simp add: growing_def)
qed

lemma filesystem_access_domain: "filesystem_access e = Some a \<Longrightarrow> startswith e ''filesystem.''"
  by (auto simp: filesystem_access_def startswith_def split: if_split_asm)

lemma in_effects: "e \<in> set (effects_in domain r) \<longleftrightarrow> e \<in> set (rv_effects r) \<and> startswith e domain"
  by (auto simp: effects_in_def)

lemma file_target_adds:
  assumes "file_target h e access d v = Inr d'" "dv_unknowns d' = []"
  shows "safe_path (ar_value v)" "\<lparr>fs_access = access, fs_path = Some (ar_value v),
    fs_scope = (if e = ''filesystem.recursive_delete'' then ''prefix'' else ''exact'')\<rparr> \<in> set (dv_filesystem d')"
  using assms unfolding file_target_def by (auto split: if_split_asm dest!: grows_add(1,2))

lemma files_collected:
  assumes "derive_filesystem h r d = Inr d'" "dv_unknowns d' = []" "e \<in> set (effects_in ''filesystem.'' r)"
  shows "path_resources r \<noteq> []" "filesystem_access e \<noteq> None"
    "\<And>v access. v \<in> set (path_resources r) \<Longrightarrow> filesystem_access e = Some access \<Longrightarrow>
      safe_path (ar_value v) \<and> \<lparr>fs_access = access, fs_path = Some (ar_value v),
        fs_scope = (if e = ''filesystem.recursive_delete'' then ''prefix'' else ''exact'')\<rparr> \<in> set (dv_filesystem d')"
proof -
  obtain d0 where "res_foldM (file_effect h (path_resources r)) d0 (effects_in ''filesystem.'' r) = Inr d'"
    using assms(1) unfolding derive_filesystem_def Let_def by auto
  from fold_reaches [OF this assms(3) growing_files(2)] obtain d1 d2 where
    step: "file_effect h (path_resources r) d1 e = Inr d2" and later: "grows d2 d'" by blast
  define access where "access = (case filesystem_access e of None \<Rightarrow> ''unknown'' | Some a \<Rightarrow> a)"
  obtain d3 d4 where d3: "(if access = ''unknown''
        then add_unknown h ''filesystem'' ''runtime_contract_unknown_semantics''
          ''Filesystem effect has no precise access mapping.'' d1 else Inr d1) = Inr d3"
    and d4: "(if path_resources r = []
        then res_bind (add_file h access None ''unknown'' d3)
          (add_unknown h ''filesystem'' ''runtime_contract_missing_resource''
            ''Filesystem effect has no established resource target.'')
        else Inr d3) = Inr d4"
    and targets: "res_foldM (file_target h e access) d4 (path_resources r) = Inr d2"
    using step unfolding file_effect_def Let_def access_def by auto
  have "grows d4 d2" by (rule growingD [OF growing_fold [OF growing_files(1)] targets])
  then have settled: "dv_unknowns d2 = []" "dv_unknowns d4 = []"
    using grows_settled later assms(2) by blast+
  show paths: "path_resources r \<noteq> []" using d4 settled(2) by (auto split: if_split_asm dest!: grows_add(1))
  with d4 settled(2) have "dv_unknowns d3 = []" by simp
  then have known: "access \<noteq> ''unknown''" using d3 by (auto split: if_split_asm dest!: grows_add(1))
  then show "filesystem_access e \<noteq> None" by (auto simp: access_def split: option.splits)
  fix v a assume v: "v \<in> set (path_resources r)" and a: "filesystem_access e = Some a"
  from fold_reaches [OF targets v growing_files(1)] obtain d5 d6 where
    t: "file_target h e access d5 v = Inr d6" "grows d6 d2" by blast
  from file_target_adds [OF t(1) grows_settled [OF t(2) settled(1)]] t(2) later a
  show "safe_path (ar_value v) \<and> \<lparr>fs_access = a, fs_path = Some (ar_value v),
      fs_scope = (if e = ''filesystem.recursive_delete'' then ''prefix'' else ''exact'')\<rparr> \<in> set (dv_filesystem d')"
    by (auto simp: access_def grows_def)
qed

lemma network_target_adds:
  assumes "network_target h br r q access d v = Inr d'" "dv_unknowns d' = []"
  shows "\<exists>host. fst (resource_target br v) = Some host"
    "\<And>verb path. q = Some (verb, ar_value v) \<Longrightarrow> literal_path br (ar_value v) = Inr (Some path) \<Longrightarrow>
      \<lparr>nt_host = fst (resource_target br v), nt_port = snd (resource_target br v), nt_protocol = ''rest'',
        nt_access = access, nt_methods = [verb], nt_paths = [path], nt_identity = None\<rparr> \<in> set (dv_network d')"
    "\<exists>n \<in> set (dv_network d'). (nt_host n, nt_port n) = resource_target br v"
proof -
  obtain host port where target: "resource_target br v = (host, port)" by force
  have host: "host \<noteq> None"
  proof
    assume "host = None"
    then show False
      using assms unfolding network_target_def target
      by (auto simp: Let_def dest!: grows_add(3) grows_add(1))
  qed
  then show "\<exists>host. fst (resource_target br v) = Some host" by (simp add: target)
  note step = assms(1) [unfolded network_target_def target Let_def prod.case if_not_P [OF host] res_bind.simps]
  show "\<lparr>nt_host = fst (resource_target br v), nt_port = snd (resource_target br v), nt_protocol = ''rest'',
        nt_access = access, nt_methods = [verb], nt_paths = [path], nt_identity = None\<rparr> \<in> set (dv_network d')"
    if "q = Some (verb, ar_value v)" "literal_path br (ar_value v) = Inr (Some path)" for verb path
    using step host that by (auto simp: target dest!: grows_add(3))
  show "\<exists>n \<in> set (dv_network d'). (nt_host n, nt_port n) = resource_target br v"
    using step unfolding target
    by (auto split: option.splits if_split_asm dest!: grows_add(3) grows_add(1))
      (auto simp: grows_def intro!: bexI)
qed

lemma request_settled:
  assumes "derive_request h br r d = Inr (d', q)" "dv_unknowns d' = []"
  shows "q = literal_http_request r" "d' = d"
  using assms unfolding derive_request_def Let_def
  by (auto split: sum.splits if_split_asm dest!: grows_add(1))

lemma network_collected:
  assumes "derive_network h br r d = Inr d'" "dv_unknowns d' = []" "effects_in ''network.'' r \<noteq> []"
  obtains vs where "network_resources r = Inr vs" "vs \<noteq> []"
    "\<And>v. v \<in> set vs \<Longrightarrow> \<exists>n \<in> set (dv_network d'). nt_host n \<noteq> None \<and> (nt_host n, nt_port n) = resource_target br v"
    "\<And>v verb path. v \<in> set vs \<Longrightarrow> literal_http_request r = Some (verb, ar_value v) \<Longrightarrow>
      literal_path br (ar_value v) = Inr (Some path) \<Longrightarrow>
      \<lparr>nt_host = fst (resource_target br v), nt_port = snd (resource_target br v), nt_protocol = ''rest'',
        nt_access = review_access r, nt_methods = [verb], nt_paths = [path], nt_identity = None\<rparr> \<in> set (dv_network d')"
proof -
  obtain vs d0 q d1 d2 where vs: "network_resources r = Inr vs" and q: "derive_request h br r d = Inr (d0, q)"
    and d1: "(if review_access r = ''unknown'' then add_unknown h ''network'' ''runtime_contract_unknown_semantics''
          ''Network effect has no precise access mapping.'' d0 else Inr d0) = Inr d1"
    and d2: "(if vs = [] then res_bind (add_network h \<lparr>nt_host = None, nt_port = None, nt_protocol = ''unknown'',
              nt_access = review_access r, nt_methods = [], nt_paths = [], nt_identity = None\<rparr> d1)
            (add_unknown h ''network'' ''runtime_contract_missing_resource''
              ''Network effect has no established endpoint.'') else Inr d1) = Inr d2"
    and targets: "res_foldM (network_target h br r q (review_access r)) d2 vs = Inr d'"
    using assms(1,3) unfolding derive_network_def Let_def by auto
  have "grows d2 d'" by (rule growingD [OF growing_fold [OF growing_network] targets])
  then have settled: "dv_unknowns d2 = []" using assms(2) grows_settled by blast
  then have some: "vs \<noteq> []" using d2 by (auto split: if_split_asm dest!: grows_add(1))
  with d2 settled have "dv_unknowns d1 = []" by simp
  then have "dv_unknowns d0 = []" using d1 by (auto split: if_split_asm dest!: grows_add(1))
  then have literal: "q = literal_http_request r" by (rule request_settled [OF q])
  have step: "\<exists>d3 d4. network_target h br r q (review_access r) d3 v = Inr d4 \<and> dv_unknowns d4 = [] \<and>
      set (dv_network d4) \<subseteq> set (dv_network d')" if v: "v \<in> set vs" for v
  proof -
    from fold_reaches [OF targets v growing_network] obtain d3 d4 where
      "network_target h br r q (review_access r) d3 v = Inr d4" "grows d4 d'" by blast
    with assms(2) show ?thesis by (auto simp: grows_def)
  qed
  show thesis
  proof (rule that [OF vs some])
    fix v assume "v \<in> set vs"
    from step [OF this] obtain d3 d4 where t: "network_target h br r q (review_access r) d3 v = Inr d4"
      "dv_unknowns d4 = []" and later: "set (dv_network d4) \<subseteq> set (dv_network d')" by blast
    note added = network_target_adds [OF t]
    show "\<exists>n \<in> set (dv_network d'). nt_host n \<noteq> None \<and> (nt_host n, nt_port n) = resource_target br v"
      using added(1,3) later by (metis fst_conv option.distinct(1) subsetD)
    fix verb path
    assume "literal_http_request r = Some (verb, ar_value v)" "literal_path br (ar_value v) = Inr (Some path)"
    with added(2) literal later show "\<lparr>nt_host = fst (resource_target br v), nt_port = snd (resource_target br v),
        nt_protocol = ''rest'', nt_access = review_access r, nt_methods = [verb], nt_paths = [path],
        nt_identity = None\<rparr> \<in> set (dv_network d')" by blast
  qed
qed

lemma tool_collected:
  assumes "derive_tool h r d = Inr d'" "dv_unknowns d' = []" "tool_call r t"
  shows "t \<in> set (dv_tools d')"
  using assms unfolding derive_tool_def tool_call_def Let_def
  by (cases "tl_runtime t = ''mcp''"; cases t)
    (auto simp: the_string_option_def option_json_def split: if_split_asm json.splits dest!: grows_add(1) make_same(3))

lemma shell_collected:
  assumes "derive_shell h r d = Inr d'" "dv_unknowns d' = []" "review_kind r = ''shell''"
  obtains words where "single_command r words" "dv_executables d' = [hd words]"
    "dv_execution d' = dv_execution d"
    "dv_escalation d' = (if after_last CHR ''/'' (hd words) \<in> {''sudo'', ''su'', ''doas''} then Some True
       else dv_escalation d)"
proof -
  obtain d1 where d1: "(case (case jget (review_parameters r) ''command'' of
              JStr command \<Rightarrow> split_shell_segments command | _ \<Rightarrow> Inr ([], [])) of
            Inr s \<Rightarrow> shell_scope h d s
          | Inl _ \<Rightarrow> add_unknown h ''process'' ''runtime_contract_unknown_semantics''
              ''Shell syntax is ambiguous.'' d) = Inr d1"
    and d': "(if dv_executables d1 = [] then add_unknown h ''process'' ''runtime_contract_missing_resource''
        ''Executable identity is unknown.'' d1 else Inr d1) = Inr d'"
    using assms(1,3) unfolding derive_shell_def by auto
  have same: "d' = d1" "dv_executables d1 \<noteq> []"
    using d' assms(2) by (auto split: if_split_asm dest!: grows_add(1))
  with d1 assms(2) obtain s where s: "(case jget (review_parameters r) ''command'' of
        JStr command \<Rightarrow> split_shell_segments command | _ \<Rightarrow> Inr ([], [])) = Inr s"
    and scope: "shell_scope h d s = Inr d1"
    by (auto split: sum.splits dest!: grows_add(1))
  from scope assms(2) same(1) obtain token rest where words: "s = ([token # rest], [])"
    by (auto simp: shell_scope_def split: prod.splits list.splits if_split_asm dest!: grows_add(1))
  have "single_command r (token # rest)"
    using s words assms(3) by (auto simp: single_command_def split: json.splits)
  moreover have "dv_executables d' = [hd (token # rest)]" "dv_execution d' = dv_execution d"
    "dv_escalation d' = (if after_last CHR ''/'' (hd (token # rest)) \<in> {''sudo'', ''su'', ''doas''} then Some True
       else dv_escalation d)"
    using scope assms(2) same unfolding words shell_scope_def
    by (auto simp: Let_def split: if_split_asm dest!: grows_add(1))
  ultimately show thesis by (rule that)
qed

text \<open>Bindings come from records, and every usable record is bound.\<close>

lemma requirement_bindings:
  assumes "requirement_step h r d m = Inr d'" "dv_unknowns d' = []"
  shows "map_of (dv_bindings d') logical = Some path \<Longrightarrow>
      map_of (dv_bindings d) logical = Some path \<or> binds_executable m logical path"
    "binds_executable m logical path \<Longrightarrow> map_of (dv_bindings d') logical = Some path"
proof -
  show "map_of (dv_bindings d) logical = Some path \<or> binds_executable m logical path"
    if "map_of (dv_bindings d') logical = Some path"
    using assms that
    by (auto simp: requirement_step_def file_requirement_def executable_requirement_def binds_executable_def
        add_file_def split: if_split_asm json.splits dest!: grows_add(1))
  show "map_of (dv_bindings d') logical = Some path" if "binds_executable m logical path"
    using assms that
    by (auto simp: requirement_step_def executable_requirement_def binds_executable_def
        split: if_split_asm json.splits dest!: grows_add(1))
qed

lemma requirement_keeps:
  assumes "requirement_step h r d m = Inr d'" "dv_unknowns d' = []"
  shows "dv_escalation d' = dv_escalation d" "dv_execution d \<Longrightarrow> dv_execution d'"
    "review_kind r = ''shell'' \<Longrightarrow> dv_executables d' = dv_executables d"
  using assms
  by (auto simp: requirement_step_def file_requirement_def executable_requirement_def add_file_def
      split: if_split_asm json.splits dest!: grows_add(1))

lemma requirements_run:
  assumes "res_foldM (requirement_step h r) d ms = Inr d'" "dv_unknowns d' = []"
  shows "dv_escalation d' = dv_escalation d" "dv_execution d \<Longrightarrow> dv_execution d'"
    "review_kind r = ''shell'' \<Longrightarrow> dv_executables d' = dv_executables d"
    "map_of (dv_bindings d') logical = Some path \<Longrightarrow>
      map_of (dv_bindings d) logical = Some path \<or> (\<exists>m \<in> set ms. binds_executable m logical path)"
proof -
  have "dv_escalation d' = dv_escalation d \<and> (dv_execution d \<longrightarrow> dv_execution d') \<and>
      (review_kind r = ''shell'' \<longrightarrow> dv_executables d' = dv_executables d) \<and>
      (map_of (dv_bindings d') logical = Some path \<longrightarrow>
        map_of (dv_bindings d) logical = Some path \<or> (\<exists>m \<in> set ms. binds_executable m logical path))"
    using assms(1)
  proof (induction ms arbitrary: d)
    case (Cons m ms)
    then obtain d1 where d1: "requirement_step h r d m = Inr d1" "res_foldM (requirement_step h r) d1 ms = Inr d'"
      by auto
    from growingD [OF growing_fold [OF growing_requirement] d1(2)] assms(2) have "dv_unknowns d1 = []"
      using grows_settled by blast
    note step = requirement_keeps [OF d1(1) this] requirement_bindings(1) [OF d1(1) this, of logical path]
    from Cons.IH [OF d1(2)] step show ?case by auto
  qed simp
  then show "dv_escalation d' = dv_escalation d" "dv_execution d \<Longrightarrow> dv_execution d'"
    "review_kind r = ''shell'' \<Longrightarrow> dv_executables d' = dv_executables d"
    "map_of (dv_bindings d') logical = Some path \<Longrightarrow>
      map_of (dv_bindings d) logical = Some path \<or> (\<exists>m \<in> set ms. binds_executable m logical path)"
    by blast+
qed

lemma executable_bound:
  assumes "res_foldM (requirement_step h r) d (review_records r) = Inr d'" "dv_unknowns d' = []"
    "dv_bindings d = []" "single_command r words" "starts_program r path"
  shows "path = bound_executable (dv_bindings d') (hd words)"
proof -
  have starts: "if \<exists>m \<in> set (review_records r). \<exists>p. binds_executable m (hd words) p
      then \<exists>m \<in> set (review_records r). binds_executable m (hd words) path else path = hd words"
    using assms(4,5) bound_paths_set [of r "hd words"] by (auto simp: starts_program_def split: if_split_asm)
  have bound: "map_of (dv_bindings d') (hd words) = Some p"
    if "m \<in> set (review_records r)" "binds_executable m (hd words) p" for m p
  proof -
    from fold_reaches [OF assms(1) that(1) growing_requirement] obtain d0 d1 where
      step: "requirement_step h r d0 m = Inr d1" "grows d1 d'" by blast
    from requirement_bindings(2) [OF step(1) grows_settled [OF step(2) assms(2)] that(2)] step(2)
    show ?thesis by (auto simp: grows_def map_le_def dom_def)
  qed
  show ?thesis
  proof (cases "\<exists>m \<in> set (review_records r). \<exists>p. binds_executable m (hd words) p")
    case True
    with starts bound show ?thesis by (auto simp: bound_executable_def)
  next
    case False
    then have "map_of (dv_bindings d') (hd words) = None"
      using requirements_run(4) [OF assms(1,2), of "hd words"] assms(3)
      by (cases "map_of (dv_bindings d') (hd words)") auto
    with starts False show ?thesis by (auto simp: bound_executable_def)
  qed
qed

lemma growing_shell: "growing (derive_shell h r)"
proof -
  have scope: "grows d d'" if "shell_scope h d s = Inr d'" for d d' s
    using that by (auto simp: shell_scope_def Let_def grows_def split: prod.splits list.splits if_split_asm
        dest!: grows_add(1))
  have "grows d d'" if "derive_shell h r d = Inr d'" for d d'
    using that unfolding derive_shell_def
    by (auto split: if_split_asm sum.splits dest!: grows_add(1) scope intro: grows_trans)
  then show ?thesis by (simp add: growing_def)
qed

section \<open>The contract\<close>

lemma contract_of_derivation:
  assumes "finish_derivation h r d = Inr c"
  shows "set (cc_filesystem c) = set (dv_filesystem d)" "set (cc_network c) = set (dv_network d)"
    "cc_tools c = dv_tools d" "set (cc_unknowns c) = set (dv_unknowns d)" "cc_process c = derived_process r d"
    "pv_escalation (cc_privilege c) = dv_escalation d" "cc_decision c = decision_text (rv_decision r)"
  using assms by (auto simp: finish_derivation_def dest!: make_same(4,5) make_contract_ok(1))

definition keeps :: "derivation \<Rightarrow> derivation \<Rightarrow> bool" where
  "keeps d d' \<longleftrightarrow> set (dv_unknowns d) \<subseteq> set (dv_unknowns d') \<and> set (dv_filesystem d) \<subseteq> set (dv_filesystem d') \<and>
     set (dv_network d) \<subseteq> set (dv_network d') \<and> set (dv_tools d) \<subseteq> set (dv_tools d')"

lemma grows_keeps: "grows d d' \<Longrightarrow> keeps d d'"
  by (simp add: grows_def keeps_def)

lemma keeps_trans: "keeps d e \<Longrightarrow> keeps e f \<Longrightarrow> keeps d f"
  unfolding keeps_def by blast

text \<open>The parts of a derivation whose contract has no unknowns, with what each leaves in the contract.\<close>

lemma derivation_parts:
  assumes "derive_runtime_capability_contract h br r = Inr c" "cc_unknowns c = []"
  obtains d1 d2 d3 d4 d5 d6 d7 d8 d9 where
    "derive_semantics h r start_derivation = Inr d1" "dv_unknowns d1 = []"
    "derive_filesystem h r d1 = Inr d2" "dv_unknowns d2 = []" "set (dv_filesystem d2) \<subseteq> set (cc_filesystem c)"
    "derive_network h br r d2 = Inr d3" "dv_unknowns d3 = []" "set (dv_network d3) \<subseteq> set (cc_network c)"
    "derive_version h r d3 = Inr d4" "derive_tool h r d4 = Inr d5" "dv_unknowns d5 = []"
    "set (dv_tools d5) \<subseteq> set (cc_tools c)"
    "derive_shell h r (d5\<lparr>dv_execution := (review_kind r = ''shell'' \<or>
            list_ex (\<lambda>e. startswith_any e [''process.'', ''code.'']) (rv_effects r)), dv_executables := [],
          dv_escalation := Some (list_ex (\<lambda>e. startswith e ''privilege.'') (rv_effects r))\<rparr>) = Inr d6"
    "dv_unknowns d6 = []"
    "d7 = (if rv_adapter r = None then d6\<lparr>dv_escalation := None\<rparr> else d6)\<lparr>dv_bindings := [], dv_children := []\<rparr>"
    "res_foldM (requirement_step h r) d7 (review_records r) = Inr d8" "dv_unknowns d8 = []"
    "d9 = d8\<lparr>dv_executables := map (bound_executable (dv_bindings d8)) (dv_executables d8)\<rparr>"
    "cc_process c = derived_process r d9" "pv_escalation (cc_privilege c) = dv_escalation d8"
proof -
  obtain d where evidence: "derive_evidence h br r = Inr d" and finish: "finish_derivation h r d = Inr c"
    using assms(1) unfolding derive_runtime_capability_contract_def by auto
  note contract = contract_of_derivation [OF finish]
  have settled: "dv_unknowns d = []" using contract(4) assms(2) by simp
  obtain d1 d2 d3 d4 d5 d6 where parts: "derive_semantics h r start_derivation = Inr d1"
    "derive_filesystem h r d1 = Inr d2" "derive_network h br r d2 = Inr d3" "derive_version h r d3 = Inr d4"
    "derive_tool h r d4 = Inr d5" "derive_shell h r (d5\<lparr>dv_execution := (review_kind r = ''shell'' \<or>
            list_ex (\<lambda>e. startswith_any e [''process.'', ''code.'']) (rv_effects r)), dv_executables := [],
          dv_escalation := Some (list_ex (\<lambda>e. startswith e ''privilege.'') (rv_effects r))\<rparr>) = Inr d6"
    and last: "derive_requirements h r (if rv_adapter r = None then d6\<lparr>dv_escalation := None\<rparr> else d6) = Inr d"
    using evidence unfolding derive_evidence_def derive_process_def by auto
  define d7 where "d7 = (if rv_adapter r = None then d6\<lparr>dv_escalation := None\<rparr> else d6)
    \<lparr>dv_bindings := [], dv_children := []\<rparr>"
  obtain d8 where fold: "res_foldM (requirement_step h r) d7 (review_records r) = Inr d8"
    and d: "d = d8\<lparr>dv_executables := map (bound_executable (dv_bindings d8)) (dv_executables d8)\<rparr>"
    using last settled unfolding derive_requirements_def Let_def d7_def [symmetric]
    by (auto split: if_split_asm dest!: grows_add(1))
  have "grows d7 d8" by (rule growingD [OF growing_fold [OF growing_requirement] fold])
  then have late: "keeps d6 d8" by (simp add: d7_def grows_def keeps_def split: if_split_asm)
  have shell: "grows (d5\<lparr>dv_execution := a, dv_executables := b, dv_escalation := e\<rparr>) d'"
    if "derive_shell h r (d5\<lparr>dv_execution := a, dv_executables := b, dv_escalation := e\<rparr>) = Inr d'" for a b e d'
    using that growing_shell by (rule growingD [rotated])
  have "keeps d5 d6" using shell [OF parts(6)] by (simp add: grows_def keeps_def)
  then have d5: "keeps d5 d8" using late by (rule keeps_trans)
  note chain = growingD [OF growing_parts(2) parts(2)] growingD [OF growing_parts(5) parts(3)]
    growingD [OF growing_parts(3) parts(4)] growingD [OF growing_parts(4) parts(5)]
  have all: "keeps d1 d8" "keeps d2 d8" "keeps d3 d8" "keeps d5 d8" "keeps d6 d8"
    using chain [THEN grows_keeps] d5 late by (blast intro: keeps_trans)+
  have d8: "dv_unknowns d8 = []" using settled by (simp add: d)
  show thesis
    by (rule that [OF parts(1) _ parts(2) _ _ parts(3) _ _ parts(4,5) _ _ parts(6) _ d7_def fold d8 d])
      (use all d8 contract d in \<open>auto simp: keeps_def\<close>)
qed

lemma derived_parts:
  assumes "derive_runtime_capability_contract h br r = Inr c" "cc_unknowns c = []"
  shows "\<exists>d d'. derive_semantics h r d = Inr d' \<and> dv_unknowns d' = []"
    "\<exists>d d'. derive_filesystem h r d = Inr d' \<and> dv_unknowns d' = [] \<and>
      set (dv_filesystem d') \<subseteq> set (cc_filesystem c)"
    "\<exists>d d'. derive_network h br r d = Inr d' \<and> dv_unknowns d' = [] \<and> set (dv_network d') \<subseteq> set (cc_network c)"
    "\<exists>d d'. derive_tool h r d = Inr d' \<and> dv_unknowns d' = [] \<and> set (dv_tools d') \<subseteq> set (cc_tools c)"
proof -
  show "\<exists>d d'. derive_semantics h r d = Inr d' \<and> dv_unknowns d' = []"
    using assms by (rule derivation_parts) (intro exI conjI)
  show "\<exists>d d'. derive_filesystem h r d = Inr d' \<and> dv_unknowns d' = [] \<and>
      set (dv_filesystem d') \<subseteq> set (cc_filesystem c)"
    using assms by (rule derivation_parts) (intro exI conjI)
  show "\<exists>d d'. derive_network h br r d = Inr d' \<and> dv_unknowns d' = [] \<and> set (dv_network d') \<subseteq> set (cc_network c)"
    using assms by (rule derivation_parts) (intro exI conjI)
  show "\<exists>d d'. derive_tool h r d = Inr d' \<and> dv_unknowns d' = [] \<and> set (dv_tools d') \<subseteq> set (cc_tools c)"
    using assms by (rule derivation_parts) (intro exI conjI)
qed

lemma derived_process_part:
  assumes "derive_runtime_capability_contract h br r = Inr c" "cc_unknowns c = []"
  obtains d d6 d7 d8 where
    "derive_shell h r d = Inr d6" "dv_unknowns d6 = []" "review_kind r = ''shell'' \<Longrightarrow> dv_execution d"
    "dv_escalation d = Some (list_ex (\<lambda>e. startswith e ''privilege.'') (rv_effects r))"
    "res_foldM (requirement_step h r) d7 (review_records r) = Inr d8" "dv_unknowns d8 = []"
    "dv_bindings d7 = []" "dv_execution d7 = dv_execution d6" "dv_executables d7 = dv_executables d6"
    "dv_escalation d7 = (if rv_adapter r = None then None else dv_escalation d6)"
    "cc_process c = derived_process r
      (d8\<lparr>dv_executables := map (bound_executable (dv_bindings d8)) (dv_executables d8)\<rparr>)"
    "pv_escalation (cc_privilege c) = dv_escalation d8"
proof (rule derivation_parts [OF assms])
  fix d1 d2 d3 d4 d5 d6 d7 d8 d9
  assume shell: "derive_shell h r (d5\<lparr>dv_execution := (review_kind r = ''shell'' \<or>
            list_ex (\<lambda>e. startswith_any e [''process.'', ''code.'']) (rv_effects r)), dv_executables := [],
          dv_escalation := Some (list_ex (\<lambda>e. startswith e ''privilege.'') (rv_effects r))\<rparr>) = Inr d6"
      "dv_unknowns d6 = []"
    and d7: "d7 = (if rv_adapter r = None then d6\<lparr>dv_escalation := None\<rparr> else d6)
      \<lparr>dv_bindings := [], dv_children := []\<rparr>"
    and fold: "res_foldM (requirement_step h r) d7 (review_records r) = Inr d8" "dv_unknowns d8 = []"
    and d9: "d9 = d8\<lparr>dv_executables := map (bound_executable (dv_bindings d8)) (dv_executables d8)\<rparr>"
    and contract: "cc_process c = derived_process r d9" "pv_escalation (cc_privilege c) = dv_escalation d8"
  show thesis
    by (rule that [OF shell _ _ fold _ _ _ _ contract(1) [unfolded d9] contract(2)])
      (simp_all add: d7)
qed

text \<open>What a review states, a contract without unknowns needs.\<close>

lemma file_needed:
  assumes "derive_runtime_capability_contract h br r = Inr c" "cc_unknowns c = []"
    "reviewed br r (FileOp k path)"
  shows "requires c (FileOp k path)"
proof -
  obtain e access v where e: "e \<in> set (effects_in ''filesystem.'' r)" "v \<in> set (path_resources r)"
    "filesystem_access e = Some access" "right_in (filesystem_rights access) k"
    "path = ar_value v \<or> e = ''filesystem.recursive_delete'' \<and> below path (ar_value v)"
    using assms(3) by (auto simp: in_effects filesystem_access_domain split: option.splits)
  obtain d d' where files: "derive_filesystem h r d = Inr d'" "dv_unknowns d' = []"
    "set (dv_filesystem d') \<subseteq> set (cc_filesystem c)"
    using derived_parts(2) [OF assms(1,2)] by blast
  from files_collected(3) [OF files(1,2) e(1-3)] files(3) e show ?thesis
    unfolding requires.simps allows_file_def
    by (intro bexI [of _ "\<lparr>fs_access = access, fs_path = Some (ar_value v),
        fs_scope = (if e = ''filesystem.recursive_delete'' then ''prefix'' else ''exact'')\<rparr>"])
      (auto simp: filesystem_known_def right_in_def split: option.splits)
qed

lemma request_needed:
  assumes "derive_runtime_capability_contract h br r = Inr c" "cc_unknowns c = []"
    "reviewed br r (NetRequest host port verb path k i)"
  shows "requires c (NetRequest host port verb path k i)"
proof -
  obtain vs v where n: "effects_in ''network.'' r \<noteq> []" "i = None" "network_resources r = Inr vs"
    "v \<in> set vs" "resource_target br v = (Some host, Some port)"
    "literal_http_request r = Some (verb, ar_value v)" "literal_path br (ar_value v) = Inr (Some path)"
    "right_in (network_rights (review_access r)) k"
    using assms(3) by (auto split: sum.splits)
  obtain d d' where net: "derive_network h br r d = Inr d'" "dv_unknowns d' = []"
    "set (dv_network d') \<subseteq> set (cc_network c)"
    using derived_parts(3) [OF assms(1,2)] by blast
  from net(1,2) n(1) have "\<lparr>nt_host = Some host, nt_port = Some port, nt_protocol = ''rest'',
      nt_access = review_access r, nt_methods = [verb], nt_paths = [path], nt_identity = None\<rparr> \<in> set (dv_network d')"
    by (rule network_collected) (use n(3-7) in fastforce)
  with net(3) have "\<lparr>nt_host = Some host, nt_port = Some port, nt_protocol = ''rest'',
      nt_access = review_access r, nt_methods = [verb], nt_paths = [path], nt_identity = None\<rparr> \<in> set (cc_network c)"
    by blast
  then show ?thesis
    unfolding requires.simps allows_request_def using n(2,8)
    by (intro bexI) (auto simp: at_endpoint_def serves_def rest_path_within_def)
qed

lemma program_needed:
  assumes "derive_runtime_capability_contract h br r = Inr c" "cc_unknowns c = []"
    "reviewed br r (RunExecutable path)"
  shows "requires c (RunExecutable path)"
  using assms(1,2)
proof (rule derived_process_part)
  fix d d6 d7 d8
  assume shell: "derive_shell h r d = Inr d6" "dv_unknowns d6 = []" "review_kind r = ''shell'' \<Longrightarrow> dv_execution d"
    and fold: "res_foldM (requirement_step h r) d7 (review_records r) = Inr d8" "dv_unknowns d8 = []"
    and d7: "dv_bindings d7 = []" "dv_execution d7 = dv_execution d6" "dv_executables d7 = dv_executables d6"
    and contract: "cc_process c = derived_process r
      (d8\<lparr>dv_executables := map (bound_executable (dv_bindings d8)) (dv_executables d8)\<rparr>)"
  have path: "starts_program r path" using assms(3) by simp
  then have kind: "review_kind r = ''shell''" by (auto simp: starts_program_def single_command_def split: option.splits)
  from shell(1,2) kind obtain words where w: "single_command r words" "dv_executables d6 = [hd words]"
    "dv_execution d6 = dv_execution d"
    by (rule shell_collected)
  have "path = bound_executable (dv_bindings d8) (hd words)"
    by (rule executable_bound [OF fold d7(1) w(1) path])
  moreover have "dv_executables d8 = [hd words]" "dv_execution d8"
    using requirements_run(2,3) [OF fold] kind w shell(3) d7 by simp_all
  ultimately show ?thesis by (simp add: contract derived_process_def)
qed

lemma escalation_needed:
  assumes "derive_runtime_capability_contract h br r = Inr c" "cc_unknowns c = []" "reviewed br r Escalate"
  shows "requires c Escalate"
  using assms(1,2)
proof (rule derived_process_part)
  fix d d6 d7 d8
  assume shell: "derive_shell h r d = Inr d6" "dv_unknowns d6 = []"
    and d: "dv_escalation d = Some (list_ex (\<lambda>e. startswith e ''privilege.'') (rv_effects r))"
    and fold: "res_foldM (requirement_step h r) d7 (review_records r) = Inr d8" "dv_unknowns d8 = []"
    and d7: "dv_escalation d7 = (if rv_adapter r = None then None else dv_escalation d6)"
    and contract: "pv_escalation (cc_privilege c) = dv_escalation d8"
  have "dv_escalation d6 \<noteq> Some False"
  proof (cases "review_kind r = ''shell''")
    case True
    from shell True show ?thesis
      by (rule shell_collected) (use assms(3) d in \<open>auto simp: list_ex_iff\<close>)
  next
    case False
    with assms(3) shell d show ?thesis by (auto simp: command_words_def list_ex_iff derive_shell_def)
  qed
  then show ?thesis using requirements_run(1) [OF fold] d7 contract by simp
qed

lemma reviewed_needed:
  assumes "derive_runtime_capability_contract h br r = Inr c" "cc_unknowns c = []" "reviewed br r op"
  shows "requires c op"
proof (cases op)
  case (CallTool t)
  obtain d d' where tools: "derive_tool h r d = Inr d'" "dv_unknowns d' = []" "set (dv_tools d') \<subseteq> set (cc_tools c)"
    using derived_parts(4) [OF assms(1,2)] by blast
  with tool_collected [OF tools(1,2)] assms(3) show ?thesis by (auto simp: CallTool)
qed (use assms file_needed request_needed program_needed escalation_needed in \<open>auto simp del: requires.simps reviewed.simps\<close>,
  auto)

text \<open>
  C4: What is enforced follows from what was reviewed. When the contract derived from a review is found
  within a boundary, the review was not decided \<^verbatim>\<open>block\<close> and had known semantics, each of its file
  effects has a precise access and an established target, each network resource an established host, a shell
  action is one single command; and every operation the review states is one the boundary permits: the
  rights of its effects on its paths (and below them for a recursive delete), its literal request, its
  tool call, the executable it starts after the bindings of the context, and an escalation by its effects or
  through \<^verbatim>\<open>sudo\<close>, \<^verbatim>\<open>su\<close> or \<^verbatim>\<open>doas\<close>.
\<close>

theorem derived_contract_enforced:
  assumes "\<forall>xs. set (so xs) = set xs" "derive_runtime_capability_contract h br r = Inr c"
    "verify_runtime_capability h so c b = Inr v" "verified_ok v"
  shows "rv_decision r \<noteq> Block \<and> rv_adapter r \<noteq> None \<and> rv_risk r \<noteq> ''unknown'' \<and>
    (\<forall>e \<in> set (effects_in ''filesystem.'' r). filesystem_access e \<noteq> None \<and> path_resources r \<noteq> [] \<and>
      (\<forall>x \<in> set (path_resources r). safe_path (ar_value x))) \<and>
    (effects_in ''network.'' r \<noteq> [] \<longrightarrow> (\<exists>vs. network_resources r = Inr vs \<and> vs \<noteq> [] \<and>
      (\<forall>x \<in> set vs. fst (resource_target br x) \<noteq> None))) \<and>
    (review_kind r = ''shell'' \<longrightarrow> (\<exists>path. reviewed br r (RunExecutable path))) \<and>
    (\<forall>op. reviewed br r op \<longrightarrow> permits b op)"
proof -
  note sound = boundary_sound [OF assms(1,3,4)]
  then have settled: "cc_unknowns c = []" by blast
  have "cc_decision c = decision_text (rv_decision r)"
    using assms(2) unfolding derive_runtime_capability_contract_def by (auto intro: contract_of_derivation(7))
  with sound have decision: "rv_decision r \<noteq> Block" by auto
  have known: "rv_adapter r \<noteq> None \<and> rv_risk r \<noteq> ''unknown''"
    using derived_parts(1) [OF assms(2) settled] by (auto simp: derive_semantics_def split: if_split_asm dest!: grows_add(1))
  obtain d d' where files: "derive_filesystem h r d = Inr d'" "dv_unknowns d' = []"
    using derived_parts(2) [OF assms(2) settled] by blast
  obtain e e' where net: "derive_network h br r e = Inr e'" "dv_unknowns e' = []"
    using derived_parts(3) [OF assms(2) settled] by blast
  have network: "\<exists>vs. network_resources r = Inr vs \<and> vs \<noteq> [] \<and> (\<forall>x \<in> set vs. fst (resource_target br x) \<noteq> None)"
    if "effects_in ''network.'' r \<noteq> []"
    by (rule network_collected [OF net that]) (metis fst_conv)
  have command: "\<exists>path. reviewed br r (RunExecutable path)" if kind: "review_kind r = ''shell''"
  proof (rule derived_process_part [OF assms(2) settled])
    fix f f' assume "derive_shell h r f = Inr f'" "dv_unknowns f' = []"
    from this kind obtain words where "single_command r words" by (rule shell_collected)
    then show ?thesis
      by (cases "bound_paths r (hd words)") (auto simp: starts_program_def)
  qed
  have "permits b op" if "reviewed br r op" for op
    using sound reviewed_needed [OF assms(2) settled that] by blast
  with decision known files_collected [OF files] network command show ?thesis by blast
qed

section \<open>A reviewed command\<close>

definition sample_review :: action_review where
  "sample_review = \<lparr>rv_action = \<lparr>ae_kind = ''shell'', ae_operation = ''execute'',
       ae_parameters = [(''command'', JStr ''/bin/cat /srv/data'')], ae_intent = None, ae_context = None,
       ae_action_id = None\<rparr>,
     rv_decision = Allow, rv_risk = ''low'', rv_reasons = [], rv_safer = None,
     rv_effects = [''filesystem.read''], rv_resources = [\<lparr>ar_type = ''path'', ar_value = ''/srv/data''\<rparr>],
     rv_adapter = Some ''shell'', rv_capabilities = None, rv_provenance = None,
     rv_intent_alignment = ''unknown'', rv_trajectory = [], rv_policy = None, rv_policy_matches = []\<rparr>"

definition cat_boundary :: capability_boundary where
  "cat_boundary = \<lparr>bd_id = ''bnd'',
     bd_filesystem = [\<lparr>fs_access = ''read'', fs_path = Some ''/srv'', fs_scope = ''prefix''\<rparr>],
     bd_network = [], bd_tools = [],
     bd_process = \<lparr>pc_execution = Some True, pc_executables = [''/bin/cat''], pc_children = Some True\<rparr>,
     bd_privilege = \<lparr>pv_escalation = Some False, pv_euid = None\<rparr>, bd_credentials = [],
     bd_semantics = ''lexical_prefix'', bd_guarantees = True, bd_any_executable = False\<rparr>"

definition cat_contract :: capability_contract where
  "cat_contract = \<lparr>cc_action = None, cc_action_digest = replicate 64 CHR ''a'',
     cc_decision = ''allow'', cc_risk = ''low'', cc_filesystem = [sample_read], cc_network = [],
     cc_tools = [], cc_process = \<lparr>pc_execution = Some True, pc_executables = [''/bin/cat''], pc_children = None\<rparr>,
     cc_privilege = \<lparr>pv_escalation = Some False, pv_euid = None\<rparr>, cc_credentials = [], cc_unknowns = [],
     cc_source = [(''kind'', JStr ''shell''), (''operation'', JStr ''execute''), (''adapter'', JStr ''shell''),
       (''effects'', JArr [JStr ''filesystem.read'']), (''provenance_digest'', JNull)],
     cc_id = ''rc:'' @ replicate 64 CHR ''a''\<rparr>"

lemma cat_segments: "split_shell_segments ''/bin/cat /srv/data'' = Inr ([[''/bin/cat'', ''/srv/data'']], [])"
  by code_simp

lemma cat_frozen: "freeze 0 max_runtime_depth 128 (contract_json cat_contract) = Inr (contract_json cat_contract)"
  by (simp add: freeze.simps capability_json_defs cat_contract_def sample_read_def
      max_runtime_depth_def max_runtime_text_def cp_def list_ex_iff)

lemma cat_conforms: "conforms capability_shape (contract_json cat_contract)"
  by (simp add: capability_json_defs cat_contract_def sample_read_def shape_defs pattern_defs
      list_all_iff startswith_def cp_def)

lemma cat_small: "text_bound digest_env (contract_json cat_contract) \<le> 524288"
  by (simp add: capability_json_defs cat_contract_def sample_read_def)

lemma cat_made: "make_contract digest_env (cat_contract\<lparr>cc_id := []\<rparr>) = Inr cat_contract"
proof -
  have id: "digest digest_env j = replicate 64 CHR ''a''" for j by (simp add: digest_def digest_env_def)
  have same: "cat_contract\<lparr>cc_id := [], cc_id := ''rc:'' @ replicate 64 CHR ''a''\<rparr> = cat_contract"
    by (simp add: cat_contract_def)
  have source: "freeze 0 max_runtime_depth 128 (JObj (cc_source (cat_contract\<lparr>cc_id := []\<rparr>))) =
      Inr (JObj (cc_source cat_contract))"
    by (simp add: freeze.simps cat_contract_def max_runtime_depth_def max_runtime_text_def cp_def)
  note valid = validate_shape_small [OF cat_frozen cat_small cat_conforms]
  show ?thesis
    unfolding make_contract_def Let_def source id same valid
    by (simp add: cat_contract_def model_tuple_def max_runtime_items_def)
qed

lemma cat_process_made:
  "make_process digest_env (cc_process cat_contract) = Inr (cc_process cat_contract)"
  unfolding make_process_def
  by (subst validate_shape_small; simp add: cat_contract_def capability_json_defs freeze.simps
      max_runtime_depth_def max_runtime_text_def cp_def shape_defs text_tuple_def max_runtime_items_def)

lemma cat_evidence:
  "derive_evidence digest_env br sample_review = Inr (start_derivation\<lparr>dv_filesystem := [sample_read],
     dv_execution := True, dv_executables := [''/bin/cat''], dv_escalation := Some False\<rparr>)"
proof -
  have safe: "safe_path ''/srv/data''" by code_simp
  have files: "derive_filesystem digest_env sample_review start_derivation =
      Inr (start_derivation\<lparr>dv_filesystem := [sample_read]\<rparr>)"
    using sample_read_made safe
    by (simp add: derive_filesystem_def effects_in_def path_resources_def sample_review_def sorted_set_def
        startswith_def file_effect_def filesystem_access_def file_target_def add_file_def sample_read_def
        start_derivation_def Let_def)
  have net: "derive_network digest_env br sample_review d = Inr d" for d
    by (simp add: derive_network_def network_resources_def mcp_urls_def derive_request_def effects_in_def
        sample_review_def sorted_set_def startswith_def Let_def)
  have stay: "derive_semantics digest_env sample_review d = Inr d" "derive_version digest_env sample_review d = Inr d"
    "derive_tool digest_env sample_review d = Inr d" for d
    by (simp_all add: derive_semantics_def derive_version_def derive_tool_def sample_review_def Let_def)
  have word: "list_all executable_char ''/bin/cat''" "after_last CHR ''/'' ''/bin/cat'' = ''cat''" by code_simp+
  have process: "derive_process digest_env sample_review d =
      Inr (d\<lparr>dv_execution := True, dv_executables := [''/bin/cat''], dv_escalation := Some False\<rparr>)" for d
    using cat_segments word
    by (simp add: derive_process_def derive_shell_def shell_scope_def sample_review_def startswith_def Let_def)
  have "bound_executable [] = (\<lambda>e. e)" by (rule ext) (simp add: bound_executable_def)
  then have requirements: "derive_requirements digest_env sample_review d =
      Inr (d\<lparr>dv_bindings := [], dv_children := [], dv_executables := dv_executables d\<rparr>)" for d
    by (simp add: derive_requirements_def review_records_def sample_review_def Let_def)
  show ?thesis
    unfolding derive_evidence_def stay files net process requirements res_bind.simps
    by (simp add: start_derivation_def)
qed

lemma cat_derived: "derive_runtime_capability_contract digest_env br sample_review = Inr cat_contract"
proof -
  have id: "digest digest_env j = replicate 64 CHR ''a''" for j by (simp add: digest_def digest_env_def)
  have process: "derived_process sample_review (start_derivation\<lparr>dv_filesystem := [sample_read],
     dv_execution := True, dv_executables := [''/bin/cat''], dv_escalation := Some False\<rparr>) = cc_process cat_contract"
    by (simp add: derived_process_def sample_review_def start_derivation_def cat_contract_def)
  have "\<lparr>cc_action = None, cc_action_digest = replicate 64 CHR ''a'', cc_decision = ''allow'', cc_risk = ''low'',
      cc_filesystem = [sample_read], cc_network = [], cc_tools = [], cc_process = cc_process cat_contract,
      cc_privilege = \<lparr>pv_escalation = Some False, pv_euid = None\<rparr>, cc_credentials = [], cc_unknowns = [],
      cc_source = derived_source digest_env sample_review, cc_id = []\<rparr> = cat_contract\<lparr>cc_id := []\<rparr>"
    by (simp add: cat_contract_def derived_source_def sample_review_def strings_json_def sorted_set_def option_json_def)
  with cat_made sample_privilege_made cat_process_made show ?thesis
    unfolding derive_runtime_capability_contract_def cat_evidence res_bind.simps finish_derivation_def process
    by (simp add: id action_digest_def sample_review_def start_derivation_def sample_contract_def)
qed

theorem derived_contract_enforced_witness:
  "permits cat_boundary (FileOp ''read'' ''/srv/data'') \<and> permits cat_boundary (RunExecutable ''/bin/cat'')"
proof -
  have "boundary_findings id cat_contract cat_boundary = []" by code_simp
  then obtain v where v: "verify_runtime_capability digest_env id cat_contract cat_boundary = Inr v" "verified_ok v"
    by (rule no_findings_ok)
  have "reviewed (\<lambda>_. True) sample_review (FileOp ''read'' ''/srv/data'')"
    "reviewed (\<lambda>_. True) sample_review (RunExecutable ''/bin/cat'')"
    by code_simp+
  with derived_contract_enforced [OF _ cat_derived v, of "\<lambda>_. True"] show ?thesis
    by (simp del: reviewed.simps permits.simps)
qed

end
