(* ===== verification/Spec2Isabelle.thy ===== *)
theory Spec2Isabelle
  imports Policy Temporal State_Result Runtime_Json Budget_Admission Schedule Swarm_Events
    Policy_Application Quota_Refinement Issuer_Run Derivation_Safety
begin

text \<open>
  A verification development for \<^verbatim>\<open>ordin\<close>, a review and control layer for the actions of
  software agents: a host describes an action, Ordin reviews it, and policies, budgets and an
  agent registry decide under what conditions the host may go on. Sources are named under
  \<^verbatim>\<open>src/ordin/\<close>.

  \<^bold>\<open>Parts of the program and the theories that model them.\<close>

  \<^item> Review decisions (\<^verbatim>\<open>policy.py\<close>, \<^verbatim>\<open>enforcement.py\<close>): theory \<^verbatim>\<open>Policy\<close>. The dominance order of
    review labels, the strictness order of enforcement, thresholds and exit codes.
  \<^item> Shell text (\<^verbatim>\<open>shell.py\<close>): theory \<^verbatim>\<open>Shell\<close>. The lexer of the standard library with the
    options the code passes, segments, wrappers, nested scripts and command substitutions.
  \<^item> Temporal policies (\<^verbatim>\<open>temporal.py\<close>): theory \<^verbatim>\<open>Temporal\<close>. Policy data and loaders, the rule
    machines with their live states, and the evaluation of a bounded history.
  \<^item> Contexts, traces and review requests (\<^verbatim>\<open>context.py\<close>, \<^verbatim>\<open>trace.py\<close>, \<^verbatim>\<open>_json_contracts.py\<close>):
    theory \<^verbatim>\<open>Exec_Context\<close>, with the functions of \<^verbatim>\<open>posixpath\<close> they call.
  \<^item> Provenance (\<^verbatim>\<open>provenance.py\<close>), execution capabilities and observations (\<^verbatim>\<open>execution.py\<close>),
    actions, histories and reviews (\<^verbatim>\<open>action.py\<close>): theories \<^verbatim>\<open>Provenance\<close>, \<^verbatim>\<open>Execution\<close>, \<^verbatim>\<open>Actions\<close>.
  \<^item> Action policies (\<^verbatim>\<open>action_policy.py\<close>): theory \<^verbatim>\<open>Action_Policy\<close> has the data, the loaders,
    the matching, evaluation and application; \<^verbatim>\<open>Policy_Application\<close> has their facts.
  \<^item> Runtime JSON (\<^verbatim>\<open>_runtime_json.py\<close>): theory \<^verbatim>\<open>Runtime_Json\<close>. Bounded copies, canonical text
    and digests; the values themselves are in \<^verbatim>\<open>Json_Value\<close>.
  \<^item> The swarm registry (\<^verbatim>\<open>swarm/models.py\<close>, \<^verbatim>\<open>swarm/identity.py\<close>, \<^verbatim>\<open>swarm/registry.py\<close>): theories
    \<^verbatim>\<open>Swarm_Models\<close> and \<^verbatim>\<open>Registry\<close>. Objects compared by identity (contexts, channels,
    adapters) are addresses; \<^verbatim>\<open>rg_contexts\<close> keeps every context ever issued.
  \<^item> Budgets (\<^verbatim>\<open>swarm/budgets.py\<close>, \<^verbatim>\<open>swarm/budget_store.py\<close>): \<^verbatim>\<open>Budget_Store\<close> models the tables with
    their constraints, \<^verbatim>\<open>Budgets\<close> costs, limits, policies, observations and the pure selection of
    buckets, \<^verbatim>\<open>Budget_Ledger\<close> the operations of the ledger as transactions;
    \<^verbatim>\<open>Budget_Invariants\<close>, \<^verbatim>\<open>Budget_Safety\<close> and \<^verbatim>\<open>Budget_Admission\<close> prove them. \<^verbatim>\<open>Quota\<close> is what
    they promise, a machine of tickets with bills, and \<^verbatim>\<open>Quota_Refinement\<close> the proof that the ledger
    implements it.
  \<^item> Schedules (\<^verbatim>\<open>swarm/schedule.py\<close>): theory \<^verbatim>\<open>Schedule\<close>. Labels, events and the journal
    (\<^verbatim>\<open>swarm/labels.py\<close>, \<^verbatim>\<open>swarm/events.py\<close>, \<^verbatim>\<open>swarm/journal.py\<close>): theory \<^verbatim>\<open>Swarm_Events\<close>.
  \<^item> Schema validation (\<^verbatim>\<open>schema.py\<close>, \<^verbatim>\<open>_runtime_schemas.py\<close>, \<^verbatim>\<open>validate\<close> of \<^verbatim>\<open>_runtime_json.py\<close>):
    theory \<^verbatim>\<open>Schema\<close>. Capability contracts (\<^verbatim>\<open>runtime_contract.py\<close>): theory \<^verbatim>\<open>Capability\<close>, with the
    constructors, the JSON forms and the identity of a contract. Boundaries and the check of a
    contract against one (\<^verbatim>\<open>runtime_boundary.py\<close>): theory \<^verbatim>\<open>Boundary\<close>, one group of findings for
    each domain.
  \<^item> Requests: \<^verbatim>\<open>Assurance_Json\<close> has the bounded JSON of the assurance package and its shapes
    (\<^verbatim>\<open>assurance/_json.py\<close>, \<^verbatim>\<open>assurance/_schemas.py\<close>), \<^verbatim>\<open>Requests\<close> the host selectors
    (\<^verbatim>\<open>_runtime_host.py\<close>), the exact request contracts and boundaries (\<^verbatim>\<open>runtime_requests_v2.py\<close>), the
    protocol rules (\<^verbatim>\<open>assurance/requests.py\<close>) and exact REST requests (\<^verbatim>\<open>assurance/rest.py\<close>).
  \<^item> From a review to a contract: \<^verbatim>\<open>Commitment\<close> has the commitments to request bodies and RPC messages
    (\<^verbatim>\<open>_request_commitment.py\<close>), \<^verbatim>\<open>Url\<close> the splitting of URLs and \<^verbatim>\<open>request_endpoint\<close>
    (\<^verbatim>\<open>runtime_requests.py\<close>), \<^verbatim>\<open>Rest_Semantics\<close> the literal REST actions (\<^verbatim>\<open>_rest_semantics.py\<close>) and their
    authorities (\<^verbatim>\<open>assurance/rest.py\<close>), \<^verbatim>\<open>Derivation\<close> the derivation of a contract from a review
    (\<^verbatim>\<open>derive_runtime_capability_contract\<close> of \<^verbatim>\<open>runtime_contract.py\<close>), one group of steps for each domain,
    and \<^verbatim>\<open>Derivation_Safety\<close> what the derived contract covers.
  \<^item> Delegation (\<^verbatim>\<open>assurance/delegation.py\<close>, with \<^verbatim>\<open>HostEvidenceSource\<close> of \<^verbatim>\<open>assurance/host.py\<close> and
    \<^verbatim>\<open>DelegationGrant\<close> of \<^verbatim>\<open>assurance/models.py\<close>): theory \<^verbatim>\<open>Delegation\<close> has authorities, the subset
    proof and the containment of operations, \<^verbatim>\<open>Delegation_Issuer\<close> the issuer's tables and
    operations, \<^verbatim>\<open>Issuer_Safety\<close> its invariant and properties; \<^verbatim>\<open>Issuer_Example\<close> and \<^verbatim>\<open>Issuer_Run\<close>
    are a concrete run.

  \<^bold>\<open>How they interact.\<close> A review carries an action, its context, its effects and a
  provenance; an action policy reads them and returns a review that is no weaker, with the rules
  it matched appended to the provenance. A contract is derived from such a review, with what the
  host wrote into the provenance, and checked against a boundary. The ledger calls the registry to authenticate its
  caller and to find the scopes (tenant, swarm, tasks, the agent and its ancestors) whose limits
  apply, and writes the tables of the store inside one transaction. Events name identities of the
  registry, and the journal keeps accepted events. A delegation issuer proves a child authority
  within three maxima with the request verifiers, which build on the boundary check; the boundary
  check compares the contract's capabilities with the boundary's domain by domain.

  \<^bold>\<open>How code becomes definitions.\<close> A Python exception is the left value of a sum
  (\<^verbatim>\<open>py_error\<close>, with the constant part of the message), so every \<^verbatim>\<open>raise\<close> is a branch; operations
  on protected state are state transformers that return the state they leave behind also when
  they raise (\<^verbatim>\<open>State_Result\<close>). Dataclasses are records, \<^verbatim>\<open>__post_init__\<close> is a function of the
  record, JSON is a datatype whose objects are lists of members. Strings have code points below
  256. Host functions outside the repository are parameters: the clock reading and fresh random
  identifiers of a call, \<^verbatim>\<open>repr\<close> of a float and the SHA-256 of a byte string (\<^verbatim>\<open>host_env\<close>), the
  verdict of a protected executor or delegation check, the order in which a Python set is walked
  while comparisons are counted (\<open>so\<close>), the verdict of \<^verbatim>\<open>ipaddress\<close> on a bracketed host (\<open>br\<close>), the
  result of a host's binding check. A finite float is a rational, with
  \<^verbatim>\<open>-0.0\<close> apart from \<^verbatim>\<open>0.0\<close> (\<^verbatim>\<open>py_float\<close>): the two are equal as numbers and print and commit
  differently. Times are exact rationals where the code uses floats; of a clock reading only the value is
  kept, not the sign of a zero. Locks are not modelled: every operation holds its lock from its first access to
  its last, so runs are sequences of whole operations.

  \<^bold>\<open>Interfaces.\<close> Theory \<^verbatim>\<open>Contracts\<close> states what several components share: choosing a dominant
  value by rank (decisions, under both orders), operation systems with an invariant and a measure
  that no step decreases (registry, ledger, journal, issuer), a host clock fenced against going
  backwards (registry, ledger) and a transaction that commits or rolls back (budget store). Each is
  interpreted on the model's own definitions where they are declared.

  \<^bold>\<open>What the lemmas show.\<close> For decisions, labels and policies: merging is a maximum, an
  application of a policy never weakens a decision, evaluations match exactly what the policy
  says, and the only way an application fails is a full provenance. For temporal rules: the
  machine equals a reference semantics over all starts, and a match is reported exactly when some start
  is completed for the first time by the current action. For shell text: lines are segments, and a
  parenthesis that touches an operator is not seen, for every operator. For the registry: in every run contexts
  have their own generations, and a revoked context or a descendant never authenticates again.
  For the ledger: in every run held units are exactly the sum of the active reservations,
  reservations only move forward, an admission respects every applicable limit, a retry of the same
  request charges nothing, an unknown cost is charged at its largest applicable ceiling, a new
  coordinator fences the old one. For schedules: the exploration ends, is sound and
  complete unless it says it was cut. The ledger refines the quota machine, so it spends more of a
  bucket than the limits of the bucket's own scope, metric and subject only where a trusted observation
  exceeded its reservation. For boundaries: needs and
  permissions are operations (a read of a path, a request to a host, a tool call), and a contract
  found within a boundary needs only what the boundary permits; raw TCP never stands in for HTTP.
  A derivation only adds to what it collects, so a contract without unknowns needs every operation the
  review states, and enforcing the boundary enforces the review. A commitment's bytes can be read back,
  so they determine the committed tree; for numbers this rests only on the fact that \<^verbatim>\<open>repr\<close> writes
  different floats as different decimals.
  For delegation: the subset proof narrows, and in every run of an issuer, whatever calls are made,
  authority, lifetime and depth shrink down a chain of grants, a revoked grant and its descendants
  never become current again, a committed operation was reserved for its grant and is permitted by
  the whole lineage, and the quotas hold. For loaders: whatever they accept survives being written
  and read again. For audits: redaction hides what it says and depends on nothing it hides.

  \<^bold>\<open>Bounds and fuel.\<close> The bounds of the code are constants of the model. Loops are structural or
  have a measure. Two functions count down a bound the code itself has: the parent chain of the
  registry and the ancestors of the ledger stop at \<^verbatim>\<open>max_parent_depth\<close>, as the \<^verbatim>\<open>for\<close> loops do; the
  walk of \<^verbatim>\<open>_require_current\<close> stops at \<^verbatim>\<open>maximum_grants\<close>, as the loop does. Two loops of the issuer
  have fuel: the walk over a parent's lineage, 17 steps, enough because a grant's depth is at most
  16 and its parent's one less (\<^verbatim>\<open>lineage_walk_ends\<close>), and the passes of \<^verbatim>\<open>revoke\<close>, one more than
  there are grants, because every pass but the last adds one (\<^verbatim>\<open>revoke_affects_descendants\<close>).

  \<^bold>\<open>Not modelled.\<close> Files, sockets, processes, SQLite files and their schema text; the risk
  pattern tables and the analyzers of commands, and so the review of an action itself; the JSON
  parser under raw bodies, the parser of GraphQL documents and the request contract of version 1;
  approval leases, sessions, approvals, the coordinator, containment and the rest of
  the assurance package. Validation is modelled as the question whether there are errors, not as
  their list. Non-finite floats in JSON values (the loaders reject them before they
  reach the modelled code). Message texts built from data.
\<close>

end
